(* ===== verification/Prelude.thy ===== *)
theory Prelude
  imports Complex_Main "HOL-Library.List_Lexorder" "HOL-Library.Char_ord"
begin

text \<open>
  The shared vocabulary of the development: Python exceptions as values, programs that
  change a state and may raise, the Hoare-style rules the component proofs use, and the
  parts of Python's string library the sources call.

  Strings. A Python \<open>str\<close> is a \<open>string\<close> (a list of characters) whose characters are
  read as ASCII; \<open>upper\<close> and \<open>lower\<close> change ASCII letters only, and characters from 128
  on are what \<open>isascii\<close> rejects.
\<close>

section \<open>Exceptions\<close>

text \<open>
  The exception classes the sources raise or catch. \<open>OtherError n r\<close> stands for any class
  defined outside the repository, with its name and whether it carries the marker base
  class \<open>RecoverableMarketDataFailure\<close> of ports/market\_data\_source.py.
\<close>

datatype exn_class =
    ValueError | KeyError | RuntimeError | AssertionError | IntegrityError
  | InvalidDecimalValue | InvalidStreamTransition | UnknownStreamError
  | HistoricalLowerBoundUnavailable | InstrumentMetadataMismatch | MarketConfigError
  | BybitMarketDataError | BybitHttpError | BybitApiError | BybitTransientApiError
  | BybitPayloadError | BybitWebSocketPayloadError | RealtimeTopicMapError
  | WebSocketDisconnected | ConfiguredStreamNotFound | InvalidRange | RangeNotAligned
  | RangeOutOfBounds | StreamNotReady | ContinuityInvariantBroken | CoverageStale
  | OtherError string bool

datatype exn = Exn (exn_cls: exn_class) (exn_str: string)

text \<open>\<open>type(exc).__name__\<close>.\<close>

fun class_name :: "exn_class \<Rightarrow> string" where
  "class_name ValueError = ''ValueError''"
| "class_name KeyError = ''KeyError''"
| "class_name RuntimeError = ''RuntimeError''"
| "class_name AssertionError = ''AssertionError''"
| "class_name IntegrityError = ''IntegrityError''"
| "class_name InvalidDecimalValue = ''InvalidDecimalValue''"
| "class_name InvalidStreamTransition = ''InvalidStreamTransition''"
| "class_name UnknownStreamError = ''UnknownStreamError''"
| "class_name HistoricalLowerBoundUnavailable = ''HistoricalLowerBoundUnavailable''"
| "class_name InstrumentMetadataMismatch = ''InstrumentMetadataMismatch''"
| "class_name MarketConfigError = ''MarketConfigError''"
| "class_name BybitMarketDataError = ''BybitMarketDataError''"
| "class_name BybitHttpError = ''BybitHttpError''"
| "class_name BybitApiError = ''BybitApiError''"
| "class_name BybitTransientApiError = ''BybitTransientApiError''"
| "class_name BybitPayloadError = ''BybitPayloadError''"
| "class_name BybitWebSocketPayloadError = ''BybitWebSocketPayloadError''"
| "class_name RealtimeTopicMapError = ''RealtimeTopicMapError''"
| "class_name WebSocketDisconnected = ''WebSocketDisconnected''"
| "class_name ConfiguredStreamNotFound = ''ConfiguredStreamNotFound''"
| "class_name InvalidRange = ''InvalidRange''"
| "class_name RangeNotAligned = ''RangeNotAligned''"
| "class_name RangeOutOfBounds = ''RangeOutOfBounds''"
| "class_name StreamNotReady = ''StreamNotReady''"
| "class_name ContinuityInvariantBroken = ''ContinuityInvariantBroken''"
| "class_name CoverageStale = ''CoverageStale''"
| "class_name (OtherError n r) = n"

text \<open>\<open>isinstance(exc, ValueError)\<close> for the classes of the repository.\<close>

fun is_value_error :: "exn_class \<Rightarrow> bool" where
  "is_value_error c \<longleftrightarrow>
     c \<in> {ValueError, InvalidDecimalValue, InvalidStreamTransition, UnknownStreamError,
          InstrumentMetadataMismatch, MarketConfigError, BybitWebSocketPayloadError,
          RealtimeTopicMapError, ConfiguredStreamNotFound, StreamNotReady, InvalidRange,
          RangeNotAligned, RangeOutOfBounds, CoverageStale}"

section \<open>Results and programs\<close>

text \<open>
  A pure function that may raise returns \<open>'a res\<close>; a method that also changes state is a
  \<open>('s, 'a) prog\<close>: it returns its result or exception together with the state it leaves,
  which persists when an exception is raised, as a Python object does.
\<close>

type_synonym 'a res = "exn + 'a"
type_synonym ('s, 'a) prog = "'s \<Rightarrow> 'a res \<times> 's"

definition bindR :: "'a res \<Rightarrow> ('a \<Rightarrow> 'b res) \<Rightarrow> 'b res" where
  "bindR r f = (case r of Inl e \<Rightarrow> Inl e | Inr x \<Rightarrow> f x)"

definition guardR :: "bool \<Rightarrow> exn \<Rightarrow> unit res" where
  "guardR ok e = (if ok then Inr () else Inl e)"

fun mapR :: "('a \<Rightarrow> 'b res) \<Rightarrow> 'a list \<Rightarrow> 'b list res" where
  "mapR f [] = Inr []"
| "mapR f (x # xs) = bindR (f x) (\<lambda>y. bindR (mapR f xs) (\<lambda>ys. Inr (y # ys)))"

lemma bindR_simps [simp]:
  "bindR (Inl e) f = Inl e"
  "bindR (Inr x) f = f x"
  by (simp_all add: bindR_def)

lemma bindR_eq_Inr [simp]: "bindR r f = Inr y \<longleftrightarrow> (\<exists>x. r = Inr x \<and> f x = Inr y)"
  by (cases r) auto

lemma bindR_eq_Inl: "bindR r f = Inl e \<longleftrightarrow> r = Inl e \<or> (\<exists>x. r = Inr x \<and> f x = Inl e)"
  by (cases r) auto

lemma guardR_simps [simp]:
  "guardR True e = Inr ()"
  "guardR False e = Inl e"
  by (simp_all add: guardR_def)

lemma guardR_eq_Inr [simp]: "guardR ok e = Inr u \<longleftrightarrow> ok"
  by (simp add: guardR_def)

lemma guardR_eq_Inl [simp]: "guardR ok e = Inl e' \<longleftrightarrow> \<not> ok \<and> e' = e"
  by (auto simp: guardR_def)

lemma mapR_eq_Inr: "mapR f xs = Inr ys \<longleftrightarrow> list_all2 (\<lambda>x y. f x = Inr y) xs ys"
  by (induction xs arbitrary: ys) (auto simp: list_all2_Cons1)

definition returnE :: "'a \<Rightarrow> ('s, 'a) prog" where
  "returnE x s = (Inr x, s)"

definition raiseE :: "exn \<Rightarrow> ('s, 'a) prog" where
  "raiseE e s = (Inl e, s)"

definition bindE :: "('s, 'a) prog \<Rightarrow> ('a \<Rightarrow> ('s, 'b) prog) \<Rightarrow> ('s, 'b) prog" where
  "bindE m f s = (case m s of (Inl e, s') \<Rightarrow> (Inl e, s') | (Inr x, s') \<Rightarrow> f x s')"

definition seqE :: "('s, 'a) prog \<Rightarrow> ('s, 'b) prog \<Rightarrow> ('s, 'b) prog" where
  "seqE m n = bindE m (\<lambda>_. n)"

definition liftR :: "'a res \<Rightarrow> ('s, 'a) prog" where
  "liftR r s = (r, s)"

definition readE :: "('s \<Rightarrow> 'a res) \<Rightarrow> ('s, 'a) prog" where
  "readE f s = (f s, s)"

text \<open>A statement that either changes the state or raises and leaves it alone.\<close>

definition updateE :: "('s \<Rightarrow> 's res) \<Rightarrow> ('s, unit) prog" where
  "updateE f s = (case f s of Inl e \<Rightarrow> (Inl e, s) | Inr s' \<Rightarrow> (Inr (), s'))"

text \<open>\<open>try: m\<close>: the outcome of \<open>m\<close> as a value, for an \<open>except\<close> clause to examine.\<close>

definition tryE :: "('s, 'a) prog \<Rightarrow> ('s, 'a res) prog" where
  "tryE m s = (case m s of (r, s') \<Rightarrow> (Inr r, s'))"

text \<open>A \<open>for\<close> loop that threads a value; an exception ends it.\<close>

fun foldE :: "('b \<Rightarrow> 'a \<Rightarrow> ('s, 'b) prog) \<Rightarrow> 'b \<Rightarrow> 'a list \<Rightarrow> ('s, 'b) prog" where
  "foldE f b [] = returnE b"
| "foldE f b (x # xs) = bindE (f b x) (\<lambda>b'. foldE f b' xs)"

lemma prog_simps [simp]:
  "returnE x s = (Inr x, s)"
  "raiseE e s = (Inl e, s)"
  "liftR r s = (r, s)"
  "readE g s = (g s, s)"
  by (simp_all add: returnE_def raiseE_def liftR_def readE_def)

lemma bindE_eq: "bindE m f s = (case m s of (Inl e, s') \<Rightarrow> (Inl e, s') | (Inr x, s') \<Rightarrow> f x s')"
  by (simp add: bindE_def)

lemma bindE_run [simp]:
  "m s = (Inl e, s') \<Longrightarrow> bindE m f s = (Inl e, s')"
  "m s = (Inr x, s') \<Longrightarrow> bindE m f s = f x s'"
  by (simp_all add: bindE_def)

lemma bindE_eq_Inr:
  "bindE m f s = (Inr y, s'') \<longleftrightarrow> (\<exists>x s'. m s = (Inr x, s') \<and> f x s' = (Inr y, s''))"
  by (auto simp: bindE_def split: prod.splits sum.splits)

lemma bindE_eq_Inl:
  "bindE m f s = (Inl e, s'') \<longleftrightarrow>
     m s = (Inl e, s'') \<or> (\<exists>x s'. m s = (Inr x, s') \<and> f x s' = (Inl e, s''))"
  by (auto simp: bindE_def split: prod.splits sum.splits)

lemma tryE_run [simp]: "m s = (r, s') \<Longrightarrow> tryE m s = (Inr r, s')"
  by (simp add: tryE_def)

lemma bindE_returnE [simp]: "bindE (returnE x) f = f x"
  by (rule ext) (simp add: bindE_def)

lemma bindE_liftR [simp]: "bindE (liftR (Inr x)) f = f x" "bindE (liftR (Inl e)) f = raiseE e"
  by (auto simp: bindE_def)

lemma bindE_raiseE [simp]: "bindE (raiseE e) f = raiseE e"
  by (rule ext) (simp add: bindE_def)

subsection \<open>Hoare triples\<close>

text \<open>
  \<open>valid P m Q R\<close>: from a state with \<open>P\<close>, the program \<open>m\<close> either returns \<open>x\<close> in a state
  with \<open>Q x\<close>, or raises \<open>e\<close> in a state with \<open>R e\<close>. \<open>keeps I m\<close>: the invariant \<open>I\<close>
  survives \<open>m\<close> however it ends. Every program is total, so both are total correctness.
\<close>

definition valid ::
  "('s \<Rightarrow> bool) \<Rightarrow> ('s, 'a) prog \<Rightarrow> ('a \<Rightarrow> 's \<Rightarrow> bool) \<Rightarrow> (exn \<Rightarrow> 's \<Rightarrow> bool) \<Rightarrow> bool" where
  "valid P m Q R \<longleftrightarrow>
     (\<forall>s. P s \<longrightarrow> (case m s of (Inl e, s') \<Rightarrow> R e s' | (Inr x, s') \<Rightarrow> Q x s'))"

abbreviation keeps :: "('s \<Rightarrow> bool) \<Rightarrow> ('s, 'a) prog \<Rightarrow> bool" where
  "keeps I m \<equiv> valid I m (\<lambda>_. I) (\<lambda>_. I)"

named_theorems keeps_intro \<open>rules that push an invariant through a program\<close>

lemma validI:
  assumes "\<And>s x s'. P s \<Longrightarrow> m s = (Inr x, s') \<Longrightarrow> Q x s'"
    and "\<And>s e s'. P s \<Longrightarrow> m s = (Inl e, s') \<Longrightarrow> R e s'"
  shows "valid P m Q R"
  using assms by (auto simp: valid_def split: prod.splits sum.splits)

lemma valid_Inr: "valid P m Q R \<Longrightarrow> P s \<Longrightarrow> m s = (Inr x, s') \<Longrightarrow> Q x s'"
  by (auto simp: valid_def split: prod.splits sum.splits)

lemma valid_Inl: "valid P m Q R \<Longrightarrow> P s \<Longrightarrow> m s = (Inl e, s') \<Longrightarrow> R e s'"
  by (auto simp: valid_def split: prod.splits sum.splits)

lemma keeps_snd: "keeps I m \<Longrightarrow> I s \<Longrightarrow> I (snd (m s))"
  by (cases "m s"; cases "fst (m s)") (auto dest: valid_Inl valid_Inr)

lemma valid_weaken:
  assumes "valid P m Q R" "\<And>s. P' s \<Longrightarrow> P s" "\<And>x s. Q x s \<Longrightarrow> Q' x s" "\<And>e s. R e s \<Longrightarrow> R' e s"
  shows "valid P' m Q' R'"
  by (rule validI) (use assms in \<open>blast dest: valid_Inl valid_Inr\<close>)+

lemma valid_bindE:
  assumes "valid P m Q R" "\<And>x. valid (Q x) (f x) S R"
  shows "valid P (bindE m f) S R"
proof (rule validI)
  show "S y s''" if "P s" "bindE m f s = (Inr y, s'')" for s y s''
    using that assms by (auto simp: bindE_eq_Inr dest: valid_Inr)
  show "R e s''" if "P s" "bindE m f s = (Inl e, s'')" for s e s''
    using that assms by (auto simp: bindE_eq_Inl dest: valid_Inr valid_Inl)
qed

lemma keeps_bindE [keeps_intro]:
  "keeps I m \<Longrightarrow> (\<And>x. keeps I (f x)) \<Longrightarrow> keeps I (bindE m f)"
  by (rule valid_bindE)

lemma keeps_seqE [keeps_intro]: "keeps I m \<Longrightarrow> keeps I n \<Longrightarrow> keeps I (seqE m n)"
  by (simp add: seqE_def keeps_bindE)

lemma keeps_basic [keeps_intro]:
  "keeps I (returnE x)" "keeps I (raiseE e)" "keeps I (liftR r)" "keeps I (readE g)"
  by (auto simp: valid_def split: sum.splits)

lemma keeps_updateE: "(\<And>s s'. I s \<Longrightarrow> g s = Inr s' \<Longrightarrow> I s') \<Longrightarrow> keeps I (updateE g)"
  by (auto simp: valid_def updateE_def split: prod.splits sum.splits)

lemma keeps_tryE [keeps_intro]: "keeps I m \<Longrightarrow> keeps I (tryE m)"
  by (auto simp: valid_def tryE_def split: prod.splits sum.splits)

lemma keeps_foldE [keeps_intro]: "(\<And>b x. keeps I (f b x)) \<Longrightarrow> keeps I (foldE f b xs)"
  by (induction xs arbitrary: b) (auto intro: keeps_intro)

lemma keeps_if [keeps_intro]: "keeps I m \<Longrightarrow> keeps I n \<Longrightarrow> keeps I (if b then m else n)"
  by simp

lemma keeps_sum [keeps_intro]:
  "(\<And>e. keeps I (f e)) \<Longrightarrow> (\<And>x. keeps I (g x)) \<Longrightarrow>
   keeps I (case r of Inl e \<Rightarrow> f e | Inr x \<Rightarrow> g x)"
  by (cases r) simp_all

lemma keeps_option [keeps_intro]:
  "keeps I f \<Longrightarrow> (\<And>x. keeps I (g x)) \<Longrightarrow> keeps I (case r of None \<Rightarrow> f | Some x \<Rightarrow> g x)"
  by (cases r) simp_all

section \<open>Python's string operations\<close>

definition py_is_space :: "char \<Rightarrow> bool" where
  "py_is_space c \<longleftrightarrow> of_char c \<in> {9, 10, 11, 12, 13, 28, 29, 30, 31, 32 :: nat}"

definition py_lstrip :: "string \<Rightarrow> string" where
  "py_lstrip s = dropWhile py_is_space s"

definition py_strip :: "string \<Rightarrow> string" where
  "py_strip s = rev (py_lstrip (rev (py_lstrip s)))"

text \<open>\<open>s.rstrip(c)\<close> for a single character.\<close>

definition py_rstrip_char :: "char \<Rightarrow> string \<Rightarrow> string" where
  "py_rstrip_char c s = rev (dropWhile (\<lambda>d. d = c) (rev s))"

definition py_upper_char :: "char \<Rightarrow> char" where
  "py_upper_char c =
     (let n = of_char c :: nat in if 97 \<le> n \<and> n \<le> 122 then char_of (n - 32) else c)"

definition py_lower_char :: "char \<Rightarrow> char" where
  "py_lower_char c =
     (let n = of_char c :: nat in if 65 \<le> n \<and> n \<le> 90 then char_of (n + 32) else c)"

definition py_upper :: "string \<Rightarrow> string" where
  "py_upper s = map py_upper_char s"

definition py_lower :: "string \<Rightarrow> string" where
  "py_lower s = map py_lower_char s"

definition py_isascii :: "string \<Rightarrow> bool" where
  "py_isascii s \<longleftrightarrow> list_all (\<lambda>c. (of_char c :: nat) < 128) s"

definition py_is_digit :: "char \<Rightarrow> bool" where
  "py_is_digit c \<longleftrightarrow> 48 \<le> (of_char c :: nat) \<and> (of_char c :: nat) \<le> 57"

definition py_is_alnum_char :: "char \<Rightarrow> bool" where
  "py_is_alnum_char c \<longleftrightarrow>
     (let n = of_char c :: nat
      in 48 \<le> n \<and> n \<le> 57 \<or> 65 \<le> n \<and> n \<le> 90 \<or> 97 \<le> n \<and> n \<le> 122)"

definition py_isalnum :: "string \<Rightarrow> bool" where
  "py_isalnum s \<longleftrightarrow> s \<noteq> [] \<and> list_all py_is_alnum_char s"

definition py_endswith :: "string \<Rightarrow> string \<Rightarrow> bool" where
  "py_endswith s suf \<longleftrightarrow> length suf \<le> length s \<and> drop (length s - length suf) s = suf"

fun py_join :: "string \<Rightarrow> string list \<Rightarrow> string" where
  "py_join sep [] = []"
| "py_join sep [x] = x"
| "py_join sep (x # xs) = x @ sep @ py_join sep xs"

subsection \<open>Decimal digits\<close>

definition digit_char :: "nat \<Rightarrow> char" where
  "digit_char n = char_of (48 + n)"

definition digit_val :: "char \<Rightarrow> nat" where
  "digit_val c = of_char c - 48"

fun nat_str :: "nat \<Rightarrow> string" where
  "nat_str n = (if n < 10 then [digit_char n] else nat_str (n div 10) @ [digit_char (n mod 10)])"

declare nat_str.simps [simp del]

definition digits_val :: "string \<Rightarrow> nat" where
  "digits_val s = foldl (\<lambda>a c. 10 * a + digit_val c) 0 s"

definition py_int_str :: "int \<Rightarrow> string" where
  "py_int_str i = (if i < 0 then ''-'' @ nat_str (nat (- i)) else nat_str (nat i))"

text \<open>\<open>repr\<close> of an ASCII string, of a tuple of strings, of a list of integers.\<close>

definition hex_char :: "nat \<Rightarrow> char" where
  "hex_char n = (if n < 10 then char_of (48 + n) else char_of (87 + n))"

definition py_repr_char :: "char \<Rightarrow> char \<Rightarrow> string" where
  "py_repr_char q c =
     (let n = of_char c :: nat
      in if c = q \<or> n = 92 then [char_of (92::nat), c]
         else if n = 9 then [char_of (92::nat), CHR ''t'']
         else if n = 10 then [char_of (92::nat), CHR ''n'']
         else if n = 13 then [char_of (92::nat), CHR ''r'']
         else if n < 32 \<or> n = 127
           then [char_of (92::nat), CHR ''x'', hex_char (n div 16), hex_char (n mod 16)]
         else [c])"

definition py_repr :: "string \<Rightarrow> string" where
  "py_repr s =
     (let sq = char_of (39::nat); dq = char_of (34::nat);
          q = (if sq \<in> set s \<and> dq \<notin> set s then dq else sq)
      in [q] @ concat (map (py_repr_char q) s) @ [q])"

definition py_tuple_repr :: "string list \<Rightarrow> string" where
  "py_tuple_repr xs = ''('' @ py_join '', '' (map py_repr xs) @ '')''"

definition py_int_list_repr :: "int list \<Rightarrow> string" where
  "py_int_list_repr xs = ''['' @ py_join '', '' (map py_int_str xs) @ '']''"

end
