(* ===== verification/Decimals.thy ===== *)
theory Decimals
  imports Prelude
begin

text \<open>
  domain/decimal\_values.py: exact decimal parsing and the canonical text of a decimal.

  Python's \<open>Decimal\<close> is modelled as far as the module uses it: the finite number
  (sign, coefficient, exponent), the constructor from text, exact comparison and
  \<open>format(d, "f")\<close>. The limits libmpdec puts on exponents and precision are left out. The
  theory shows that the canonical text is a bijective name of the numeric value.
\<close>

section \<open>Python's Decimal\<close>

datatype decimal = Dec (dec_neg: bool) (dec_coeff: nat) (dec_exp: int)

datatype py_decimal = Finite decimal | NonFinite

definition take_sign :: "string \<Rightarrow> bool \<times> string" where
  "take_sign s =
     (case s of [] \<Rightarrow> (False, [])
      | c # r \<Rightarrow> if c = CHR ''-'' then (True, r) else if c = CHR ''+'' then (False, r) else (False, s))"

definition parse_exponent :: "string \<Rightarrow> int option" where
  "parse_exponent s =
     (case s of [] \<Rightarrow> Some 0
      | c # r \<Rightarrow>
          if c \<in> {CHR ''e'', CHR ''E''}
          then (let (neg, ds) = take_sign r
                in if ds \<noteq> [] \<and> list_all py_is_digit ds
                   then Some (if neg then - int (digits_val ds) else int (digits_val ds))
                   else None)
          else None)"

definition is_special_text :: "string \<Rightarrow> bool" where
  "is_special_text s \<longleftrightarrow>
     (let t = py_lower s
      in t = ''inf'' \<or> t = ''infinity''
         \<or> take 3 t = ''nan'' \<and> list_all py_is_digit (drop 3 t)
         \<or> take 4 t = ''snan'' \<and> list_all py_is_digit (drop 4 t))"

text \<open>\<open>Decimal(text)\<close>; \<open>None\<close> is \<open>InvalidOperation\<close>. Surrounding space and every
  underscore are ignored by the constructor.\<close>

definition decimal_of_text :: "string \<Rightarrow> py_decimal option" where
  "decimal_of_text s =
     (let (neg, body) = take_sign (filter (\<lambda>c. c \<noteq> CHR ''_'') (py_strip s))
      in if is_special_text body then Some NonFinite
         else
           let ip = takeWhile py_is_digit body;
               r1 = dropWhile py_is_digit body;
               (fp, r2) =
                 (case r1 of
                    [] \<Rightarrow> ([], [])
                  | c # r \<Rightarrow> if c = CHR ''.'' then (takeWhile py_is_digit r, dropWhile py_is_digit r)
                            else ([], r1))
           in if ip = [] \<and> fp = [] then None
              else (case parse_exponent r2 of
                      None \<Rightarrow> None
                    | Some e \<Rightarrow>
                        Some (Finite (Dec neg (digits_val (ip @ fp)) (e - int (length fp))))))"

text \<open>The numeric value, and the exact comparison \<open>a < b\<close> of two decimals on a common
  exponent.\<close>

definition dec_val :: "decimal \<Rightarrow> rat" where
  "dec_val d = (if dec_neg d then -1 else 1) * of_nat (dec_coeff d) * 10 powi dec_exp d"

definition dec_scaled :: "decimal \<Rightarrow> int \<Rightarrow> int" where
  "dec_scaled d m =
     (if dec_neg d then - int (dec_coeff d) else int (dec_coeff d)) * 10 ^ nat (dec_exp d - m)"

definition dec_less :: "decimal \<Rightarrow> decimal \<Rightarrow> bool" where
  "dec_less a b \<longleftrightarrow>
     (let m = min (dec_exp a) (dec_exp b) in dec_scaled a m < dec_scaled b m)"

definition dec_zero :: decimal where
  "dec_zero = Dec False 0 0"

text \<open>Integer and fraction digits of \<open>format(d, "f")\<close>.\<close>

definition fixed_parts :: "nat \<Rightarrow> int \<Rightarrow> string \<times> string" where
  "fixed_parts c e =
     (let digits = nat_str c; dotplace = e + int (length digits)
      in if dotplace < 0 then (''0'', replicate (nat (- dotplace)) (CHR ''0'') @ digits)
         else if dotplace > int (length digits)
           then (digits @ replicate (nat (dotplace - int (length digits))) (CHR ''0''), [])
         else ((let ip = take (nat dotplace) digits in if ip = [] then ''0'' else ip),
               drop (nat dotplace) digits))"

definition format_fixed :: "decimal \<Rightarrow> string" where
  "format_fixed d =
     (let (ip, fp) = fixed_parts (dec_coeff d) (dec_exp d)
      in (if dec_neg d then ''-'' else []) @ ip @ (if fp = [] then [] else ''.'' @ fp))"

section \<open>decimal\_values.py\<close>

text \<open>\<open>DecimalInput\<close> as it arrives at run time: the declared \<open>Decimal | str | int\<close>, the
  two types the function rejects by name, and any other JSON value with its \<open>str\<close>.\<close>

datatype decimal_input =
  InDecimal py_decimal | InStr string | InInt int | InBool bool | InFloat string | InOther string

definition parse_decimal :: "decimal_input \<Rightarrow> decimal res" where
  "parse_decimal v =
     (let finish = (\<lambda>p. case p of
            NonFinite \<Rightarrow> Inl (Exn InvalidDecimalValue ''decimal value must be finite'')
          | Finite d \<Rightarrow> Inr (if dec_coeff d = 0 then dec_zero else d));
          from_text = (\<lambda>s r. case decimal_of_text (py_strip s) of
            None \<Rightarrow> Inl (Exn InvalidDecimalValue (''invalid decimal value: '' @ r))
          | Some p \<Rightarrow> finish p)
      in case v of
           InBool b \<Rightarrow> Inl (Exn InvalidDecimalValue ''boolean is not a decimal value'')
         | InFloat s \<Rightarrow> Inl (Exn InvalidDecimalValue ''binary float input is not allowed'')
         | InDecimal p \<Rightarrow> finish p
         | InStr s \<Rightarrow> from_text s (py_repr s)
         | InInt i \<Rightarrow> from_text (py_int_str i) (py_int_str i)
         | InOther s \<Rightarrow> from_text s s)"

definition canonical_text :: "decimal \<Rightarrow> string" where
  "canonical_text d =
     (let text = format_fixed d;
          text = (if CHR ''.'' \<in> set text
                  then py_rstrip_char (CHR ''.'') (py_rstrip_char (CHR ''0'') text) else text)
      in if text = [] \<or> text = ''-0'' then ''0'' else text)"

definition decimal_to_canonical_text :: "decimal_input \<Rightarrow> string res" where
  "decimal_to_canonical_text v = bindR (parse_decimal v) (\<lambda>parsed. Inr (canonical_text parsed))"

definition parse_canonical_decimal_text :: "string \<Rightarrow> py_decimal res" where
  "parse_canonical_decimal_text v =
     bindR (decimal_to_canonical_text (InStr v)) (\<lambda>canonical.
       if v \<noteq> canonical
       then Inl (Exn InvalidDecimalValue
              (''non-canonical decimal text: '' @ py_repr v @ ''; expected '' @ py_repr canonical))
       else case decimal_of_text canonical of
              Some d \<Rightarrow> Inr d
            | None \<Rightarrow> Inl (Exn (OtherError ''InvalidOperation'' False) []))"


section \<open>Digits\<close>

lemma of_char_digit_char [simp]: "n < 10 \<Longrightarrow> (of_char (digit_char n) :: nat) = 48 + n"
  by (simp add: digit_char_def)

lemma py_is_digit_digit_char [simp]: "n < 10 \<Longrightarrow> py_is_digit (digit_char n)"
  by (simp add: py_is_digit_def)

lemma digit_val_digit_char [simp]: "n < 10 \<Longrightarrow> digit_val (digit_char n) = n"
  by (simp add: digit_val_def)

lemma digit_val_zero [simp]: "digit_val (CHR ''0'') = 0"
  by (simp add: digit_val_def)

lemma py_is_digit_zero [simp]: "py_is_digit (CHR ''0'')"
  by (simp add: py_is_digit_def)

lemma digits_val_Nil [simp]: "digits_val [] = 0"
  by (simp add: digits_val_def)

lemma digits_val_snoc [simp]: "digits_val (xs @ [c]) = 10 * digits_val xs + digit_val c"
  by (simp add: digits_val_def)

lemma digits_val_append: "digits_val (xs @ ys) = digits_val xs * 10 ^ length ys + digits_val ys"
proof (induction ys rule: rev_induct)
  case (snoc y ys)
  have "digits_val (xs @ ys @ [y]) = 10 * digits_val (xs @ ys) + digit_val y"
    using digits_val_snoc [of "xs @ ys" y] by simp
  with snoc show ?case by (simp add: algebra_simps)
qed simp

lemma digits_val_zeros [simp]: "digits_val (replicate n (CHR ''0'')) = 0"
proof (induction n)
  case (Suc n)
  have "replicate (Suc n) (CHR ''0'') = replicate n (CHR ''0'') @ [CHR ''0'']"
    by (simp add: replicate_append_same)
  with Suc show ?case by (metis digits_val_snoc digit_val_zero add_0_right mult_0_right)
qed simp

lemma digits_val_single_zero [simp]: "digits_val ''0'' = 0"
  using digits_val_zeros [of 1] by simp

lemma digit_char_zero: "digit_char 0 = CHR ''0''"
  by code_simp

lemma digits_val_Cons_zero [simp]: "digits_val (CHR ''0'' # xs) = digits_val xs"
  using digits_val_append [of "''0''" xs] by simp

lemma nat_str_small: "n < 10 \<Longrightarrow> nat_str n = [digit_char n]"
  by (subst nat_str.simps) simp

lemma nat_str_big: "\<not> n < 10 \<Longrightarrow> nat_str n = nat_str (n div 10) @ [digit_char (n mod 10)]"
  by (subst nat_str.simps) simp

lemma nat_str_nonempty [simp]: "nat_str n \<noteq> []"
  by (cases "n < 10") (simp_all add: nat_str_small nat_str_big)

lemma digits_val_nat_str [simp]: "digits_val (nat_str n) = n"
proof (induction n rule: nat_str.induct)
  case (1 n)
  then show ?case
    using digits_val_snoc [of "[]"] by (cases "n < 10") (auto simp: nat_str_small nat_str_big)
qed

lemma nat_str_digits [simp]: "list_all py_is_digit (nat_str n)"
proof (induction n rule: nat_str.induct)
  case (1 n)
  then show ?case by (cases "n < 10") (auto simp: nat_str_small nat_str_big)
qed

lemma nat_str_times_ten: "0 < n \<Longrightarrow> nat_str (10 * n) = nat_str n @ ''0''"
proof -
  assume "0 < n"
  then have "\<not> 10 * n < 10" by simp
  from nat_str_big [OF this] show ?thesis by (simp add: digit_char_zero)
qed

section \<open>The canonical text names the numeric value\<close>

definition strip_zeros :: "string \<Rightarrow> string" where
  "strip_zeros s = py_rstrip_char (CHR ''0'') s"

lemma rstrip_snoc [simp]:
  "py_rstrip_char c (xs @ [d]) = (if d = c then py_rstrip_char c xs else xs @ [d])"
  by (simp add: py_rstrip_char_def)

lemma rstrip_Nil [simp]: "py_rstrip_char c [] = []"
  by (simp add: py_rstrip_char_def)

lemma rstrip_append:
  "py_rstrip_char c (xs @ ys) =
     (if py_rstrip_char c ys = [] then py_rstrip_char c xs else xs @ py_rstrip_char c ys)"
proof (induction ys rule: rev_induct)
  case (snoc y ys)
  then show ?case
    using rstrip_snoc [of c "xs @ ys" y] rstrip_snoc [of c ys y] by (auto simp del: rstrip_snoc)
qed simp

lemma rstrip_decomp: "\<exists>n. s = py_rstrip_char c s @ replicate n c"
proof (induction s rule: rev_induct)
  case (snoc y s)
  then obtain n where n: "s = py_rstrip_char c s @ replicate n c" by blast
  show ?case
  proof (cases "y = c")
    case True
    have "s @ [y] = py_rstrip_char c s @ replicate (Suc n) c"
      using n True by (metis append.assoc replicate_Suc replicate_append_same)
    with True show ?thesis by (metis rstrip_snoc)
  next
    case False
    then show ?thesis by (auto intro: exI [of _ 0])
  qed
qed simp

lemma rstrip_none: "s = [] \<or> last s \<noteq> c \<Longrightarrow> py_rstrip_char c s = s"
  by (cases s rule: rev_cases) auto

lemma digit_chars [simp]:
  "\<not> py_is_digit (CHR ''.'')" "\<not> py_is_digit (CHR ''-'')" "\<not> py_is_digit (CHR ''_'')"
  "\<not> py_is_digit (CHR ''+'')"
  by (simp_all add: py_is_digit_def)

lemma digits_no_dot: "list_all py_is_digit s \<Longrightarrow> CHR ''.'' \<notin> set s"
  by (auto simp: list_all_iff)

lemma rstrip_strip_dot:
  assumes "list_all py_is_digit fp"
  shows "py_rstrip_char (CHR ''.'') (py_rstrip_char (CHR ''0'') (pre @ CHR ''.'' # fp)) =
     (if strip_zeros fp = [] then py_rstrip_char (CHR ''.'') pre else pre @ CHR ''.'' # strip_zeros fp)"
proof -
  have zero: "py_rstrip_char (CHR ''0'') (pre @ CHR ''.'' # fp) = pre @ CHR ''.'' # strip_zeros fp"
    using rstrip_append [of "CHR ''0''" "pre @ ''.''" fp] rstrip_snoc [of "CHR ''0''" pre "CHR ''.''"]
    by (auto simp: strip_zeros_def)
  obtain n where "fp = strip_zeros fp @ replicate n (CHR ''0'')"
    using rstrip_decomp by (auto simp: strip_zeros_def)
  then have dig: "list_all py_is_digit (strip_zeros fp)"
    using assms by (metis list_all_append)
  have "py_rstrip_char (CHR ''.'') (pre @ CHR ''.'' # strip_zeros fp) = pre @ CHR ''.'' # strip_zeros fp"
    if "strip_zeros fp \<noteq> []"
    using that dig by (intro rstrip_none) (cases "strip_zeros fp" rule: rev_cases; auto)
  then show ?thesis
    using rstrip_snoc [of "CHR ''.''" pre "CHR ''.''"] by (auto simp: zero)
qed

text \<open>The shape of the text: sign, integer digits, and the fraction with its trailing zeros
  removed.\<close>

definition join_parts :: "bool \<Rightarrow> string \<Rightarrow> string \<Rightarrow> string" where
  "join_parts neg ip fp =
     (if neg then ''-'' else []) @ ip @ (if fp = [] then [] else ''.'' @ fp)"

lemma strip_join_parts:
  assumes ip: "list_all py_is_digit ip" and fp: "list_all py_is_digit fp"
  shows "(if CHR ''.'' \<in> set (join_parts neg ip fp)
          then py_rstrip_char (CHR ''.'') (py_rstrip_char (CHR ''0'') (join_parts neg ip fp))
          else join_parts neg ip fp)
         = join_parts neg ip (strip_zeros fp)"
proof (cases "fp = []")
  case True
  with ip show ?thesis by (auto simp: join_parts_def strip_zeros_def dest: digits_no_dot)
next
  case False
  define pre where "pre = (if neg then ''-'' else []) @ ip"
  have pre: "join_parts neg ip g = (if g = [] then pre else pre @ CHR ''.'' # g)" for g
    by (simp add: pre_def join_parts_def)
  have "py_rstrip_char (CHR ''.'') pre = pre"
    using ip by (intro rstrip_none) (cases ip rule: rev_cases; auto simp: pre_def)
  then show ?thesis
    using False rstrip_strip_dot [OF fp, of pre] by (simp add: pre)
qed

lemma format_fixed_join:
  "format_fixed d =
     (case fixed_parts (dec_coeff d) (dec_exp d) of (ip, fp) \<Rightarrow> join_parts (dec_neg d) ip fp)"
  by (simp add: format_fixed_def join_parts_def split: prod.splits)

lemma fixed_parts_digits:
  assumes "fixed_parts c e = (ip, fp)"
  shows "ip \<noteq> []" "list_all py_is_digit ip" "list_all py_is_digit fp"
  using assms nat_str_digits [of c]
  by (auto simp: fixed_parts_def Let_def list_all_iff dest: in_set_takeD in_set_dropD
      split: if_splits)

lemma fixed_parts_value:
  assumes "fixed_parts c e = (ip, fp)"
  shows "of_nat (digits_val (ip @ fp)) * 10 powi (- int (length fp)) = (of_nat c * 10 powi e :: rat)"
proof -
  let ?s = "nat_str c"
  let ?dot = "e + int (length ?s)"
  consider (neg) "?dot < 0" | (int) "?dot > int (length ?s)" | (mid) "0 \<le> ?dot" "?dot \<le> int (length ?s)"
    by linarith
  then show ?thesis
  proof cases
    case neg
    with assms have p: "ip = ''0''" "fp = replicate (nat (- ?dot)) (CHR ''0'') @ ?s"
      by (simp_all add: fixed_parts_def Let_def)
    with neg have "int (length fp) = - e" by simp
    moreover have "digits_val (ip @ fp) = c"
      by (simp add: p digits_val_append)
    ultimately show ?thesis by simp
  next
    case int
    with assms have p: "ip = ?s @ replicate (nat e) (CHR ''0'')" "fp = []"
      by (simp_all add: fixed_parts_def Let_def)
    from int have "10 powi e = (10 ^ nat e :: rat)" by (simp add: power_int_def)
    with p show ?thesis by (simp add: digits_val_append)
  next
    case mid
    with assms have fp: "fp = drop (nat ?dot) ?s"
      and ip: "ip = (let i = take (nat ?dot) ?s in if i = [] then ''0'' else i)"
      by (simp_all add: fixed_parts_def Let_def)
    from mid fp have "int (length fp) = - e" by simp
    moreover have "digits_val (ip @ fp) = c"
    proof (cases "take (nat ?dot) ?s = []")
      case True
      then have "nat ?dot = 0" by simp
      then show ?thesis using ip fp digits_val_append [of "''0''" ?s] by simp
    next
      case False
      then show ?thesis using ip fp by (simp add: Let_def)
    qed
    ultimately show ?thesis by simp
  qed
qed

lemma strip_zeros_digits: "list_all py_is_digit fp \<Longrightarrow> list_all py_is_digit (strip_zeros fp)"
  using rstrip_decomp [of fp "CHR ''0''"] by (metis list_all_append strip_zeros_def)

lemma strip_zeros_value:
  "of_nat (digits_val (ip @ strip_zeros fp)) * 10 powi (- int (length (strip_zeros fp))) =
   (of_nat (digits_val (ip @ fp)) * 10 powi (- int (length fp)) :: rat)"
proof -
  obtain n where n: "fp = strip_zeros fp @ replicate n (CHR ''0'')"
    using rstrip_decomp by (auto simp: strip_zeros_def)
  have "digits_val (ip @ fp) = digits_val (ip @ strip_zeros fp) * 10 ^ n"
    by (subst n) (simp add: digits_val_append flip: append_assoc)
  moreover have "length fp = length (strip_zeros fp) + n"
    by (subst n) simp
  moreover have "(10::rat) powi (- int (m + n)) * 10 ^ n = 10 powi (- int m)" for m
  proof -
    have "(10::rat) powi (- int (m + n)) = 10 powi (- int m) * 10 powi (- int n)"
      by (simp add: power_int_add flip: power_int_add)
    moreover have "(10::rat) powi (- int n) * 10 ^ n = 1"
      by (simp add: power_int_minus)
    ultimately show ?thesis by (simp add: mult.assoc)
  qed
  ultimately show ?thesis by (simp add: mult_ac)
qed

subsection \<open>Reading the text back\<close>

lemma digit_not_space: "py_is_digit c \<Longrightarrow> \<not> py_is_space c"
  by (auto simp: py_is_digit_def py_is_space_def)

lemma py_strip_id: "list_all (\<lambda>c. \<not> py_is_space c) s \<Longrightarrow> py_strip s = s"
proof -
  have keep: "dropWhile py_is_space t = t" if "list_all (\<lambda>c. \<not> py_is_space c) t" for t
    using that by (cases t) auto
  assume "list_all (\<lambda>c. \<not> py_is_space c) s"
  then show ?thesis by (simp add: py_strip_def py_lstrip_def keep)
qed

lemma digit_lower: "py_is_digit c \<Longrightarrow> py_lower_char c = c"
  by (auto simp: py_is_digit_def py_lower_char_def Let_def)

lemma digit_not_special:
  assumes "py_is_digit c" shows "\<not> is_special_text (c # r)"
proof -
  have "py_lower (c # r) = c # py_lower r"
    using assms by (simp add: py_lower_def digit_lower)
  moreover have "c \<noteq> CHR ''i''" "c \<noteq> CHR ''n''" "c \<noteq> CHR ''s''"
    using assms by (auto simp: py_is_digit_def)
  ultimately show ?thesis by (auto simp: is_special_text_def Let_def)
qed

lemma while_digits:
  assumes "list_all py_is_digit ds"
  shows "takeWhile py_is_digit ds = ds" "dropWhile py_is_digit ds = []"
  using assms by (auto simp: list_all_iff)

lemma span_digits:
  assumes "list_all py_is_digit ds" "\<not> py_is_digit c"
  shows "takeWhile py_is_digit (ds @ c # r) = ds" "dropWhile py_is_digit (ds @ c # r) = c # r"
  using assms by (auto simp: list_all_iff takeWhile_append dropWhile_append)

lemma join_parts_chars: "set (join_parts neg ip fp) \<subseteq> {CHR ''-'', CHR ''.''} \<union> set ip \<union> set fp"
  by (auto simp: join_parts_def)

lemma py_strip_join_parts:
  assumes "list_all py_is_digit ip" "list_all py_is_digit fp"
  shows "py_strip (join_parts neg ip fp) = join_parts neg ip fp"
  using assms join_parts_chars [of neg ip fp] digit_not_space
  by (intro py_strip_id) (auto simp: list_all_iff py_is_space_def)

lemma decimal_of_join_parts:
  assumes "ip \<noteq> []" "list_all py_is_digit ip" "list_all py_is_digit fp"
  shows "decimal_of_text (join_parts neg ip fp) =
     Some (Finite (Dec neg (digits_val (ip @ fp)) (- int (length fp))))"
proof -
  let ?t = "join_parts neg ip fp"
  let ?body = "ip @ (if fp = [] then [] else CHR ''.'' # fp)"
  obtain c r where ip: "ip = c # r" "py_is_digit c"
    using assms by (cases ip) auto
  have strip: "py_strip ?t = ?t" using assms by (intro py_strip_join_parts)
  have filt: "filter (\<lambda>c. c \<noteq> CHR ''_'') ?t = ?t"
    using join_parts_chars [of neg ip fp] assms by (intro filter_True) (fastforce simp: list_all_iff)
  have sign: "take_sign ?t = (neg, ?body)"
    using ip by (auto simp: take_sign_def join_parts_def)
  have special: "\<not> is_special_text ?body"
    using ip digit_not_special by auto
  note facts = strip filt sign special assms(1) while_digits [OF assms(2)] while_digits [OF assms(3)]
    span_digits [OF assms(2) digit_chars(1)]
  show ?thesis
    by (cases "fp = []")
      (use facts in \<open>simp_all add: decimal_of_text_def parse_exponent_def del: takeWhile_eq_all_conv dropWhile_eq_Nil_conv\<close>)
qed

subsection \<open>Multiplying the coefficient by ten does not change the text\<close>

lemma fixed_parts_times_ten:
  assumes "0 < c"
  shows "\<exists>ip fp. fixed_parts c e = (ip, fp) \<and>
           (fixed_parts (10 * c) (e - 1) = (ip, fp @ ''0'')
            \<or> fp = [] \<and> fixed_parts (10 * c) (e - 1) = (ip, []))"
proof -
  let ?s = "nat_str c"
  have s': "nat_str (10 * c) = ?s @ ''0''" using assms by (rule nat_str_times_ten)
  consider (neg) "e + int (length ?s) < 0" | (int) "e > 0"
    | (mid) "0 \<le> e + int (length ?s)" "e \<le> 0" by linarith
  then show ?thesis
  proof cases
    case neg
    then show ?thesis by (simp add: fixed_parts_def s' Let_def)
  next
    case int
    then have "replicate (nat e) (CHR ''0'') = CHR ''0'' # replicate (nat (e - 1)) (CHR ''0'')"
      by (cases "nat e") (auto simp: nat_diff_distrib)
    with int show ?thesis by (auto simp: fixed_parts_def s' Let_def)
  next
    case mid
    then have "nat (e + int (length ?s)) \<le> length ?s" by linarith
    with mid show ?thesis by (simp add: fixed_parts_def s' Let_def)
  qed
qed

lemma canonical_text_join:
  assumes "fixed_parts (dec_coeff d) (dec_exp d) = (ip, fp)"
  shows "canonical_text d =
     (let t = join_parts (dec_neg d) ip (strip_zeros fp) in if t = [] \<or> t = ''-0'' then ''0'' else t)"
  using strip_join_parts [OF fixed_parts_digits(2,3) [OF assms], of "dec_neg d"]
  by (simp add: canonical_text_def format_fixed_join assms Let_def)

lemma canonical_text_times_ten:
  assumes "0 < c"
  shows "canonical_text (Dec n (10 * c) (e - 1)) = canonical_text (Dec n c e)"
proof -
  obtain ip fp where p: "fixed_parts c e = (ip, fp)"
    and q: "fixed_parts (10 * c) (e - 1) = (ip, fp @ ''0'')
            \<or> fp = [] \<and> fixed_parts (10 * c) (e - 1) = (ip, [])"
    using fixed_parts_times_ten [OF assms] by blast
  from q show ?thesis
  proof
    assume "fixed_parts (10 * c) (e - 1) = (ip, fp @ ''0'')"
    with p show ?thesis
      by (simp add: canonical_text_join [of "Dec n (10 * c) (e - 1)"] canonical_text_join [of "Dec n c e"]
          strip_zeros_def)
  next
    assume "fp = [] \<and> fixed_parts (10 * c) (e - 1) = (ip, [])"
    with p show ?thesis
      by (simp add: canonical_text_join [of "Dec n (10 * c) (e - 1)"] canonical_text_join [of "Dec n c e"])
  qed
qed

lemma canonical_text_times_power:
  assumes "0 < c"
  shows "canonical_text (Dec n (c * 10 ^ k) (e - int k)) = canonical_text (Dec n c e)"
proof (induction k)
  case (Suc k)
  have "canonical_text (Dec n (10 * (c * 10 ^ k)) (e - int k - 1)) =
        canonical_text (Dec n (c * 10 ^ k) (e - int k))"
    using assms by (intro canonical_text_times_ten) simp
  with Suc show ?case by (simp add: algebra_simps)
qed simp

subsection \<open>Value and text determine each other\<close>

definition norm_zero :: "decimal \<Rightarrow> decimal" where
  "norm_zero d = (if dec_coeff d = 0 then dec_zero else d)"

lemma parse_decimal_finite [simp]: "parse_decimal (InDecimal (Finite d)) = Inr (norm_zero d)"
  by (simp add: parse_decimal_def norm_zero_def)

lemma parse_decimal_text:
  "decimal_of_text (py_strip s) = Some (Finite d) \<Longrightarrow> parse_decimal (InStr s) = Inr (norm_zero d)"
  by (simp add: parse_decimal_def norm_zero_def)

lemma dec_val_norm_zero [simp]: "dec_val (norm_zero d) = dec_val d"
  by (simp add: norm_zero_def dec_val_def dec_zero_def)

lemma dec_val_zero_iff: "dec_val d = 0 \<longleftrightarrow> dec_coeff d = 0"
  by (simp add: dec_val_def)

lemma canonical_text_shape:
  "\<exists>ip fp. canonical_text (norm_zero d) = join_parts (dec_neg (norm_zero d)) ip fp \<and> ip \<noteq> [] \<and>
     list_all py_is_digit ip \<and> list_all py_is_digit fp \<and>
     dec_val (Dec (dec_neg (norm_zero d)) (digits_val (ip @ fp)) (- int (length fp))) = dec_val d"
proof (cases "dec_coeff d = 0")
  case True
  have "canonical_text dec_zero = join_parts False ''0'' []" by code_simp
  moreover have "py_is_digit (CHR ''0'')" by simp
  moreover from True have "norm_zero d = dec_zero" "dec_val d = 0"
    by (simp_all add: norm_zero_def dec_val_zero_iff)
  ultimately show ?thesis
    by (intro exI [of _ "''0''"] exI [of _ "[]"]) (simp add: dec_zero_def dec_val_def)
next
  case False
  then have n: "norm_zero d = d" by (simp add: norm_zero_def)
  obtain ip fp where p: "fixed_parts (dec_coeff d) (dec_exp d) = (ip, fp)" by fastforce
  let ?z = "strip_zeros fp" and ?t = "join_parts (dec_neg d) ip (strip_zeros fp)"
  note dig = fixed_parts_digits [OF p]
  have v: "dec_val (Dec (dec_neg d) (digits_val (ip @ ?z)) (- int (length ?z))) = dec_val d"
    using strip_zeros_value [of ip fp] fixed_parts_value [OF p] by (simp add: dec_val_def)
  have "decimal_of_text ?t = Some (Finite (Dec (dec_neg d) (digits_val (ip @ ?z)) (- int (length ?z))))"
    using dig by (intro decimal_of_join_parts) (auto intro: strip_zeros_digits)
  moreover have "decimal_of_text ''-0'' = Some (Finite (Dec True 0 0))" by code_simp
  moreover have "digits_val (ip @ ?z) \<noteq> 0"
    using v False dec_val_zero_iff [of d] dec_val_zero_iff [of "Dec (dec_neg d) (digits_val (ip @ ?z)) (- int (length ?z))"]
    by simp
  ultimately have "?t \<noteq> ''-0''" by auto
  moreover have "?t \<noteq> []" using dig(1) by (simp add: join_parts_def)
  ultimately have "canonical_text d = ?t"
    by (simp add: canonical_text_join [OF p] Let_def)
  with n v dig strip_zeros_digits show ?thesis by metis
qed

lemma canonical_text_reads_back:
  "\<exists>d'. decimal_of_text (canonical_text (norm_zero d)) = Some (Finite d') \<and> dec_val d' = dec_val d \<and>
     py_strip (canonical_text (norm_zero d)) = canonical_text (norm_zero d)"
proof -
  obtain ip fp where "canonical_text (norm_zero d) = join_parts (dec_neg (norm_zero d)) ip fp"
    and "ip \<noteq> []" "list_all py_is_digit ip" "list_all py_is_digit fp"
    and "dec_val (Dec (dec_neg (norm_zero d)) (digits_val (ip @ fp)) (- int (length fp))) = dec_val d"
    using canonical_text_shape [of d] by blast
  then show ?thesis by (simp add: decimal_of_join_parts py_strip_join_parts)
qed

lemma dec_val_neg_iff: "dec_coeff d \<noteq> 0 \<Longrightarrow> dec_val d < 0 \<longleftrightarrow> dec_neg d"
proof -
  have "0 < (10::rat) powi dec_exp d" by simp
  then show ?thesis if "dec_coeff d \<noteq> 0"
    using that by (cases "dec_neg d") (auto simp: dec_val_def mult_less_0_iff zero_less_mult_iff
      simp del: zero_less_power_int)
qed

lemma dec_val_sign: "dec_val a = dec_val b \<Longrightarrow> dec_coeff a \<noteq> 0 \<Longrightarrow> dec_neg a = dec_neg b"
  by (metis dec_val_neg_iff dec_val_zero_iff)

lemma dec_val_eq_text_le:
  assumes v: "dec_val a = dec_val b" and nz: "dec_coeff a \<noteq> 0" and le: "dec_exp b \<le> dec_exp a"
  shows "canonical_text a = canonical_text b"
proof -
  define k where "k = nat (dec_exp a - dec_exp b)"
  have e: "dec_exp b = dec_exp a - int k" using le by (simp add: k_def)
  have n: "dec_neg a = dec_neg b" using v nz by (rule dec_val_sign)
  have "of_nat (dec_coeff a) * 10 powi dec_exp a = (of_nat (dec_coeff b) * 10 powi dec_exp b :: rat)"
    using v n by (simp add: dec_val_def split: if_splits)
  moreover have "(10::rat) powi dec_exp a = 10 ^ k * 10 powi dec_exp b"
    using e by (simp add: power_int_diff)
  ultimately have "(of_nat (dec_coeff a * 10 ^ k) :: rat) = of_nat (dec_coeff b)"
    by simp
  then have "dec_coeff b = dec_coeff a * 10 ^ k"
    by (metis of_nat_eq_iff)
  then show ?thesis
    using canonical_text_times_power [of "dec_coeff a" "dec_neg a" k "dec_exp a"] nz n e
    by (cases a; cases b) simp
qed

lemma dec_val_eq_text:
  "dec_val a = dec_val b \<Longrightarrow> canonical_text (norm_zero a) = canonical_text (norm_zero b)"
proof -
  assume v: "dec_val a = dec_val b"
  then have z: "dec_coeff a = 0 \<longleftrightarrow> dec_coeff b = 0" by (metis dec_val_zero_iff)
  show ?thesis
  proof (cases "dec_coeff a = 0")
    case True
    with z show ?thesis by (simp add: norm_zero_def)
  next
    case False
    with z v show ?thesis
      using dec_val_eq_text_le [of a b] dec_val_eq_text_le [of b a]
      by (cases "dec_exp b \<le> dec_exp a") (auto simp: norm_zero_def)
  qed
qed

text \<open>
  C35. One textual representation per numeric value: two finite decimals have the same
  canonical text exactly when they are numerically equal, whatever their coefficient and
  exponent.
\<close>

theorem canonical_text_eq_iff_value_eq:
  "decimal_to_canonical_text (InDecimal (Finite a)) = decimal_to_canonical_text (InDecimal (Finite b))
   \<longleftrightarrow> dec_val a = dec_val b"
proof
  assume "decimal_to_canonical_text (InDecimal (Finite a)) = decimal_to_canonical_text (InDecimal (Finite b))"
  then have "canonical_text (norm_zero a) = canonical_text (norm_zero b)"
    by (simp add: decimal_to_canonical_text_def)
  then show "dec_val a = dec_val b"
    using canonical_text_reads_back [of a] canonical_text_reads_back [of b] by auto
next
  assume "dec_val a = dec_val b"
  from dec_val_eq_text [OF this]
  show "decimal_to_canonical_text (InDecimal (Finite a)) = decimal_to_canonical_text (InDecimal (Finite b))"
    by (simp add: decimal_to_canonical_text_def)
qed

lemma parse_decimal_canonical:
  "\<exists>d'. parse_decimal (InStr (canonical_text (norm_zero d))) = Inr (norm_zero d') \<and>
     decimal_of_text (canonical_text (norm_zero d)) = Some (Finite d') \<and> dec_val d' = dec_val d"
  using canonical_text_reads_back [of d] parse_decimal_text by metis

text \<open>
  Round trip: the canonical text of any finite decimal is accepted by
  \<open>parse_canonical_decimal_text\<close> and read back to the same numeric value.
\<close>

theorem canonical_text_roundtrip:
  "\<exists>s d'. decimal_to_canonical_text (InDecimal (Finite d)) = Inr s \<and>
     parse_canonical_decimal_text s = Inr (Finite d') \<and> dec_val d' = dec_val d"
proof -
  obtain d' where d': "parse_decimal (InStr (canonical_text (norm_zero d))) = Inr (norm_zero d')"
    "decimal_of_text (canonical_text (norm_zero d)) = Some (Finite d')" "dec_val d' = dec_val d"
    using parse_decimal_canonical by blast
  moreover have "canonical_text (norm_zero d') = canonical_text (norm_zero d)"
    using d'(3) by (rule dec_val_eq_text)
  ultimately have "parse_canonical_decimal_text (canonical_text (norm_zero d)) = Inr (Finite d')"
    by (simp add: parse_canonical_decimal_text_def decimal_to_canonical_text_def)
  with d'(3) show ?thesis by (auto simp: decimal_to_canonical_text_def)
qed

lemma dec_scaled_val:
  assumes "m \<le> dec_exp d"
  shows "of_int (dec_scaled d m) * 10 powi m = dec_val d"
proof -
  have "(10::rat) ^ nat (dec_exp d - m) * 10 powi m = 10 powi dec_exp d"
    using assms by (simp flip: power_int_of_nat power_int_add)
  then show ?thesis by (simp add: dec_scaled_def dec_val_def mult.assoc)
qed

lemma dec_less_val: "dec_less a b \<longleftrightarrow> dec_val a < dec_val b"
proof -
  let ?m = "min (dec_exp a) (dec_exp b)"
  have "dec_val a < dec_val b \<longleftrightarrow>
        of_int (dec_scaled a ?m) * (10::rat) powi ?m < of_int (dec_scaled b ?m) * 10 powi ?m"
    by (simp add: dec_scaled_val)
  also have "\<dots> \<longleftrightarrow> dec_scaled a ?m < dec_scaled b ?m"
    by (subst mult_less_cancel_right_pos) auto
  finally show ?thesis by (simp add: dec_less_def Let_def)
qed

end
