(* ===== verification/Timeframes.thy ===== *)
theory Timeframes
  imports Prelude
begin

text \<open>
  domain/timeframes.py, domain/windows.py, domain/identity.py and domain/instruments.py: the
  timeframe registry and its grid arithmetic, half-open windows, instrument and stream
  identities, and the operator's and the exchange's facts about an instrument.

  The registry is closed (six entries), and \<open>StreamKey\<close> replaces its timeframe text by the
  registry's id, so the timeframe of a stream is the enumeration \<open>timeframe\<close>;
  \<open>get_timeframe\<close> maps text to it or raises, \<open>tf_id\<close> gives the text back.
\<close>

section \<open>timeframes.py\<close>

record timeframe_spec =
  ts_id :: string
  ts_duration_ms :: int
  ts_bybit_interval :: string
  ts_pandas_frequency :: string

datatype timeframe = TF_1m | TF_5m | TF_15m | TF_1h | TF_4h | TF_1d

definition timeframe_spec_valid :: "timeframe_spec \<Rightarrow> bool" where
  "timeframe_spec_valid s \<longleftrightarrow>
     ts_id s \<noteq> [] \<and> 0 < ts_duration_ms s \<and> ts_bybit_interval s \<noteq> [] \<and> ts_pandas_frequency s \<noteq> []"

fun tf_spec :: "timeframe \<Rightarrow> timeframe_spec" where
  "tf_spec TF_1m = \<lparr>ts_id = ''1m'', ts_duration_ms = 60000,
     ts_bybit_interval = ''1'', ts_pandas_frequency = ''1min''\<rparr>"
| "tf_spec TF_5m = \<lparr>ts_id = ''5m'', ts_duration_ms = 5 * 60000,
     ts_bybit_interval = ''5'', ts_pandas_frequency = ''5min''\<rparr>"
| "tf_spec TF_15m = \<lparr>ts_id = ''15m'', ts_duration_ms = 15 * 60000,
     ts_bybit_interval = ''15'', ts_pandas_frequency = ''15min''\<rparr>"
| "tf_spec TF_1h = \<lparr>ts_id = ''1h'', ts_duration_ms = 60 * 60000,
     ts_bybit_interval = ''60'', ts_pandas_frequency = ''1h''\<rparr>"
| "tf_spec TF_4h = \<lparr>ts_id = ''4h'', ts_duration_ms = 4 * 60 * 60000,
     ts_bybit_interval = ''240'', ts_pandas_frequency = ''4h''\<rparr>"
| "tf_spec TF_1d = \<lparr>ts_id = ''1d'', ts_duration_ms = 24 * 60 * 60000,
     ts_bybit_interval = ''D'', ts_pandas_frequency = ''1d''\<rparr>"

definition TIMEFRAMES :: "timeframe list" where
  "TIMEFRAMES = [TF_1m, TF_5m, TF_15m, TF_1h, TF_4h, TF_1d]"

definition tf_id :: "timeframe \<Rightarrow> string" where
  "tf_id t = ts_id (tf_spec t)"

definition get_timeframe :: "string \<Rightarrow> timeframe res" where
  "get_timeframe timeframe_id =
     (let normalized = py_lower (py_strip timeframe_id)
      in case find (\<lambda>t. tf_id t = normalized) TIMEFRAMES of
           Some t \<Rightarrow> Inr t
         | None \<Rightarrow> Inl (Exn ValueError
             (''unsupported timeframe '' @ py_repr timeframe_id @ ''; supported: ''
              @ py_join '', '' (map tf_id TIMEFRAMES))))"

definition align_to_grid :: "int \<Rightarrow> int \<Rightarrow> int res" where
  "align_to_grid timestamp_ms step_ms =
     (if step_ms \<le> 0 then Inl (Exn ValueError ''step_ms must be positive'')
      else Inr (timestamp_ms - timestamp_ms mod step_ms))"

definition ceil_to_grid :: "int \<Rightarrow> int \<Rightarrow> int res" where
  "ceil_to_grid timestamp_ms step_ms =
     bindR (align_to_grid timestamp_ms step_ms) (\<lambda>aligned.
       Inr (if aligned = timestamp_ms then aligned else aligned + step_ms))"

definition last_closed_open_time_ms :: "int \<Rightarrow> int \<Rightarrow> int res" where
  "last_closed_open_time_ms now_ms step_ms =
     bindR (align_to_grid now_ms step_ms) (\<lambda>aligned. Inr (aligned - step_ms))"

section \<open>windows.py\<close>

datatype time_window = TimeWindow (start_ms: int) (end_ms: int)

definition mk_time_window :: "int \<Rightarrow> int \<Rightarrow> time_window res" where
  "mk_time_window s e =
     (if s \<ge> e then Inl (Exn ValueError ''time window must satisfy start_ms < end_ms'')
      else Inr (TimeWindow s e))"

definition window_duration_ms :: "time_window \<Rightarrow> int" where
  "window_duration_ms w = end_ms w - start_ms w"

definition window_contains :: "time_window \<Rightarrow> int \<Rightarrow> bool" where
  "window_contains w t \<longleftrightarrow> start_ms w \<le> t \<and> t < end_ms w"

text \<open>\<open>order=True\<close>: windows compare by start, then by end.\<close>

instantiation time_window :: linorder
begin

definition less_eq_time_window :: "time_window \<Rightarrow> time_window \<Rightarrow> bool" where
  "less_eq_time_window a b \<longleftrightarrow>
     start_ms a < start_ms b \<or> start_ms a = start_ms b \<and> end_ms a \<le> end_ms b"

definition less_time_window :: "time_window \<Rightarrow> time_window \<Rightarrow> bool" where
  "less_time_window a b \<longleftrightarrow>
     start_ms a < start_ms b \<or> start_ms a = start_ms b \<and> end_ms a < end_ms b"

instance
  by standard
    (auto simp: less_eq_time_window_def less_time_window_def intro: time_window.expand)

end

section \<open>identity.py\<close>

datatype instrument_key = InstrumentKey (ticker: string)

datatype stream_key = StreamKey (sk_instrument: instrument_key) (sk_timeframe: timeframe)

definition mk_instrument_key :: "string \<Rightarrow> instrument_key res" where
  "mk_instrument_key raw =
     (let tk = py_upper (py_strip raw);
          core = take (length tk - 2) tk
      in if tk = [] then Inl (Exn ValueError ''ticker must not be empty'')
         else if \<not> py_isascii tk
           then Inl (Exn ValueError ''ticker must contain only ASCII characters'')
         else if \<not> py_endswith tk ''.P''
           then Inl (Exn ValueError ''v1 ticker must use the perpetual suffix .P'')
         else if core = [] \<or> \<not> py_isalnum core
           then Inl (Exn ValueError ''ticker core must contain only ASCII letters and digits'')
         else Inr (InstrumentKey tk))"

definition mk_stream_key :: "instrument_key \<Rightarrow> string \<Rightarrow> stream_key res" where
  "mk_stream_key i tf = bindR (get_timeframe tf) (\<lambda>t. Inr (StreamKey i t))"

definition canonical_id :: "stream_key \<Rightarrow> string" where
  "canonical_id s = ticker (sk_instrument s) @ '':'' @ tf_id (sk_timeframe s)"

text \<open>\<open>get_timeframe(stream.timeframe).duration_ms\<close>.\<close>

definition stream_step :: "stream_key \<Rightarrow> int" where
  "stream_step s = ts_duration_ms (tf_spec (sk_timeframe s))"

section \<open>instruments.py\<close>

datatype history_policy = FULL_AVAILABLE

definition history_policy_of :: "string \<Rightarrow> history_policy res" where
  "history_policy_of s =
     (if s = ''full_available'' then Inr FULL_AVAILABLE
      else Inl (Exn ValueError (py_repr s @ '' is not a valid HistoryPolicy'')))"

record instrument_metadata =
  im_instrument :: instrument_key
  im_exchange_symbol :: string
  im_launch_time_ms :: "int option"
  im_fetched_at_ms :: "int option"

definition opt_non_negative :: "int option \<Rightarrow> bool" where
  "opt_non_negative v \<longleftrightarrow> (case v of None \<Rightarrow> True | Some x \<Rightarrow> 0 \<le> x)"

definition mk_instrument_metadata :: "instrument_metadata \<Rightarrow> instrument_metadata res" where
  "mk_instrument_metadata m =
     (let sym = py_upper (py_strip (im_exchange_symbol m))
      in if sym = [] \<or> \<not> py_isascii sym \<or> \<not> py_isalnum sym
           then Inl (Exn ValueError ''exchange_symbol must contain only ASCII letters and digits'')
         else if \<not> opt_non_negative (im_launch_time_ms m)
           then Inl (Exn ValueError ''launch_time_ms must be non-negative'')
         else if \<not> opt_non_negative (im_fetched_at_ms m)
           then Inl (Exn ValueError ''fetched_at_ms must be non-negative'')
         else Inr (m\<lparr>im_exchange_symbol := sym\<rparr>))"

text \<open>\<open>canonical_timeframes\<close> arrives as text and is stored normalised.\<close>

record instrument_coverage =
  ic_instrument :: instrument_key
  ic_exchange_symbol :: string
  ic_enabled :: bool
  ic_canonical_timeframes :: "timeframe list"
  ic_history_policy :: history_policy
  ic_open_interest :: bool

definition mk_instrument_coverage ::
  "instrument_key \<Rightarrow> string \<Rightarrow> bool \<Rightarrow> string list \<Rightarrow> history_policy \<Rightarrow> bool \<Rightarrow> instrument_coverage res" where
  "mk_instrument_coverage inst xsym enabled tfs policy oi =
     bindR (mk_instrument_metadata
       \<lparr>im_instrument = inst, im_exchange_symbol = xsym, im_launch_time_ms = None, im_fetched_at_ms = None\<rparr>)
       (\<lambda>metadata.
     bindR (guardR (tfs \<noteq> []) (Exn ValueError ''canonical_timeframes must not be empty'')) (\<lambda>_.
     bindR (mapR (\<lambda>v. bindR (mk_stream_key inst v) (\<lambda>s. Inr (sk_timeframe s))) tfs) (\<lambda>normalized.
     bindR (guardR (distinct normalized)
       (Exn ValueError ''canonical_timeframes must not contain duplicates'')) (\<lambda>_.
     bindR (guardR (\<not> (oi \<and> TF_5m \<notin> set normalized))
       (Exn ValueError ''open_interest requires the 5m timeframe'')) (\<lambda>_.
     Inr \<lparr>ic_instrument = inst, ic_exchange_symbol = im_exchange_symbol metadata,
          ic_enabled = enabled, ic_canonical_timeframes = normalized,
          ic_history_policy = policy, ic_open_interest = oi\<rparr>)))))"

definition stream_keys :: "instrument_coverage \<Rightarrow> stream_key list" where
  "stream_keys c = map (StreamKey (ic_instrument c)) (ic_canonical_timeframes c)"

definition coverage_open_interest_streams :: "instrument_coverage \<Rightarrow> stream_key list" where
  "coverage_open_interest_streams c =
     (if ic_open_interest c then [StreamKey (ic_instrument c) TF_5m] else [])"

record exchange_spec =
  es_instrument :: instrument_key
  es_exchange_symbol :: string
  es_category :: string
  es_contract_type :: string
  es_status :: string
  es_settle_coin :: string
  es_launch_time_ms :: int

definition mk_exchange_spec :: "exchange_spec \<Rightarrow> exchange_spec res" where
  "mk_exchange_spec s =
     (let sym = py_upper (py_strip (es_exchange_symbol s));
          cat = py_lower (py_strip (es_category s));
          con = py_strip (es_contract_type s);
          sta = py_strip (es_status s);
          coin = py_upper (py_strip (es_settle_coin s))
      in bindR (guardR (sym \<noteq> []) (Exn ValueError ''exchange_symbol must not be empty'')) (\<lambda>_.
         bindR (guardR (cat \<noteq> []) (Exn ValueError ''category must not be empty'')) (\<lambda>_.
         bindR (guardR (con \<noteq> []) (Exn ValueError ''contract_type must not be empty'')) (\<lambda>_.
         bindR (guardR (sta \<noteq> []) (Exn ValueError ''status must not be empty'')) (\<lambda>_.
         bindR (guardR (coin \<noteq> []) (Exn ValueError ''settle_coin must not be empty'')) (\<lambda>_.
         bindR (guardR (0 \<le> es_launch_time_ms s)
           (Exn ValueError ''launch_time_ms must be non-negative'')) (\<lambda>_.
         Inr (s\<lparr>es_exchange_symbol := sym, es_category := cat, es_contract_type := con,
                es_status := sta, es_settle_coin := coin\<rparr>))))))))"

section \<open>Lemmas\<close>

named_theorems grid_simps \<open>grid arithmetic on a positive step\<close>

lemma tf_spec_valid: "timeframe_spec_valid (tf_spec t)"
  by (cases t) (simp_all add: timeframe_spec_valid_def)

lemma stream_step_pos [simp]: "0 < stream_step s"
  using tf_spec_valid by (simp add: stream_step_def timeframe_spec_valid_def)

lemma stream_step_nonzero [simp]: "stream_step s \<noteq> 0" "0 \<le> stream_step s" "\<not> stream_step s \<le> 0"
  using stream_step_pos [of s] by linarith+

lemma tf_id_inj: "tf_id a = tf_id b \<Longrightarrow> a = b"
  by (cases a; cases b) (simp_all add: tf_id_def)

lemma get_timeframe_id [simp]: "get_timeframe (tf_id t) = Inr t"
  by (cases t; simp only:; code_simp)

lemma mk_stream_key_id [simp]: "mk_stream_key i (tf_id t) = Inr (StreamKey i t)"
  by (simp add: mk_stream_key_def)

lemma align_to_grid_pos [simp]: "0 < step \<Longrightarrow> align_to_grid t step = Inr (t - t mod step)"
  by (simp add: align_to_grid_def)

lemma aligned_mod [simp]: "(t - t mod step) mod step = (0::int)"
  by (simp add: minus_mod_eq_mult_div)

lemma aligned_diff_dvd: "a mod s = 0 \<Longrightarrow> b mod s = 0 \<Longrightarrow> (s::int) dvd b - a"
  by (simp add: mod_eq_0_iff_dvd)

lemma aligned_less_step: "0 < s \<Longrightarrow> a mod s = 0 \<Longrightarrow> b mod s = 0 \<Longrightarrow> a < b \<Longrightarrow> a + s \<le> (b::int)"
  using zdvd_imp_le [OF aligned_diff_dvd, of a s b] by linarith

lemma last_closed_pos [simp]:
  "0 < step \<Longrightarrow> last_closed_open_time_ms t step = Inr (t - t mod step - step)"
  by (simp add: last_closed_open_time_ms_def)

lemma mk_time_window_eq [simp]: "mk_time_window s e = Inr w \<longleftrightarrow> s < e \<and> w = TimeWindow s e"
  by (auto simp: mk_time_window_def)

text \<open>
  Grid arithmetic: for a positive step, \<open>align_to_grid\<close> is the greatest grid point not
  after the timestamp, \<open>ceil_to_grid\<close> the least one not before it, and
  \<open>last_closed_open_time_ms\<close> the open time of the latest candle whose interval has ended.
\<close>

theorem grid_functions_spec:
  assumes "0 < step"
  shows "\<exists>a c l. align_to_grid t step = Inr a \<and> ceil_to_grid t step = Inr c \<and>
     last_closed_open_time_ms t step = Inr l \<and>
     a mod step = 0 \<and> a \<le> t \<and> t < a + step \<and>
     c mod step = 0 \<and> t \<le> c \<and> c < t + step \<and>
     l mod step = 0 \<and> l + step \<le> t \<and> t < l + 2 * step"
proof -
  define r where "r = t mod step"
  have b: "0 \<le> r" "r < step" using assms by (simp_all add: r_def)
  have m: "(t - r + step) mod step = 0" "(t - r - step) mod step = 0" "(t - r) mod step = 0"
    by (simp_all add: r_def minus_mod_eq_mult_div)
  have "ceil_to_grid t step = Inr (if r = 0 then t - r else t - r + step)"
    using assms by (auto simp: ceil_to_grid_def r_def)
  with b m assms show ?thesis by (simp add: r_def [symmetric])
qed

theorem grid_functions_spec_witness:
  "\<exists>a c l. align_to_grid 125000 60000 = Inr a \<and> ceil_to_grid 125000 60000 = Inr c \<and>
     last_closed_open_time_ms 125000 60000 = Inr l \<and>
     a mod 60000 = 0 \<and> a \<le> 125000 \<and> 125000 < a + 60000 \<and>
     c mod 60000 = 0 \<and> 125000 \<le> c \<and> c < 125000 + 60000 \<and>
     l mod 60000 = 0 \<and> l + 60000 \<le> 125000 \<and> 125000 < l + 2 * 60000"
  using grid_functions_spec [of 60000 125000] by simp

lemma mk_instrument_coverage_wf:
  assumes "mk_instrument_coverage i xs en tfs pol oi = Inr c"
  shows "distinct (stream_keys c)" "stream_keys c \<noteq> []"
    "set (coverage_open_interest_streams c) \<subseteq> set (stream_keys c)" "ic_instrument c = i"
  using assms
  by (auto simp: mk_instrument_coverage_def stream_keys_def distinct_map inj_on_def mapR_eq_Inr
      coverage_open_interest_streams_def)

end
