(* ===== verification/Gaps.thy ===== *)
theory Gaps
  imports Timeframes
begin

text \<open>
  domain/gaps.py and domain/continuity.py: detection of missing grid intervals, their split
  into bounded fetch windows, and the continuity report of an audit. A set of timestamps is
  the list the caller passes; only membership is used.
\<close>

section \<open>gaps.py\<close>

datatype gap = Gap (gap_start_ms: int) (gap_end_ms: int)

definition mk_gap :: "int \<Rightarrow> int \<Rightarrow> gap res" where
  "mk_gap s e =
     (if s \<ge> e then Inl (Exn ValueError ''gap must satisfy start_ms < end_ms'') else Inr (Gap s e))"

definition gap_window :: "gap \<Rightarrow> time_window res" where
  "gap_window g = mk_time_window (gap_start_ms g) (gap_end_ms g)"

instantiation gap :: linorder
begin

definition less_eq_gap :: "gap \<Rightarrow> gap \<Rightarrow> bool" where
  "less_eq_gap a b \<longleftrightarrow>
     gap_start_ms a < gap_start_ms b \<or> gap_start_ms a = gap_start_ms b \<and> gap_end_ms a \<le> gap_end_ms b"

definition less_gap :: "gap \<Rightarrow> gap \<Rightarrow> bool" where
  "less_gap a b \<longleftrightarrow>
     gap_start_ms a < gap_start_ms b \<or> gap_start_ms a = gap_start_ms b \<and> gap_end_ms a < gap_end_ms b"

instance
  by standard (auto simp: less_eq_gap_def less_gap_def intro: gap.expand)

end

text \<open>The \<open>while cursor < audit_window.end_ms\<close> loop. The guard \<open>0 < step\<close> is the check
  \<open>find_gaps\<close> makes before the loop.\<close>

function scan_gaps :: "int list \<Rightarrow> int \<Rightarrow> int \<Rightarrow> int option \<Rightarrow> int \<Rightarrow> (int \<times> int) list" where
  "scan_gaps observed step e gap_start cursor =
     (if 0 < step \<and> cursor < e
      then if cursor \<notin> set observed
           then scan_gaps observed step e
                  (case gap_start of None \<Rightarrow> Some cursor | Some g \<Rightarrow> Some g) (cursor + step)
           else (case gap_start of
                   Some g \<Rightarrow> (g, cursor) # scan_gaps observed step e None (cursor + step)
                 | None \<Rightarrow> scan_gaps observed step e None (cursor + step))
      else (case gap_start of Some g \<Rightarrow> [(g, e)] | None \<Rightarrow> []))"
  by pat_completeness auto
termination
  by (relation "measure (\<lambda>(observed, step, e, gap_start, cursor). nat (e - cursor))") auto

declare scan_gaps.simps [simp del]

definition find_gaps :: "int list \<Rightarrow> time_window \<Rightarrow> int \<Rightarrow> gap list res" where
  "find_gaps observed_open_times_ms audit_window step_ms =
     bindR (guardR (0 < step_ms) (Exn ValueError ''step_ms must be positive'')) (\<lambda>_.
     bindR (guardR (start_ms audit_window mod step_ms = 0 \<and> end_ms audit_window mod step_ms = 0)
       (Exn ValueError ''audit window must be aligned to step_ms'')) (\<lambda>_.
     let observed = filter (window_contains audit_window) observed_open_times_ms;
         misaligned = filter (\<lambda>v. v mod step_ms \<noteq> 0) observed
     in if misaligned \<noteq> []
        then Inl (Exn ValueError (''observed timestamps are off-grid: ''
               @ py_int_list_repr (take 3 (sort (remdups misaligned)))))
        else mapR (\<lambda>(s, e). mk_gap s e)
               (scan_gaps observed step_ms (end_ms audit_window) None (start_ms audit_window))))"

function fetch_windows_loop :: "int \<Rightarrow> int \<Rightarrow> int \<Rightarrow> (int \<times> int) list" where
  "fetch_windows_loop max_span e cursor =
     (if 0 < max_span \<and> cursor < e
      then (let end_ms = min (cursor + max_span) e
            in (cursor, end_ms) # fetch_windows_loop max_span e end_ms)
      else [])"
  by pat_completeness auto
termination
  by (relation "measure (\<lambda>(max_span, e, cursor). nat (e - cursor))") auto

declare fetch_windows_loop.simps [simp del]

definition iter_fetch_windows :: "gap \<Rightarrow> int \<Rightarrow> int \<Rightarrow> time_window list res" where
  "iter_fetch_windows g step_ms max_candles =
     bindR (guardR (0 < step_ms) (Exn ValueError ''step_ms must be positive'')) (\<lambda>_.
     bindR (guardR (0 < max_candles) (Exn ValueError ''max_candles must be positive'')) (\<lambda>_.
     bindR (guardR (gap_start_ms g mod step_ms = 0 \<and> gap_end_ms g mod step_ms = 0)
       (Exn ValueError ''gap must be aligned to step_ms'')) (\<lambda>_.
     mapR (\<lambda>(s, e). mk_time_window s e)
       (fetch_windows_loop (step_ms * max_candles) (gap_end_ms g) (gap_start_ms g)))))"

section \<open>continuity.py\<close>

record continuity_report =
  cr_stream :: stream_key
  cr_checked_start_ms :: int
  cr_checked_end_ms :: int
  cr_candle_count :: int
  cr_is_continuous :: bool
  cr_gaps :: "gap list"

definition build_continuity_report ::
  "stream_key \<Rightarrow> time_window \<Rightarrow> int list \<Rightarrow> int \<Rightarrow> continuity_report res" where
  "build_continuity_report stream audit_window observed_open_times_ms step_ms =
     (if observed_open_times_ms = []
      then bindR (mk_gap (start_ms audit_window) (end_ms audit_window)) (\<lambda>g.
             Inr \<lparr>cr_stream = stream, cr_checked_start_ms = start_ms audit_window,
                  cr_checked_end_ms = end_ms audit_window, cr_candle_count = 0,
                  cr_is_continuous = False, cr_gaps = [g]\<rparr>)
      else bindR (find_gaps observed_open_times_ms audit_window step_ms) (\<lambda>gaps.
             Inr \<lparr>cr_stream = stream, cr_checked_start_ms = start_ms audit_window,
                  cr_checked_end_ms = end_ms audit_window,
                  cr_candle_count = int (length (remdups observed_open_times_ms)),
                  cr_is_continuous = (gaps = []), cr_gaps = gaps\<rparr>))"

section \<open>Gap detection is exact\<close>

text \<open>The state of the scan: where its open gap starts, and that nothing was observed since.\<close>

definition scan_from :: "int option \<Rightarrow> int \<Rightarrow> int" where
  "scan_from gs c = (case gs of None \<Rightarrow> c | Some g \<Rightarrow> g)"

definition scan_ok :: "int list \<Rightarrow> int \<Rightarrow> int \<Rightarrow> int option \<Rightarrow> int \<Rightarrow> bool" where
  "scan_ok observed step e gs c \<longleftrightarrow>
     0 < step \<and> c mod step = 0 \<and> e mod step = 0 \<and> c \<le> e \<and>
     (\<forall>g. gs = Some g \<longrightarrow>
        g mod step = 0 \<and> g < c \<and>
        (\<forall>t. t mod step = 0 \<longrightarrow> g \<le> t \<longrightarrow> t < c \<longrightarrow> t \<notin> set observed))"

lemma grid_between:
  "0 < step \<Longrightarrow> c mod step = 0 \<Longrightarrow> t mod step = 0 \<Longrightarrow> t < c + step \<Longrightarrow> t < c \<or> t = (c::int)"
  using aligned_less_step [of step c t] by linarith

lemma scan_ok_step: "scan_ok observed step e gs c \<Longrightarrow> 0 < step"
  by (simp add: scan_ok_def)

lemma scan_ok_next:
  assumes "scan_ok observed step e gs c" "c < e"
  shows "c \<notin> set observed \<Longrightarrow> scan_ok observed step e (Some (scan_from gs c)) (c + step)"
    and "scan_ok observed step e None (c + step)"
proof -
  have c: "0 < step" "c mod step = 0" "e mod step = 0" using assms by (auto simp only: scan_ok_def)
  have ce: "c + step \<le> e" "(c + step) mod step = 0"
    using aligned_less_step [of step c e] c assms(2) by simp_all
  show "scan_ok observed step e None (c + step)"
    using c ce by (simp add: scan_ok_def)
  assume miss: "c \<notin> set observed"
  have g: "scan_from gs c mod step = 0" "scan_from gs c < c + step"
    using assms(1) c by (cases gs; simp add: scan_ok_def scan_from_def)+
  have "t \<notin> set observed" if t: "t mod step = 0" "scan_from gs c \<le> t" "t < c + step" for t
  proof -
    have "t < c \<or> t = c" using grid_between [OF c(1,2) t(1,3)] .
    then show ?thesis using miss t assms(1) by (cases gs) (auto simp: scan_ok_def scan_from_def)
  qed
  with g c ce show "scan_ok observed step e (Some (scan_from gs c)) (c + step)"
    by (auto simp: scan_ok_def)
qed

lemma scan_gaps_done: "\<not> c < e \<Longrightarrow> scan_gaps observed step e gs c = (case gs of Some g \<Rightarrow> [(g, e)] | None \<Rightarrow> [])"
  by (simp add: scan_gaps.simps [of observed step e gs c])

lemma scan_gaps_missing:
  "0 < step \<Longrightarrow> c < e \<Longrightarrow> c \<notin> set observed \<Longrightarrow>
   scan_gaps observed step e gs c = scan_gaps observed step e (Some (scan_from gs c)) (c + step)"
  by (cases gs) (simp_all add: scan_gaps.simps [where cursor = c] scan_from_def)

lemma scan_gaps_seen:
  "0 < step \<Longrightarrow> c < e \<Longrightarrow> c \<in> set observed \<Longrightarrow>
   scan_gaps observed step e gs c =
     (case gs of Some g \<Rightarrow> [(g, c)] | None \<Rightarrow> []) @ scan_gaps observed step e None (c + step)"
  by (cases gs) (simp_all add: scan_gaps.simps [where cursor = c])

lemma scan_induct [consumes 1, case_names finished missing seen]:
  assumes ok: "scan_ok observed step e gs c"
    and finished: "\<And>gs c. scan_ok observed step e gs c \<Longrightarrow> c = e \<Longrightarrow> P gs c"
    and missing: "\<And>gs c. scan_ok observed step e gs c \<Longrightarrow> c < e \<Longrightarrow> c \<notin> set observed \<Longrightarrow>
      P (Some (scan_from gs c)) (c + step) \<Longrightarrow> P gs c"
    and seen: "\<And>gs c. scan_ok observed step e gs c \<Longrightarrow> c < e \<Longrightarrow> c \<in> set observed \<Longrightarrow>
      scan_ok observed step e None (c + step) \<Longrightarrow> P None (c + step) \<Longrightarrow> P gs c"
  shows "P gs c"
  using ok
proof (induction "nat (e - c)" arbitrary: gs c rule: less_induct)
  case less
  have step: "0 < step" using less.prems by (rule scan_ok_step)
  show ?case
  proof (cases "c < e")
    case True
    then have "nat (e - (c + step)) < nat (e - c)" using step by simp
    with less scan_ok_next [OF less.prems True] True show ?thesis
      by (cases "c \<in> set observed") (blast intro: missing seen)+
  next
    case False
    with less.prems show ?thesis by (intro finished) (auto simp: scan_ok_def)
  qed
qed

lemma scan_gaps_bounds:
  assumes "scan_ok observed step e gs c" "p \<in> set (scan_gaps observed step e gs c)"
  shows "fst p < snd p \<and> fst p mod step = 0 \<and> snd p mod step = 0 \<and> scan_from gs c \<le> fst p \<and> snd p \<le> e"
  using assms
proof (induction rule: scan_induct)
  case (finished gs c)
  then show ?case by (auto simp: scan_gaps_done scan_ok_def scan_from_def split: option.splits)
next
  case (missing gs c)
  then show ?case by (simp add: scan_gaps_missing scan_ok_step scan_from_def)
next
  case (seen gs c)
  then show ?case
    by (cases gs) (auto simp: scan_gaps_seen scan_ok_def scan_from_def)
qed

lemma scan_gaps_after:
  assumes "scan_ok observed step e None (c + step)" "q \<in> set (scan_gaps observed step e None (c + step))"
  shows "c < fst q"
  using scan_gaps_bounds [OF assms] assms(1) by (simp add: scan_from_def scan_ok_def)

lemma scan_gaps_separated:
  assumes "scan_ok observed step e gs c"
  shows "sorted_wrt (\<lambda>p q. snd p < fst q) (scan_gaps observed step e gs c)"
  using assms
proof (induction rule: scan_induct)
  case (finished gs c)
  then show ?case by (auto simp: scan_gaps_done split: option.splits)
next
  case (missing gs c)
  then show ?case by (simp add: scan_gaps_missing scan_ok_step)
next
  case (seen gs c)
  then show ?case by (cases gs) (auto simp: scan_gaps_seen scan_ok_step dest: scan_gaps_after)
qed

lemma scan_gaps_exact:
  assumes "scan_ok observed step e gs c" "t mod step = 0" "scan_from gs c \<le> t" "t < e"
  shows "t \<notin> set observed \<longleftrightarrow> (\<exists>p \<in> set (scan_gaps observed step e gs c). fst p \<le> t \<and> t < snd p)"
  using assms
proof (induction rule: scan_induct)
  case (finished gs c)
  then show ?case by (auto simp: scan_gaps_done scan_ok_def scan_from_def split: option.splits)
next
  case (missing gs c)
  then show ?case by (simp add: scan_gaps_missing scan_ok_step scan_from_def)
next
  case (seen gs c)
  have rest: "c < fst q" if "q \<in> set (scan_gaps observed step e None (c + step))" for q
    using scan_gaps_after that seen.hyps(4) by blast
  have "c mod step = 0" "0 < step" using seen.hyps(1) by (simp_all add: scan_ok_def)
  then consider (before) "t < c" | (at) "t = c" | (after) "c + step \<le> t"
    using grid_between [of step c t] seen.prems(1) by linarith
  then show ?case
  proof cases
    case before
    then obtain g where gs: "gs = Some g" using seen.prems(2) by (cases gs) (auto simp: scan_from_def)
    with before seen have "t \<notin> set observed" by (auto simp: scan_ok_def scan_from_def)
    with gs before seen show ?thesis by (auto simp: scan_gaps_seen scan_ok_step scan_from_def)
  next
    case at
    have eq: "scan_gaps observed step e gs c =
        (case gs of Some g \<Rightarrow> [(g, c)] | None \<Rightarrow> []) @ scan_gaps observed step e None (c + step)"
      using seen.hyps by (simp add: scan_gaps_seen scan_ok_step)
    show ?thesis
      using rest seen.hyps(3) unfolding eq at by (cases gs) (auto simp: not_le)
  next
    case after
    then have "\<not> t < c" using \<open>0 < step\<close> by linarith
    with after seen show ?thesis
      by (cases gs) (auto simp: scan_gaps_seen scan_ok_step scan_from_def)
  qed
qed


lemma find_gaps_eq:
  assumes "0 < step" "start_ms w mod step = 0" "end_ms w mod step = 0"
    "\<forall>t \<in> set observed. window_contains w t \<longrightarrow> t mod step = 0"
    "start_ms w \<le> end_ms w"
  shows "find_gaps observed w step =
     Inr (map (\<lambda>p. Gap (fst p) (snd p))
       (scan_gaps (filter (window_contains w) observed) step (end_ms w) None (start_ms w)))"
proof -
  let ?obs = "filter (window_contains w) observed"
  let ?gs = "scan_gaps ?obs step (end_ms w) None (start_ms w)"
  have ok: "scan_ok ?obs step (end_ms w) None (start_ms w)"
    using assms by (simp add: scan_ok_def)
  have "mapR (\<lambda>(s, e). mk_gap s e) ps = Inr (map (\<lambda>p. Gap (fst p) (snd p)) ps)"
    if "\<forall>p \<in> set ps. fst p < snd p" for ps
    using that by (induction ps) (auto simp: mk_gap_def)
  then have "mapR (\<lambda>(s, e). mk_gap s e) ?gs = Inr (map (\<lambda>p. Gap (fst p) (snd p)) ?gs)"
    using scan_gaps_bounds [OF ok] by blast
  with assms show ?thesis
    by (auto simp: find_gaps_def Let_def filter_empty_conv)
qed

lemma find_gaps_exactly:
  assumes "0 < step" "start_ms w mod step = 0" "end_ms w mod step = 0" "start_ms w < end_ms w"
    and "\<forall>t \<in> set observed. window_contains w t \<longrightarrow> t mod step = 0"
  shows "\<exists>gs. find_gaps observed w step = Inr gs \<and>
     sorted_wrt (\<lambda>a b. gap_end_ms a < gap_start_ms b) gs \<and>
     (\<forall>g \<in> set gs. start_ms w \<le> gap_start_ms g \<and> gap_start_ms g < gap_end_ms g \<and>
        gap_end_ms g \<le> end_ms w \<and> gap_start_ms g mod step = 0 \<and> gap_end_ms g mod step = 0) \<and>
     (\<forall>t. window_contains w t \<longrightarrow> t mod step = 0 \<longrightarrow>
        (t \<notin> set observed \<longleftrightarrow> (\<exists>g \<in> set gs. gap_start_ms g \<le> t \<and> t < gap_end_ms g)))"
proof -
  let ?obs = "filter (window_contains w) observed"
  let ?gs = "scan_gaps ?obs step (end_ms w) None (start_ms w)"
  have ok: "scan_ok ?obs step (end_ms w) None (start_ms w)"
    using assms by (simp add: scan_ok_def)
  have eq: "find_gaps observed w step = Inr (map (\<lambda>p. Gap (fst p) (snd p)) ?gs)"
    using assms by (intro find_gaps_eq) simp_all
  have sep: "sorted_wrt (\<lambda>a b. gap_end_ms a < gap_start_ms b) (map (\<lambda>p. Gap (fst p) (snd p)) ?gs)"
    using scan_gaps_separated [OF ok] by (simp add: sorted_wrt_map)
  show ?thesis
    unfolding eq
    using sep scan_gaps_bounds [OF ok] scan_gaps_exact [OF ok]
    by (auto simp: scan_from_def window_contains_def)
qed

text \<open>
  C18. \<open>find_gaps\<close> is exact. On an aligned window whose observed timestamps are on the grid it
  returns, in order, gaps that are non-empty, aligned, inside the window and pairwise
  separated by at least one observed candle, and a grid point of the window lies in a gap
  exactly when it was not observed.
\<close>

theorem find_gaps_exact:
  assumes "0 < step" "start_ms w mod step = 0" "end_ms w mod step = 0" "start_ms w < end_ms w"
    and "\<forall>t \<in> set observed. window_contains w t \<longrightarrow> t mod step = 0"
  shows "\<exists>gs. find_gaps observed w step = Inr gs \<and>
     sorted_wrt (\<lambda>a b. gap_end_ms a < gap_start_ms b) gs \<and>
     (\<forall>g \<in> set gs. start_ms w \<le> gap_start_ms g \<and> gap_start_ms g < gap_end_ms g \<and>
        gap_end_ms g \<le> end_ms w \<and> gap_start_ms g mod step = 0 \<and> gap_end_ms g mod step = 0) \<and>
     (\<forall>t. window_contains w t \<longrightarrow> t mod step = 0 \<longrightarrow>
        (t \<notin> set observed \<longleftrightarrow> (\<exists>g \<in> set gs. gap_start_ms g \<le> t \<and> t < gap_end_ms g)))"
  using assms by (rule find_gaps_exactly)

theorem find_gaps_exact_witness:
  "\<exists>gs. find_gaps [60000, 240000] (TimeWindow 0 360000) 60000 = Inr gs \<and>
     sorted_wrt (\<lambda>a b. gap_end_ms a < gap_start_ms b) gs \<and>
     (\<forall>t. window_contains (TimeWindow 0 360000) t \<longrightarrow> t mod 60000 = 0 \<longrightarrow>
        (t \<notin> set [60000, 240000] \<longleftrightarrow> (\<exists>g \<in> set gs. gap_start_ms g \<le> t \<and> t < gap_end_ms g)))"
  using find_gaps_exact [of 60000 "TimeWindow 0 360000" "[60000, 240000]"] by auto

text \<open>The error branches: what makes \<open>find_gaps\<close> raise, and nothing else does.\<close>

lemma find_gaps_raises_iff:
  "(\<exists>e. find_gaps observed w step = Inl e) \<longleftrightarrow>
     step \<le> 0 \<or> start_ms w mod step \<noteq> 0 \<or> end_ms w mod step \<noteq> 0 \<or>
     (\<exists>t \<in> set observed. window_contains w t \<and> t mod step \<noteq> 0)"
proof (cases "0 < step \<and> start_ms w mod step = 0 \<and> end_ms w mod step = 0 \<and>
    \<not> (\<exists>t \<in> set observed. window_contains w t \<and> t mod step \<noteq> 0)")
  case True
  show ?thesis
  proof (cases "start_ms w \<le> end_ms w")
    case le: True
    show ?thesis using True le by (subst find_gaps_eq) auto
  next
    case False
    with True show ?thesis
      by (auto simp: find_gaps_def Let_def filter_empty_conv scan_gaps_done)
  qed
next
  case False
  then show ?thesis
    by (auto simp: find_gaps_def Let_def filter_empty_conv guardR_def)
qed

section \<open>Bounded fetch windows\<close>

text \<open>\<open>tiles a ps b\<close>: the intervals \<open>ps\<close> are non-empty and follow each other from \<open>a\<close> to \<open>b\<close>.\<close>

fun tiles :: "int \<Rightarrow> time_window list \<Rightarrow> int \<Rightarrow> bool" where
  "tiles a [] b \<longleftrightarrow> a = b"
| "tiles a (w # ws) b \<longleftrightarrow> start_ms w = a \<and> a < end_ms w \<and> tiles (end_ms w) ws b"

lemma tiles_le: "tiles a ws b \<Longrightarrow> a \<le> b"
  by (induction ws arbitrary: a) fastforce+

lemma tiles_cover:
  "tiles a ws b \<Longrightarrow> a \<le> t \<Longrightarrow> t < b \<Longrightarrow> \<exists>!w. w \<in> set ws \<and> window_contains w t"
proof (induction ws arbitrary: a)
  case (Cons w ws)
  have out: "\<not> window_contains v t" if "v \<in> set ws" "t < end_ms w" for v
  proof -
    have "tiles s vs b \<Longrightarrow> v \<in> set vs \<Longrightarrow> s \<le> start_ms v" for s vs
      by (induction vs arbitrary: s) fastforce+
    with Cons.prems that show ?thesis by (fastforce simp: window_contains_def)
  qed
  show ?case
  proof (cases "t < end_ms w")
    case True
    with Cons.prems out show ?thesis by (auto simp: window_contains_def intro!: ex1I [of _ w])
  next
    case False
    with Cons.IH [of "end_ms w"] Cons.prems show ?thesis by (auto simp: window_contains_def)
  qed
qed simp

lemma fetch_windows_loop_spec:
  assumes "0 < k" "0 < step" "c \<le> e" "c mod step = 0" "e mod step = 0"
  shows "\<exists>ws. mapR (\<lambda>(s, e). mk_time_window s e) (fetch_windows_loop (step * k) e c) = Inr ws \<and>
     tiles c ws e \<and>
     (\<forall>w \<in> set ws. window_duration_ms w \<le> step * k \<and> start_ms w mod step = 0 \<and> end_ms w mod step = 0) \<and>
     (\<forall>w \<in> set (butlast ws). window_duration_ms w = step * k)"
  using assms(3,4)
proof (induction "nat (e - c)" arbitrary: c rule: less_induct)
  case less
  have pos: "0 < step * k" using assms by simp
  show ?case
  proof (cases "c < e")
    case True
    let ?c = "min (c + step * k) e"
    have c': "c < ?c" "?c \<le> e" "?c mod step = 0"
      using True pos less.prems assms(5) by (auto simp: min_def)
    then obtain ws where ws: "mapR (\<lambda>(s, e). mk_time_window s e) (fetch_windows_loop (step * k) e ?c) = Inr ws"
      "tiles ?c ws e"
      "\<forall>w \<in> set ws. window_duration_ms w \<le> step * k \<and> start_ms w mod step = 0 \<and> end_ms w mod step = 0"
      "\<forall>w \<in> set (butlast ws). window_duration_ms w = step * k"
      using less.hyps [of ?c] True by auto
    have eq: "fetch_windows_loop (step * k) e c = (c, ?c) # fetch_windows_loop (step * k) e ?c"
      using True pos by (simp add: fetch_windows_loop.simps [of _ e c] Let_def)
    have full: "window_duration_ms (TimeWindow c ?c) = step * k" if ne: "ws \<noteq> []"
    proof -
      obtain v vs where "ws = v # vs" using ne by (cases ws) auto
      with ws(2) have "?c < e" using tiles_le [of "end_ms v" vs e] by auto
      then show ?thesis by (auto simp: window_duration_ms_def)
    qed
    have "mk_time_window c ?c = Inr (TimeWindow c ?c)" using c'(1) by (simp only: mk_time_window_eq)
    with eq ws full c' less.prems show ?thesis
      by (intro exI [of _ "TimeWindow c ?c # ws"]) (auto simp: window_duration_ms_def)
  next
    case False
    with less.prems show ?thesis
      by (intro exI [of _ "[]"]) (simp add: fetch_windows_loop.simps [of _ e e])
  qed
qed

text \<open>
  C33. \<open>iter_fetch_windows\<close> terminates on every aligned gap with windows that tile it exactly:
  they follow each other without hole or overlap, are aligned, hold at most
  \<open>max_candles\<close> candles each, and all but the last hold exactly that many.
\<close>

theorem iter_fetch_windows_tile:
  assumes "0 < step" "0 < max_candles" "gap_start_ms g mod step = 0" "gap_end_ms g mod step = 0"
    and "gap_start_ms g < gap_end_ms g"
  shows "\<exists>ws. iter_fetch_windows g step max_candles = Inr ws \<and>
     tiles (gap_start_ms g) ws (gap_end_ms g) \<and>
     (\<forall>w \<in> set ws. window_duration_ms w \<le> step * max_candles \<and>
        start_ms w mod step = 0 \<and> end_ms w mod step = 0) \<and>
     (\<forall>w \<in> set (butlast ws). window_duration_ms w = step * max_candles)"
  using fetch_windows_loop_spec [of max_candles step "gap_start_ms g" "gap_end_ms g"] assms
  by (simp add: iter_fetch_windows_def)

theorem iter_fetch_windows_tile_witness:
  "\<exists>ws. iter_fetch_windows (Gap 0 420000) 60000 3 = Inr ws \<and> tiles 0 ws 420000 \<and>
     (\<forall>w \<in> set (butlast ws). window_duration_ms w = 180000)"
  using iter_fetch_windows_tile [of 60000 3 "Gap 0 420000"] by auto

section \<open>The continuity report\<close>

lemma no_gaps_iff_all_observed:
  assumes "0 < step" "start_ms w mod step = 0" "end_ms w mod step = 0" "start_ms w < end_ms w"
    "find_gaps observed w step = Inr gs"
  shows "gs = [] \<longleftrightarrow> (\<forall>t. window_contains w t \<longrightarrow> t mod step = 0 \<longrightarrow> t \<in> set observed)"
proof -
  have "\<forall>t \<in> set observed. window_contains w t \<longrightarrow> t mod step = 0"
    using find_gaps_raises_iff [of observed w step] assms by auto
  then obtain gs' where gs': "find_gaps observed w step = Inr gs'"
    "\<forall>g \<in> set gs'. start_ms w \<le> gap_start_ms g \<and> gap_start_ms g < gap_end_ms g \<and>
        gap_end_ms g \<le> end_ms w \<and> gap_start_ms g mod step = 0 \<and> gap_end_ms g mod step = 0"
    "\<forall>t. window_contains w t \<longrightarrow> t mod step = 0 \<longrightarrow>
        (t \<notin> set observed \<longleftrightarrow> (\<exists>g \<in> set gs'. gap_start_ms g \<le> t \<and> t < gap_end_ms g))"
    using find_gaps_exactly [OF assms(1-4)] by blast
  have [simp]: "gs' = gs" using gs'(1) assms(5) by simp
  show ?thesis
  proof
    assume all: "\<forall>t. window_contains w t \<longrightarrow> t mod step = 0 \<longrightarrow> t \<in> set observed"
    show "gs = []"
    proof (rule ccontr)
      assume "gs \<noteq> []"
      then obtain g where g: "g \<in> set gs" by (cases gs) auto
      then have "window_contains w (gap_start_ms g)" "gap_start_ms g mod step = 0"
        using gs'(2) by (auto simp: window_contains_def)
      with g gs'(2,3) all show False by fastforce
    qed
  qed (use gs'(3) in auto)
qed

lemma continuity_report_exactly:
  assumes "0 < step" "start_ms w mod step = 0" "end_ms w mod step = 0" "start_ms w < end_ms w"
    and "build_continuity_report stream w observed step = Inr rep"
  shows "(cr_is_continuous rep \<longleftrightarrow>
       (\<forall>t. window_contains w t \<longrightarrow> t mod step = 0 \<longrightarrow> t \<in> set observed)) \<and>
     (cr_is_continuous rep \<longleftrightarrow> cr_gaps rep = []) \<and>
     cr_stream rep = stream \<and> cr_checked_start_ms rep = start_ms w \<and> cr_checked_end_ms rep = end_ms w \<and>
     cr_candle_count rep = int (card (set observed))"
proof (cases "observed = []")
  case True
  have "window_contains w (start_ms w)" using assms(4) by (simp add: window_contains_def)
  with True assms show ?thesis by (auto simp: build_continuity_report_def)
next
  case False
  then obtain gs where gs: "find_gaps observed w step = Inr gs"
    using assms(5) by (auto simp: build_continuity_report_def)
  with False assms(5) no_gaps_iff_all_observed [OF assms(1-4) gs] show ?thesis
    by (auto simp: build_continuity_report_def length_remdups_card_conv)
qed

lemma continuity_report_exact:
  assumes "0 < step" "start_ms w mod step = 0" "end_ms w mod step = 0" "start_ms w < end_ms w"
    and "build_continuity_report stream w observed step = Inr rep"
  shows "cr_is_continuous rep \<longleftrightarrow>
       (\<forall>t. window_contains w t \<longrightarrow> t mod step = 0 \<longrightarrow> t \<in> set observed)"
    "cr_is_continuous rep \<longleftrightarrow> cr_gaps rep = []"
  by (rule conjunct1 [OF continuity_report_exactly [OF assms]],
      rule conjunct1 [OF conjunct2 [OF continuity_report_exactly [OF assms]]])

text \<open>
  An audit window is reported continuous exactly when every candle of its grid was
  observed; the report is for the requested stream and window.
\<close>

theorem continuity_report_sound_complete:
  assumes "0 < step" "start_ms w mod step = 0" "end_ms w mod step = 0" "start_ms w < end_ms w"
    and "build_continuity_report stream w observed step = Inr rep"
  shows "(cr_is_continuous rep \<longleftrightarrow>
       (\<forall>t. window_contains w t \<longrightarrow> t mod step = 0 \<longrightarrow> t \<in> set observed)) \<and>
     (cr_is_continuous rep \<longleftrightarrow> cr_gaps rep = []) \<and>
     cr_stream rep = stream \<and> cr_checked_start_ms rep = start_ms w \<and> cr_checked_end_ms rep = end_ms w \<and>
     cr_candle_count rep = int (card (set observed))"
  using assms by (rule continuity_report_exactly)

definition continuity_example :: continuity_report where
  "continuity_example =
     \<lparr>cr_stream = StreamKey (InstrumentKey ''BTCUSDT.P'') TF_1m, cr_checked_start_ms = 0,
      cr_checked_end_ms = 180000, cr_candle_count = 2, cr_is_continuous = False,
      cr_gaps = [Gap 60000 120000]\<rparr>"

theorem continuity_report_sound_complete_witness:
  "build_continuity_report (StreamKey (InstrumentKey ''BTCUSDT.P'') TF_1m) (TimeWindow 0 180000)
       [0, 120000] 60000 = Inr continuity_example \<and>
   \<not> (\<forall>t. window_contains (TimeWindow 0 180000) t \<longrightarrow> t mod 60000 = 0 \<longrightarrow> t \<in> set [0, 120000])"
proof -
  have eq: "build_continuity_report (StreamKey (InstrumentKey ''BTCUSDT.P'') TF_1m)
      (TimeWindow 0 180000) [0, 120000] 60000 = Inr continuity_example"
    by code_simp
  with continuity_report_sound_complete
    [of 60000 "TimeWindow 0 180000" "StreamKey (InstrumentKey ''BTCUSDT.P'') TF_1m" "[0, 120000]"
      continuity_example]
  show ?thesis by (simp add: continuity_example_def)
qed

end
