(* ===== verification/Candles.thy ===== *)
theory Candles
  imports Decimals Timeframes
begin

text \<open>
  domain/candles.py, domain/classification.py, domain/candle\_validation.py,
  domain/candle\_comparison.py and domain/open\_interest.py: observations, the canonical rows
  they become, the validation of an observation and its classification against storage.
  The price and volume fields of a constructed candle are finite decimals, because
  \<open>__post_init__\<close> replaces each input by \<open>parse_decimal\<close> of it.
\<close>

section \<open>candles.py and classification.py\<close>

datatype observation_source = BYBIT_REST | BYBIT_WEBSOCKET

fun observation_source_value :: "observation_source \<Rightarrow> string" where
  "observation_source_value BYBIT_REST = ''bybit_rest''"
| "observation_source_value BYBIT_WEBSOCKET = ''bybit_websocket''"

record observed_candle =
  oc_stream :: stream_key
  oc_open_time_ms :: int
  oc_close_time_ms :: int
  oc_open :: decimal
  oc_high :: decimal
  oc_low :: decimal
  oc_close :: decimal
  oc_volume :: decimal
  oc_confirmed :: bool
  oc_observed_at_ms :: int
  oc_source :: observation_source

definition mk_observed_candle ::
  "stream_key \<Rightarrow> int \<Rightarrow> int \<Rightarrow> decimal_input \<Rightarrow> decimal_input \<Rightarrow> decimal_input \<Rightarrow> decimal_input \<Rightarrow>
   decimal_input \<Rightarrow> bool \<Rightarrow> int \<Rightarrow> observation_source \<Rightarrow> observed_candle res" where
  "mk_observed_candle stream ot ct op hi lo cl vol confirmed observed_at source =
     bindR (parse_decimal op) (\<lambda>op.
     bindR (parse_decimal hi) (\<lambda>hi.
     bindR (parse_decimal lo) (\<lambda>lo.
     bindR (parse_decimal cl) (\<lambda>cl.
     bindR (parse_decimal vol) (\<lambda>vol.
     Inr \<lparr>oc_stream = stream, oc_open_time_ms = ot, oc_close_time_ms = ct, oc_open = op,
          oc_high = hi, oc_low = lo, oc_close = cl, oc_volume = vol, oc_confirmed = confirmed,
          oc_observed_at_ms = observed_at, oc_source = source\<rparr>)))))"

record canonical_candle =
  cc_stream :: stream_key
  cc_open_time_ms :: int
  cc_close_time_ms :: int
  cc_open :: decimal
  cc_high :: decimal
  cc_low :: decimal
  cc_close :: decimal
  cc_volume :: decimal
  cc_source :: observation_source
  cc_committed_at_ms :: int

text \<open>\<open>decimal_to_canonical_text\<close> of a finite decimal, which cannot raise
  (\<open>decimal_text_total\<close> below).\<close>

definition dec_text :: "decimal \<Rightarrow> string" where
  "dec_text d = canonical_text (norm_zero d)"

type_synonym ohlcv = "string \<times> string \<times> string \<times> string \<times> string"

definition observed_ohlcv_text :: "observed_candle \<Rightarrow> ohlcv" where
  "observed_ohlcv_text c =
     (dec_text (oc_open c), dec_text (oc_high c), dec_text (oc_low c), dec_text (oc_close c),
      dec_text (oc_volume c))"

definition canonical_ohlcv_text :: "canonical_candle \<Rightarrow> ohlcv" where
  "canonical_ohlcv_text c =
     (dec_text (cc_open c), dec_text (cc_high c), dec_text (cc_low c), dec_text (cc_close c),
      dec_text (cc_volume c))"

text \<open>\<open>__post_init__\<close> of the new object parses each decimal again, which normalises a zero.\<close>

definition from_observation :: "observed_candle \<Rightarrow> int \<Rightarrow> canonical_candle" where
  "from_observation c committed_at_ms =
     \<lparr>cc_stream = oc_stream c, cc_open_time_ms = oc_open_time_ms c,
      cc_close_time_ms = oc_close_time_ms c, cc_open = norm_zero (oc_open c),
      cc_high = norm_zero (oc_high c), cc_low = norm_zero (oc_low c),
      cc_close = norm_zero (oc_close c), cc_volume = norm_zero (oc_volume c),
      cc_source = oc_source c, cc_committed_at_ms = committed_at_ms\<rparr>"

datatype ingestion_classification =
  COMMITTED | DUPLICATE | CORRECTED | REJECTED_INVALID | REJECTED_UNCONFIGURED | REJECTED_UNCONFIRMED

section \<open>candle\_validation.py\<close>

datatype candle_validation_code =
  UNCONFIRMED | NEGATIVE_TIMESTAMP | OFF_GRID_OPEN_TIME | INVALID_CLOSE_TIME | INVALID_OHLC
| NEGATIVE_VOLUME

fun validation_code_value :: "candle_validation_code \<Rightarrow> string" where
  "validation_code_value UNCONFIRMED = ''unconfirmed''"
| "validation_code_value NEGATIVE_TIMESTAMP = ''negative_timestamp''"
| "validation_code_value OFF_GRID_OPEN_TIME = ''off_grid_open_time''"
| "validation_code_value INVALID_CLOSE_TIME = ''invalid_close_time''"
| "validation_code_value INVALID_OHLC = ''invalid_ohlc''"
| "validation_code_value NEGATIVE_VOLUME = ''negative_volume''"

datatype candle_validation_issue =
  CandleValidationIssue (issue_code: candle_validation_code) (issue_detail: string)

definition dec_max :: "decimal \<Rightarrow> decimal \<Rightarrow> decimal" where
  "dec_max a b = (if dec_less a b then b else a)"

definition dec_min :: "decimal \<Rightarrow> decimal \<Rightarrow> decimal" where
  "dec_min a b = (if dec_less b a then b else a)"

definition issue_if :: "bool \<Rightarrow> candle_validation_code \<Rightarrow> string \<Rightarrow> candle_validation_issue list" where
  "issue_if b code detail = (if b then [CandleValidationIssue code detail] else [])"

definition validate_observed_candle :: "observed_candle \<Rightarrow> candle_validation_issue list" where
  "validate_observed_candle c =
     (let step = stream_step (oc_stream c);
          expected_close_time_ms = oc_open_time_ms c + step - 1
      in issue_if (\<not> oc_confirmed c) UNCONFIRMED ''candle is not closed''
       @ issue_if (oc_open_time_ms c < 0 \<or> oc_close_time_ms c < 0) NEGATIVE_TIMESTAMP
           ''open_time_ms and close_time_ms must be non-negative''
       @ issue_if (oc_open_time_ms c mod step \<noteq> 0) OFF_GRID_OPEN_TIME
           (''open_time_ms is not aligned to '' @ tf_id (sk_timeframe (oc_stream c)))
       @ issue_if (oc_close_time_ms c \<noteq> expected_close_time_ms) INVALID_CLOSE_TIME
           (''close_time_ms must equal '' @ py_int_str expected_close_time_ms)
       @ issue_if (dec_less (oc_high c) (dec_max (dec_max (oc_open c) (oc_close c)) (oc_low c)))
           INVALID_OHLC ''high must be greater than or equal to open, close, and low''
       @ issue_if (dec_less (dec_min (dec_min (oc_open c) (oc_close c)) (oc_high c)) (oc_low c))
           INVALID_OHLC ''low must be less than or equal to open, close, and high''
       @ issue_if (dec_less (oc_volume c) dec_zero) NEGATIVE_VOLUME ''volume must be non-negative'')"

section \<open>candle\_comparison.py\<close>

definition classify_against_existing ::
  "canonical_candle option \<Rightarrow> observed_candle \<Rightarrow> ingestion_classification res" where
  "classify_against_existing existing incoming =
     (case existing of
        None \<Rightarrow> Inr COMMITTED
      | Some e \<Rightarrow>
          if cc_stream e \<noteq> oc_stream incoming \<or> cc_open_time_ms e \<noteq> oc_open_time_ms incoming
            then Inl (Exn ValueError ''existing and incoming candle identities must match'')
          else if canonical_ohlcv_text e = observed_ohlcv_text incoming then Inr DUPLICATE
          else Inr CORRECTED)"

section \<open>open\_interest.py\<close>

definition OPEN_INTEREST_TRACK :: string where
  "OPEN_INTEREST_TRACK = ''open_interest''"

record observed_open_interest =
  oi_stream :: stream_key
  oi_open_time_ms :: int
  oi_open_interest :: decimal_input
  oi_observed_at_ms :: int

record canonical_open_interest =
  co_stream :: stream_key
  co_open_time_ms :: int
  co_open_interest :: string
  co_committed_at_ms :: int

record track_progress =
  tp_stream :: stream_key
  tp_track :: string
  tp_earliest_available_open_time_ms :: "int option"
  tp_discovery_next_open_time_ms :: "int option"
  tp_latest_committed_open_time_ms :: "int option"
  tp_last_audit_at_ms :: "int option"
  tp_last_audit_gap_count :: "int option"
  tp_last_success_at_ms :: "int option"
  tp_last_error_code :: "string option"
  tp_last_error_detail :: "string option"
  tp_updated_at_ms :: int

definition mk_track_progress :: "track_progress \<Rightarrow> track_progress res" where
  "mk_track_progress p =
     (if tp_earliest_available_open_time_ms p \<noteq> None \<and> tp_discovery_next_open_time_ms p \<noteq> None
      then Inl (Exn ValueError ''resolved lower bound cannot coexist with a discovery cursor'')
      else Inr p)"

definition open_interest_issue :: "observed_open_interest \<Rightarrow> string option" where
  "open_interest_issue p =
     (if sk_timeframe (oi_stream p) \<noteq> TF_5m then Some ''open_interest_timeframe''
      else if oi_open_time_ms p < 0 then Some ''open_interest_negative_time''
      else if oi_open_time_ms p mod stream_step (oi_stream p) \<noteq> 0 then Some ''open_interest_off_grid''
      else case parse_decimal (oi_open_interest p) of
             Inl e \<Rightarrow> Some ''invalid_open_interest''
           | Inr v \<Rightarrow> if dec_less v dec_zero then Some ''invalid_open_interest'' else None)"

definition mk_canonical_open_interest ::
  "observed_open_interest \<Rightarrow> int \<Rightarrow> canonical_open_interest res" where
  "mk_canonical_open_interest p committed_at_ms =
     bindR (decimal_to_canonical_text (oi_open_interest p)) (\<lambda>v.
       Inr \<lparr>co_stream = oi_stream p, co_open_time_ms = oi_open_time_ms p, co_open_interest = v,
            co_committed_at_ms = committed_at_ms\<rparr>)"

definition classify_open_interest ::
  "canonical_open_interest \<Rightarrow> canonical_open_interest option \<Rightarrow> ingestion_classification" where
  "classify_open_interest incoming existing =
     (case existing of
        None \<Rightarrow> COMMITTED
      | Some e \<Rightarrow> if co_open_interest e = co_open_interest incoming then DUPLICATE else CORRECTED)"

section \<open>Lemmas\<close>

lemma decimal_text_total: "decimal_to_canonical_text (InDecimal (Finite d)) = Inr (dec_text d)"
  by (simp add: decimal_to_canonical_text_def dec_text_def)

lemma dec_text_eq_iff: "dec_text a = dec_text b \<longleftrightarrow> dec_val a = dec_val b"
  using canonical_text_reads_back [of a] canonical_text_reads_back [of b] dec_val_eq_text [of a b]
  by (auto simp: dec_text_def)

lemma dec_text_norm_zero [simp]: "dec_text (norm_zero d) = dec_text d"
  by (simp add: dec_text_eq_iff)

lemma ohlcv_text_from_observation [simp]:
  "canonical_ohlcv_text (from_observation c tm) = observed_ohlcv_text c"
  by (simp add: canonical_ohlcv_text_def observed_ohlcv_text_def from_observation_def)

lemma from_observation_fields [simp]:
  "cc_stream (from_observation c tm) = oc_stream c"
  "cc_open_time_ms (from_observation c tm) = oc_open_time_ms c"
  "cc_close_time_ms (from_observation c tm) = oc_close_time_ms c"
  "cc_source (from_observation c tm) = oc_source c"
  "cc_committed_at_ms (from_observation c tm) = tm"
  by (simp_all add: from_observation_def)

lemma dec_zero_val [simp]: "dec_val dec_zero = 0"
  by (simp add: dec_val_def dec_zero_def)

lemma dec_max_val [simp]: "dec_val (dec_max a b) = max (dec_val a) (dec_val b)"
  by (auto simp: dec_max_def dec_less_val max_def)

lemma dec_min_val [simp]: "dec_val (dec_min a b) = min (dec_val a) (dec_val b)"
  by (auto simp: dec_min_def dec_less_val min_def)

lemma issue_if_empty [simp]: "issue_if b code detail = [] \<longleftrightarrow> \<not> b"
  by (simp add: issue_if_def)

lemma set_issue_if [simp]:
  "set (issue_if b code detail) = (if b then {CandleValidationIssue code detail} else {})"
  by (simp add: issue_if_def)

text \<open>The meaning of an accepted candle, over exact numbers.\<close>

definition well_formed_candle :: "observed_candle \<Rightarrow> bool" where
  "well_formed_candle c \<longleftrightarrow>
     oc_confirmed c \<and> 0 \<le> oc_open_time_ms c \<and> oc_open_time_ms c mod stream_step (oc_stream c) = 0 \<and>
     oc_close_time_ms c = oc_open_time_ms c + stream_step (oc_stream c) - 1 \<and>
     dec_val (oc_low c) \<le> dec_val (oc_open c) \<and> dec_val (oc_open c) \<le> dec_val (oc_high c) \<and>
     dec_val (oc_low c) \<le> dec_val (oc_close c) \<and> dec_val (oc_close c) \<le> dec_val (oc_high c) \<and>
     dec_val (oc_low c) \<le> dec_val (oc_high c) \<and> 0 \<le> dec_val (oc_volume c)"

lemma validation_empty_iff: "validate_observed_candle c = [] \<longleftrightarrow> well_formed_candle c"
  using stream_step_pos [of "oc_stream c"]
  by (auto simp: validate_observed_candle_def Let_def well_formed_candle_def dec_less_val not_less
      simp del: stream_step_pos)

text \<open>
  C34. Validation is sound and complete: \<open>validate_observed_candle\<close> reports no issue exactly for
  closed candles on the grid of their stream, with the close time the timeframe implies,
  prices ordered low, open and close, high as exact numbers, and a non-negative volume; and
  the issue \<open>unconfirmed\<close> is reported exactly for candles that are not closed.
\<close>

theorem validation_sound_complete:
  "(validate_observed_candle c = [] \<longleftrightarrow> well_formed_candle c) \<and>
   (UNCONFIRMED \<in> issue_code ` set (validate_observed_candle c) \<longleftrightarrow> \<not> oc_confirmed c)"
  by (simp add: validation_empty_iff) (auto simp: validate_observed_candle_def Let_def)

text \<open>
  Classification compares numbers, not spelling: against a stored candle of the same
  identity, an observation is a duplicate exactly when its five values are numerically
  equal to the stored ones, and a correction otherwise; with nothing stored it is
  committed, and an identity mismatch raises.
\<close>

theorem classification_by_value:
  "classify_against_existing existing incoming =
     (case existing of
        None \<Rightarrow> Inr COMMITTED
      | Some e \<Rightarrow>
          if (cc_stream e, cc_open_time_ms e) \<noteq> (oc_stream incoming, oc_open_time_ms incoming)
            then Inl (Exn ValueError ''existing and incoming candle identities must match'')
          else if map dec_val [cc_open e, cc_high e, cc_low e, cc_close e, cc_volume e] =
                  map dec_val [oc_open incoming, oc_high incoming, oc_low incoming, oc_close incoming,
                    oc_volume incoming]
            then Inr DUPLICATE else Inr CORRECTED)"
  by (auto simp: classify_against_existing_def canonical_ohlcv_text_def observed_ohlcv_text_def
      dec_text_eq_iff split: option.splits)

lemma open_interest_issue_None:
  assumes "open_interest_issue p = None"
  shows "0 \<le> oi_open_time_ms p" "oi_open_time_ms p mod stream_step (oi_stream p) = 0"
    "sk_timeframe (oi_stream p) = TF_5m" "\<exists>c. mk_canonical_open_interest p t = Inr c"
  using assms
  by (auto simp: open_interest_issue_def mk_canonical_open_interest_def decimal_to_canonical_text_def
      split: if_splits sum.splits)

lemma mk_canonical_open_interest_fields:
  assumes "mk_canonical_open_interest p t = Inr c"
  shows "co_stream c = oi_stream p" "co_open_time_ms c = oi_open_time_ms p" "co_committed_at_ms c = t"
  using assms by (auto simp: mk_canonical_open_interest_def)

text \<open>
  An open interest point is accepted exactly when it belongs to the 5m grid at a
  non-negative time and carries a finite non-negative number; every accepted point has a
  canonical form, which keeps its identity and reads back to that number.
\<close>

theorem open_interest_acceptance:
  "open_interest_issue p = None \<longleftrightarrow>
     (\<exists>v c. sk_timeframe (oi_stream p) = TF_5m \<and> 0 \<le> oi_open_time_ms p \<and>
        oi_open_time_ms p mod 300000 = 0 \<and>
        parse_decimal (oi_open_interest p) = Inr v \<and> 0 \<le> dec_val v \<and>
        mk_canonical_open_interest p t = Inr c \<and>
        co_stream c = oi_stream p \<and> co_open_time_ms c = oi_open_time_ms p \<and>
        co_open_interest c = canonical_text v)"
  by (auto simp: open_interest_issue_def mk_canonical_open_interest_def dec_less_val not_less
      decimal_to_canonical_text_def stream_step_def split: sum.splits)

end
