(* ===== verification/Lifecycle.thy ===== *)
theory Lifecycle
  imports Timeframes
begin

text \<open>
  domain/stream\_state.py, domain/readiness.py, domain/backfill.py and
  application/source\_failure.py: the durable lifecycle of a stream, its transition table,
  the readiness projection, the finite work budget and the classification of failures.
\<close>

section \<open>stream\_state.py\<close>

datatype stream_lifecycle_state =
  UNINITIALIZED | BOOTSTRAPPING | AUDITING | REPAIRING | CONNECTING | READY | DEGRADED | FAILED

fun lifecycle_value :: "stream_lifecycle_state \<Rightarrow> string" where
  "lifecycle_value UNINITIALIZED = ''uninitialized''"
| "lifecycle_value BOOTSTRAPPING = ''bootstrapping''"
| "lifecycle_value AUDITING = ''auditing''"
| "lifecycle_value REPAIRING = ''repairing''"
| "lifecycle_value CONNECTING = ''connecting''"
| "lifecycle_value READY = ''ready''"
| "lifecycle_value DEGRADED = ''degraded''"
| "lifecycle_value FAILED = ''failed''"

fun allowed_transitions :: "stream_lifecycle_state \<Rightarrow> stream_lifecycle_state list" where
  "allowed_transitions UNINITIALIZED = [BOOTSTRAPPING, FAILED]"
| "allowed_transitions BOOTSTRAPPING = [AUDITING, DEGRADED, FAILED]"
| "allowed_transitions AUDITING = [REPAIRING, CONNECTING, DEGRADED, FAILED]"
| "allowed_transitions REPAIRING = [AUDITING, DEGRADED, FAILED]"
| "allowed_transitions CONNECTING = [READY, DEGRADED, FAILED]"
| "allowed_transitions READY = [DEGRADED, FAILED]"
| "allowed_transitions DEGRADED = [BOOTSTRAPPING, AUDITING, CONNECTING, FAILED]"
| "allowed_transitions FAILED = [UNINITIALIZED, AUDITING]"

record stream_state =
  ss_stream :: stream_key
  ss_state :: stream_lifecycle_state
  ss_earliest_available_open_time_ms :: "int option"
  ss_discovery_next_open_time_ms :: "int option"
  ss_latest_committed_open_time_ms :: "int option"
  ss_last_audit_at_ms :: "int option"
  ss_last_rest_success_at_ms :: "int option"
  ss_last_ws_message_at_ms :: "int option"
  ss_last_error_code :: "string option"
  ss_last_error_detail :: "string option"
  ss_state_changed_at_ms :: int
  ss_updated_at_ms :: int

text \<open>\<open>__post_init__\<close>, which every construction and every \<open>replace\<close> runs.\<close>

definition negative_field :: "stream_state \<Rightarrow> string option" where
  "negative_field s =
     map_option fst (find (\<lambda>(n, v). \<not> opt_non_negative v)
       [(''earliest_available_open_time_ms'', ss_earliest_available_open_time_ms s),
        (''lower_bound_discovery_next_open_time_ms'', ss_discovery_next_open_time_ms s),
        (''latest_committed_open_time_ms'', ss_latest_committed_open_time_ms s),
        (''last_audit_at_ms'', ss_last_audit_at_ms s),
        (''last_rest_success_at_ms'', ss_last_rest_success_at_ms s),
        (''last_ws_message_at_ms'', ss_last_ws_message_at_ms s),
        (''state_changed_at_ms'', Some (ss_state_changed_at_ms s)),
        (''updated_at_ms'', Some (ss_updated_at_ms s))])"

definition mk_stream_state :: "stream_state \<Rightarrow> stream_state res" where
  "mk_stream_state s =
     (case negative_field s of
        Some n \<Rightarrow> Inl (Exn ValueError (n @ '' must be non-negative''))
      | None \<Rightarrow>
          (case ss_discovery_next_open_time_ms s of
             None \<Rightarrow> Inr s
           | Some cursor \<Rightarrow>
               if cursor mod stream_step (ss_stream s) \<noteq> 0
                 then Inl (Exn ValueError
                        ''lower_bound_discovery_next_open_time_ms must be timeframe-aligned'')
               else if ss_earliest_available_open_time_ms s \<noteq> None
                 then Inl (Exn ValueError ''resolved lower bound cannot retain a discovery cursor'')
               else Inr s))"

definition is_ready :: "stream_state \<Rightarrow> bool" where
  "is_ready s \<longleftrightarrow> ss_state s = READY"

definition can_transition :: "stream_lifecycle_state \<Rightarrow> stream_lifecycle_state \<Rightarrow> bool" where
  "can_transition current target \<longleftrightarrow> target \<in> set (allowed_transitions current)"

definition transition_stream_state ::
  "stream_state \<Rightarrow> stream_lifecycle_state \<Rightarrow> int \<Rightarrow> string option \<Rightarrow> string option \<Rightarrow> stream_state res" where
  "transition_stream_state s target changed_at_ms error_code error_detail =
     (if target = ss_state s
        then Inl (Exn InvalidStreamTransition
               (''stream is already in state '' @ lifecycle_value target))
      else if \<not> can_transition (ss_state s) target
        then Inl (Exn InvalidStreamTransition
               (''illegal stream transition '' @ lifecycle_value (ss_state s) @ '' -> ''
                @ lifecycle_value target))
      else if changed_at_ms < ss_updated_at_ms s
        then Inl (Exn ValueError ''changed_at_ms must not move backwards'')
      else let clear_error = target \<notin> {DEGRADED, FAILED}
           in mk_stream_state (s\<lparr>ss_state := target,
                ss_last_error_code := (if clear_error then None else error_code),
                ss_last_error_detail := (if clear_error then None else error_detail),
                ss_state_changed_at_ms := changed_at_ms,
                ss_updated_at_ms := changed_at_ms\<rparr>))"

section \<open>readiness.py\<close>

record stream_readiness =
  sr_stream :: stream_key
  sr_ready :: bool
  sr_state :: string
  sr_reason :: "string option"

definition project_stream_readiness :: "stream_state \<Rightarrow> stream_readiness" where
  "project_stream_readiness s =
     \<lparr>sr_stream = ss_stream s, sr_ready = is_ready s, sr_state = lifecycle_value (ss_state s),
      sr_reason = (if is_ready s then None
                   else case ss_last_error_code s of
                          Some c \<Rightarrow> Some (if c = [] then lifecycle_value (ss_state s) else c)
                        | None \<Rightarrow> Some (lifecycle_value (ss_state s)))\<rparr>"

definition strict_aggregate_readiness :: "stream_state list \<Rightarrow> bool" where
  "strict_aggregate_readiness snapshots \<longleftrightarrow> snapshots \<noteq> [] \<and> list_all is_ready snapshots"

section \<open>backfill.py (domain)\<close>

datatype backfill_selection = ONE_STREAM | ALL_STREAMS

datatype backfill_budget = BackfillBudget (max_windows: int)

definition mk_backfill_budget :: "int \<Rightarrow> backfill_budget res" where
  "mk_backfill_budget n =
     (if n \<le> 0 then Inl (Exn ValueError ''max_windows must be positive'') else Inr (BackfillBudget n))"

record backfill_request =
  br_selection :: backfill_selection
  br_budget :: backfill_budget
  br_stream :: "stream_key option"

definition mk_backfill_request :: "backfill_request \<Rightarrow> backfill_request res" where
  "mk_backfill_request r =
     (if br_selection r = ONE_STREAM \<and> br_stream r = None
        then Inl (Exn ValueError ''one_stream selection requires stream'')
      else if br_selection r = ALL_STREAMS \<and> br_stream r \<noteq> None
        then Inl (Exn ValueError ''all_streams selection must not pin one stream'')
      else Inr r)"

section \<open>source\_failure.py\<close>

text \<open>\<open>isinstance(exc, RecoverableMarketDataFailure)\<close>: the marker's subclasses under src/ are
  the Bybit transport, HTTP and transient API errors; a class from outside says so itself.\<close>

fun is_recoverable :: "exn_class \<Rightarrow> bool" where
  "is_recoverable BybitHttpError = True"
| "is_recoverable BybitTransientApiError = True"
| "is_recoverable (OtherError n r) = r"
| "is_recoverable _ = False"

datatype source_failure_disposition = RECOVERABLE | FATAL

record source_failure_decision =
  sf_disposition :: source_failure_disposition
  sf_target_state :: stream_lifecycle_state
  sf_code :: string
  sf_detail :: string

definition classify_source_failure :: "exn \<Rightarrow> source_failure_decision" where
  "classify_source_failure e =
     (let recoverable = is_recoverable (exn_cls e)
      in \<lparr>sf_disposition = (if recoverable then RECOVERABLE else FATAL),
          sf_target_state = (if recoverable then DEGRADED else FAILED),
          sf_code = class_name (exn_cls e), sf_detail = exn_str e\<rparr>)"

section \<open>The invariant of a snapshot\<close>

definition state_wf :: "stream_state \<Rightarrow> bool" where
  "state_wf s \<longleftrightarrow>
     opt_non_negative (ss_earliest_available_open_time_ms s) \<and>
     opt_non_negative (ss_discovery_next_open_time_ms s) \<and>
     opt_non_negative (ss_latest_committed_open_time_ms s) \<and>
     opt_non_negative (ss_last_audit_at_ms s) \<and>
     opt_non_negative (ss_last_rest_success_at_ms s) \<and>
     opt_non_negative (ss_last_ws_message_at_ms s) \<and>
     0 \<le> ss_state_changed_at_ms s \<and> 0 \<le> ss_updated_at_ms s \<and>
     (\<forall>c. ss_discovery_next_open_time_ms s = Some c \<longrightarrow>
        c mod stream_step (ss_stream s) = 0 \<and> ss_earliest_available_open_time_ms s = None)"

lemma opt_non_negative_simps [simp]:
  "opt_non_negative None" "opt_non_negative (Some x) \<longleftrightarrow> 0 \<le> x"
  by (simp_all add: opt_non_negative_def)

lemma negative_field_None:
  "negative_field s = None \<longleftrightarrow>
     opt_non_negative (ss_earliest_available_open_time_ms s) \<and>
     opt_non_negative (ss_discovery_next_open_time_ms s) \<and>
     opt_non_negative (ss_latest_committed_open_time_ms s) \<and>
     opt_non_negative (ss_last_audit_at_ms s) \<and>
     opt_non_negative (ss_last_rest_success_at_ms s) \<and>
     opt_non_negative (ss_last_ws_message_at_ms s) \<and>
     0 \<le> ss_state_changed_at_ms s \<and> 0 \<le> ss_updated_at_ms s"
  by (auto simp: negative_field_def find_None_iff)

lemma mk_stream_state_iff: "mk_stream_state s = Inr s' \<longleftrightarrow> state_wf s \<and> s' = s"
proof (cases "negative_field s")
  case None
  note nf = None [unfolded negative_field_None]
  show ?thesis
    using nf by (auto simp: mk_stream_state_def state_wf_def None split: option.splits if_splits)
next
  case (Some n)
  then have "\<not> state_wf s" using negative_field_None [of s] by (auto simp: state_wf_def)
  with Some show ?thesis by (simp add: mk_stream_state_def)
qed

lemma mk_stream_state_wf [simp]: "state_wf s \<Longrightarrow> mk_stream_state s = Inr s"
  by (simp add: mk_stream_state_iff)

lemma mk_stream_state_raises: "mk_stream_state s = Inl e \<Longrightarrow> exn_cls e = ValueError"
  by (auto simp: mk_stream_state_def split: option.splits if_splits)

lemma transition_result:
  assumes "transition_stream_state s target tm code detail = Inr s'"
  shows "can_transition (ss_state s) target" "ss_updated_at_ms s \<le> tm" "state_wf s'"
    "s' = s\<lparr>ss_state := target,
        ss_last_error_code := (if target \<in> {DEGRADED, FAILED} then code else None),
        ss_last_error_detail := (if target \<in> {DEGRADED, FAILED} then detail else None),
        ss_state_changed_at_ms := tm, ss_updated_at_ms := tm\<rparr>"
  using assms
  by (auto simp: transition_stream_state_def mk_stream_state_iff Let_def split: if_splits)

lemma can_transition_irrefl [simp]: "\<not> can_transition x x"
  by (cases x) (simp_all add: can_transition_def)

lemma transition_succeeds:
  assumes "state_wf s" "can_transition (ss_state s) target" "ss_updated_at_ms s \<le> tm"
  shows "transition_stream_state s target tm code detail =
     Inr (s\<lparr>ss_state := target,
        ss_last_error_code := (if target \<in> {DEGRADED, FAILED} then code else None),
        ss_last_error_detail := (if target \<in> {DEGRADED, FAILED} then detail else None),
        ss_state_changed_at_ms := tm, ss_updated_at_ms := tm\<rparr>)"
proof -
  have "state_wf (s\<lparr>ss_state := target,
        ss_last_error_code := (if target \<notin> {DEGRADED, FAILED} then None else code),
        ss_last_error_detail := (if target \<notin> {DEGRADED, FAILED} then None else detail),
        ss_state_changed_at_ms := tm, ss_updated_at_ms := tm\<rparr>)"
    using assms(1,3) by (simp add: state_wf_def)
  moreover have "target \<noteq> ss_state s" using assms(2) by auto
  ultimately show ?thesis
    using assms(2,3) by (auto simp: transition_stream_state_def Let_def)
qed

text \<open>
  \<open>transition_stream_state\<close> on every branch, from a well-formed snapshot: a repeated or
  unlisted target raises \<open>InvalidStreamTransition\<close>, a time before the last update raises
  \<open>ValueError\<close>, and otherwise the result is the snapshot with the new state, both times
  moved to the change, the error fields set for \<open>DEGRADED\<close> and \<open>FAILED\<close> and cleared for
  every other target, and it is well-formed again.
\<close>

theorem transition_stream_state_spec:
  assumes "state_wf s"
  shows "case transition_stream_state s target tm code detail of
      Inl e \<Rightarrow> exn_cls e = (if can_transition (ss_state s) target then ValueError
                            else InvalidStreamTransition) \<and>
               (can_transition (ss_state s) target \<longrightarrow> tm < ss_updated_at_ms s)
    | Inr s' \<Rightarrow> can_transition (ss_state s) target \<and> ss_updated_at_ms s \<le> tm \<and> state_wf s' \<and>
        s' = s\<lparr>ss_state := target,
          ss_last_error_code := (if target \<in> {DEGRADED, FAILED} then code else None),
          ss_last_error_detail := (if target \<in> {DEGRADED, FAILED} then detail else None),
          ss_state_changed_at_ms := tm, ss_updated_at_ms := tm\<rparr>"
proof (cases "transition_stream_state s target tm code detail")
  case (Inr s')
  with transition_result [OF Inr] show ?thesis by simp
next
  case (Inl e)
  with transition_succeeds [OF assms, of target tm code detail] show ?thesis
    by (auto simp: transition_stream_state_def Let_def split: if_splits)
qed

definition initial_stream_state :: "stream_key \<Rightarrow> int \<Rightarrow> stream_state" where
  "initial_stream_state stream now_ms =
     \<lparr>ss_stream = stream, ss_state = UNINITIALIZED, ss_earliest_available_open_time_ms = None,
      ss_discovery_next_open_time_ms = None, ss_latest_committed_open_time_ms = None,
      ss_last_audit_at_ms = None, ss_last_rest_success_at_ms = None, ss_last_ws_message_at_ms = None,
      ss_last_error_code = None, ss_last_error_detail = None,
      ss_state_changed_at_ms = now_ms, ss_updated_at_ms = now_ms\<rparr>"

lemma initial_stream_state_wf [simp]: "0 \<le> t \<Longrightarrow> state_wf (initial_stream_state stream t)"
  by (simp add: state_wf_def initial_stream_state_def)

theorem transition_stream_state_spec_witness:
  "case transition_stream_state (initial_stream_state (StreamKey (InstrumentKey ''BTCUSDT.P'') TF_1m) 5)
       FAILED 7 (Some ''X'') None of
      Inl e \<Rightarrow> False | Inr s' \<Rightarrow> ss_state s' = FAILED \<and> ss_last_error_code s' = Some ''X''"
  using transition_stream_state_spec
    [where s = "initial_stream_state (StreamKey (InstrumentKey ''BTCUSDT.P'') TF_1m) 5"
       and target = FAILED and tm = 7 and code = "Some ''X''" and detail = None]
  by (simp add: initial_stream_state_def can_transition_def state_wf_def split: sum.splits)

section \<open>Reachable lifecycles\<close>

text \<open>A history of applied transitions: the states a stream has gone through, latest first.\<close>

inductive lifecycle_run :: "stream_state \<Rightarrow> stream_lifecycle_state list \<Rightarrow> stream_state \<Rightarrow> bool" where
  start: "lifecycle_run s [ss_state s] s"
| step: "lifecycle_run s tr s' \<Longrightarrow> transition_stream_state s' target tm code detail = Inr s'' \<Longrightarrow>
    lifecycle_run s (target # tr) s''"

inductive_cases lifecycle_runE: "lifecycle_run s tr s'"

lemma lifecycle_run_trace:
  "lifecycle_run s tr s' \<Longrightarrow>
     hd tr = ss_state s' \<and> last tr = ss_state s \<and> tr \<noteq> [] \<and>
     (\<forall>i. Suc i < length tr \<longrightarrow> can_transition (tr ! Suc i) (tr ! i))"
proof (induction rule: lifecycle_run.induct)
  case (step s tr s' target tm code detail s'')
  note r = transition_result [OF step.hyps(2)]
  have "can_transition (hd tr) target" using step.IH r(1) by simp
  then have "can_transition ((target # tr) ! Suc i) ((target # tr) ! i)" if "Suc i < length (target # tr)" for i
    using that step.IH by (cases i) (auto simp: hd_conv_nth)
  with step.IH r show ?case by auto
qed simp

lemma ready_from: "can_transition x READY \<Longrightarrow> x = CONNECTING"
  by (cases x) (simp_all add: can_transition_def)

lemma connecting_from: "can_transition x CONNECTING \<Longrightarrow> x = AUDITING \<or> x = DEGRADED"
  by (cases x) (simp_all add: can_transition_def)

lemma degraded_from: "can_transition x DEGRADED \<Longrightarrow> x \<notin> {UNINITIALIZED, DEGRADED, FAILED}"
  by (cases x) (simp_all add: can_transition_def)

lemma history_before:
  assumes "zs \<noteq> []" "hd zs \<notin> {UNINITIALIZED, FAILED}" "last zs = UNINITIALIZED"
      "\<forall>i. Suc i < length zs \<longrightarrow> can_transition (zs ! Suc i) (zs ! i)"
  shows "BOOTSTRAPPING \<in> set zs \<or> AUDITING \<in> set zs"
  using assms
proof (induction zs)
  case (Cons z zs)
  show ?case
  proof (cases zs)
    case Nil
    with Cons.prems show ?thesis by simp
  next
    case (Cons y ys)
    have step: "can_transition y z" using Cons.prems(4) Cons by force
    have rest: "\<forall>i. Suc i < length zs \<longrightarrow> can_transition (zs ! Suc i) (zs ! i)"
      using Cons.prems(4) by force
    show ?thesis
    proof (cases "y \<in> {UNINITIALIZED, FAILED}")
      case True
      with step Cons.prems(2) have "z = BOOTSTRAPPING \<or> z = AUDITING"
        by (cases z) (auto simp: can_transition_def)
      then show ?thesis by auto
    next
      case False
      with Cons.IH rest Cons Cons.prems(3) show ?thesis by auto
    qed
  qed
qed simp

text \<open>
  A stream that started uninitialised and is ready was connecting immediately before, and
  its history contains a bootstrap or an audit: no sequence of accepted transitions makes
  a stream ready without historical work.
\<close>

theorem ready_only_after_history:
  assumes "lifecycle_run s tr s'" "ss_state s = UNINITIALIZED" "ss_state s' = READY"
  shows "\<exists>rest. tr = READY # CONNECTING # rest \<and> (BOOTSTRAPPING \<in> set rest \<or> AUDITING \<in> set rest)"
proof -
  note t = lifecycle_run_trace [OF assms(1)]
  obtain a rest where tr: "tr = READY # a # rest"
    using t assms(2,3) by (cases tr; cases "tl tr") auto
  have pre: "can_transition (tr ! Suc i) (tr ! i)" if "Suc i < length tr" for i using t that by blast
  have a: "a = CONNECTING" using pre [of 0] tr ready_from by simp
  have r: "rest \<noteq> []" using t assms(2) tr a by auto
  then have c: "hd rest = AUDITING \<or> hd rest = DEGRADED"
    using pre [of 1] tr a connecting_from by (cases rest) auto
  have "\<forall>i. Suc i < length rest \<longrightarrow> can_transition (rest ! Suc i) (rest ! i)"
    using pre tr by force
  moreover have "hd rest \<notin> {UNINITIALIZED, FAILED}" "last rest = UNINITIALIZED"
    using c r t assms(2) tr by auto
  ultimately have "BOOTSTRAPPING \<in> set rest \<or> AUDITING \<in> set rest"
    using r by (intro history_before)
  with tr a show ?thesis by blast
qed


definition example_state :: "stream_lifecycle_state \<Rightarrow> stream_state" where
  "example_state st = (initial_stream_state (StreamKey (InstrumentKey ''BTCUSDT.P'') TF_1m) 5)\<lparr>ss_state := st\<rparr>"

lemma example_transition:
  "can_transition a b \<Longrightarrow> b \<notin> {DEGRADED, FAILED} \<Longrightarrow>
   transition_stream_state (example_state a) b 5 None None = Inr (example_state b)"
  by (subst transition_succeeds) (auto simp: example_state_def initial_stream_state_def state_wf_def)

theorem ready_only_after_history_witness:
  "\<exists>tr. lifecycle_run (example_state UNINITIALIZED) tr (example_state READY) \<and>
     (\<exists>rest. tr = READY # CONNECTING # rest \<and> (BOOTSTRAPPING \<in> set rest \<or> AUDITING \<in> set rest))"
proof -
  let ?run = "\<lambda>tr. lifecycle_run (example_state UNINITIALIZED) tr (example_state (hd tr))"
  have grow: "?run (b # a # tr)" if "?run (a # tr)" "can_transition a b" "b \<notin> {DEGRADED, FAILED}" for a b tr
    using lifecycle_run.step [OF that(1), of b 5 None None "example_state b"] that(2,3)
    by (simp add: example_transition)
  have "?run [UNINITIALIZED]"
    using lifecycle_run.start [of "example_state UNINITIALIZED"] by (simp add: example_state_def)
  then have "?run [BOOTSTRAPPING, UNINITIALIZED]" by (rule grow) (simp_all add: can_transition_def)
  then have "?run [AUDITING, BOOTSTRAPPING, UNINITIALIZED]" by (rule grow) (simp_all add: can_transition_def)
  then have "?run [CONNECTING, AUDITING, BOOTSTRAPPING, UNINITIALIZED]"
    by (rule grow) (simp_all add: can_transition_def)
  then have "?run [READY, CONNECTING, AUDITING, BOOTSTRAPPING, UNINITIALIZED]"
    by (rule grow) (simp_all add: can_transition_def)
  then have "lifecycle_run (example_state UNINITIALIZED)
      [READY, CONNECTING, AUDITING, BOOTSTRAPPING, UNINITIALIZED] (example_state READY)" by simp
  from this ready_only_after_history [OF this] show ?thesis by (auto simp: example_state_def)
qed

end
