(* ===== verification/Storage.thy ===== *)
theory Storage
  imports Candles Lifecycle
begin

text \<open>
  adapters/sqlite: the tables of schema version 3 as lists of rows, the repositories' SQL
  statements as functions on them, and the unit of work as a transaction on a working copy
  of the database. A column restricted by a CHECK to the values of an enumeration
  (\<open>state\<close>, \<open>source\<close>) or filled from a normalised \<open>StreamKey\<close> (\<open>timeframe\<close>) holds the
  enumeration. A violated CHECK, UNIQUE or PRIMARY KEY constraint is \<open>IntegrityError\<close>,
  which leaves the tables as they were.
\<close>

section \<open>Rows and tables (schema\_v2.sql, schema\_v3\_tracks.sql)\<close>

record instrument_row =
  ir_id :: int
  ir_ticker :: string
  ir_exchange_symbol :: string
  ir_launch_time_ms :: "int option"
  ir_metadata_fetched_at_ms :: "int option"
  ir_created_at_ms :: int
  ir_updated_at_ms :: int

record stream_row =
  st_id :: int
  st_instrument_id :: int
  st_timeframe :: timeframe
  st_created_at_ms :: int

record candle_row =
  cw_stream_id :: int
  cw_open_time_ms :: int
  cw_open_value :: string
  cw_high_value :: string
  cw_low_value :: string
  cw_close_value :: string
  cw_volume_value :: string
  cw_source :: observation_source
  cw_committed_at_ms :: int

record open_interest_row =
  ow_stream_id :: int
  ow_open_time_ms :: int
  ow_open_interest_value :: string
  ow_source :: observation_source
  ow_committed_at_ms :: int

record quarantine_row =
  qr_id :: int
  qr_stream_id :: int
  qr_start_ms :: int
  qr_end_ms :: int
  qr_reason_code :: string
  qr_detail :: string
  qr_payload_json :: "string option"
  qr_created_at_ms :: int

text \<open>
  The columns of \<open>stream_state\<close> and \<open>track_progress\<close> are the fields of the snapshots, so a
  row is the stream id with a snapshot; the snapshot's stream and track are what the reader
  asks for.
\<close>

record db =
  db_instruments :: "instrument_row list"
  db_streams :: "stream_row list"
  db_candles :: "candle_row list"
  db_states :: "(int \<times> stream_state) list"
  db_quarantine :: "quarantine_row list"
  db_open_interest :: "open_interest_row list"
  db_tracks :: "((int \<times> string) \<times> track_progress) list"

definition empty_db :: db where
  "empty_db = \<lparr>db_instruments = [], db_streams = [], db_candles = [], db_states = [],
     db_quarantine = [], db_open_interest = [], db_tracks = []\<rparr>"

text \<open>\<open>INTEGER PRIMARY KEY\<close> without a given value: one more than the largest id.\<close>

definition next_id :: "int list \<Rightarrow> int" where
  "next_id ids = (if ids = [] then 1 else Max (set ids) + 1)"

section \<open>Statements on a table with a key\<close>

definition sel :: "('r \<Rightarrow> 'k) \<Rightarrow> 'k \<Rightarrow> 'r list \<Rightarrow> 'r option" where
  "sel key k rows = find (\<lambda>r. key r = k) rows"

definition ins :: "('r \<Rightarrow> 'k) \<Rightarrow> 'r \<Rightarrow> 'r list \<Rightarrow> 'r list res" where
  "ins key r rows =
     (if key r \<in> key ` set rows
      then Inl (Exn IntegrityError ''UNIQUE constraint failed'') else Inr (rows @ [r]))"

definition upd :: "('r \<Rightarrow> 'k) \<Rightarrow> 'k \<Rightarrow> ('r \<Rightarrow> 'r) \<Rightarrow> 'r list \<Rightarrow> 'r list" where
  "upd key k f rows = map (\<lambda>r. if key r = k then f r else r) rows"

text \<open>\<open>ON CONFLICT (key) DO UPDATE\<close>: change the conflicting row, or insert.\<close>

definition upsert :: "('r \<Rightarrow> 'k) \<Rightarrow> 'r \<Rightarrow> ('r \<Rightarrow> 'r) \<Rightarrow> 'r list \<Rightarrow> 'r list" where
  "upsert key r f rows = (if key r \<in> key ` set rows then upd key (key r) f rows else rows @ [r])"

section \<open>catalog\_repository.py\<close>

definition stream_id :: "db \<Rightarrow> stream_key \<Rightarrow> int res" where
  "stream_id d s =
     (case find (\<lambda>r. st_timeframe r = sk_timeframe s \<and>
             (\<exists>i \<in> set (db_instruments d).
                ir_id i = st_instrument_id r \<and> ir_ticker i = ticker (sk_instrument s)))
           (db_streams d) of
        None \<Rightarrow> Inl (Exn KeyError (py_repr (canonical_id s)))
      | Some r \<Rightarrow> Inr (st_id r))"

definition stream_exists :: "db \<Rightarrow> stream_key \<Rightarrow> bool" where
  "stream_exists d s = (case stream_id d s of Inl e \<Rightarrow> False | Inr n \<Rightarrow> True)"

definition instrument_id :: "db \<Rightarrow> instrument_key \<Rightarrow> int res" where
  "instrument_id d i =
     (case sel ir_ticker (ticker i) (db_instruments d) of
        None \<Rightarrow> Inl (Exn KeyError (py_repr (ticker i)))
      | Some r \<Rightarrow> Inr (ir_id r))"

definition instrument_row_ok :: "instrument_row \<Rightarrow> bool" where
  "instrument_row_ok r \<longleftrightarrow>
     ir_ticker r \<noteq> [] \<and> ir_exchange_symbol r \<noteq> [] \<and> opt_non_negative (ir_launch_time_ms r) \<and>
     opt_non_negative (ir_metadata_fetched_at_ms r)"

text \<open>A statement on \<open>instruments\<close> takes effect when the table it would leave satisfies the
  CHECKs and the two UNIQUE columns.\<close>

definition put_instruments :: "instrument_row list \<Rightarrow> db \<Rightarrow> db res" where
  "put_instruments rows d =
     (if list_all instrument_row_ok rows \<and> distinct (map ir_ticker rows) \<and>
         distinct (map ir_exchange_symbol rows)
      then Inr (d\<lparr>db_instruments := rows\<rparr>)
      else Inl (Exn IntegrityError ''instruments constraint failed''))"

definition register_stream :: "stream_key \<Rightarrow> string \<Rightarrow> int \<Rightarrow> db \<Rightarrow> (int \<times> db) res" where
  "register_stream stream exchange_symbol now_ms d =
     bindR (put_instruments
       (upsert ir_ticker
          \<lparr>ir_id = next_id (map ir_id (db_instruments d)), ir_ticker = ticker (sk_instrument stream),
           ir_exchange_symbol = exchange_symbol, ir_launch_time_ms = None,
           ir_metadata_fetched_at_ms = None, ir_created_at_ms = now_ms, ir_updated_at_ms = now_ms\<rparr>
          (\<lambda>r. r\<lparr>ir_exchange_symbol := exchange_symbol, ir_updated_at_ms := now_ms\<rparr>)
          (db_instruments d)) d) (\<lambda>d.
     bindR (instrument_id d (sk_instrument stream)) (\<lambda>iid.
     let d = d\<lparr>db_streams :=
           upsert (\<lambda>r. (st_instrument_id r, st_timeframe r))
             \<lparr>st_id = next_id (map st_id (db_streams d)), st_instrument_id = iid,
              st_timeframe = sk_timeframe stream, st_created_at_ms = now_ms\<rparr>
             (\<lambda>r. r) (db_streams d)\<rparr>
     in bindR (stream_id d stream) (\<lambda>sid.
        Inr (sid, d\<lparr>db_states :=
          upsert fst (sid, initial_stream_state stream now_ms) (\<lambda>r. r) (db_states d)\<rparr>))))"

definition get_instrument_metadata :: "db \<Rightarrow> instrument_key \<Rightarrow> instrument_metadata res" where
  "get_instrument_metadata d i =
     (case sel ir_ticker (ticker i) (db_instruments d) of
        None \<Rightarrow> Inl (Exn KeyError (py_repr (ticker i)))
      | Some r \<Rightarrow>
          bindR (mk_instrument_key (ir_ticker r)) (\<lambda>key.
            mk_instrument_metadata
              \<lparr>im_instrument = key, im_exchange_symbol = ir_exchange_symbol r,
               im_launch_time_ms = ir_launch_time_ms r, im_fetched_at_ms = ir_metadata_fetched_at_ms r\<rparr>))"

definition save_instrument_metadata :: "instrument_metadata \<Rightarrow> db \<Rightarrow> db res" where
  "save_instrument_metadata m d =
     (case im_fetched_at_ms m of
        None \<Rightarrow> Inl (Exn ValueError ''instrument metadata fetched_at_ms is required for persistence'')
      | Some fetched \<Rightarrow>
          put_instruments
            (upd ir_ticker (ticker (im_instrument m))
              (\<lambda>r. r\<lparr>ir_exchange_symbol := im_exchange_symbol m, ir_launch_time_ms := im_launch_time_ms m,
                   ir_metadata_fetched_at_ms := Some fetched, ir_updated_at_ms := fetched\<rparr>)
              (db_instruments d)) d)"

section \<open>candle\_repository.py\<close>

abbreviation candle_key :: "candle_row \<Rightarrow> int \<times> int" where
  "candle_key r \<equiv> (cw_stream_id r, cw_open_time_ms r)"

definition candle_of_row :: "stream_key \<Rightarrow> candle_row \<Rightarrow> canonical_candle res" where
  "candle_of_row stream r =
     bindR (parse_decimal (InStr (cw_open_value r))) (\<lambda>op.
     bindR (parse_decimal (InStr (cw_high_value r))) (\<lambda>hi.
     bindR (parse_decimal (InStr (cw_low_value r))) (\<lambda>lo.
     bindR (parse_decimal (InStr (cw_close_value r))) (\<lambda>cl.
     bindR (parse_decimal (InStr (cw_volume_value r))) (\<lambda>vol.
     Inr \<lparr>cc_stream = stream, cc_open_time_ms = cw_open_time_ms r,
          cc_close_time_ms = cw_open_time_ms r + stream_step stream - 1,
          cc_open = op, cc_high = hi, cc_low = lo, cc_close = cl, cc_volume = vol,
          cc_source = cw_source r, cc_committed_at_ms = cw_committed_at_ms r\<rparr>)))))"

definition row_of_candle :: "int \<Rightarrow> canonical_candle \<Rightarrow> candle_row" where
  "row_of_candle sid c =
     \<lparr>cw_stream_id = sid, cw_open_time_ms = cc_open_time_ms c,
      cw_open_value = dec_text (cc_open c), cw_high_value = dec_text (cc_high c),
      cw_low_value = dec_text (cc_low c), cw_close_value = dec_text (cc_close c),
      cw_volume_value = dec_text (cc_volume c), cw_source = cc_source c,
      cw_committed_at_ms = cc_committed_at_ms c\<rparr>"

definition get_candle :: "db \<Rightarrow> stream_key \<Rightarrow> int \<Rightarrow> canonical_candle option res" where
  "get_candle d stream open_time_ms =
     bindR (stream_id d stream) (\<lambda>sid.
       case sel candle_key (sid, open_time_ms) (db_candles d) of
         None \<Rightarrow> Inr None
       | Some r \<Rightarrow> bindR (candle_of_row stream r) (\<lambda>c. Inr (Some c)))"

definition range_rows :: "db \<Rightarrow> int \<Rightarrow> int \<Rightarrow> int \<Rightarrow> candle_row list" where
  "range_rows d sid start_time_ms end_time_ms =
     sort_key cw_open_time_ms
       (filter (\<lambda>r. cw_stream_id r = sid \<and> start_time_ms \<le> cw_open_time_ms r \<and>
                cw_open_time_ms r < end_time_ms) (db_candles d))"

definition list_candles :: "db \<Rightarrow> stream_key \<Rightarrow> int \<Rightarrow> int \<Rightarrow> canonical_candle list res" where
  "list_candles d stream start_time_ms end_time_ms =
     bindR (stream_id d stream) (\<lambda>sid.
       mapR (candle_of_row stream) (range_rows d sid start_time_ms end_time_ms))"

abbreviation open_interest_key :: "open_interest_row \<Rightarrow> int \<times> int" where
  "open_interest_key r \<equiv> (ow_stream_id r, ow_open_time_ms r)"

definition list_range_with_open_interest ::
  "db \<Rightarrow> stream_key \<Rightarrow> int \<Rightarrow> int \<Rightarrow> (canonical_candle list \<times> string option list) res" where
  "list_range_with_open_interest d stream start_time_ms end_time_ms =
     bindR (stream_id d stream) (\<lambda>sid.
       let rows = range_rows d sid start_time_ms end_time_ms
       in bindR (mapR (candle_of_row stream) rows) (\<lambda>candles.
          Inr (candles,
               map (\<lambda>r. map_option ow_open_interest_value
                 (sel open_interest_key (candle_key r) (db_open_interest d))) rows)))"

definition committed_bounds :: "db \<Rightarrow> stream_key \<Rightarrow> (int option \<times> int option) res" where
  "committed_bounds d stream =
     bindR (stream_id d stream) (\<lambda>sid.
       let ts = map cw_open_time_ms (filter (\<lambda>r. cw_stream_id r = sid) (db_candles d))
       in Inr (if ts = [] then (None, None) else (Some (Min (set ts)), Some (Max (set ts)))))"

definition insert_candle :: "canonical_candle \<Rightarrow> db \<Rightarrow> db res" where
  "insert_candle c d =
     bindR (stream_id d (cc_stream c)) (\<lambda>sid.
     bindR (guardR (0 \<le> cc_open_time_ms c) (Exn IntegrityError ''CHECK constraint failed'')) (\<lambda>_.
     bindR (ins candle_key (row_of_candle sid c) (db_candles d)) (\<lambda>rows.
       Inr (d\<lparr>db_candles := rows\<rparr>))))"

definition replace_candle :: "canonical_candle \<Rightarrow> db \<Rightarrow> db res" where
  "replace_candle c d =
     bindR (stream_id d (cc_stream c)) (\<lambda>sid.
       Inr (d\<lparr>db_candles :=
         upd candle_key (sid, cc_open_time_ms c) (\<lambda>r. row_of_candle sid c) (db_candles d)\<rparr>))"

section \<open>stream\_state\_repository.py\<close>

definition get_stream_state :: "db \<Rightarrow> stream_key \<Rightarrow> stream_state res" where
  "get_stream_state d stream =
     bindR (stream_id d stream) (\<lambda>sid.
       case sel fst sid (db_states d) of
         None \<Rightarrow> Inl (Exn KeyError (py_repr (canonical_id stream)))
       | Some r \<Rightarrow> mk_stream_state ((snd r)\<lparr>ss_stream := stream\<rparr>))"

text \<open>The two CHECKs on the discovery cursor follow from the snapshot's own validation; they
  are stated all the same.\<close>

definition state_row_ok :: "stream_state \<Rightarrow> bool" where
  "state_row_ok s \<longleftrightarrow>
     opt_non_negative (ss_discovery_next_open_time_ms s) \<and>
     (ss_earliest_available_open_time_ms s = None \<or> ss_discovery_next_open_time_ms s = None)"

definition save_stream_state :: "stream_state \<Rightarrow> db \<Rightarrow> db res" where
  "save_stream_state s d =
     bindR (stream_id d (ss_stream s)) (\<lambda>sid.
     bindR (guardR (sid \<notin> fst ` set (db_states d) \<or> state_row_ok s)
       (Exn IntegrityError ''CHECK constraint failed'')) (\<lambda>_.
       Inr (d\<lparr>db_states := upd fst sid (\<lambda>_. (sid, s)) (db_states d)\<rparr>)))"

section \<open>quarantine\_repository.py\<close>

definition record_quarantine ::
  "stream_key \<Rightarrow> int \<Rightarrow> int \<Rightarrow> string \<Rightarrow> string \<Rightarrow> string option \<Rightarrow> int \<Rightarrow> db \<Rightarrow> db res" where
  "record_quarantine stream start_at end_at reason_code detail payload_json created_at_ms d =
     bindR (stream_id d stream) (\<lambda>sid.
     bindR (guardR (0 \<le> start_at \<and> 0 \<le> end_at \<and> start_at < end_at)
       (Exn IntegrityError ''CHECK constraint failed'')) (\<lambda>_.
       Inr (d\<lparr>db_quarantine := db_quarantine d @
         [\<lparr>qr_id = next_id (map qr_id (db_quarantine d)), qr_stream_id = sid, qr_start_ms = start_at,
           qr_end_ms = end_at, qr_reason_code = reason_code, qr_detail = detail,
           qr_payload_json = payload_json, qr_created_at_ms = created_at_ms\<rparr>]\<rparr>)))"

definition quarantine_contains :: "db \<Rightarrow> stream_key \<Rightarrow> int \<Rightarrow> int \<Rightarrow> string \<Rightarrow> bool res" where
  "quarantine_contains d stream start_at end_at reason_code =
     bindR (stream_id d stream) (\<lambda>sid.
       Inr (\<exists>r \<in> set (db_quarantine d). qr_stream_id r = sid \<and> qr_start_ms r = start_at \<and>
              qr_end_ms r = end_at \<and> qr_reason_code r = reason_code))"

section \<open>open\_interest\_repository.py\<close>

definition get_open_interest :: "db \<Rightarrow> stream_key \<Rightarrow> int \<Rightarrow> canonical_open_interest option res" where
  "get_open_interest d stream open_time_ms =
     bindR (stream_id d stream) (\<lambda>sid.
       Inr (map_option (\<lambda>r. \<lparr>co_stream = stream, co_open_time_ms = ow_open_time_ms r,
              co_open_interest = ow_open_interest_value r, co_committed_at_ms = ow_committed_at_ms r\<rparr>)
            (sel open_interest_key (sid, open_time_ms) (db_open_interest d))))"

definition save_open_interest :: "canonical_open_interest \<Rightarrow> db \<Rightarrow> db res" where
  "save_open_interest p d =
     bindR (stream_id d (co_stream p)) (\<lambda>sid.
     bindR (guardR (0 \<le> co_open_time_ms p) (Exn IntegrityError ''CHECK constraint failed'')) (\<lambda>_.
       Inr (d\<lparr>db_open_interest :=
         upsert open_interest_key
           \<lparr>ow_stream_id = sid, ow_open_time_ms = co_open_time_ms p,
            ow_open_interest_value = co_open_interest p, ow_source = BYBIT_REST,
            ow_committed_at_ms = co_committed_at_ms p\<rparr>
           (\<lambda>r. r\<lparr>ow_open_interest_value := co_open_interest p, ow_source := BYBIT_REST,
                ow_committed_at_ms := co_committed_at_ms p\<rparr>)
           (db_open_interest d)\<rparr>)))"

definition list_open_interest_times :: "db \<Rightarrow> stream_key \<Rightarrow> int \<Rightarrow> int \<Rightarrow> int list res" where
  "list_open_interest_times d stream start_time_ms end_time_ms =
     bindR (stream_id d stream) (\<lambda>sid.
       Inr (sort (map ow_open_time_ms (filter (\<lambda>r. ow_stream_id r = sid \<and>
              start_time_ms \<le> ow_open_time_ms r \<and> ow_open_time_ms r < end_time_ms)
            (db_open_interest d)))))"

definition initial_track_progress :: "stream_key \<Rightarrow> string \<Rightarrow> track_progress" where
  "initial_track_progress stream track =
     \<lparr>tp_stream = stream, tp_track = track, tp_earliest_available_open_time_ms = None,
      tp_discovery_next_open_time_ms = None, tp_latest_committed_open_time_ms = None,
      tp_last_audit_at_ms = None, tp_last_audit_gap_count = None, tp_last_success_at_ms = None,
      tp_last_error_code = None, tp_last_error_detail = None, tp_updated_at_ms = 0\<rparr>"

definition get_track_progress :: "db \<Rightarrow> stream_key \<Rightarrow> string \<Rightarrow> track_progress res" where
  "get_track_progress d stream track =
     bindR (stream_id d stream) (\<lambda>sid.
       case sel fst (sid, track) (db_tracks d) of
         None \<Rightarrow> mk_track_progress (initial_track_progress stream track)
       | Some r \<Rightarrow> mk_track_progress ((snd r)\<lparr>tp_stream := stream, tp_track := track\<rparr>))"

text \<open>\<open>INSERT OR REPLACE\<close> deletes the conflicting row and appends the new one.\<close>

definition save_track_progress :: "track_progress \<Rightarrow> db \<Rightarrow> db res" where
  "save_track_progress p d =
     bindR (stream_id d (tp_stream p)) (\<lambda>sid.
     bindR (guardR (tp_track p = OPEN_INTEREST_TRACK \<and>
         (tp_earliest_available_open_time_ms p = None \<or> tp_discovery_next_open_time_ms p = None))
       (Exn IntegrityError ''CHECK constraint failed'')) (\<lambda>_.
       Inr (d\<lparr>db_tracks := filter (\<lambda>r. fst r \<noteq> (sid, tp_track p)) (db_tracks d)
              @ [((sid, tp_track p), p)]\<rparr>)))"


section \<open>Laws of keyed tables\<close>

named_theorems table_simps \<open>what a statement leaves in a keyed table\<close>

lemma find_SomeD: "find P xs = Some x \<Longrightarrow> x \<in> set xs \<and> P x"
  by (auto simp: find_Some_iff)

lemma sel_Some: "sel key k rows = Some r \<Longrightarrow> r \<in> set rows \<and> key r = k"
  by (auto simp: sel_def find_Some_iff)

lemma sel_None: "sel key k rows = None \<longleftrightarrow> k \<notin> key ` set rows"
  by (auto simp: sel_def find_None_iff)

lemma sel_iff: "distinct (map key rows) \<Longrightarrow> sel key k rows = Some r \<longleftrightarrow> r \<in> set rows \<and> key r = k"
proof (induction rows)
  case (Cons x rows)
  then show ?case by (auto simp: sel_def image_iff)
qed (simp add: sel_def)

lemma sel_append [table_simps]:
  "sel key k (rows @ [r]) = (case sel key k rows of Some x \<Rightarrow> Some x | None \<Rightarrow> if key r = k then Some r else None)"
  by (induction rows) (auto simp: sel_def)

lemma keys_upd: "(\<And>r. key r = k \<Longrightarrow> key (f r) = k) \<Longrightarrow> map key (upd key k f rows) = map key rows"
  by (induction rows) (auto simp: upd_def)

lemma sel_upd [table_simps]:
  assumes "\<And>r. key r = k \<Longrightarrow> key (f r) = k"
  shows "sel key k' (upd key k f rows) = (if k' = k then map_option f (sel key k rows) else sel key k' rows)"
  using assms by (induction rows) (auto simp: upd_def sel_def)

lemma ins_eq [table_simps]:
  "ins key r rows = Inr rows' \<longleftrightarrow> sel key (key r) rows = None \<and> rows' = rows @ [r]"
  by (auto simp: ins_def sel_None)

lemma distinct_upsert:
  "distinct (map key rows) \<Longrightarrow> (\<And>x. key x = key r \<Longrightarrow> key (f x) = key r) \<Longrightarrow>
   distinct (map key (upsert key r f rows))"
  by (auto simp: upsert_def keys_upd)

lemma sel_upsert [table_simps]:
  assumes "\<And>x. key x = key r \<Longrightarrow> key (f x) = key r"
  shows "sel key k (upsert key r f rows) =
     (if k = key r then Some (case sel key k rows of Some x \<Rightarrow> f x | None \<Rightarrow> r) else sel key k rows)"
proof (cases "key r \<in> key ` set rows")
  case True
  then obtain x where "sel key (key r) rows = Some x" using sel_None [of key "key r" rows] by auto
  with True assms show ?thesis by (auto simp: upsert_def sel_upd)
next
  case False
  then have "sel key (key r) rows = None" by (simp add: sel_None)
  with False show ?thesis by (auto simp: upsert_def sel_append split: option.splits)
qed

section \<open>Identity of streams\<close>

definition catalog_wf :: "db \<Rightarrow> bool" where
  "catalog_wf d \<longleftrightarrow>
     distinct (map ir_id (db_instruments d)) \<and> distinct (map ir_ticker (db_instruments d)) \<and>
     distinct (map st_id (db_streams d)) \<and>
     distinct (map (\<lambda>r. (st_instrument_id r, st_timeframe r)) (db_streams d))"

text \<open>What \<open>stream_id\<close> depends on.\<close>

definition same_catalog :: "db \<Rightarrow> db \<Rightarrow> bool" where
  "same_catalog d d' \<longleftrightarrow>
     map (\<lambda>i. (ir_id i, ir_ticker i)) (db_instruments d') = map (\<lambda>i. (ir_id i, ir_ticker i)) (db_instruments d) \<and>
     db_streams d' = db_streams d"

lemma same_catalog_refl [simp]: "same_catalog d d"
  by (simp add: same_catalog_def)

lemma same_catalog_trans: "same_catalog a b \<Longrightarrow> same_catalog b c \<Longrightarrow> same_catalog a c"
  by (simp add: same_catalog_def)

lemma same_catalog_updates [simp]:
  "same_catalog d (d'\<lparr>db_candles := x1\<rparr>) \<longleftrightarrow> same_catalog d d'"
  "same_catalog d (d'\<lparr>db_states := x2\<rparr>) \<longleftrightarrow> same_catalog d d'"
  "same_catalog d (d'\<lparr>db_quarantine := x3\<rparr>) \<longleftrightarrow> same_catalog d d'"
  "same_catalog d (d'\<lparr>db_open_interest := x4\<rparr>) \<longleftrightarrow> same_catalog d d'"
  "same_catalog d (d'\<lparr>db_tracks := x5\<rparr>) \<longleftrightarrow> same_catalog d d'"
  by (simp_all add: same_catalog_def)

lemma stream_id_same_catalog:
  assumes "same_catalog d d'"
  shows "stream_id d' s = stream_id d s"
proof -
  have "set (map (\<lambda>i. (ir_id i, ir_ticker i)) (db_instruments d')) =
        set (map (\<lambda>i. (ir_id i, ir_ticker i)) (db_instruments d))"
    using assms by (simp add: same_catalog_def)
  then have "(\<exists>i \<in> set (db_instruments d'). ir_id i = n \<and> ir_ticker i = t) \<longleftrightarrow>
        (\<exists>i \<in> set (db_instruments d). ir_id i = n \<and> ir_ticker i = t)" for n t
    unfolding set_map set_eq_iff image_iff by (simp add: Bex_def) metis
  with assms show ?thesis by (simp add: stream_id_def same_catalog_def)
qed

lemma stream_id_updates [simp]:
  "stream_id (d\<lparr>db_candles := x1\<rparr>) s = stream_id d s"
  "stream_id (d\<lparr>db_states := x2\<rparr>) s = stream_id d s"
  "stream_id (d\<lparr>db_quarantine := x3\<rparr>) s = stream_id d s"
  "stream_id (d\<lparr>db_open_interest := x4\<rparr>) s = stream_id d s"
  "stream_id (d\<lparr>db_tracks := x5\<rparr>) s = stream_id d s"
  by (simp_all add: stream_id_def)

lemma catalog_wf_updates [simp]:
  "catalog_wf (d\<lparr>db_candles := x1\<rparr>) \<longleftrightarrow> catalog_wf d"
  "catalog_wf (d\<lparr>db_states := x2\<rparr>) \<longleftrightarrow> catalog_wf d"
  "catalog_wf (d\<lparr>db_quarantine := x3\<rparr>) \<longleftrightarrow> catalog_wf d"
  "catalog_wf (d\<lparr>db_open_interest := x4\<rparr>) \<longleftrightarrow> catalog_wf d"
  "catalog_wf (d\<lparr>db_tracks := x5\<rparr>) \<longleftrightarrow> catalog_wf d"
  by (simp_all add: catalog_wf_def)

lemma stream_id_row:
  assumes "stream_id d s = Inr n"
  obtains r i where "r \<in> set (db_streams d)" "st_id r = n" "st_timeframe r = sk_timeframe s"
    "i \<in> set (db_instruments d)" "ir_id i = st_instrument_id r" "ir_ticker i = ticker (sk_instrument s)"
  using assms that by (auto simp: stream_id_def split: option.splits dest!: find_SomeD)

lemma distinct_map_eq: "distinct (map f xs) \<Longrightarrow> x \<in> set xs \<Longrightarrow> y \<in> set xs \<Longrightarrow> f x = f y \<Longrightarrow> x = y"
  by (auto simp: distinct_map inj_on_def)

text \<open>Two streams never share an id.\<close>

lemma stream_id_inj:
  assumes "catalog_wf d" "stream_id d a = Inr n" "stream_id d b = Inr n"
  shows "a = b"
proof -
  obtain r i where a: "r \<in> set (db_streams d)" "st_id r = n" "st_timeframe r = sk_timeframe a"
    "i \<in> set (db_instruments d)" "ir_id i = st_instrument_id r" "ir_ticker i = ticker (sk_instrument a)"
    using stream_id_row [OF assms(2)] .
  obtain q j where b: "q \<in> set (db_streams d)" "st_id q = n" "st_timeframe q = sk_timeframe b"
    "j \<in> set (db_instruments d)" "ir_id j = st_instrument_id q" "ir_ticker j = ticker (sk_instrument b)"
    using stream_id_row [OF assms(3)] .
  have "r = q" using assms(1) a b distinct_map_eq [of st_id "db_streams d" r q] by (simp add: catalog_wf_def)
  moreover from this have "i = j"
    using assms(1) a b distinct_map_eq [of ir_id "db_instruments d" i j] by (simp add: catalog_wf_def)
  ultimately show ?thesis using a b by (metis stream_key.exhaust_sel instrument_key.exhaust_sel)
qed

section \<open>Candle rows\<close>

text \<open>A row some candle was written to; every writer stores canonical texts.\<close>

definition row_readable :: "candle_row \<Rightarrow> bool" where
  "row_readable r \<longleftrightarrow> (\<exists>c. r = row_of_candle (cw_stream_id r) c)"

lemma row_of_candle_fields [simp]:
  "cw_stream_id (row_of_candle sid c) = sid"
  "cw_open_time_ms (row_of_candle sid c) = cc_open_time_ms c"
  "cw_source (row_of_candle sid c) = cc_source c"
  "cw_committed_at_ms (row_of_candle sid c) = cc_committed_at_ms c"
  by (simp_all add: row_of_candle_def)

lemma row_of_candle_readable [simp]: "row_readable (row_of_candle sid c)"
  by (auto simp: row_readable_def)

lemma parse_dec_text:
  "\<exists>d'. parse_decimal (InStr (dec_text d)) = Inr d' \<and> dec_text d' = dec_text d"
  using parse_decimal_canonical [of d] by (auto simp: dec_text_def [symmetric] dec_text_eq_iff)

lemma candle_of_row_readable:
  assumes "row_readable r"
  shows "\<exists>c. candle_of_row s r = Inr c \<and> cc_stream c = s \<and> cc_open_time_ms c = cw_open_time_ms r \<and>
     cc_close_time_ms c = cw_open_time_ms r + stream_step s - 1 \<and> cc_source c = cw_source r \<and>
     cc_committed_at_ms c = cw_committed_at_ms r \<and>
     canonical_ohlcv_text c = (cw_open_value r, cw_high_value r, cw_low_value r, cw_close_value r, cw_volume_value r)"
proof -
  obtain c where r: "r = row_of_candle (cw_stream_id r) c" using assms by (auto simp: row_readable_def)
  obtain o' h l cl v where
    "parse_decimal (InStr (dec_text (cc_open c))) = Inr o'" "dec_text o' = dec_text (cc_open c)"
    "parse_decimal (InStr (dec_text (cc_high c))) = Inr h" "dec_text h = dec_text (cc_high c)"
    "parse_decimal (InStr (dec_text (cc_low c))) = Inr l" "dec_text l = dec_text (cc_low c)"
    "parse_decimal (InStr (dec_text (cc_close c))) = Inr cl" "dec_text cl = dec_text (cc_close c)"
    "parse_decimal (InStr (dec_text (cc_volume c))) = Inr v" "dec_text v = dec_text (cc_volume c)"
    using parse_dec_text by metis
  then show ?thesis
    by (subst (1 2 3 4 5 6 7 8 9 10) r)
      (auto simp: candle_of_row_def row_of_candle_def canonical_ohlcv_text_def)
qed


section \<open>The storage invariant\<close>

text \<open>What the schema and the writers guarantee of every database the service leaves behind.\<close>

definition quarantine_row_ok :: "quarantine_row \<Rightarrow> bool" where
  "quarantine_row_ok r \<longleftrightarrow> 0 \<le> qr_start_ms r \<and> qr_start_ms r < qr_end_ms r"

definition db_wf :: "db \<Rightarrow> bool" where
  "db_wf d \<longleftrightarrow>
     catalog_wf d \<and>
     distinct (map candle_key (db_candles d)) \<and>
     (\<forall>r \<in> set (db_candles d). row_readable r \<and> 0 \<le> cw_open_time_ms r) \<and>
     distinct (map open_interest_key (db_open_interest d)) \<and>
     (\<forall>r \<in> set (db_open_interest d). 0 \<le> ow_open_time_ms r) \<and>
     distinct (map fst (db_states d)) \<and>
     distinct (map fst (db_tracks d)) \<and>
     (\<forall>r \<in> set (db_quarantine d). quarantine_row_ok r)"

lemma db_wf_catalog [simp]: "db_wf d \<Longrightarrow> catalog_wf d"
  by (simp add: db_wf_def)

lemma catalog_wf_same: "same_catalog d d' \<Longrightarrow> catalog_wf d' = catalog_wf d"
proof -
  assume a: "same_catalog d d'"
  have "map ir_id (db_instruments d') = map ir_id (db_instruments d)"
    using arg_cong [of _ _ "map fst", OF conjunct1 [OF a [unfolded same_catalog_def]]] by (simp add: comp_def)
  moreover have "map ir_ticker (db_instruments d') = map ir_ticker (db_instruments d)"
    using arg_cong [of _ _ "map snd", OF conjunct1 [OF a [unfolded same_catalog_def]]] by (simp add: comp_def)
  ultimately show ?thesis using a by (simp add: catalog_wf_def same_catalog_def)
qed

lemma insert_candle_eq:
  "insert_candle c d = Inr d' \<longleftrightarrow>
     (\<exists>n. stream_id d (cc_stream c) = Inr n \<and> 0 \<le> cc_open_time_ms c \<and>
        sel candle_key (n, cc_open_time_ms c) (db_candles d) = None \<and>
        d' = d\<lparr>db_candles := db_candles d @ [row_of_candle n c]\<rparr>)"
  by (auto simp: insert_candle_def ins_eq)

lemma replace_candle_eq:
  "replace_candle c d = Inr d' \<longleftrightarrow>
     (\<exists>n. stream_id d (cc_stream c) = Inr n \<and>
        d' = d\<lparr>db_candles := upd candle_key (n, cc_open_time_ms c) (\<lambda>r. row_of_candle n c) (db_candles d)\<rparr>)"
  by (auto simp: replace_candle_def)

lemma save_stream_state_eq:
  "save_stream_state s d = Inr d' \<longleftrightarrow>
     (\<exists>n. stream_id d (ss_stream s) = Inr n \<and> (n \<notin> fst ` set (db_states d) \<or> state_row_ok s) \<and>
        d' = d\<lparr>db_states := upd fst n (\<lambda>_. (n, s)) (db_states d)\<rparr>)"
  by (auto simp: save_stream_state_def)

lemma set_upd: "r \<in> set (upd key k f rows) \<Longrightarrow> r \<in> set rows \<or> (\<exists>x \<in> set rows. key x = k \<and> r = f x)"
  by (auto simp: upd_def split: if_splits)

lemma db_wf_put_candles:
  "db_wf d \<Longrightarrow> distinct (map candle_key rows) \<Longrightarrow>
   (\<And>r. r \<in> set rows \<Longrightarrow> row_readable r \<and> 0 \<le> cw_open_time_ms r) \<Longrightarrow> db_wf (d\<lparr>db_candles := rows\<rparr>)"
  by (simp add: db_wf_def)

lemma db_wf_put_open_interest:
  "db_wf d \<Longrightarrow> distinct (map open_interest_key rows) \<Longrightarrow>
   (\<And>r. r \<in> set rows \<Longrightarrow> 0 \<le> ow_open_time_ms r) \<Longrightarrow> db_wf (d\<lparr>db_open_interest := rows\<rparr>)"
  by (simp add: db_wf_def)

lemma db_wf_candles:
  "db_wf d \<Longrightarrow> distinct (map candle_key (db_candles d))"
  "db_wf d \<Longrightarrow> r \<in> set (db_candles d) \<Longrightarrow> row_readable r \<and> 0 \<le> cw_open_time_ms r"
  by (simp_all add: db_wf_def)

lemma insert_candle_wf: "db_wf d \<Longrightarrow> insert_candle c d = Inr d' \<Longrightarrow> db_wf d' \<and> same_catalog d d'"
  by (auto simp: insert_candle_eq sel_None db_wf_candles intro!: db_wf_put_candles)

lemma replace_candle_wf:
  assumes "db_wf d" "replace_candle c d = Inr d'"
  shows "db_wf d' \<and> same_catalog d d'"
proof -
  obtain n where d': "d' = d\<lparr>db_candles :=
      upd candle_key (n, cc_open_time_ms c) (\<lambda>r. row_of_candle n c) (db_candles d)\<rparr>"
    using assms(2) by (auto simp: replace_candle_eq)
  have "row_readable r \<and> 0 \<le> cw_open_time_ms r"
    if "r \<in> set (upd candle_key (n, cc_open_time_ms c) (\<lambda>r. row_of_candle n c) (db_candles d))" for r
    using set_upd [OF that] db_wf_candles(2) [OF assms(1)] by fastforce
  moreover have "distinct (map candle_key
      (upd candle_key (n, cc_open_time_ms c) (\<lambda>r. row_of_candle n c) (db_candles d)))"
    using db_wf_candles(1) [OF assms(1)] by (subst keys_upd) simp_all
  ultimately show ?thesis using assms(1) db_wf_put_candles by (simp add: d')
qed

lemma save_stream_state_wf:
  assumes "db_wf d" "save_stream_state s d = Inr d'"
  shows "db_wf d' \<and> same_catalog d d'"
proof -
  obtain n where d': "d' = d\<lparr>db_states := upd fst n (\<lambda>_. (n, s)) (db_states d)\<rparr>"
    using assms(2) by (auto simp: save_stream_state_eq)
  have "map fst (upd fst n (\<lambda>_. (n, s)) (db_states d)) = map fst (db_states d)"
    by (rule keys_upd) simp
  then show ?thesis using assms(1) by (simp add: d' db_wf_def)
qed

lemma record_quarantine_wf:
  assumes "db_wf d" "record_quarantine st a b rc det pl tm d = Inr d'"
  shows "db_wf d' \<and> same_catalog d d'"
proof -
  obtain r where d': "d' = d\<lparr>db_quarantine := db_quarantine d @ [r]\<rparr>" and r: "quarantine_row_ok r"
    using assms(2) unfolding record_quarantine_def quarantine_row_ok_def by simp force
  show ?thesis using assms(1) r by (simp add: d' db_wf_def)
qed

lemma save_open_interest_wf:
  assumes "db_wf d" "save_open_interest p d = Inr d'"
  shows "db_wf d' \<and> same_catalog d d'"
proof -
  obtain n where n: "0 \<le> co_open_time_ms p" and d': "d' = d\<lparr>db_open_interest :=
         upsert open_interest_key
           \<lparr>ow_stream_id = n, ow_open_time_ms = co_open_time_ms p,
            ow_open_interest_value = co_open_interest p, ow_source = BYBIT_REST,
            ow_committed_at_ms = co_committed_at_ms p\<rparr>
           (\<lambda>r. r\<lparr>ow_open_interest_value := co_open_interest p, ow_source := BYBIT_REST,
                ow_committed_at_ms := co_committed_at_ms p\<rparr>)
           (db_open_interest d)\<rparr>"
    using assms(2) by (auto simp: save_open_interest_def)
  have "0 \<le> ow_open_time_ms r"
    if "r \<in> set (upsert open_interest_key q f rows)" "\<forall>r \<in> set rows. 0 \<le> ow_open_time_ms r"
      "0 \<le> ow_open_time_ms q" "\<And>r. ow_open_time_ms (f r) = ow_open_time_ms r" for q rows f r
    using that by (auto simp: upsert_def split: if_splits dest!: set_upd)
  with assms(1) n show ?thesis
    unfolding d'
    by (intro conjI db_wf_put_open_interest distinct_upsert) (simp_all add: db_wf_def)
qed

lemma save_track_progress_wf:
  assumes "db_wf d" "save_track_progress p d = Inr d'"
  shows "db_wf d' \<and> same_catalog d d'"
proof -
  obtain n where d': "d' = d\<lparr>db_tracks :=
      filter (\<lambda>r. fst r \<noteq> (n, tp_track p)) (db_tracks d) @ [((n, tp_track p), p)]\<rparr>"
    using assms(2) by (auto simp: save_track_progress_def)
  have "distinct (map fst (filter (\<lambda>r. fst r \<noteq> (n, tp_track p)) (db_tracks d)))"
    using assms(1) by (simp add: db_wf_def distinct_map_filter)
  moreover have "(n, tp_track p) \<notin> fst ` set (filter (\<lambda>r. fst r \<noteq> (n, tp_track p)) (db_tracks d))"
    by (simp add: image_iff)
  ultimately show ?thesis using assms(1) by (simp add: d' db_wf_def)
qed

lemma put_instruments_wf:
  assumes "db_wf d" "put_instruments rows d = Inr d'"
    "map (\<lambda>i. (ir_id i, ir_ticker i)) rows = map (\<lambda>i. (ir_id i, ir_ticker i)) (db_instruments d)"
  shows "db_wf d' \<and> same_catalog d d'"
proof -
  have d': "d' = d\<lparr>db_instruments := rows\<rparr>" using assms(2) by (auto simp: put_instruments_def split: if_splits)
  then have sc: "same_catalog d d'" using assms(3) by (simp add: same_catalog_def)
  with assms(1) catalog_wf_same [OF sc] show ?thesis by (simp add: d' db_wf_def)
qed

lemma save_instrument_metadata_wf:
  assumes "db_wf d" "save_instrument_metadata m d = Inr d'"
  shows "db_wf d' \<and> same_catalog d d'"
proof -
  obtain t where put: "put_instruments (upd ir_ticker (ticker (im_instrument m))
              (\<lambda>r. r\<lparr>ir_exchange_symbol := im_exchange_symbol m, ir_launch_time_ms := im_launch_time_ms m,
                   ir_metadata_fetched_at_ms := Some t, ir_updated_at_ms := t\<rparr>)
              (db_instruments d)) d = Inr d'"
    using assms(2) by (auto simp: save_instrument_metadata_def split: option.splits)
  show ?thesis by (rule put_instruments_wf [OF assms(1) put]) (simp add: upd_def)
qed

lemmas writers_wf = insert_candle_wf replace_candle_wf save_stream_state_wf record_quarantine_wf
  save_open_interest_wf save_track_progress_wf save_instrument_metadata_wf

section \<open>Registration\<close>

lemma next_id_fresh: "next_id ids \<notin> set ids"
proof (cases "ids = []")
  case False
  have "next_id ids \<le> Max (set ids)" if "next_id ids \<in> set ids" using that by simp
  with False show ?thesis by (auto simp: next_id_def)
qed simp

lemma upsert_keys_distinct:
  assumes "distinct (map g rows)" "g r \<notin> g ` set rows" "\<And>x. g (f x) = g x"
  shows "distinct (map g (upsert key r f rows))"
proof -
  have "map g (upd key k f rows) = map g rows" for k using assms(3) by (induction rows) (auto simp: upd_def)
  with assms show ?thesis by (simp add: upsert_def)
qed

lemma find_exists: "x \<in> set xs \<Longrightarrow> P x \<Longrightarrow> \<exists>y. find P xs = Some y \<and> y \<in> set xs \<and> P y"
  by (induction xs) auto

lemma register_stream_wf:
  assumes "db_wf d" "register_stream s x t d = Inr (n, d')"
  shows "db_wf d' \<and> stream_id d' s = Inr n"
proof -
  let ?ins = "upsert ir_ticker
          \<lparr>ir_id = next_id (map ir_id (db_instruments d)), ir_ticker = ticker (sk_instrument s),
           ir_exchange_symbol = x, ir_launch_time_ms = None,
           ir_metadata_fetched_at_ms = None, ir_created_at_ms = t, ir_updated_at_ms = t\<rparr>
          (\<lambda>r. r\<lparr>ir_exchange_symbol := x, ir_updated_at_ms := t\<rparr>) (db_instruments d)"
  let ?str = "\<lambda>iid. upsert (\<lambda>r. (st_instrument_id r, st_timeframe r))
             \<lparr>st_id = next_id (map st_id (db_streams d)), st_instrument_id = iid,
              st_timeframe = sk_timeframe s, st_created_at_ms = t\<rparr> (\<lambda>r. r) (db_streams d)"
  obtain iid where d': "d' = d\<lparr>db_instruments := ?ins, db_streams := ?str iid,
        db_states := upsert fst (n, initial_stream_state s t) (\<lambda>r. r) (db_states d)\<rparr>"
      and tick: "distinct (map ir_ticker ?ins)"
      and sid: "stream_id (d\<lparr>db_instruments := ?ins, db_streams := ?str iid\<rparr>) s = Inr n"
    using assms(2) by (auto simp: register_stream_def put_instruments_def Let_def split: if_splits)
  have "distinct (map ir_id ?ins)"
    using assms(1) next_id_fresh [of "map ir_id (db_instruments d)"]
    by (intro upsert_keys_distinct) (auto simp: db_wf_def catalog_wf_def)
  moreover have "distinct (map st_id (?str iid))"
    using assms(1) next_id_fresh [of "map st_id (db_streams d)"]
    by (intro upsert_keys_distinct) (auto simp: db_wf_def catalog_wf_def)
  moreover have "distinct (map (\<lambda>r. (st_instrument_id r, st_timeframe r)) (?str iid))"
    using assms(1) by (intro distinct_upsert) (auto simp: db_wf_def catalog_wf_def)
  moreover have "distinct (map fst (upsert fst (n, initial_stream_state s t) (\<lambda>r. r) (db_states d)))"
    using assms(1) by (intro distinct_upsert) (auto simp: db_wf_def)
  ultimately show ?thesis
    using assms(1) tick sid by (simp add: d' db_wf_def catalog_wf_def)
qed

lemma empty_db_wf [simp]: "db_wf empty_db"
  by (simp add: empty_db_def db_wf_def catalog_wf_def)


section \<open>The candle store as an interface\<close>

text \<open>
  What ingestion relies on: lookups by stream and open time are total, answer with the
  identity asked for, and an addition or an overwrite changes exactly one of them.
\<close>

locale candle_store =
  fixes ok :: "'s \<Rightarrow> bool"
    and known :: "'s \<Rightarrow> stream_key \<Rightarrow> bool"
    and lookup :: "'s \<Rightarrow> stream_key \<Rightarrow> int \<Rightarrow> canonical_candle option res"
    and add :: "canonical_candle \<Rightarrow> 's \<Rightarrow> 's res"
    and overwrite :: "canonical_candle \<Rightarrow> 's \<Rightarrow> 's res"
  assumes lookup_total: "ok s \<Longrightarrow> known s k \<Longrightarrow> \<exists>x. lookup s k t = Inr x"
    and lookup_id: "ok s \<Longrightarrow> lookup s k t = Inr (Some c) \<Longrightarrow> cc_stream c = k \<and> cc_open_time_ms c = t"
    and add_defined: "ok s \<Longrightarrow> known s (cc_stream c) \<Longrightarrow> 0 \<le> cc_open_time_ms c \<Longrightarrow>
      lookup s (cc_stream c) (cc_open_time_ms c) = Inr None \<Longrightarrow> \<exists>s'. add c s = Inr s'"
    and add_ok: "ok s \<Longrightarrow> add c s = Inr s' \<Longrightarrow> ok s'"
    and add_lookup: "ok s \<Longrightarrow> add c s = Inr s' \<Longrightarrow>
      \<exists>x. lookup s' (cc_stream c) (cc_open_time_ms c) = Inr (Some x) \<and>
        canonical_ohlcv_text x = canonical_ohlcv_text c \<and> cc_source x = cc_source c \<and>
        cc_committed_at_ms x = cc_committed_at_ms c"
    and add_other: "ok s \<Longrightarrow> add c s = Inr s' \<Longrightarrow> (k, t) \<noteq> (cc_stream c, cc_open_time_ms c) \<Longrightarrow>
      lookup s' k t = lookup s k t"
    and overwrite_defined: "ok s \<Longrightarrow> known s (cc_stream c) \<Longrightarrow> \<exists>s'. overwrite c s = Inr s'"
    and overwrite_ok: "ok s \<Longrightarrow> overwrite c s = Inr s' \<Longrightarrow> ok s'"
    and overwrite_lookup: "ok s \<Longrightarrow> overwrite c s = Inr s' \<Longrightarrow>
      lookup s (cc_stream c) (cc_open_time_ms c) = Inr (Some y) \<Longrightarrow>
      \<exists>x. lookup s' (cc_stream c) (cc_open_time_ms c) = Inr (Some x) \<and>
        canonical_ohlcv_text x = canonical_ohlcv_text c \<and> cc_source x = cc_source c \<and>
        cc_committed_at_ms x = cc_committed_at_ms c"
    and overwrite_other: "ok s \<Longrightarrow> overwrite c s = Inr s' \<Longrightarrow>
      (k, t) \<noteq> (cc_stream c, cc_open_time_ms c) \<Longrightarrow> lookup s' k t = lookup s k t"
begin

lemma classify_total:
  assumes "ok s" "lookup s (oc_stream o') (oc_open_time_ms o') = Inr x"
  shows "\<exists>cl. classify_against_existing x o' = Inr cl \<and> cl \<in> {COMMITTED, DUPLICATE, CORRECTED} \<and>
     (cl = COMMITTED \<longleftrightarrow> x = None)"
  using assms lookup_id [of s "oc_stream o'" "oc_open_time_ms o'"]
  by (cases x) (auto simp: classify_against_existing_def)

lemma duplicate_after_add:
  assumes "ok s" "add (from_observation o' tm) s = Inr s'"
  shows "\<exists>x. lookup s' (oc_stream o') (oc_open_time_ms o') = Inr (Some x) \<and>
     classify_against_existing (Some x) o' = Inr DUPLICATE"
proof -
  obtain x where "lookup s' (oc_stream o') (oc_open_time_ms o') = Inr (Some x)"
      "canonical_ohlcv_text x = observed_ohlcv_text o'"
    using add_lookup [OF assms] by auto
  moreover from this have "cc_stream x = oc_stream o' \<and> cc_open_time_ms x = oc_open_time_ms o'"
    using lookup_id add_ok assms by blast
  ultimately show ?thesis by (auto simp: classify_against_existing_def)
qed

lemma duplicate_after_overwrite:
  assumes "ok s" "overwrite (from_observation o' tm) s = Inr s'"
    "lookup s (oc_stream o') (oc_open_time_ms o') = Inr (Some y)"
  shows "\<exists>x. lookup s' (oc_stream o') (oc_open_time_ms o') = Inr (Some x) \<and>
     classify_against_existing (Some x) o' = Inr DUPLICATE"
proof -
  obtain x where "lookup s' (oc_stream o') (oc_open_time_ms o') = Inr (Some x)"
      "canonical_ohlcv_text x = observed_ohlcv_text o'"
    using overwrite_lookup [OF assms(1,2)] assms(3) by auto
  moreover from this have "cc_stream x = oc_stream o' \<and> cc_open_time_ms x = oc_open_time_ms o'"
    using lookup_id overwrite_ok assms by blast
  ultimately show ?thesis by (auto simp: classify_against_existing_def)
qed

end

lemma stream_existsE: "stream_exists d s \<Longrightarrow> (\<And>n. stream_id d s = Inr n \<Longrightarrow> P) \<Longrightarrow> P"
  by (auto simp: stream_exists_def split: sum.splits)

lemma sel_candle_readable:
  "db_wf d \<Longrightarrow> sel candle_key k (db_candles d) = Some r \<Longrightarrow> row_readable r \<and> candle_key r = k"
  using sel_Some [of candle_key k "db_candles d" r] by (simp add: db_wf_candles(2))

lemma get_candle_row:
  assumes "db_wf d" "stream_id d s = Inr n" "sel candle_key (n, t) (db_candles d) = Some r"
  shows "\<exists>c. get_candle d s t = Inr (Some c) \<and> candle_of_row s r = Inr c \<and> cc_stream c = s \<and>
     cc_open_time_ms c = t \<and> cc_source c = cw_source r \<and> cc_committed_at_ms c = cw_committed_at_ms r \<and>
     canonical_ohlcv_text c = (cw_open_value r, cw_high_value r, cw_low_value r, cw_close_value r, cw_volume_value r)"
proof -
  have r: "row_readable r" "cw_open_time_ms r = t" using sel_candle_readable [OF assms(1,3)] by auto
  from candle_of_row_readable [OF r(1), of s] r(2) assms(2,3) show ?thesis
    by (auto simp: get_candle_def)
qed

lemma get_candle_none:
  "stream_id d s = Inr n \<Longrightarrow> get_candle d s t = Inr None \<longleftrightarrow> sel candle_key (n, t) (db_candles d) = None"
  by (auto simp: get_candle_def split: option.splits)

lemma get_candle_cong:
  "stream_id d' s = stream_id d s \<Longrightarrow>
   (\<And>n. stream_id d s = Inr n \<Longrightarrow> sel candle_key (n, t) (db_candles d') = sel candle_key (n, t) (db_candles d)) \<Longrightarrow>
   get_candle d' s t = get_candle d s t"
  by (cases "stream_id d s") (simp_all add: get_candle_def)

lemma row_of_candle_ohlcv:
  "(cw_open_value (row_of_candle n c), cw_high_value (row_of_candle n c), cw_low_value (row_of_candle n c),
    cw_close_value (row_of_candle n c), cw_volume_value (row_of_candle n c)) = canonical_ohlcv_text c"
  by (simp add: row_of_candle_def canonical_ohlcv_text_def)

lemma candles_sel_insert:
  assumes "insert_candle c d = Inr d'"
  obtains n where "stream_id d (cc_stream c) = Inr n" "stream_id d' k = stream_id d k"
    "sel candle_key (n, cc_open_time_ms c) (db_candles d) = None" "0 \<le> cc_open_time_ms c"
    "\<And>key. sel candle_key key (db_candles d') =
       (if key = (n, cc_open_time_ms c) then Some (row_of_candle n c) else sel candle_key key (db_candles d))"
proof -
  from assms obtain n where n: "stream_id d (cc_stream c) = Inr n" "0 \<le> cc_open_time_ms c"
    "sel candle_key (n, cc_open_time_ms c) (db_candles d) = None"
    and d': "d' = d\<lparr>db_candles := db_candles d @ [row_of_candle n c]\<rparr>"
    unfolding insert_candle_eq by blast
  show thesis
    by (rule that [OF n(1) _ n(3,2)]) (use n(3) in \<open>simp_all add: d' sel_append split: option.splits\<close>)
qed

lemma candles_sel_replace:
  assumes "replace_candle c d = Inr d'"
  obtains n where "stream_id d (cc_stream c) = Inr n" "stream_id d' k = stream_id d k"
    "\<And>key. sel candle_key key (db_candles d') =
       (if key = (n, cc_open_time_ms c) then map_option (\<lambda>_. row_of_candle n c) (sel candle_key key (db_candles d))
        else sel candle_key key (db_candles d))"
proof -
  from assms obtain n where n: "stream_id d (cc_stream c) = Inr n"
    and d': "d' = d\<lparr>db_candles := upd candle_key (n, cc_open_time_ms c) (\<lambda>r. row_of_candle n c) (db_candles d)\<rparr>"
    unfolding replace_candle_eq by blast
  show thesis by (rule that [OF n]) (simp_all add: d' sel_upd)
qed

lemma get_candle_other:
  assumes "db_wf d" "stream_id d (cc_stream c) = Inr n" "stream_id d' k = stream_id d k"
    "\<And>key. key \<noteq> (n, cc_open_time_ms c) \<Longrightarrow> sel candle_key key (db_candles d') = sel candle_key key (db_candles d)"
    "(k, t) \<noteq> (cc_stream c, cc_open_time_ms c)"
  shows "get_candle d' k t = get_candle d k t"
proof (rule get_candle_cong [OF assms(3)])
  fix m assume m: "stream_id d k = Inr m"
  have "(m, t) \<noteq> (n, cc_open_time_ms c)"
    using assms(2,5) m stream_id_inj [of d k n "cc_stream c"] assms(1) by auto
  then show "sel candle_key (m, t) (db_candles d') = sel candle_key (m, t) (db_candles d)"
    by (rule assms(4))
qed

interpretation sqlite_candles: candle_store db_wf stream_exists get_candle insert_candle replace_candle
proof
  fix s k t assume "db_wf s" "stream_exists s k"
  then obtain n where n: "stream_id s k = Inr n" by (auto elim: stream_existsE)
  show "\<exists>x. get_candle s k t = Inr x"
  proof (cases "sel candle_key (n, t) (db_candles s)")
    case (Some r)
    with \<open>db_wf s\<close> n show ?thesis using get_candle_row by blast
  qed (use get_candle_none [OF n] in blast)
next
  fix s k t c assume "db_wf s" "get_candle s k t = Inr (Some c)"
  moreover from this obtain n r where "stream_id s k = Inr n" "sel candle_key (n, t) (db_candles s) = Some r"
    by (auto simp: get_candle_def split: option.splits)
  ultimately show "cc_stream c = k \<and> cc_open_time_ms c = t" using get_candle_row by fastforce
next
  fix s and c :: canonical_candle assume "stream_exists s (cc_stream c)" "0 \<le> cc_open_time_ms c"
    and none: "get_candle s (cc_stream c) (cc_open_time_ms c) = Inr None"
  then obtain n where n: "stream_id s (cc_stream c) = Inr n" by (auto elim: stream_existsE)
  with none \<open>0 \<le> cc_open_time_ms c\<close> show "\<exists>s'. insert_candle c s = Inr s'"
    by (simp add: insert_candle_eq get_candle_none)
next
  fix s c s' assume "db_wf s" "insert_candle c s = Inr s'"
  then show "db_wf s'" using insert_candle_wf by blast
next
  fix s c s' assume a: "db_wf s" "insert_candle c s = Inr s'"
  have wf: "db_wf s'" using a insert_candle_wf by blast
  obtain n where "stream_id s' (cc_stream c) = Inr n"
      "sel candle_key (n, cc_open_time_ms c) (db_candles s') = Some (row_of_candle n c)"
    by (rule candles_sel_insert [OF a(2), of "cc_stream c"]) simp
  from get_candle_row [OF wf this] show "\<exists>x. get_candle s' (cc_stream c) (cc_open_time_ms c) = Inr (Some x) \<and>
        canonical_ohlcv_text x = canonical_ohlcv_text c \<and> cc_source x = cc_source c \<and>
        cc_committed_at_ms x = cc_committed_at_ms c"
    using row_of_candle_ohlcv by auto
next
  fix s c s' k t assume a: "db_wf s" "insert_candle c s = Inr s'" "(k, t) \<noteq> (cc_stream c, cc_open_time_ms c)"
  obtain n where "stream_id s (cc_stream c) = Inr n" "stream_id s' k = stream_id s k"
    "\<And>key. key \<noteq> (n, cc_open_time_ms c) \<Longrightarrow> sel candle_key key (db_candles s') = sel candle_key key (db_candles s)"
    by (rule candles_sel_insert [OF a(2), of k]) simp
  from get_candle_other [OF a(1) this a(3)] show "get_candle s' k t = get_candle s k t" .
next
  fix s and c :: canonical_candle assume "stream_exists s (cc_stream c)"
  then show "\<exists>s'. replace_candle c s = Inr s'" by (auto simp: replace_candle_eq elim: stream_existsE)
next
  fix s c s' assume "db_wf s" "replace_candle c s = Inr s'"
  then show "db_wf s'" using replace_candle_wf by blast
next
  fix s c s' y assume a: "db_wf s" "replace_candle c s = Inr s'"
    and y: "get_candle s (cc_stream c) (cc_open_time_ms c) = Inr (Some y)"
  have wf: "db_wf s'" using a replace_candle_wf by blast
  obtain n where n: "stream_id s (cc_stream c) = Inr n" "stream_id s' (cc_stream c) = Inr n"
      "sel candle_key (n, cc_open_time_ms c) (db_candles s') =
        map_option (\<lambda>_. row_of_candle n c) (sel candle_key (n, cc_open_time_ms c) (db_candles s))"
    by (rule candles_sel_replace [OF a(2), of "cc_stream c"]) simp
  moreover have "sel candle_key (n, cc_open_time_ms c) (db_candles s) \<noteq> None"
    using y get_candle_none [OF n(1), of "cc_open_time_ms c"] by auto
  ultimately have "sel candle_key (n, cc_open_time_ms c) (db_candles s') = Some (row_of_candle n c)" by auto
  from get_candle_row [OF wf n(2) this] show "\<exists>x. get_candle s' (cc_stream c) (cc_open_time_ms c) = Inr (Some x) \<and>
        canonical_ohlcv_text x = canonical_ohlcv_text c \<and> cc_source x = cc_source c \<and>
        cc_committed_at_ms x = cc_committed_at_ms c"
    using row_of_candle_ohlcv by auto
next
  fix s c s' k t assume a: "db_wf s" "replace_candle c s = Inr s'" "(k, t) \<noteq> (cc_stream c, cc_open_time_ms c)"
  obtain n where "stream_id s (cc_stream c) = Inr n" "stream_id s' k = stream_id s k"
    "\<And>key. key \<noteq> (n, cc_open_time_ms c) \<Longrightarrow> sel candle_key key (db_candles s') = sel candle_key key (db_candles s)"
    by (rule candles_sel_replace [OF a(2), of k]) simp
  from get_candle_other [OF a(1) this a(3)] show "get_candle s' k t = get_candle s k t" .
qed


text \<open>
  Storage round trip: a candle that was inserted is read back under its stream and open
  time with the same five values, source and commit time, and every other lookup, of any
  stream and any time, answers as before; the storage invariant is kept.
\<close>

theorem insert_candle_roundtrip:
  assumes "db_wf d" "insert_candle c d = Inr d'"
  shows "db_wf d' \<and>
     (\<exists>x. get_candle d' (cc_stream c) (cc_open_time_ms c) = Inr (Some x) \<and>
        map dec_val [cc_open x, cc_high x, cc_low x, cc_close x, cc_volume x] =
          map dec_val [cc_open c, cc_high c, cc_low c, cc_close c, cc_volume c] \<and>
        cc_stream x = cc_stream c \<and> cc_open_time_ms x = cc_open_time_ms c \<and>
        cc_source x = cc_source c \<and> cc_committed_at_ms x = cc_committed_at_ms c) \<and>
     (\<forall>k t. (k, t) \<noteq> (cc_stream c, cc_open_time_ms c) \<longrightarrow> get_candle d' k t = get_candle d k t)"
proof -
  have wf: "db_wf d'" using sqlite_candles.add_ok [OF assms] .
  obtain x where x: "get_candle d' (cc_stream c) (cc_open_time_ms c) = Inr (Some x)"
    "canonical_ohlcv_text x = canonical_ohlcv_text c" "cc_source x = cc_source c"
    "cc_committed_at_ms x = cc_committed_at_ms c"
    using sqlite_candles.add_lookup [OF assms] by blast
  moreover have "cc_stream x = cc_stream c \<and> cc_open_time_ms x = cc_open_time_ms c"
    using sqlite_candles.lookup_id [OF wf x(1)] .
  ultimately show ?thesis
    using wf sqlite_candles.add_other [OF assms]
    by (simp add: canonical_ohlcv_text_def dec_text_eq_iff)
qed

definition example_stream :: stream_key where
  "example_stream = StreamKey (InstrumentKey ''BTCUSDT.P'') TF_1m"

definition example_db :: db where
  "example_db = empty_db\<lparr>
     db_instruments := [\<lparr>ir_id = 1, ir_ticker = ''BTCUSDT.P'', ir_exchange_symbol = ''BTCUSDT'',
       ir_launch_time_ms = None, ir_metadata_fetched_at_ms = None, ir_created_at_ms = 5,
       ir_updated_at_ms = 5\<rparr>],
     db_streams := [\<lparr>st_id = 1, st_instrument_id = 1, st_timeframe = TF_1m, st_created_at_ms = 5\<rparr>],
     db_states := [(1, initial_stream_state example_stream 5)]\<rparr>"

definition example_candle :: canonical_candle where
  "example_candle = \<lparr>cc_stream = example_stream, cc_open_time_ms = 60000, cc_close_time_ms = 119999,
     cc_open = Dec False 10 0, cc_high = Dec False 12 0, cc_low = Dec False 9 0, cc_close = Dec False 11 0,
     cc_volume = Dec False 15 (-1), cc_source = BYBIT_REST, cc_committed_at_ms = 120001\<rparr>"

lemma example_db_registered: "register_stream example_stream ''BTCUSDT'' 5 empty_db = Inr (1, example_db)"
  by (simp add: register_stream_def example_db_def example_stream_def empty_db_def put_instruments_def
      instrument_row_ok_def opt_non_negative_def upsert_def next_id_def instrument_id_def sel_def
      stream_id_def)

lemma example_db_wf [simp]: "db_wf example_db"
  using register_stream_wf [OF empty_db_wf example_db_registered] by blast

lemma example_stream_id [simp]: "stream_id example_db example_stream = Inr 1"
  using register_stream_wf [OF empty_db_wf example_db_registered] by blast

theorem insert_candle_roundtrip_witness:
  "\<exists>d'. insert_candle example_candle example_db = Inr d' \<and>
     (\<exists>x. get_candle d' example_stream 60000 = Inr (Some x) \<and> dec_val (cc_volume x) = dec_val (Dec False 15 (-1)))"
proof -
  have "insert_candle example_candle example_db =
      Inr (example_db\<lparr>db_candles := [row_of_candle 1 example_candle]\<rparr>)"
    by (simp add: insert_candle_def example_candle_def ins_def)
      (simp add: example_db_def empty_db_def)
  with insert_candle_roundtrip [OF example_db_wf this] show ?thesis
    by (auto simp: example_candle_def)
qed

section \<open>Snapshots as an interface\<close>

text \<open>
  Lifecycle snapshots and track progress are both read, changed and written back by stream;
  the two repositories give the same laws.
\<close>

locale snapshot_store =
  fixes ok :: "'s \<Rightarrow> bool"
    and get :: "'s \<Rightarrow> stream_key \<Rightarrow> 'v res"
    and save :: "'v \<Rightarrow> 's \<Rightarrow> 's res"
    and owner :: "'v \<Rightarrow> stream_key"
    and good :: "'v \<Rightarrow> bool"
  assumes get_good: "ok s \<Longrightarrow> get s k = Inr v \<Longrightarrow> owner v = k \<and> good v"
    and save_defined: "ok s \<Longrightarrow> get s (owner v) = Inr u \<Longrightarrow> good v \<Longrightarrow> \<exists>s'. save v s = Inr s'"
    and save_ok: "ok s \<Longrightarrow> save v s = Inr s' \<Longrightarrow> ok s'"
    and save_get: "ok s \<Longrightarrow> get s (owner v) = Inr u \<Longrightarrow> good v \<Longrightarrow> save v s = Inr s' \<Longrightarrow>
      get s' (owner v) = Inr v"
    and save_other: "ok s \<Longrightarrow> save v s = Inr s' \<Longrightarrow> k \<noteq> owner v \<Longrightarrow> get s' k = get s k"
begin

text \<open>Read, change, write back.\<close>

lemma modify:
  assumes "ok s" "get s k = Inr v" "good v'" "owner v' = k"
  shows "\<exists>s'. save v' s = Inr s' \<and> ok s' \<and> get s' k = Inr v' \<and> (\<forall>j. j \<noteq> k \<longrightarrow> get s' j = get s j)"
  using assms save_defined [of s v' v] save_ok save_get save_other by blast

end

lemma state_wf_row_ok: "state_wf s \<Longrightarrow> state_row_ok s"
  by (cases "ss_discovery_next_open_time_ms s") (auto simp: state_wf_def state_row_ok_def)

lemma get_stream_state_eq:
  "get_stream_state d k = Inr v \<longleftrightarrow>
     (\<exists>n r. stream_id d k = Inr n \<and> sel fst n (db_states d) = Some r \<and>
        v = (snd r)\<lparr>ss_stream := k\<rparr> \<and> state_wf v)"
proof (cases "stream_id d k")
  case (Inr n)
  then show ?thesis
    by (cases "sel fst n (db_states d)") (auto simp: get_stream_state_def mk_stream_state_iff)
qed (simp add: get_stream_state_def)

lemma save_stream_state_sel:
  assumes "save_stream_state v d = Inr d'"
  shows "\<exists>n. stream_id d (ss_stream v) = Inr n \<and> (\<forall>k. stream_id d' k = stream_id d k) \<and>
     (\<forall>m. sel fst m (db_states d') =
       (if m = n then map_option (\<lambda>_. (n, v)) (sel fst n (db_states d)) else sel fst m (db_states d)))"
  using assms by (auto simp: save_stream_state_eq sel_upd)

interpretation sqlite_states: snapshot_store db_wf get_stream_state save_stream_state ss_stream state_wf
proof
  fix s k v assume "get_stream_state s k = Inr v"
  then show "ss_stream v = k \<and> state_wf v" by (auto simp: get_stream_state_eq)
next
  fix s u and v :: stream_state assume "get_stream_state s (ss_stream v) = Inr u" "state_wf v"
  then show "\<exists>s'. save_stream_state v s = Inr s'"
    by (auto simp: get_stream_state_eq save_stream_state_eq state_wf_row_ok)
next
  fix s v s' assume "db_wf s" "save_stream_state v s = Inr s'"
  then show "db_wf s'" using save_stream_state_wf by blast
next
  fix s v u s' assume "get_stream_state s (ss_stream v) = Inr u" "state_wf v" "save_stream_state v s = Inr s'"
  with save_stream_state_sel [of v s s'] show "get_stream_state s' (ss_stream v) = Inr v"
    by (auto simp: get_stream_state_eq)
next
  fix s v s' k assume a: "db_wf s" "save_stream_state v s = Inr s'" "k \<noteq> ss_stream v"
  then obtain n where n: "stream_id s (ss_stream v) = Inr n" "stream_id s' k = stream_id s k"
    "\<And>m. m \<noteq> n \<Longrightarrow> sel fst m (db_states s') = sel fst m (db_states s)"
    using save_stream_state_sel [of v s s'] by auto
  have "m \<noteq> n" if "stream_id s k = Inr m" for m
    using stream_id_inj [of s k n "ss_stream v"] n(1) a(1,3) that by auto
  with n show "get_stream_state s' k = get_stream_state s k"
    by (cases "stream_id s k") (auto simp: get_stream_state_def)
qed

definition track_good :: "track_progress \<Rightarrow> bool" where
  "track_good p \<longleftrightarrow> tp_track p = OPEN_INTEREST_TRACK \<and>
     (tp_earliest_available_open_time_ms p = None \<or> tp_discovery_next_open_time_ms p = None)"

abbreviation get_open_interest_progress :: "db \<Rightarrow> stream_key \<Rightarrow> track_progress res" where
  "get_open_interest_progress d k \<equiv> get_track_progress d k OPEN_INTEREST_TRACK"

lemma get_track_progress_eq:
  "get_track_progress d k tr = Inr v \<longleftrightarrow>
     (\<exists>n. stream_id d k = Inr n \<and>
        v = (case sel fst (n, tr) (db_tracks d) of
               None \<Rightarrow> initial_track_progress k tr
             | Some r \<Rightarrow> (snd r)\<lparr>tp_stream := k, tp_track := tr\<rparr>) \<and>
        (tp_earliest_available_open_time_ms v = None \<or> tp_discovery_next_open_time_ms v = None))"
proof (cases "stream_id d k")
  case (Inr n)
  then show ?thesis
    by (cases "sel fst (n, tr) (db_tracks d)")
      (auto simp: get_track_progress_def mk_track_progress_def split: if_splits)
qed (simp add: get_track_progress_def)

lemma sel_filter_other: "k \<noteq> k' \<Longrightarrow> sel key k (filter (\<lambda>r. key r \<noteq> k') rows) = sel key k rows"
  by (induction rows) (auto simp: sel_def)

lemma sel_filter_same: "sel key k (filter (\<lambda>r. key r \<noteq> k) rows) = None"
  by (auto simp: sel_None)

lemma save_track_progress_sel:
  assumes "save_track_progress v d = Inr d'"
  shows "\<exists>n. stream_id d (tp_stream v) = Inr n \<and> track_good v \<and> (\<forall>k. stream_id d' k = stream_id d k) \<and>
     (\<forall>m. sel fst m (db_tracks d') =
       (if m = (n, tp_track v) then Some ((n, tp_track v), v) else sel fst m (db_tracks d)))"
  using assms
  by (auto simp: save_track_progress_def track_good_def sel_append sel_filter_other sel_filter_same
      split: option.splits)

interpretation sqlite_tracks:
  snapshot_store db_wf get_open_interest_progress save_track_progress tp_stream track_good
proof
  fix s k v assume "get_open_interest_progress s k = Inr v"
  then show "tp_stream v = k \<and> track_good v"
    by (auto simp: get_track_progress_eq track_good_def initial_track_progress_def split: option.splits)
next
  fix s u and v :: track_progress assume "get_open_interest_progress s (tp_stream v) = Inr u" "track_good v"
  then show "\<exists>s'. save_track_progress v s = Inr s'"
    by (auto simp: get_track_progress_eq save_track_progress_def track_good_def)
next
  fix s v s' assume "db_wf s" "save_track_progress v s = Inr s'"
  then show "db_wf s'" using save_track_progress_wf by blast
next
  fix s v u s' assume "track_good v" "save_track_progress v s = Inr s'"
  with save_track_progress_sel [of v s s'] show "get_open_interest_progress s' (tp_stream v) = Inr v"
    by (auto simp: get_track_progress_eq track_good_def)
next
  fix s v s' k assume a: "db_wf s" "save_track_progress v s = Inr s'" "k \<noteq> tp_stream v"
  obtain n where n: "stream_id s (tp_stream v) = Inr n" "stream_id s' k = stream_id s k"
    "\<And>m. m \<noteq> (n, tp_track v) \<Longrightarrow> sel fst m (db_tracks s') = sel fst m (db_tracks s)"
    using save_track_progress_sel [OF a(2)] by metis
  have "m \<noteq> n" if "stream_id s k = Inr m" for m
    using stream_id_inj [of s k n "tp_stream v"] n(1) a(1,3) that by auto
  with n show "get_open_interest_progress s' k = get_open_interest_progress s k"
    by (cases "stream_id s k") (auto simp: get_track_progress_def)
qed

end
