(* ===== verification/UnitOfWork.thy ===== *)
theory UnitOfWork
  imports Storage
begin

text \<open>
  adapters/sqlite/transaction.py and the ports of the application layer. A use case runs on a
  \<open>world\<close>: the committed database, the working copy of the open transaction, and how many
  times the clock and the sources were called. The clock and the market data sources are
  the parameter \<open>env\<close>: arbitrary functions of the call number and the arguments.

  \<open>with_uow\<close> is \<open>with unit_of_work_factory() as unit_of_work\<close>: it starts from the committed
  database, and whatever was not committed when the block ends, normally or by an
  exception, is gone, because the next block starts from the committed database again.
\<close>

section \<open>Ports\<close>

record env =
  e_now :: "nat \<Rightarrow> int"
  e_candles :: "nat \<Rightarrow> stream_key \<Rightarrow> time_window \<Rightarrow> int \<Rightarrow> observed_candle list res"
  e_open_interest :: "nat \<Rightarrow> stream_key \<Rightarrow> time_window \<Rightarrow> int \<Rightarrow> observed_open_interest list res"
  e_launch_time :: "nat \<Rightarrow> instrument_key \<Rightarrow> int res"
  e_specification :: "nat \<Rightarrow> instrument_key \<Rightarrow> exchange_spec res"

record world =
  w_disk :: db
  w_work :: db
  w_ticks :: nat
  w_calls :: nat

type_synonym 'a app = "(world, 'a) prog"

definition now_ms :: "env \<Rightarrow> int app" where
  "now_ms E w = (Inr (e_now E (w_ticks w)), w\<lparr>w_ticks := Suc (w_ticks w)\<rparr>)"

definition call_source :: "(nat \<Rightarrow> 'a res) \<Rightarrow> 'a app" where
  "call_source f w = (f (w_calls w), w\<lparr>w_calls := Suc (w_calls w)\<rparr>)"

definition fetch_closed_candles :: "env \<Rightarrow> stream_key \<Rightarrow> time_window \<Rightarrow> int \<Rightarrow> observed_candle list app" where
  "fetch_closed_candles E stream window observed_at_ms =
     call_source (\<lambda>n. e_candles E n stream window observed_at_ms)"

definition fetch_open_interest ::
  "env \<Rightarrow> stream_key \<Rightarrow> time_window \<Rightarrow> int \<Rightarrow> observed_open_interest list app" where
  "fetch_open_interest E stream window observed_at_ms =
     call_source (\<lambda>n. e_open_interest E n stream window observed_at_ms)"

definition get_launch_time_ms :: "env \<Rightarrow> instrument_key \<Rightarrow> int app" where
  "get_launch_time_ms E i = call_source (\<lambda>n. e_launch_time E n i)"

definition get_instrument_specification :: "env \<Rightarrow> instrument_key \<Rightarrow> exchange_spec app" where
  "get_instrument_specification E i = call_source (\<lambda>n. e_specification E n i)"

section \<open>The unit of work\<close>

definition with_uow :: "'a app \<Rightarrow> 'a app" where
  "with_uow body w = body (w\<lparr>w_work := w_disk w\<rparr>)"

definition commit :: "unit app" where
  "commit w = (Inr (), w\<lparr>w_disk := w_work w\<rparr>)"

definition in_work :: "(db, 'a) prog \<Rightarrow> 'a app" where
  "in_work m w = (case m (w_work w) of (r, d) \<Rightarrow> (r, w\<lparr>w_work := d\<rparr>))"

definition uow_read :: "(db \<Rightarrow> 'a res) \<Rightarrow> 'a app" where
  "uow_read f = in_work (readE f)"

definition uow_write :: "(db \<Rightarrow> db res) \<Rightarrow> unit app" where
  "uow_write f = in_work (updateE f)"

text \<open>\<open>record_quarantine_once\<close>: a row for the same range and reason is recorded only once.\<close>

definition record_quarantine_once ::
  "stream_key \<Rightarrow> int \<Rightarrow> int \<Rightarrow> string \<Rightarrow> string \<Rightarrow> string option \<Rightarrow> int \<Rightarrow> (db, bool) prog" where
  "record_quarantine_once stream a b reason_code detail payload_json created_at_ms =
     bindE (readE (\<lambda>d. quarantine_contains d stream a b reason_code)) (\<lambda>present.
       if present then returnE False
       else bindE (updateE (record_quarantine stream a b reason_code detail payload_json created_at_ms))
              (\<lambda>_. returnE True))"

section \<open>Rules\<close>

text \<open>
  \<open>work_ok I\<close> holds of a state whose committed and working databases satisfy \<open>I\<close>. A
  program that keeps it keeps \<open>I\<close> on disk, however it ends.
\<close>

definition work_ok :: "(db \<Rightarrow> bool) \<Rightarrow> world \<Rightarrow> bool" where
  "work_ok I w \<longleftrightarrow> I (w_disk w) \<and> I (w_work w)"

definition disk_ok :: "(db \<Rightarrow> bool) \<Rightarrow> world \<Rightarrow> bool" where
  "disk_ok I w \<longleftrightarrow> I (w_disk w)"

lemma keeps_now_ms [keeps_intro]: "keeps (work_ok I) (now_ms E)" "keeps (disk_ok I) (now_ms E)"
  by (simp_all add: valid_def now_ms_def work_ok_def disk_ok_def)

lemma keeps_call_source [keeps_intro]:
  "keeps (work_ok I) (call_source f)" "keeps (disk_ok I) (call_source f)"
  by (auto simp: valid_def call_source_def work_ok_def disk_ok_def split: sum.splits)

lemma keeps_sources [keeps_intro]:
  "keeps (work_ok I) (fetch_closed_candles E s w t)" "keeps (disk_ok I) (fetch_closed_candles E s w t)"
  "keeps (work_ok I) (fetch_open_interest E s w t)" "keeps (disk_ok I) (fetch_open_interest E s w t)"
  "keeps (work_ok I) (get_launch_time_ms E i)" "keeps (disk_ok I) (get_launch_time_ms E i)"
  "keeps (work_ok I) (get_instrument_specification E i)" "keeps (disk_ok I) (get_instrument_specification E i)"
  by (simp_all add: fetch_closed_candles_def fetch_open_interest_def get_launch_time_ms_def
      get_instrument_specification_def keeps_call_source)

lemma keeps_commit [keeps_intro]: "keeps (work_ok I) commit"
  by (simp add: valid_def commit_def work_ok_def)

lemma keeps_in_work:
  assumes "keeps I m"
  shows "keeps (work_ok I) (in_work m)"
proof (rule validI)
  show "work_ok I s'" if "work_ok I s" "in_work m s = (Inr x, s')" for s x s'
    using that valid_Inr [OF assms, of "w_work s" x] by (auto simp: in_work_def work_ok_def split: prod.splits)
  show "work_ok I s'" if "work_ok I s" "in_work m s = (Inl e, s')" for s e s'
    using that valid_Inl [OF assms, of "w_work s" e] by (auto simp: in_work_def work_ok_def split: prod.splits)
qed

lemma keeps_uow_read [keeps_intro]: "keeps (work_ok I) (uow_read f)"
  unfolding uow_read_def by (intro keeps_in_work keeps_intro)

lemma keeps_uow_write:
  assumes "\<And>d d'. I d \<Longrightarrow> f d = Inr d' \<Longrightarrow> I d'"
  shows "keeps (work_ok I) (uow_write f)"
  unfolding uow_write_def by (rule keeps_in_work, rule keeps_updateE, rule assms)

lemma keeps_with_uow [keeps_intro]: "keeps (work_ok I) body \<Longrightarrow> keeps (disk_ok I) (with_uow body)"
proof (rule validI)
  assume b: "keeps (work_ok I) body"
  show "disk_ok I s'" if "disk_ok I s" "with_uow body s = (Inr x, s')" for s x s'
    using valid_Inr [OF b, of "s\<lparr>w_work := w_disk s\<rparr>"] that by (auto simp: with_uow_def work_ok_def disk_ok_def)
  show "disk_ok I s'" if "disk_ok I s" "with_uow body s = (Inl e, s')" for s e s'
    using valid_Inl [OF b, of "s\<lparr>w_work := w_disk s\<rparr>"] that by (auto simp: with_uow_def work_ok_def disk_ok_def)
qed

text \<open>A block that only reads leaves the disk as it was.\<close>

lemma with_uow_read: "with_uow (uow_read f) w = (f (w_disk w), w\<lparr>w_work := w_disk w\<rparr>)"
  by (simp add: with_uow_def uow_read_def in_work_def)

lemma in_work_disk: "w_disk (snd (in_work m w)) = w_disk w"
  by (simp add: in_work_def split: prod.splits)

text \<open>Executing one step of a block.\<close>

lemma run_now_ms: "now_ms E w = (Inr (e_now E (w_ticks w)), w\<lparr>w_ticks := Suc (w_ticks w)\<rparr>)"
  by (simp add: now_ms_def)

lemma run_uow_read: "uow_read f w = (f (w_work w), w)"
  by (simp add: uow_read_def in_work_def)

lemma run_uow_write:
  "uow_write f w = (case f (w_work w) of Inl e \<Rightarrow> (Inl e, w) | Inr d \<Rightarrow> (Inr (), w\<lparr>w_work := d\<rparr>))"
  by (simp add: uow_write_def in_work_def updateE_def split: sum.splits)

lemma run_commit: "commit w = (Inr (), w\<lparr>w_disk := w_work w\<rparr>)"
  by (simp add: commit_def)

lemmas run_simps = run_now_ms run_uow_read run_uow_write run_commit with_uow_def bindE_def

text \<open>
  The shape of every write of the application: a transaction body on the working copy, then
  commit.
\<close>

definition atomically :: "(db, 'a) prog \<Rightarrow> 'a app" where
  "atomically m = with_uow (bindE (in_work m) (\<lambda>r. bindE commit (\<lambda>_. returnE r)))"

lemma atomically_run:
  "atomically m w = (case m (w_disk w) of
     (Inr r, d) \<Rightarrow> (Inr r, w\<lparr>w_disk := d, w_work := d\<rparr>)
   | (Inl e, d) \<Rightarrow> (Inl e, w\<lparr>w_work := d\<rparr>))"
  by (simp add: atomically_def with_uow_def bindE_def in_work_def commit_def split: prod.splits sum.splits)

lemma atomically_cases:
  obtains (raised) e d where "m (w_disk w) = (Inl e, d)" "fst (atomically m w) = Inl e"
      "w_disk (snd (atomically m w)) = w_disk w"
  | (returned) r d where "m (w_disk w) = (Inr r, d)" "fst (atomically m w) = Inr r"
      "w_disk (snd (atomically m w)) = d"
  by (cases "m (w_disk w)"; cases "fst (m (w_disk w))") (auto simp: atomically_run)

lemma keeps_atomically [keeps_intro]: "keeps I m \<Longrightarrow> keeps (disk_ok I) (atomically m)"
  unfolding atomically_def by (intro keeps_intro keeps_in_work)

end
