(* ===== verification/Ingest.thy ===== *)
theory Ingest
  imports UnitOfWork
begin

text \<open>
  application/ingest.py and application/import\_window.py: the decision on one observed candle
  inside a transaction, and the import of one historical window, all of whose candles are
  stored in a single transaction.
\<close>

section \<open>ingest.py\<close>

record ingestion_result =
  ing_classification :: ingestion_classification
  ing_issue_codes :: "string list"

definition advance_stream_state :: "canonical_candle \<Rightarrow> (db, unit) prog" where
  "advance_stream_state c =
     bindE (readE (\<lambda>d. get_stream_state d (cc_stream c))) (\<lambda>state.
       if ss_latest_committed_open_time_ms state = None \<or>
          cc_open_time_ms c > the (ss_latest_committed_open_time_ms state)
       then bindE (liftR (mk_stream_state (state\<lparr>
                ss_latest_committed_open_time_ms := Some (cc_open_time_ms c),
                ss_updated_at_ms := max (ss_updated_at_ms state) (cc_committed_at_ms c)\<rparr>)))
              (\<lambda>state. updateE (save_stream_state state))
       else returnE ())"

definition ohlcv_repr :: "ohlcv \<Rightarrow> string" where
  "ohlcv_repr t = (case t of (op, hi, lo, cl, vol) \<Rightarrow> py_tuple_repr [op, hi, lo, cl, vol])"

definition handle_correction :: "canonical_candle option \<Rightarrow> canonical_candle \<Rightarrow> (db, unit) prog" where
  "handle_correction existing incoming =
     (case existing of
        None \<Rightarrow> raiseE (Exn RuntimeError ''correction requires an existing candle'')
      | Some e \<Rightarrow>
          seqE (updateE (record_quarantine (cc_stream incoming) (cc_open_time_ms incoming)
                  (cc_close_time_ms incoming + 1) ''candle_correction_detected''
                  (''existing='' @ ohlcv_repr (canonical_ohlcv_text e) @ ''; incoming=''
                   @ ohlcv_repr (canonical_ohlcv_text incoming))
                  None (cc_committed_at_ms incoming)))
            (if cc_source incoming = BYBIT_REST
             then seqE (updateE (replace_candle incoming)) (advance_stream_state incoming)
             else returnE ()))"

definition execute_in_unit_of_work :: "observed_candle \<Rightarrow> int \<Rightarrow> (db, ingestion_result) prog" where
  "execute_in_unit_of_work candle committed_at_ms =
     (let issues = validate_observed_candle candle
      in bindE (readE (\<lambda>d. Inr (stream_exists d (oc_stream candle)))) (\<lambda>exists.
         if \<not> exists
           then returnE \<lparr>ing_classification = REJECTED_UNCONFIGURED, ing_issue_codes = []\<rparr>
         else if issues \<noteq> [] then
           let classification =
                 (if \<exists>i \<in> set issues. validation_code_value (issue_code i) = ''unconfirmed''
                  then REJECTED_UNCONFIRMED else REJECTED_INVALID);
               issue_codes = map (\<lambda>i. validation_code_value (issue_code i)) issues;
               start_at = max 0 (oc_open_time_ms candle);
               end_at = max (start_at + 1) (oc_close_time_ms candle + 1)
           in bindE (updateE (record_quarantine (oc_stream candle) start_at end_at
                  ''candle_validation_failed''
                  (py_join ''; '' (map (\<lambda>i. validation_code_value (issue_code i) @ '': '' @ issue_detail i) issues))
                  None committed_at_ms))
                (\<lambda>_. returnE \<lparr>ing_classification = classification, ing_issue_codes = issue_codes\<rparr>)
         else
           bindE (readE (\<lambda>d. get_candle d (oc_stream candle) (oc_open_time_ms candle))) (\<lambda>existing.
           bindE (liftR (classify_against_existing existing candle)) (\<lambda>classification.
           let canonical = from_observation candle committed_at_ms
           in bindE (if classification = COMMITTED
                       then seqE (updateE (insert_candle canonical)) (advance_stream_state canonical)
                     else if classification = CORRECTED then handle_correction existing canonical
                     else returnE ())
                (\<lambda>_. returnE \<lparr>ing_classification = classification, ing_issue_codes = []\<rparr>)))))"

definition ingest_observed_candle :: "observed_candle \<Rightarrow> int \<Rightarrow> ingestion_result app" where
  "ingest_observed_candle candle committed_at_ms =
     with_uow (bindE (in_work (execute_in_unit_of_work candle committed_at_ms)) (\<lambda>result.
       bindE commit (\<lambda>_. returnE result)))"

section \<open>import\_window.py\<close>

record import_window_result =
  iw_observed :: int
  iw_committed :: int
  iw_duplicates :: int
  iw_corrected :: int
  iw_rejected :: int
  iw_unexpected :: int

definition record_unexpected_historical_candle ::
  "stream_key \<Rightarrow> time_window \<Rightarrow> observed_candle \<Rightarrow> int \<Rightarrow> (db, unit) prog" where
  "record_unexpected_historical_candle requested_stream requested_window candle created_at_ms =
     (let open_time_ms = oc_open_time_ms candle;
          end_at = max (open_time_ms + 1) (oc_close_time_ms candle + 1)
      in updateE (record_quarantine requested_stream (max 0 open_time_ms)
           (max (max 0 open_time_ms + 1) end_at) ''unexpected_historical_candle''
           (''requested_stream='' @ canonical_id requested_stream @ '' requested_window=[''
            @ py_int_str (start_ms requested_window) @ '', '' @ py_int_str (end_ms requested_window)
            @ '') observed_stream='' @ canonical_id (oc_stream candle))
           None created_at_ms))"

type_synonym counts = "ingestion_classification \<Rightarrow> int"

definition import_candle ::
  "env \<Rightarrow> stream_key \<Rightarrow> time_window \<Rightarrow> counts \<times> int \<Rightarrow> observed_candle \<Rightarrow> (counts \<times> int) app" where
  "import_candle E stream window acc candle =
     (case acc of (counts, unexpected) \<Rightarrow>
        bindE (now_ms E) (\<lambda>now.
        if oc_stream candle \<noteq> stream \<or> \<not> window_contains window (oc_open_time_ms candle)
        then bindE (in_work (record_unexpected_historical_candle stream window candle now))
               (\<lambda>_. returnE (counts, unexpected + 1))
        else bindE (in_work (execute_in_unit_of_work candle now)) (\<lambda>result.
               returnE (counts(ing_classification result := counts (ing_classification result) + 1),
                        unexpected))))"

definition import_historical_window :: "env \<Rightarrow> stream_key \<Rightarrow> time_window \<Rightarrow> import_window_result app" where
  "import_historical_window E stream window =
     bindE (now_ms E) (\<lambda>observed_at_ms.
     bindE (fetch_closed_candles E stream window observed_at_ms) (\<lambda>candles.
     bindE (with_uow
         (bindE (foldE (import_candle E stream window) (\<lambda>_. 0, 0) candles) (\<lambda>acc.
          bindE commit (\<lambda>_. returnE acc)))) (\<lambda>(counts, unexpected).
     returnE \<lparr>iw_observed = int (length candles), iw_committed = counts COMMITTED,
              iw_duplicates = counts DUPLICATE, iw_corrected = counts CORRECTED,
              iw_rejected = counts REJECTED_INVALID + counts REJECTED_UNCONFIRMED
                + counts REJECTED_UNCONFIGURED,
              iw_unexpected = unexpected\<rparr>)))"

section \<open>The invariant of canonical storage\<close>

definition states_ok :: "db \<Rightarrow> bool" where
  "states_ok d \<longleftrightarrow> (\<forall>s. stream_exists d s \<longrightarrow> (\<exists>st. get_stream_state d s = Inr st))"

definition covers :: "stream_state \<Rightarrow> int \<Rightarrow> bool" where
  "covers st t \<longleftrightarrow> (\<exists>l. ss_latest_committed_open_time_ms st = Some l \<and> t \<le> l)"

definition candles_ok :: "db \<Rightarrow> bool" where
  "candles_ok d \<longleftrightarrow>
     (\<forall>s t c. get_candle d s t = Inr (Some c) \<longrightarrow>
        t mod stream_step s = 0 \<and> (\<exists>st. get_stream_state d s = Inr st \<and> covers st t))"

text \<open>
  Storage is well formed, every registered stream has a readable lifecycle snapshot, and
  every stored candle is on the grid of its stream and not later than the stream's
  \<open>latest_committed_open_time_ms\<close>.
\<close>

definition canonical_inv :: "db \<Rightarrow> bool" where
  "canonical_inv d \<longleftrightarrow> db_wf d \<and> states_ok d \<and> candles_ok d"

lemma canonical_invD:
  assumes "canonical_inv d"
  shows "db_wf d" "states_ok d" "candles_ok d"
  using assms by (simp_all add: canonical_inv_def)

text \<open>Each table is read alone.\<close>

lemma table_reads [simp]:
  "get_candle (d\<lparr>db_states := x2\<rparr>) s t = get_candle d s t"
  "get_candle (d\<lparr>db_quarantine := x3\<rparr>) s t = get_candle d s t"
  "get_candle (d\<lparr>db_open_interest := x4\<rparr>) s t = get_candle d s t"
  "get_candle (d\<lparr>db_tracks := x5\<rparr>) s t = get_candle d s t"
  "get_stream_state (d\<lparr>db_candles := x1\<rparr>) s = get_stream_state d s"
  "get_stream_state (d\<lparr>db_quarantine := x3\<rparr>) s = get_stream_state d s"
  "get_stream_state (d\<lparr>db_open_interest := x4\<rparr>) s = get_stream_state d s"
  "get_stream_state (d\<lparr>db_tracks := x5\<rparr>) s = get_stream_state d s"
  "stream_exists (d\<lparr>db_candles := x1\<rparr>) s = stream_exists d s"
  "stream_exists (d\<lparr>db_states := x2\<rparr>) s = stream_exists d s"
  "stream_exists (d\<lparr>db_quarantine := x3\<rparr>) s = stream_exists d s"
  "stream_exists (d\<lparr>db_open_interest := x4\<rparr>) s = stream_exists d s"
  "stream_exists (d\<lparr>db_tracks := x5\<rparr>) s = stream_exists d s"
  by (simp_all add: get_candle_def get_stream_state_def stream_exists_def)

lemma save_stream_state_frame:
  "save_stream_state st d = Inr d' \<Longrightarrow> \<exists>rows. d' = d\<lparr>db_states := rows\<rparr>"
  by (auto simp: save_stream_state_eq)

lemma record_quarantine_run:
  assumes "stream_exists d s" "0 \<le> a" "a < b"
  shows "\<exists>r. record_quarantine s a b rc det pl tm d = Inr (d\<lparr>db_quarantine := db_quarantine d @ [r]\<rparr>) \<and>
     qr_reason_code r = rc \<and> qr_start_ms r = a \<and> qr_end_ms r = b \<and> stream_id d s = Inr (qr_stream_id r)"
  using assms by (elim stream_existsE) (auto simp: record_quarantine_def)

text \<open>The snapshot \<open>_advance_stream_state\<close> leaves.\<close>

definition advanced :: "canonical_candle \<Rightarrow> stream_state \<Rightarrow> stream_state" where
  "advanced c st =
     (if ss_latest_committed_open_time_ms st = None \<or>
         cc_open_time_ms c > the (ss_latest_committed_open_time_ms st)
      then st\<lparr>ss_latest_committed_open_time_ms := Some (cc_open_time_ms c),
             ss_updated_at_ms := max (ss_updated_at_ms st) (cc_committed_at_ms c)\<rparr>
      else st)"

lemma advanced_covers: "covers (advanced c st) (cc_open_time_ms c)"
  "covers st t \<Longrightarrow> covers (advanced c st) t"
  by (auto simp: advanced_def covers_def)

lemma advanced_wf: "state_wf st \<Longrightarrow> 0 \<le> cc_open_time_ms c \<Longrightarrow> state_wf (advanced c st)"
  by (auto simp: advanced_def state_wf_def)

lemma advanced_stream [simp]: "ss_stream (advanced c st) = ss_stream st"
  by (simp add: advanced_def)

lemma advance_run:
  assumes "db_wf d" "get_stream_state d (cc_stream c) = Inr st" "0 \<le> cc_open_time_ms c"
  shows "\<exists>rows. let d' = d\<lparr>db_states := rows\<rparr> in
     advance_stream_state c d = (Inr (), d') \<and> db_wf d' \<and>
     get_stream_state d' (cc_stream c) = Inr (advanced c st) \<and>
     (\<forall>k. k \<noteq> cc_stream c \<longrightarrow> get_stream_state d' k = get_stream_state d k)"
proof (cases "ss_latest_committed_open_time_ms st = None \<or>
      cc_open_time_ms c > the (ss_latest_committed_open_time_ms st)")
  case True
  have st: "ss_stream st = cc_stream c" "state_wf st"
    using sqlite_states.get_good [OF assms(1,2)] by auto
  obtain d' where d': "save_stream_state (advanced c st) d = Inr d'" "db_wf d'"
    "get_stream_state d' (cc_stream c) = Inr (advanced c st)"
    "\<forall>k. k \<noteq> cc_stream c \<longrightarrow> get_stream_state d' k = get_stream_state d k"
    using sqlite_states.modify [OF assms(1,2), of "advanced c st"] st advanced_wf [OF st(2) assms(3)] by auto
  moreover have "advance_stream_state c d = (Inr (), d')"
    using True d'(1) assms(2) advanced_wf [OF st(2) assms(3)]
    by (simp add: advance_stream_state_def bindE_def advanced_def updateE_def)
  ultimately show ?thesis using save_stream_state_frame [OF d'(1)] by (auto simp: Let_def)
next
  case False
  then have "advance_stream_state c d = (Inr (), d)" "advanced c st = st"
    using assms(2) by (auto simp: advance_stream_state_def bindE_def advanced_def)
  with assms show ?thesis by (intro exI [of _ "db_states d"]) (simp add: Let_def)
qed


text \<open>What it means that \<open>d'\<close> is \<open>d\<close> with the observation stored.\<close>

definition stored_in :: "observed_candle \<Rightarrow> int \<Rightarrow> db \<Rightarrow> db \<Rightarrow> bool" where
  "stored_in c tm d d' \<longleftrightarrow>
     (\<exists>x. get_candle d' (oc_stream c) (oc_open_time_ms c) = Inr (Some x) \<and>
        canonical_ohlcv_text x = observed_ohlcv_text c \<and> cc_source x = oc_source c \<and>
        cc_committed_at_ms x = tm) \<and>
     (\<forall>k t. (k, t) \<noteq> (oc_stream c, oc_open_time_ms c) \<longrightarrow> get_candle d' k t = get_candle d k t) \<and>
     (\<exists>st. get_stream_state d (oc_stream c) = Inr st \<and>
        get_stream_state d' (oc_stream c) = Inr (advanced (from_observation c tm) st)) \<and>
     (\<forall>k. k \<noteq> oc_stream c \<longrightarrow> get_stream_state d' k = get_stream_state d k)"

lemma stored_in_inv:
  assumes "canonical_inv d" "db_wf d'" "stored_in c tm d d'" "oc_open_time_ms c mod stream_step (oc_stream c) = 0"
    "\<And>k. stream_exists d' k = stream_exists d k"
  shows "canonical_inv d'"
proof -
  obtain st where st: "get_stream_state d (oc_stream c) = Inr st"
      "get_stream_state d' (oc_stream c) = Inr (advanced (from_observation c tm) st)"
    and other: "\<forall>k. k \<noteq> oc_stream c \<longrightarrow> get_stream_state d' k = get_stream_state d k"
      "\<forall>k t. (k, t) \<noteq> (oc_stream c, oc_open_time_ms c) \<longrightarrow> get_candle d' k t = get_candle d k t"
    using assms(3) by (auto simp: stored_in_def)
  have "states_ok d'"
    unfolding states_ok_def
  proof (intro allI impI)
    fix k assume k: "stream_exists d' k"
    show "\<exists>st. get_stream_state d' k = Inr st"
      using st(2) other(1) k assms(1,5) by (cases "k = oc_stream c") (auto simp: canonical_inv_def states_ok_def)
  qed
  moreover have "candles_ok d'"
    unfolding candles_ok_def
  proof (intro allI impI)
    fix k t x assume x: "get_candle d' k t = Inr (Some x)"
    show "t mod stream_step k = 0 \<and> (\<exists>st. get_stream_state d' k = Inr st \<and> covers st t)"
    proof (cases "(k, t) = (oc_stream c, oc_open_time_ms c)")
      case True
      with st(2) assms(4) advanced_covers(1) [of "from_observation c tm" st] show ?thesis by simp
    next
      case False
      with other(2) x have "get_candle d k t = Inr (Some x)" by simp
      then obtain sk where sk: "t mod stream_step k = 0" "get_stream_state d k = Inr sk" "covers sk t"
        using assms(1) by (auto simp: canonical_inv_def candles_ok_def)
      with st other(1) advanced_covers(2) [of sk t "from_observation c tm"] show ?thesis
        by (cases "k = oc_stream c") auto
    qed
  qed
  ultimately show ?thesis using assms(2) by (simp add: canonical_inv_def)
qed

lemma canonical_inv_quarantine:
  "canonical_inv d \<Longrightarrow> db_wf (d\<lparr>db_quarantine := q\<rparr>) \<Longrightarrow> canonical_inv (d\<lparr>db_quarantine := q\<rparr>)"
  by (simp add: canonical_inv_def states_ok_def candles_ok_def)

text \<open>The two writing tails: insertion, and replacement of an existing candle.\<close>

lemma store_tail:
  assumes "canonical_inv d" "stream_exists d (oc_stream c)" "0 \<le> oc_open_time_ms c"
    "wr (from_observation c tm) d = Inr d1"
    "wr = insert_candle \<or>
     wr = replace_candle \<and> (\<exists>y. get_candle d (oc_stream c) (oc_open_time_ms c) = Inr (Some y))"
  shows "\<exists>d'. advance_stream_state (from_observation c tm) d1 = (Inr (), d') \<and> db_wf d' \<and>
     stored_in c tm d d' \<and> (\<forall>k. stream_exists d' k = stream_exists d k) \<and> db_quarantine d' = db_quarantine d"
proof -
  let ?c = "from_observation c tm"
  note wf = canonical_invD(1) [OF assms(1)]
  obtain rows where d1: "d1 = d\<lparr>db_candles := rows\<rparr>"
    using assms(4,5) by (auto simp: insert_candle_eq replace_candle_eq)
  have d1wf: "db_wf d1" using assms(4,5) wf sqlite_candles.add_ok sqlite_candles.overwrite_ok by blast
  have look: "\<exists>x. get_candle d1 (oc_stream c) (oc_open_time_ms c) = Inr (Some x) \<and>
        canonical_ohlcv_text x = observed_ohlcv_text c \<and> cc_source x = oc_source c \<and> cc_committed_at_ms x = tm"
    using assms(4,5) sqlite_candles.add_lookup [OF wf, of ?c d1] sqlite_candles.overwrite_lookup [OF wf, of ?c d1]
    by auto
  have others: "\<forall>k t. (k, t) \<noteq> (oc_stream c, oc_open_time_ms c) \<longrightarrow> get_candle d1 k t = get_candle d k t"
    using assms(4,5) sqlite_candles.add_other [OF wf, of ?c d1] sqlite_candles.overwrite_other [OF wf, of ?c d1]
    by auto
  obtain st where st: "get_stream_state d (oc_stream c) = Inr st"
    using assms(1,2) by (auto simp: canonical_inv_def states_ok_def)
  have "get_stream_state d1 (cc_stream ?c) = Inr st" using st d1 by simp
  from advance_run [OF d1wf this] assms(3) obtain srows where
    "advance_stream_state ?c d1 = (Inr (), d1\<lparr>db_states := srows\<rparr>)" "db_wf (d1\<lparr>db_states := srows\<rparr>)"
    "get_stream_state (d1\<lparr>db_states := srows\<rparr>) (oc_stream c) = Inr (advanced ?c st)"
    "\<forall>k. k \<noteq> oc_stream c \<longrightarrow> get_stream_state (d1\<lparr>db_states := srows\<rparr>) k = get_stream_state d1 k"
    by (auto simp: Let_def)
  with look others st d1 show ?thesis
    by (intro exI [of _ "d1\<lparr>db_states := srows\<rparr>"]) (simp add: stored_in_def)
qed


section \<open>The decision on every branch\<close>

definition decision_ok :: "observed_candle \<Rightarrow> int \<Rightarrow> db \<Rightarrow> ingestion_classification \<Rightarrow> db \<Rightarrow> bool" where
  "decision_ok c tm d cl d' \<longleftrightarrow>
     (if \<not> stream_exists d (oc_stream c) then cl = REJECTED_UNCONFIGURED \<and> d' = d
      else if \<not> well_formed_candle c then
        cl = (if oc_confirmed c then REJECTED_INVALID else REJECTED_UNCONFIRMED) \<and>
        (\<exists>r. d' = d\<lparr>db_quarantine := db_quarantine d @ [r]\<rparr> \<and> qr_reason_code r = ''candle_validation_failed'')
      else case get_candle d (oc_stream c) (oc_open_time_ms c) of
          Inl e \<Rightarrow> False
        | Inr None \<Rightarrow> cl = COMMITTED \<and> stored_in c tm d d' \<and> db_quarantine d' = db_quarantine d
        | Inr (Some x) \<Rightarrow>
            if canonical_ohlcv_text x = observed_ohlcv_text c then cl = DUPLICATE \<and> d' = d
            else cl = CORRECTED \<and>
              (\<exists>r. qr_reason_code r = ''candle_correction_detected'' \<and>
                db_quarantine d' = db_quarantine d @ [r] \<and>
                (if oc_source c = BYBIT_REST then stored_in c tm d d'
                 else d' = d\<lparr>db_quarantine := db_quarantine d @ [r]\<rparr>)))"

lemma rejected_class:
  "(\<exists>i \<in> set (validate_observed_candle c). validation_code_value (issue_code i) = ''unconfirmed'') \<longleftrightarrow>
   \<not> oc_confirmed c"
  by (auto simp: validate_observed_candle_def Let_def)

lemma ingest_rejects:
  assumes "canonical_inv d" "stream_exists d (oc_stream c)" "\<not> well_formed_candle c"
  shows "\<exists>r d'. execute_in_unit_of_work c tm d = (Inr r, d') \<and>
     decision_ok c tm d (ing_classification r) d' \<and> canonical_inv d' \<and>
     (\<forall>k. stream_exists d' k = stream_exists d k)"
proof -
  let ?a = "max 0 (oc_open_time_ms c)" and ?b = "max (max 0 (oc_open_time_ms c) + 1) (oc_close_time_ms c + 1)"
  have ab: "0 \<le> ?a" "?a < ?b" by auto
  have iss: "validate_observed_candle c \<noteq> []" using assms(3) by (simp add: validation_empty_iff)
  obtain r where r: "record_quarantine (oc_stream c) ?a ?b ''candle_validation_failed''
      (py_join ''; '' (map (\<lambda>i. validation_code_value (issue_code i) @ '': '' @ issue_detail i)
        (validate_observed_candle c))) None tm d = Inr (d\<lparr>db_quarantine := db_quarantine d @ [r]\<rparr>)"
    "qr_reason_code r = ''candle_validation_failed''"
    using record_quarantine_run [OF assms(2) ab] by blast
  have "canonical_inv (d\<lparr>db_quarantine := db_quarantine d @ [r]\<rparr>)"
    using canonical_inv_quarantine assms(1) record_quarantine_wf [OF _ r(1)] canonical_invD(1) by blast
  with r assms iss rejected_class [of c] show ?thesis
    by (simp add: execute_in_unit_of_work_def bindE_def updateE_def Let_def decision_ok_def) blast
qed

lemma ingest_commits:
  assumes "canonical_inv d" "stream_exists d (oc_stream c)" "well_formed_candle c"
    "get_candle d (oc_stream c) (oc_open_time_ms c) = Inr None"
  shows "\<exists>r d'. execute_in_unit_of_work c tm d = (Inr r, d') \<and>
     decision_ok c tm d (ing_classification r) d' \<and> canonical_inv d' \<and>
     (\<forall>k. stream_exists d' k = stream_exists d k)"
proof -
  note wf = canonical_invD(1) [OF assms(1)]
  have c: "0 \<le> oc_open_time_ms c" "oc_open_time_ms c mod stream_step (oc_stream c) = 0"
    using assms(3) by (simp_all add: well_formed_candle_def)
  obtain d1 where d1: "insert_candle (from_observation c tm) d = Inr d1"
    using sqlite_candles.add_defined [OF wf, of "from_observation c tm"] assms(2,4) c(1) by auto
  obtain d' where d': "advance_stream_state (from_observation c tm) d1 = (Inr (), d')" "db_wf d'"
    "stored_in c tm d d'" "\<forall>k. stream_exists d' k = stream_exists d k" "db_quarantine d' = db_quarantine d"
    using store_tail [where wr = insert_candle, OF assms(1,2) c(1) d1] by auto
  have "canonical_inv d'" using stored_in_inv [OF assms(1) d'(2,3) c(2)] d'(4) by simp
  moreover have "execute_in_unit_of_work c tm d = (Inr \<lparr>ing_classification = COMMITTED, ing_issue_codes = []\<rparr>, d')"
    using assms(2-4) d1 d'(1)
    by (simp add: execute_in_unit_of_work_def bindE_def seqE_def updateE_def Let_def
        validation_empty_iff [symmetric] classify_against_existing_def)
  ultimately show ?thesis using assms(2-4) d' by (simp add: decision_ok_def)
qed

lemma ingest_existing:
  assumes "canonical_inv d" "stream_exists d (oc_stream c)" "well_formed_candle c"
    "get_candle d (oc_stream c) (oc_open_time_ms c) = Inr (Some x)"
  shows "\<exists>r d'. execute_in_unit_of_work c tm d = (Inr r, d') \<and>
     decision_ok c tm d (ing_classification r) d' \<and> canonical_inv d' \<and>
     (\<forall>k. stream_exists d' k = stream_exists d k)"
proof -
  note wf = canonical_invD(1) [OF assms(1)]
  have id: "cc_stream x = oc_stream c" "cc_open_time_ms x = oc_open_time_ms c"
    using sqlite_candles.lookup_id [OF wf assms(4)] by auto
  have c: "0 \<le> oc_open_time_ms c" "oc_open_time_ms c mod stream_step (oc_stream c) = 0"
    "oc_open_time_ms c < oc_close_time_ms c + 1"
    using assms(3) stream_step_pos [of "oc_stream c"] by (auto simp: well_formed_candle_def)
  show ?thesis
  proof (cases "canonical_ohlcv_text x = observed_ohlcv_text c")
    case True
    then have "execute_in_unit_of_work c tm d = (Inr \<lparr>ing_classification = DUPLICATE, ing_issue_codes = []\<rparr>, d)"
      using assms(2-4) id
      by (simp add: execute_in_unit_of_work_def bindE_def Let_def validation_empty_iff [symmetric]
          classify_against_existing_def)
    with True assms show ?thesis by (simp add: decision_ok_def)
  next
    case False
    let ?c = "from_observation c tm"
    obtain r where r: "record_quarantine (oc_stream c) (oc_open_time_ms c) (oc_close_time_ms c + 1)
        ''candle_correction_detected''
        (''existing='' @ ohlcv_repr (canonical_ohlcv_text x) @ ''; incoming='' @ ohlcv_repr (canonical_ohlcv_text ?c))
        None tm d = Inr (d\<lparr>db_quarantine := db_quarantine d @ [r]\<rparr>)"
      "qr_reason_code r = ''candle_correction_detected''"
      using record_quarantine_run [OF assms(2) c(1) c(3)] by force
    let ?d = "d\<lparr>db_quarantine := db_quarantine d @ [r]\<rparr>"
    have q: "canonical_inv ?d"
      using canonical_inv_quarantine assms(1) record_quarantine_wf [OF wf r(1)] by blast
    have run: "execute_in_unit_of_work c tm d =
       bindE (if oc_source c = BYBIT_REST then seqE (updateE (replace_candle ?c)) (advance_stream_state ?c)
              else returnE ())
         (\<lambda>_. returnE \<lparr>ing_classification = CORRECTED, ing_issue_codes = []\<rparr>) ?d"
      using assms(2-4) id False r(1)
      by (simp add: execute_in_unit_of_work_def bindE_def seqE_def updateE_def Let_def
          validation_empty_iff [symmetric] classify_against_existing_def handle_correction_def)
    show ?thesis
    proof (cases "oc_source c = BYBIT_REST")
      case rest: True
      obtain d1 where d1: "replace_candle ?c ?d = Inr d1"
        using sqlite_candles.overwrite_defined [OF canonical_invD(1) [OF q], of ?c] assms(2) by auto
      obtain d' where d': "advance_stream_state ?c d1 = (Inr (), d')" "db_wf d'"
        "stored_in c tm ?d d'" "\<forall>k. stream_exists d' k = stream_exists ?d k" "db_quarantine d' = db_quarantine ?d"
        using store_tail [where wr = replace_candle, OF q _ c(1) d1] assms(2,4) by auto
      have "canonical_inv d'" using stored_in_inv [OF q d'(2,3) c(2)] d'(4) by simp
      moreover have "stored_in c tm d d'" using d'(3) by (simp add: stored_in_def)
      ultimately show ?thesis
        using run d1 d' rest assms(2-4) False r(2)
        by (simp add: bindE_def seqE_def updateE_def decision_ok_def)
    next
      case False': False
      then show ?thesis
        using run q assms(2-4) False r(2) by (simp add: bindE_def decision_ok_def)
    qed
  qed
qed

lemma ingest_decides:
  assumes "canonical_inv d"
  shows "\<exists>r d'. execute_in_unit_of_work c tm d = (Inr r, d') \<and>
     decision_ok c tm d (ing_classification r) d' \<and> canonical_inv d' \<and>
     (\<forall>k. stream_exists d' k = stream_exists d k)"
proof (cases "stream_exists d (oc_stream c) \<and> well_formed_candle c")
  case True
  then obtain x where "get_candle d (oc_stream c) (oc_open_time_ms c) = Inr x"
    using sqlite_candles.lookup_total canonical_invD(1) [OF assms] by blast
  with True assms show ?thesis by (cases x) (auto intro: ingest_commits ingest_existing)
next
  case False
  show ?thesis
  proof (cases "stream_exists d (oc_stream c)")
    case True
    with False assms show ?thesis by (auto intro: ingest_rejects)
  next
    case no: False
    with assms show ?thesis
      by (simp add: execute_in_unit_of_work_def bindE_def Let_def decision_ok_def)
  qed
qed

lemma keeps_ingest [keeps_intro]: "keeps canonical_inv (execute_in_unit_of_work c tm)"
proof (rule validI)
  show "canonical_inv s'" if "canonical_inv s" "execute_in_unit_of_work c tm s = (Inr x, s')" for s x s'
    using ingest_decides [OF that(1), of c tm] that(2) by auto
  show "canonical_inv s'" if "canonical_inv s" "execute_in_unit_of_work c tm s = (Inl e, s')" for s e s'
    using ingest_decides [OF that(1), of c tm] that(2) by auto
qed

text \<open>
  C1. Ingestion of one observation, on every branch. From a database that satisfies the
  canonical invariant the decision never raises, keeps the invariant, and: an unregistered
  stream changes nothing; an invalid candle is quarantined and changes no candle and no
  state; a new candle is stored and advances the stream's latest open time; equal values
  change nothing; different values are quarantined, and replace the stored candle only when
  they come from REST. The transaction commits exactly that result.
\<close>

theorem ingest_decision_complete:
  assumes "canonical_inv (w_disk w)"
  shows "\<exists>r w'. ingest_observed_candle c tm w = (Inr r, w') \<and>
     decision_ok c tm (w_disk w) (ing_classification r) (w_disk w') \<and> canonical_inv (w_disk w')"
proof -
  obtain r d' where "execute_in_unit_of_work c tm (w_disk w) = (Inr r, d')"
    "decision_ok c tm (w_disk w) (ing_classification r) d'" "canonical_inv d'"
    using ingest_decides [OF assms] by blast
  then show ?thesis
    by (auto simp: ingest_observed_candle_def with_uow_def bindE_def in_work_def commit_def)
qed

lemma candles_empty: "db_candles d = [] \<Longrightarrow> get_candle d s t \<noteq> Inr (Some c)"
  by (auto simp: get_candle_def sel_def)

lemma example_state: "get_stream_state example_db s = Inr st \<longleftrightarrow>
    s = example_stream \<and> st = initial_stream_state example_stream 5"
proof -
  have "stream_id example_db s = Inr n \<longleftrightarrow> s = example_stream \<and> n = 1" for n
    by (cases s; cases "sk_instrument s") (auto simp: stream_id_def example_db_def empty_db_def example_stream_def)
  then show ?thesis
    by (auto simp: get_stream_state_eq) (auto simp: example_db_def empty_db_def sel_def initial_stream_state_def state_wf_def)
qed

lemma example_exists: "stream_exists example_db s \<longleftrightarrow> s = example_stream"
  by (cases s; cases "sk_instrument s")
    (auto simp: stream_exists_def stream_id_def example_db_def empty_db_def example_stream_def)

lemma example_inv: "canonical_inv example_db"
  using candles_empty [of example_db]
  by (auto simp: canonical_inv_def states_ok_def candles_ok_def example_exists example_state)
    (simp_all add: example_db_def empty_db_def)

definition example_observation :: observed_candle where
  "example_observation = \<lparr>oc_stream = example_stream, oc_open_time_ms = 60000, oc_close_time_ms = 119999,
     oc_open = Dec False 10 0, oc_high = Dec False 12 0, oc_low = Dec False 9 0, oc_close = Dec False 11 0,
     oc_volume = Dec False 15 (-1), oc_confirmed = True, oc_observed_at_ms = 120000, oc_source = BYBIT_REST\<rparr>"

definition example_world :: world where
  "example_world = \<lparr>w_disk = example_db, w_work = example_db, w_ticks = 0, w_calls = 0\<rparr>"

lemma example_observation_wf: "well_formed_candle example_observation"
  by (simp add: well_formed_candle_def example_observation_def example_stream_def stream_step_def dec_val_def)

theorem ingest_decision_complete_witness:
  "\<exists>r w'. ingest_observed_candle example_observation 120001 example_world = (Inr r, w') \<and>
     ing_classification r = COMMITTED \<and> stored_in example_observation 120001 example_db (w_disk w')"
proof -
  have none: "get_candle example_db example_stream 60000 = Inr None"
    by (simp add: get_candle_def) (simp add: example_db_def empty_db_def sel_def)
  have inv: "canonical_inv (w_disk example_world)" by (simp add: example_world_def example_inv)
  show ?thesis
    using ingest_decision_complete [OF inv, of example_observation 120001] none example_observation_wf
    by (auto simp: decision_ok_def example_exists example_world_def example_observation_def)
qed


section \<open>Consequences of a decision\<close>

lemma decision_frame:
  "decision_ok c tm d cl d' \<Longrightarrow> (k, t) \<noteq> (oc_stream c, oc_open_time_ms c) \<Longrightarrow>
   get_candle d' k t = get_candle d k t"
  unfolding decision_ok_def stored_in_def
  by (auto split: if_splits sum.splits option.splits)

lemma decision_grows:
  "decision_ok c tm d cl d' \<Longrightarrow> get_candle d k t = Inr (Some x) \<Longrightarrow> \<exists>y. get_candle d' k t = Inr (Some y)"
proof (cases "(k, t) = (oc_stream c, oc_open_time_ms c)")
  case True
  moreover assume "decision_ok c tm d cl d'" "get_candle d k t = Inr (Some x)"
  ultimately show ?thesis
    unfolding decision_ok_def stored_in_def by (auto split: if_splits)
qed (use decision_frame in metis)

lemma decision_present:
  "decision_ok c tm d cl d' \<Longrightarrow> stream_exists d (oc_stream c) \<Longrightarrow> well_formed_candle c \<Longrightarrow>
   \<exists>y. get_candle d' (oc_stream c) (oc_open_time_ms c) = Inr (Some y)"
  unfolding decision_ok_def stored_in_def
  by (auto split: if_splits sum.splits option.splits)

lemma decision_agrees:
  assumes "decision_ok c tm d cl d'" "stream_exists d (oc_stream c)" "well_formed_candle c"
    "oc_source c = BYBIT_REST \<or> get_candle d (oc_stream c) (oc_open_time_ms c) = Inr None"
  shows "\<exists>x. get_candle d' (oc_stream c) (oc_open_time_ms c) = Inr (Some x) \<and>
     canonical_ohlcv_text x = observed_ohlcv_text c"
  using assms unfolding decision_ok_def stored_in_def
  by (auto split: if_splits sum.splits option.splits)

text \<open>
  Ingestion is idempotent: after a well-formed candle of a registered stream was ingested
  from REST, or when nothing was stored for its open time, ingesting the same observation
  again at any time is a duplicate and leaves the database exactly as it is.
\<close>

theorem ingest_idempotent:
  assumes "canonical_inv d" "stream_exists d (oc_stream c)" "well_formed_candle c"
    and "oc_source c = BYBIT_REST \<or> get_candle d (oc_stream c) (oc_open_time_ms c) = Inr None"
    and "execute_in_unit_of_work c tm d = (r, d')"
  shows "\<exists>r'. execute_in_unit_of_work c tm' d' = (Inr r', d') \<and> ing_classification r' = DUPLICATE"
proof -
  obtain r0 :: ingestion_result where d': "decision_ok c tm d (ing_classification r0) d'" "canonical_inv d'"
    "stream_exists d' (oc_stream c)"
    using ingest_decides [OF assms(1), of c tm] assms(2,5) by auto
  obtain x where x: "get_candle d' (oc_stream c) (oc_open_time_ms c) = Inr (Some x)"
    "canonical_ohlcv_text x = observed_ohlcv_text c"
    using decision_agrees [OF d'(1) assms(2-4)] by blast
  obtain r' d'' where "execute_in_unit_of_work c tm' d' = (Inr r', d'')"
    "decision_ok c tm' d' (ing_classification r') d''"
    using ingest_decides [OF d'(2)] by blast
  with x d'(3) assms(3) show ?thesis by (simp add: decision_ok_def)
qed

theorem ingest_idempotent_witness:
  "\<exists>r'. execute_in_unit_of_work example_observation 7
       (snd (execute_in_unit_of_work example_observation 120001 example_db)) =
     (Inr r', snd (execute_in_unit_of_work example_observation 120001 example_db)) \<and>
     ing_classification r' = DUPLICATE"
  by (rule ingest_idempotent [OF example_inv _ example_observation_wf _ surjective_pairing])
    (simp_all add: example_exists example_observation_def)

section \<open>Importing a window\<close>

definition accepted :: "stream_key \<Rightarrow> time_window \<Rightarrow> observed_candle \<Rightarrow> bool" where
  "accepted stream window c \<longleftrightarrow>
     oc_stream c = stream \<and> window_contains window (oc_open_time_ms c) \<and> well_formed_candle c"

definition counts_total :: "counts \<Rightarrow> int" where
  "counts_total n = n COMMITTED + n DUPLICATE + n CORRECTED + n REJECTED_INVALID
     + n REJECTED_UNCONFIGURED + n REJECTED_UNCONFIRMED"

lemma counts_total_upd: "counts_total (n(cl := n cl + 1)) = counts_total n + 1"
  by (cases cl) (simp_all add: counts_total_def)

text \<open>What importing some candles of a window may do to the database.\<close>

definition imported :: "stream_key \<Rightarrow> time_window \<Rightarrow> observed_candle list \<Rightarrow> db \<Rightarrow> db \<Rightarrow> bool" where
  "imported stream window cs d d' \<longleftrightarrow>
     canonical_inv d' \<and> (\<forall>k. stream_exists d' k = stream_exists d k) \<and>
     (\<forall>k t. \<not> (k = stream \<and> window_contains window t) \<longrightarrow> get_candle d' k t = get_candle d k t) \<and>
     (\<forall>k t x. get_candle d k t = Inr (Some x) \<longrightarrow> (\<exists>y. get_candle d' k t = Inr (Some y))) \<and>
     (\<forall>c \<in> set cs. accepted stream window c \<longrightarrow>
        (\<exists>y. get_candle d' stream (oc_open_time_ms c) = Inr (Some y)))"

lemma imported_step:
  assumes "canonical_inv (w_work w)" "stream_exists (w_work w) stream"
  shows "\<exists>n' u' w'. import_candle E stream window (n, u) c w = (Inr (n', u'), w') \<and>
     imported stream window [c] (w_work w) (w_work w') \<and> w_disk w' = w_disk w \<and>
     counts_total n' + u' = counts_total n + u + 1"
proof (cases "oc_stream c = stream \<and> window_contains window (oc_open_time_ms c)")
  case True
  obtain r d' where d': "execute_in_unit_of_work c (e_now E (w_ticks w)) (w_work w) = (Inr r, d')"
    "decision_ok c (e_now E (w_ticks w)) (w_work w) (ing_classification r) d'" "canonical_inv d'"
    "\<forall>k. stream_exists d' k = stream_exists (w_work w) k"
    using ingest_decides [OF assms(1)] by blast
  have "get_candle d' k t = get_candle (w_work w) k t" if "\<not> (k = stream \<and> window_contains window t)" for k t
    using decision_frame [OF d'(2), of k t] that True by auto
  then have "imported stream window [c] (w_work w) d'"
    unfolding imported_def accepted_def
    using d'(3,4) True assms(2) decision_grows [OF d'(2)] decision_present [OF d'(2)] by auto
  with d'(1) True show ?thesis
    by (simp add: import_candle_def bindE_def now_ms_def in_work_def counts_total_upd)
next
  case False
  let ?a = "max 0 (oc_open_time_ms c)"
  let ?b = "max (max 0 (oc_open_time_ms c) + 1) (max (oc_open_time_ms c + 1) (oc_close_time_ms c + 1))"
  obtain q where q: "record_unexpected_historical_candle stream window c (e_now E (w_ticks w)) (w_work w) =
      (Inr (), (w_work w)\<lparr>db_quarantine := q\<rparr>)" "db_wf ((w_work w)\<lparr>db_quarantine := q\<rparr>)"
  proof -
    have ab: "0 \<le> ?a" "?a < ?b" by auto
    show thesis
      using record_quarantine_run [OF assms(2) ab, of "''unexpected_historical_candle''"
          "''requested_stream='' @ canonical_id stream @ '' requested_window=[''
            @ py_int_str (start_ms window) @ '', '' @ py_int_str (end_ms window)
            @ '') observed_stream='' @ canonical_id (oc_stream c)" None "e_now E (w_ticks w)"]
        record_quarantine_wf [OF canonical_invD(1) [OF assms(1)]] that
      by (auto simp: record_unexpected_historical_candle_def updateE_def Let_def)
  qed
  have "imported stream window [c] (w_work w) ((w_work w)\<lparr>db_quarantine := q\<rparr>)"
    unfolding imported_def accepted_def
    using canonical_inv_quarantine [OF assms(1) q(2)] False by auto
  with q(1) False show ?thesis
    by (auto simp: import_candle_def bindE_def now_ms_def in_work_def)
qed

lemma imported_append:
  "imported stream window [c] d d' \<Longrightarrow> imported stream window cs d' d'' \<Longrightarrow> imported stream window (c # cs) d d''"
  unfolding imported_def by simp

lemma imported_fold:
  assumes "canonical_inv (w_work w)" "stream_exists (w_work w) stream"
  shows "\<exists>n' u' w'. foldE (import_candle E stream window) (n, u) cs w = (Inr (n', u'), w') \<and>
     imported stream window cs (w_work w) (w_work w') \<and> w_disk w' = w_disk w \<and>
     counts_total n' + u' = counts_total n + u + int (length cs)"
  using assms
proof (induction cs arbitrary: n u w)
  case Nil
  then show ?case by (simp add: imported_def)
next
  case (Cons c cs)
  obtain n1 u1 w1 where s1: "import_candle E stream window (n, u) c w = (Inr (n1, u1), w1)"
    "imported stream window [c] (w_work w) (w_work w1)" "w_disk w1 = w_disk w"
    "counts_total n1 + u1 = counts_total n + u + 1"
    using imported_step [OF Cons.prems] by blast
  have "canonical_inv (w_work w1)" "stream_exists (w_work w1) stream"
    using s1(2) Cons.prems(2) by (simp_all add: imported_def)
  from Cons.IH [OF this, of n1 u1] obtain n' u' w' where
    "foldE (import_candle E stream window) (n1, u1) cs w1 = (Inr (n', u'), w')"
    "imported stream window cs (w_work w1) (w_work w')" "w_disk w' = w_disk w1"
    "counts_total n' + u' = counts_total n1 + u1 + int (length cs)" by blast
  with s1 imported_append [OF s1(2)] show ?case by auto
qed

lemma import_window_run:
  assumes "canonical_inv (w_disk w)" "stream_exists (w_disk w) stream"
    "e_candles E (w_calls w) stream window (e_now E (w_ticks w)) = Inr cs"
  shows "\<exists>r w'. import_historical_window E stream window w = (Inr r, w') \<and>
     imported stream window cs (w_disk w) (w_disk w') \<and> iw_observed r = int (length cs) \<and>
     iw_observed r = iw_committed r + iw_duplicates r + iw_corrected r + iw_rejected r + iw_unexpected r"
proof -
  let ?w = "w\<lparr>w_ticks := Suc (w_ticks w), w_calls := Suc (w_calls w), w_work := w_disk w\<rparr>"
  have w0: "canonical_inv (w_work ?w)" "stream_exists (w_work ?w) stream" using assms by simp_all
  obtain n' u' w' where f: "foldE (import_candle E stream window) (\<lambda>_. 0, 0) cs ?w = (Inr (n', u'), w')"
    "imported stream window cs (w_work ?w) (w_work w')" "w_disk w' = w_disk ?w"
    "counts_total n' + u' = counts_total (\<lambda>_. 0) + 0 + int (length cs)"
    using imported_fold [OF w0, of E window "\<lambda>_. 0" 0 cs] by blast
  then show ?thesis
    using assms(3)
    by (simp add: import_historical_window_def bindE_def now_ms_def fetch_closed_candles_def call_source_def
        with_uow_def commit_def counts_total_def)
qed


definition example_env :: env where
  "example_env = \<lparr>e_now = \<lambda>n. 200000, e_candles = \<lambda>n s w t. Inr [example_observation],
     e_open_interest = \<lambda>n s w t. Inr [], e_launch_time = \<lambda>n i. Inr 0,
     e_specification = \<lambda>n i. Inl (Exn RuntimeError [])\<rparr>"


lemma record_quarantine_inv:
  assumes "canonical_inv d" "record_quarantine st a b rc det pl tm d = Inr d'"
  shows "canonical_inv d'"
proof -
  obtain q where "d' = d\<lparr>db_quarantine := q\<rparr>" using assms(2) by (auto simp: record_quarantine_def)
  then show ?thesis
    using canonical_inv_quarantine [OF assms(1)] record_quarantine_wf [OF canonical_invD(1) [OF assms(1)] assms(2)]
    by simp
qed

lemma keeps_record_quarantine [keeps_intro]:
  "keeps canonical_inv (updateE (record_quarantine st a b rc det pl tm))"
  by (rule keeps_updateE) (rule record_quarantine_inv)

lemma keeps_import_candle: "keeps (work_ok canonical_inv) (import_candle E stream window acc c)"
  unfolding import_candle_def record_unexpected_historical_candle_def Let_def case_prod_beta
  by (intro keeps_intro keeps_in_work)

lemma keeps_import_window [keeps_intro]: "keeps (disk_ok canonical_inv) (import_historical_window E stream window)"
  unfolding import_historical_window_def case_prod_beta
  by (intro keeps_intro keeps_import_candle)

end
