(* ===== verification/Tracks.thy ===== *)
theory Tracks
  imports Ingest
begin

text \<open>
  application/import\_open\_interest.py, application/open\_interest\_track\_state.py,
  application/open\_interest\_live.py and application/stream\_failure.py: the open interest track
  beside the candle track. The second half holds the relation \<open>evolves\<close> between the database
  before and after a use case, which the workflows of the other theories are shown to follow
  step by step.
\<close>

section \<open>import\_open\_interest.py\<close>

text \<open>\<open>repr\<close> of the value as it arrives. \<open>dec_str\<close> is \<open>str(Decimal)\<close>; a non-finite decimal
  prints as \<open>NaN\<close>.\<close>

definition dec_str :: "decimal \<Rightarrow> string" where
  "dec_str d =
     (let digits = nat_str (dec_coeff d);
          leftdigits = dec_exp d + int (length digits);
          dotplace = (if dec_exp d \<le> 0 \<and> leftdigits > -6 then leftdigits else 1);
          ip = (if dotplace \<le> 0 then ''0''
                else if dotplace \<ge> int (length digits)
                  then digits @ replicate (nat (dotplace - int (length digits))) (CHR ''0'')
                else take (nat dotplace) digits);
          fp = (if dotplace \<le> 0 then ''.'' @ replicate (nat (- dotplace)) (CHR ''0'') @ digits
                else if dotplace \<ge> int (length digits) then []
                else ''.'' @ drop (nat dotplace) digits);
          ex = leftdigits - dotplace;
          ep = (if ex = 0 then [] else ''E'' @ (if ex > 0 then ''+'' else []) @ py_int_str ex)
      in (if dec_neg d then ''-'' else []) @ ip @ fp @ ep)"

fun decimal_input_repr :: "decimal_input \<Rightarrow> string" where
  "decimal_input_repr (InDecimal (Finite d)) = ''Decimal('' @ py_repr (dec_str d) @ '')''"
| "decimal_input_repr (InDecimal NonFinite) = ''Decimal('' @ py_repr ''NaN'' @ '')''"
| "decimal_input_repr (InStr s) = py_repr s"
| "decimal_input_repr (InInt i) = py_int_str i"
| "decimal_input_repr (InBool b) = (if b then ''True'' else ''False'')"
| "decimal_input_repr (InFloat s) = s"
| "decimal_input_repr (InOther s) = s"

definition open_interest_quarantine ::
  "env \<Rightarrow> stream_key \<Rightarrow> observed_open_interest \<Rightarrow> string \<Rightarrow> unit app" where
  "open_interest_quarantine E stream point reason_code =
     bindE (now_ms E) (\<lambda>now.
       let start_at = max 0 (oi_open_time_ms point)
       in uow_write (record_quarantine stream start_at (start_at + 1) reason_code
            (''observed_stream='' @ canonical_id (oi_stream point) @ '' open_interest=''
             @ decimal_input_repr (oi_open_interest point))
            None now))"

type_synonym oi_acc = "counts \<times> int \<times> int option"

definition import_open_interest_point ::
  "env \<Rightarrow> stream_key \<Rightarrow> time_window \<Rightarrow> oi_acc \<Rightarrow> observed_open_interest \<Rightarrow> oi_acc app" where
  "import_open_interest_point E stream window acc point =
     (case acc of (counts, unexpected, latest) \<Rightarrow>
        if oi_stream point \<noteq> stream \<or> \<not> window_contains window (oi_open_time_ms point)
        then bindE (open_interest_quarantine E stream point ''unexpected_historical_open_interest'')
               (\<lambda>_. returnE (counts, unexpected + 1, latest))
        else case open_interest_issue point of
            Some issue \<Rightarrow>
              bindE (open_interest_quarantine E stream point issue) (\<lambda>_.
                returnE (counts(REJECTED_INVALID := counts REJECTED_INVALID + 1), unexpected, latest))
          | None \<Rightarrow>
              bindE (now_ms E) (\<lambda>now.
              bindE (liftR (mk_canonical_open_interest point now)) (\<lambda>incoming.
              bindE (uow_read (\<lambda>d. get_open_interest d stream (oi_open_time_ms point))) (\<lambda>existing.
              let classification = classify_open_interest incoming existing
              in bindE (if classification \<noteq> DUPLICATE then uow_write (save_open_interest incoming)
                        else returnE ()) (\<lambda>_.
                 returnE (counts(classification := counts classification + 1), unexpected,
                   Some (case latest of None \<Rightarrow> oi_open_time_ms point
                                      | Some l \<Rightarrow> max l (oi_open_time_ms point))))))))"

definition import_open_interest_window :: "env \<Rightarrow> stream_key \<Rightarrow> time_window \<Rightarrow> import_window_result app" where
  "import_open_interest_window E stream window =
     bindE (now_ms E) (\<lambda>observed_at_ms.
     bindE (fetch_open_interest E stream window observed_at_ms) (\<lambda>points.
     bindE (with_uow
         (bindE (foldE (import_open_interest_point E stream window) (\<lambda>_. 0, 0, None) points)
           (\<lambda>(counts, unexpected, latest).
          bindE (case latest of
                   None \<Rightarrow> returnE ()
                 | Some l \<Rightarrow>
                     bindE (uow_read (\<lambda>d. get_track_progress d stream OPEN_INTEREST_TRACK)) (\<lambda>progress.
                       if tp_latest_committed_open_time_ms progress = None \<or>
                          l > the (tp_latest_committed_open_time_ms progress)
                       then bindE (liftR (mk_track_progress
                                (progress\<lparr>tp_latest_committed_open_time_ms := Some l\<rparr>)))
                              (\<lambda>p. uow_write (save_track_progress p))
                       else returnE ())) (\<lambda>_.
          bindE commit (\<lambda>_. returnE (counts, unexpected)))))) (\<lambda>(counts, unexpected).
     returnE \<lparr>iw_observed = int (length points), iw_committed = counts COMMITTED,
              iw_duplicates = counts DUPLICATE, iw_corrected = counts CORRECTED,
              iw_rejected = counts REJECTED_INVALID, iw_unexpected = unexpected\<rparr>)))"

section \<open>open\_interest\_track\_state.py\<close>

definition track_progress_of :: "stream_key \<Rightarrow> track_progress app" where
  "track_progress_of stream = with_uow (uow_read (\<lambda>d. get_track_progress d stream OPEN_INTEREST_TRACK))"

definition update_track :: "env \<Rightarrow> stream_key \<Rightarrow> (track_progress \<Rightarrow> track_progress) \<Rightarrow> unit app" where
  "update_track E stream changes =
     bindE (now_ms E) (\<lambda>now.
       with_uow
         (bindE (uow_read (\<lambda>d. get_track_progress d stream OPEN_INTEREST_TRACK)) (\<lambda>current.
          bindE (liftR (mk_track_progress ((changes current)\<lparr>
              tp_updated_at_ms := max now (tp_updated_at_ms current)\<rparr>))) (\<lambda>p.
          bindE (uow_write (save_track_progress p)) (\<lambda>_. commit)))))"

definition no_error :: "track_progress \<Rightarrow> track_progress" where
  "no_error p = p\<lparr>tp_last_error_code := None, tp_last_error_detail := None\<rparr>"

definition oi_cached_earliest :: "stream_key \<Rightarrow> int option app" where
  "oi_cached_earliest stream =
     bindE (track_progress_of stream) (\<lambda>p. returnE (tp_earliest_available_open_time_ms p))"

definition oi_current_discovery_cursor :: "stream_key \<Rightarrow> int option app" where
  "oi_current_discovery_cursor stream =
     bindE (track_progress_of stream) (\<lambda>p. returnE (tp_discovery_next_open_time_ms p))"

definition oi_discovery_start :: "stream_key \<Rightarrow> int \<Rightarrow> int app" where
  "oi_discovery_start stream launch_search_start =
     bindE (oi_current_discovery_cursor stream) (\<lambda>cursor.
       returnE (case cursor of None \<Rightarrow> launch_search_start | Some c \<Rightarrow> max launch_search_start c))"

definition oi_advance_discovery :: "env \<Rightarrow> stream_key \<Rightarrow> int \<Rightarrow> unit app" where
  "oi_advance_discovery E stream next_open_time_ms =
     bindE (oi_cached_earliest stream) (\<lambda>earliest.
       if earliest \<noteq> None
       then raiseE (Exn RuntimeError ''cannot advance discovery cursor after lower-bound resolution'')
       else update_track E stream
              (\<lambda>p. no_error (p\<lparr>tp_discovery_next_open_time_ms := Some next_open_time_ms\<rparr>)))"

definition oi_resolve :: "env \<Rightarrow> stream_key \<Rightarrow> int \<Rightarrow> unit app" where
  "oi_resolve E stream earliest_open_time_ms =
     update_track E stream
       (\<lambda>p. no_error (p\<lparr>tp_earliest_available_open_time_ms := Some earliest_open_time_ms,
                       tp_discovery_next_open_time_ms := None\<rparr>))"

definition oi_record_audit :: "env \<Rightarrow> stream_key \<Rightarrow> unit app" where
  "oi_record_audit E stream =
     bindE (now_ms E) (\<lambda>t. update_track E stream (\<lambda>p. p\<lparr>tp_last_audit_at_ms := Some t\<rparr>))"

definition oi_record_rest_success :: "env \<Rightarrow> stream_key \<Rightarrow> unit app" where
  "oi_record_rest_success E stream =
     bindE (now_ms E) (\<lambda>t. update_track E stream (\<lambda>p. no_error (p\<lparr>tp_last_success_at_ms := Some t\<rparr>)))"

definition oi_record_failure :: "env \<Rightarrow> stream_key \<Rightarrow> exn \<Rightarrow> unit app" where
  "oi_record_failure E stream e =
     update_track E stream (\<lambda>p. p\<lparr>tp_last_error_code := Some (class_name (exn_cls e)),
                                tp_last_error_detail := Some (exn_str e)\<rparr>)"

definition oi_record_unresolved_gaps :: "env \<Rightarrow> stream_key \<Rightarrow> 'g list \<Rightarrow> unit app" where
  "oi_record_unresolved_gaps E stream gaps =
     update_track E stream (\<lambda>p. p\<lparr>tp_last_audit_gap_count := Some (int (length gaps))\<rparr>)"

definition oi_record_audit_result :: "env \<Rightarrow> stream_key \<Rightarrow> int \<Rightarrow> unit app" where
  "oi_record_audit_result E stream gap_count =
     bindE (now_ms E) (\<lambda>t. update_track E stream
       (\<lambda>p. p\<lparr>tp_last_audit_at_ms := Some t, tp_last_audit_gap_count := Some gap_count\<rparr>))"

section \<open>open\_interest\_live.py\<close>

definition open_interest_stored :: "stream_key \<Rightarrow> int \<Rightarrow> bool app" where
  "open_interest_stored stream open_time_ms =
     with_uow (bindE (uow_read (\<lambda>d. get_open_interest d stream open_time_ms)) (\<lambda>p. returnE (p \<noteq> None)))"

definition append_live_open_interest :: "env \<Rightarrow> stream_key \<Rightarrow> int \<Rightarrow> bool app" where
  "append_live_open_interest E stream open_time_ms =
     bindE (open_interest_stored stream open_time_ms) (\<lambda>stored.
       if stored then returnE True
       else bindE (liftR (mk_time_window open_time_ms (open_time_ms + stream_step stream))) (\<lambda>window.
            bindE (import_open_interest_window E stream window) (\<lambda>_.
              open_interest_stored stream open_time_ms)))"

section \<open>Read, change, save\<close>

text \<open>
  The shape of every lifecycle write inside a transaction: read the snapshot, compute its
  replacement (\<open>replace\<close> or \<open>transition_stream_state\<close>, which may raise), save it;
  \<open>None\<close> is the branch of the code that saves nothing.
\<close>

definition modify_state :: "stream_key \<Rightarrow> (stream_state \<Rightarrow> stream_state option res) \<Rightarrow> unit app" where
  "modify_state stream f =
     bindE (uow_read (\<lambda>d. get_stream_state d stream)) (\<lambda>snapshot.
     bindE (liftR (f snapshot)) (\<lambda>changed.
       case changed of None \<Rightarrow> returnE () | Some s \<Rightarrow> uow_write (save_stream_state s)))"

definition someR :: "'a res \<Rightarrow> 'a option res" where
  "someR r = bindR r (\<lambda>x. Inr (Some x))"

section \<open>stream\_failure.py\<close>

definition failed_snapshot :: "source_failure_decision \<Rightarrow> int \<Rightarrow> stream_state \<Rightarrow> stream_state res" where
  "failed_snapshot decision changed_at_ms snapshot =
     (case transition_stream_state snapshot (sf_target_state decision) changed_at_ms
             (Some (sf_code decision)) (Some (sf_detail decision)) of
        Inr s \<Rightarrow> Inr s
      | Inl e \<Rightarrow>
          if exn_cls e = InvalidStreamTransition
          then mk_stream_state (snapshot\<lparr>ss_last_error_code := Some (sf_code decision),
                 ss_last_error_detail := Some (sf_detail decision), ss_updated_at_ms := changed_at_ms\<rparr>)
          else Inl e)"

definition record_stream_failure :: "stream_key \<Rightarrow> exn \<Rightarrow> int \<Rightarrow> source_failure_decision app" where
  "record_stream_failure stream exc now =
     (let decision = classify_source_failure exc
      in bindE (with_uow
           (bindE (modify_state stream (\<lambda>s. someR (failed_snapshot decision now s))) (\<lambda>_. commit)))
         (\<lambda>_. returnE decision))"

section \<open>How the database evolves\<close>

definition stored :: "db \<Rightarrow> stream_key \<Rightarrow> int \<Rightarrow> bool" where
  "stored d k t \<longleftrightarrow> (\<exists>c. get_candle d k t = Inr (Some c))"

definition oi_stored :: "db \<Rightarrow> stream_key \<Rightarrow> int \<Rightarrow> bool" where
  "oi_stored d k t \<longleftrightarrow> (\<exists>p. get_open_interest d k t = Inr (Some p))"

definition oi_ok :: "db \<Rightarrow> bool" where
  "oi_ok d \<longleftrightarrow> (\<forall>k t. oi_stored d k t \<longrightarrow> t mod stream_step k = 0) \<and>
     (\<forall>k. stream_exists d k \<longrightarrow> (\<exists>p. get_open_interest_progress d k = Inr p))"

text \<open>
  The invariant of the whole database: the canonical invariant, open interest on the grid,
  and readable track progress for every stream.
\<close>

definition service_inv :: "db \<Rightarrow> bool" where
  "service_inv d \<longleftrightarrow> canonical_inv d \<and> oi_ok d"

fun latest_le :: "int option \<Rightarrow> int option \<Rightarrow> bool" where
  "latest_le None y \<longleftrightarrow> True"
| "latest_le (Some x) None \<longleftrightarrow> False"
| "latest_le (Some x) (Some y) \<longleftrightarrow> x \<le> y"

text \<open>
  What every use case guarantees of a database that satisfies the invariant: the invariant
  holds again, no stream appears or disappears, no stored candle or open interest point is
  lost, and the latest committed open time of no stream moves back.
\<close>

definition evolves :: "db \<Rightarrow> db \<Rightarrow> bool" where
  "evolves d d' \<longleftrightarrow>
     (service_inv d \<longrightarrow>
        service_inv d' \<and> (\<forall>k. stream_exists d' k = stream_exists d k) \<and>
        (\<forall>k t. stored d k t \<longrightarrow> stored d' k t) \<and> (\<forall>k t. oi_stored d k t \<longrightarrow> oi_stored d' k t) \<and>
        (\<forall>k st. get_stream_state d k = Inr st \<longrightarrow>
           (\<exists>st'. get_stream_state d' k = Inr st' \<and>
              latest_le (ss_latest_committed_open_time_ms st) (ss_latest_committed_open_time_ms st'))))"

lemma latest_le_refl [simp]: "latest_le x x"
  by (cases x) simp_all

lemma latest_le_trans: "latest_le x y \<Longrightarrow> latest_le y z \<Longrightarrow> latest_le x z"
  by (cases x; cases y; cases z) auto

lemma evolves_refl [simp]: "evolves d d"
  by (auto simp: evolves_def)

lemma evolves_trans:
  assumes "evolves a b" "evolves b c"
  shows "evolves a c"
  unfolding evolves_def
proof
  assume a: "service_inv a"
  have b: "service_inv b" "\<forall>k. stream_exists b k = stream_exists a k" "\<forall>k t. stored a k t \<longrightarrow> stored b k t"
    "\<forall>k t. oi_stored a k t \<longrightarrow> oi_stored b k t"
    "\<forall>k st. get_stream_state a k = Inr st \<longrightarrow> (\<exists>st'. get_stream_state b k = Inr st' \<and>
       latest_le (ss_latest_committed_open_time_ms st) (ss_latest_committed_open_time_ms st'))"
    using a assms(1) by (simp_all add: evolves_def)
  have c: "service_inv c" "\<forall>k. stream_exists c k = stream_exists b k" "\<forall>k t. stored b k t \<longrightarrow> stored c k t"
    "\<forall>k t. oi_stored b k t \<longrightarrow> oi_stored c k t"
    "\<forall>k st. get_stream_state b k = Inr st \<longrightarrow> (\<exists>st'. get_stream_state c k = Inr st' \<and>
       latest_le (ss_latest_committed_open_time_ms st) (ss_latest_committed_open_time_ms st'))"
    using b(1) assms(2) by (simp_all add: evolves_def)
  have "\<forall>k st. get_stream_state a k = Inr st \<longrightarrow> (\<exists>st'. get_stream_state c k = Inr st' \<and>
       latest_le (ss_latest_committed_open_time_ms st) (ss_latest_committed_open_time_ms st'))"
    using b(5) c(5) latest_le_trans by blast
  with b c show "service_inv c \<and> (\<forall>k. stream_exists c k = stream_exists a k) \<and>
        (\<forall>k t. stored a k t \<longrightarrow> stored c k t) \<and> (\<forall>k t. oi_stored a k t \<longrightarrow> oi_stored c k t) \<and>
        (\<forall>k st. get_stream_state a k = Inr st \<longrightarrow>
           (\<exists>st'. get_stream_state c k = Inr st' \<and>
              latest_le (ss_latest_committed_open_time_ms st) (ss_latest_committed_open_time_ms st')))"
    by simp
qed

lemma evolvesD:
  assumes "evolves d d'" "service_inv d"
  shows "service_inv d'" "stream_exists d' k = stream_exists d k" "stored d k t \<Longrightarrow> stored d' k t"
    "oi_stored d k t \<Longrightarrow> oi_stored d' k t"
  using assms by (auto simp: evolves_def)

lemma evolves_step: "evolves d0 d \<Longrightarrow> (service_inv d \<Longrightarrow> evolves d d') \<Longrightarrow> evolves d0 d'"
  by (cases "service_inv d") (blast intro: evolves_trans, simp add: evolves_def)

lemma keeps_uow_write_evolves:
  assumes "\<And>d d'. service_inv d \<Longrightarrow> f d = Inr d' \<Longrightarrow> evolves d d'"
  shows "keeps (work_ok (evolves d0)) (uow_write f)"
proof (rule keeps_uow_write)
  fix d d' assume a: "evolves d0 d" "f d = Inr d'"
  show "evolves d0 d'"
    using evolves_step [OF a(1)] assms a(2) by blast
qed

text \<open>Reads of the open interest tables.\<close>

lemma oi_table_reads [simp]:
  "get_open_interest (d\<lparr>db_candles := x1\<rparr>) s t = get_open_interest d s t"
  "get_open_interest (d\<lparr>db_states := x2\<rparr>) s t = get_open_interest d s t"
  "get_open_interest (d\<lparr>db_quarantine := x3\<rparr>) s t = get_open_interest d s t"
  "get_open_interest (d\<lparr>db_tracks := x5\<rparr>) s t = get_open_interest d s t"
  "get_track_progress (d\<lparr>db_candles := x1\<rparr>) s tr = get_track_progress d s tr"
  "get_track_progress (d\<lparr>db_states := x2\<rparr>) s tr = get_track_progress d s tr"
  "get_track_progress (d\<lparr>db_quarantine := x3\<rparr>) s tr = get_track_progress d s tr"
  "get_track_progress (d\<lparr>db_open_interest := x4\<rparr>) s tr = get_track_progress d s tr"
  by (simp_all add: get_open_interest_def get_track_progress_def)

lemma oi_ok_updates [simp]:
  "oi_ok (d\<lparr>db_candles := x1\<rparr>) \<longleftrightarrow> oi_ok d" "oi_ok (d\<lparr>db_states := x2\<rparr>) \<longleftrightarrow> oi_ok d"
  "oi_ok (d\<lparr>db_quarantine := x3\<rparr>) \<longleftrightarrow> oi_ok d"
  by (simp_all add: oi_ok_def oi_stored_def)

lemma evolvesI:
  assumes "service_inv d \<Longrightarrow> canonical_inv d' \<and> oi_ok d'"
    "\<And>k. service_inv d \<Longrightarrow> stream_exists d' k = stream_exists d k"
    "\<And>k t. service_inv d \<Longrightarrow> stored d k t \<Longrightarrow> stored d' k t"
    "\<And>k t. service_inv d \<Longrightarrow> oi_stored d k t \<Longrightarrow> oi_stored d' k t"
    "\<And>k st. service_inv d \<Longrightarrow> get_stream_state d k = Inr st \<Longrightarrow> \<exists>st'. get_stream_state d' k = Inr st' \<and>
       latest_le (ss_latest_committed_open_time_ms st) (ss_latest_committed_open_time_ms st')"
  shows "evolves d d'"
  using assms unfolding evolves_def service_inv_def by blast

subsection \<open>Lifecycle writes\<close>

definition latest_kept :: "(stream_state \<Rightarrow> stream_state option res) \<Rightarrow> bool" where
  "latest_kept f \<longleftrightarrow>
     (\<forall>s s'. f s = Inr (Some s') \<longrightarrow> ss_stream s' = ss_stream s \<and> state_wf s' \<and>
        latest_le (ss_latest_committed_open_time_ms s) (ss_latest_committed_open_time_ms s'))"

lemma covers_latest_le:
  "covers st t \<Longrightarrow> latest_le (ss_latest_committed_open_time_ms st) (ss_latest_committed_open_time_ms st') \<Longrightarrow>
   covers st' t"
  by (cases "ss_latest_committed_open_time_ms st'") (auto simp: covers_def)

lemma save_state_evolves:
  assumes "service_inv d" "get_stream_state d k = Inr s" "ss_stream s' = k" "state_wf s'"
    "latest_le (ss_latest_committed_open_time_ms s) (ss_latest_committed_open_time_ms s')"
    "save_stream_state s' d = Inr d'"
  shows "evolves d d'"
proof -
  have inv: "canonical_inv d" "oi_ok d" and wf: "db_wf d"
    using assms(1) by (simp_all add: service_inv_def canonical_inv_def)
  obtain rows where d': "d' = d\<lparr>db_states := rows\<rparr>" using save_stream_state_frame [OF assms(6)] by blast
  have "db_wf d'" using sqlite_states.save_ok [OF wf assms(6)] .
  have same: "get_stream_state d' k = Inr s'"
    using sqlite_states.save_get [OF wf _ assms(4,6)] assms(2,3) by simp
  have other: "get_stream_state d' j = get_stream_state d j" if "j \<noteq> k" for j
    using sqlite_states.save_other [OF wf assms(6)] assms(3) that by simp
  have mono: "\<exists>st'. get_stream_state d' j = Inr st' \<and>
      latest_le (ss_latest_committed_open_time_ms st) (ss_latest_committed_open_time_ms st')"
    if "get_stream_state d j = Inr st" for j st
    using that same other assms(2,5) by (cases "j = k") auto
  have "states_ok d'"
    unfolding states_ok_def
    using mono inv(1) by (simp add: d' canonical_inv_def states_ok_def) blast
  moreover have "candles_ok d'"
    unfolding candles_ok_def
  proof (intro allI impI)
    fix j t c assume "get_candle d' j t = Inr (Some c)"
    then obtain st where "t mod stream_step j = 0" "get_stream_state d j = Inr st" "covers st t"
      using inv(1) by (auto simp: d' canonical_inv_def candles_ok_def)
    with mono covers_latest_le show "t mod stream_step j = 0 \<and> (\<exists>st. get_stream_state d' j = Inr st \<and> covers st t)"
      by blast
  qed
  ultimately show ?thesis
    using \<open>db_wf d'\<close> mono inv(2)
    by (intro evolvesI) (auto simp: d' canonical_inv_def stored_def oi_stored_def)
qed

lemma keeps_modify_state [keeps_intro]:
  assumes "latest_kept f"
  shows "keeps (work_ok (evolves d0)) (modify_state stream f)"
proof -
  have step: "evolves d0 d'"
    if "evolves d0 d" "get_stream_state d stream = Inr s" "f s = Inr (Some s')" "save_stream_state s' d = Inr d'"
    for d d' s s'
  proof (rule evolves_step [OF that(1)])
    assume inv: "service_inv d"
    have "ss_stream s = stream"
      using sqlite_states.get_good [OF _ that(2)] inv by (simp add: service_inv_def canonical_inv_def)
    then show "evolves d d'"
      using save_state_evolves [OF inv that(2) _ _ _ that(4)] assms that(3) by (simp add: latest_kept_def)
  qed
  show ?thesis
    unfolding valid_def modify_state_def bindE_def run_uow_read run_uow_write
    by (auto simp: work_ok_def run_uow_write split: sum.splits option.splits intro: step)
qed

lemma transition_kept:
  assumes "transition_stream_state s target tm code detail = Inr s'"
  shows "ss_stream s' = ss_stream s \<and> state_wf s' \<and>
     ss_latest_committed_open_time_ms s' = ss_latest_committed_open_time_ms s"
  using transition_result [OF assms] by simp

lemma latest_kept_transition:
  "latest_kept (\<lambda>s. someR (transition_stream_state s target (tm s) code detail))"
  unfolding latest_kept_def someR_def by (auto dest!: transition_kept)

lemma latest_kept_mk:
  assumes "\<And>s. ss_stream (g s) = ss_stream s"
    "\<And>s. latest_le (ss_latest_committed_open_time_ms s) (ss_latest_committed_open_time_ms (g s))"
  shows "latest_kept (\<lambda>s. someR (mk_stream_state (g s)))"
  using assms unfolding latest_kept_def someR_def by (auto simp: mk_stream_state_iff)

lemma latest_kept_none: "latest_kept (\<lambda>s. Inr None)" "latest_kept (\<lambda>s. Inl (e s))"
  by (simp_all add: latest_kept_def)

lemma latest_kept_if: "latest_kept f \<Longrightarrow> latest_kept g \<Longrightarrow> latest_kept (\<lambda>s. if b s then f s else g s)"
  by (simp add: latest_kept_def)

lemma latest_kept_failed: "latest_kept (\<lambda>s. someR (failed_snapshot decision (tm s) s))"
  unfolding latest_kept_def someR_def failed_snapshot_def
  by (auto simp: mk_stream_state_iff split: sum.splits if_splits dest!: transition_kept)

lemmas latest_kept_intro = latest_kept_transition latest_kept_mk latest_kept_none latest_kept_if latest_kept_failed

lemma keeps_record_stream_failure [keeps_intro]:
  "keeps (disk_ok (evolves d0)) (record_stream_failure stream exc now)"
  unfolding record_stream_failure_def Let_def
  by (intro keeps_intro latest_kept_failed)


lemma keeps_bind_liftR: "(\<And>x. r = Inr x \<Longrightarrow> keeps I (f x)) \<Longrightarrow> keeps I (bindE (liftR r) f)"
  by (cases r) (simp_all add: keeps_basic)

subsection \<open>Quarantine, candles\<close>

lemma evolves_quarantine:
  assumes "service_inv d" "record_quarantine st a b rc det pl tm d = Inr d'"
  shows "evolves d d'"
proof -
  obtain q where d': "d' = d\<lparr>db_quarantine := q\<rparr>" using assms(2) by (auto simp: record_quarantine_def)
  have "canonical_inv d'"
    using record_quarantine_inv [OF _ assms(2)] assms(1) by (simp add: service_inv_def)
  with assms(1) show ?thesis
    by (intro evolvesI) (auto simp: d' service_inv_def stored_def oi_stored_def)
qed

lemma keeps_quarantine_evolves [keeps_intro]:
  "keeps (work_ok (evolves d0)) (uow_write (record_quarantine st a b rc det pl tm))"
  by (rule keeps_uow_write_evolves) (rule evolves_quarantine)

lemma stored_in_latest:
  assumes "stored_in c tm d d'" "get_stream_state d k = Inr st"
  shows "\<exists>st'. get_stream_state d' k = Inr st' \<and>
     latest_le (ss_latest_committed_open_time_ms st) (ss_latest_committed_open_time_ms st')"
proof (cases "k = oc_stream c")
  case True
  have "latest_le (ss_latest_committed_open_time_ms st)
      (ss_latest_committed_open_time_ms (advanced (from_observation c tm) st))"
    by (cases "ss_latest_committed_open_time_ms st") (auto simp: advanced_def)
  with True assms show ?thesis by (auto simp: stored_in_def)
qed (use assms in \<open>auto simp: stored_in_def\<close>)

lemma ingest_frame:
  "execute_in_unit_of_work c tm d = (r, d') \<Longrightarrow>
   db_open_interest d' = db_open_interest d \<and> db_tracks d' = db_tracks d \<and>
   db_instruments d' = db_instruments d \<and> db_streams d' = db_streams d"
proof -
  let ?I = "\<lambda>x. db_open_interest x = db_open_interest d \<and> db_tracks x = db_tracks d \<and>
   db_instruments x = db_instruments d \<and> db_streams x = db_streams d"
  have w: "keeps ?I (updateE (save_stream_state s))" "keeps ?I (updateE (insert_candle a))"
    "keeps ?I (updateE (replace_candle a))" "keeps ?I (updateE (record_quarantine st x y rc det pl t))"
    for s a st x y rc det pl t
    by (rule keeps_updateE, auto simp: save_stream_state_def insert_candle_def replace_candle_def
        record_quarantine_def)+
  have adv: "keeps ?I (advance_stream_state a)" for a
    unfolding advance_stream_state_def by (intro keeps_intro w)
  have "keeps ?I (execute_in_unit_of_work c tm)"
    unfolding execute_in_unit_of_work_def handle_correction_def Let_def
    by (intro keeps_intro w adv)
  moreover assume "execute_in_unit_of_work c tm d = (r, d')"
  ultimately show ?thesis using keeps_snd [of ?I "execute_in_unit_of_work c tm" d] by simp
qed

lemma oi_reads_cong:
  assumes "db_open_interest d' = db_open_interest d" "db_tracks d' = db_tracks d"
    "db_instruments d' = db_instruments d" "db_streams d' = db_streams d"
  shows "oi_stored d' k t = oi_stored d k t" "stream_exists d' k = stream_exists d k" "oi_ok d' = oi_ok d"
proof -
  have id: "stream_id d' j = stream_id d j" for j using assms by (simp add: stream_id_def)
  then show a: "stream_exists d' k = stream_exists d k" by (simp add: stream_exists_def)
  have oi: "oi_stored d' j u = oi_stored d j u" for j u
    using assms id by (simp add: oi_stored_def get_open_interest_def)
  then show "oi_stored d' k t = oi_stored d k t" .
  show "oi_ok d' = oi_ok d"
    using assms id oi by (simp add: oi_ok_def stream_exists_def get_track_progress_def)
qed

lemma ingest_evolves:
  assumes "service_inv d" "execute_in_unit_of_work c tm d = (r, d')"
  shows "evolves d d'"
proof -
  have inv: "canonical_inv d" "oi_ok d" using assms(1) by (simp_all add: service_inv_def)
  obtain r0 :: ingestion_result where dec: "decision_ok c tm d (ing_classification r0) d'" "canonical_inv d'"
    using ingest_decides [OF inv(1), of c tm] assms(2) by auto
  note fr = oi_reads_cong [of d' d] ingest_frame [OF assms(2)]
  have latest: "\<exists>st'. get_stream_state d' k = Inr st' \<and>
      latest_le (ss_latest_committed_open_time_ms st) (ss_latest_committed_open_time_ms st')"
    if "get_stream_state d k = Inr st" for k st
    using dec(1) that stored_in_latest [of c tm d d' k st] unfolding decision_ok_def
    by (auto split: if_splits sum.splits option.splits)
  show ?thesis
    using dec inv fr latest decision_grows [OF dec(1)] by (intro evolvesI) (auto simp: stored_def)
qed

lemma keeps_ingest_evolves [keeps_intro]:
  "keeps (work_ok (evolves d0)) (in_work (execute_in_unit_of_work c tm))"
proof (rule keeps_in_work, rule validI)
  show "evolves d0 s'" if "evolves d0 s" "execute_in_unit_of_work c tm s = (Inr x, s')" for s x s'
    using evolves_step [OF that(1)] ingest_evolves [OF _ that(2)] by blast
  show "evolves d0 s'" if "evolves d0 s" "execute_in_unit_of_work c tm s = (Inl e, s')" for s e s'
    using evolves_step [OF that(1)] ingest_evolves [OF _ that(2)] by blast
qed

lemma keeps_ingest_app_evolves [keeps_intro]: "keeps (disk_ok (evolves d0)) (ingest_observed_candle c tm)"
  unfolding ingest_observed_candle_def by (intro keeps_intro)

lemma in_work_updateE: "in_work (updateE f) = uow_write f"
  by (simp add: uow_write_def)

lemma keeps_import_window_evolves [keeps_intro]:
  "keeps (disk_ok (evolves d0)) (import_historical_window E stream window)"
  unfolding import_historical_window_def import_candle_def record_unexpected_historical_candle_def
    Let_def case_prod_beta in_work_updateE
  by (intro keeps_intro)

subsection \<open>The open interest track\<close>

lemma save_track_evolves:
  assumes "service_inv d" "save_track_progress p d = Inr d'"
  shows "evolves d d'"
proof -
  have inv: "canonical_inv d" "oi_ok d" and wf: "db_wf d"
    using assms(1) by (simp_all add: service_inv_def canonical_inv_def)
  obtain rows where d': "d' = d\<lparr>db_tracks := rows\<rparr>" using assms(2) by (auto simp: save_track_progress_def)
  have wf': "db_wf d'" using sqlite_tracks.save_ok [OF wf assms(2)] .
  obtain n where n: "stream_id d (tp_stream p) = Inr n" "track_good p"
    using save_track_progress_sel [OF assms(2)] by blast
  have "\<exists>q. get_open_interest_progress d' k = Inr q" if ex: "stream_exists d k" for k
  proof (cases "k = tp_stream p")
    case True
    obtain u where "get_open_interest_progress d k = Inr u" using inv(2) ex by (auto simp: oi_ok_def)
    then show ?thesis using sqlite_tracks.save_get [OF wf _ n(2) assms(2)] True by auto
  next
    case False
    then show ?thesis using sqlite_tracks.save_other [OF wf assms(2)] inv(2) ex by (auto simp: oi_ok_def)
  qed
  then have "oi_ok d'" using inv(2) by (simp add: d' oi_ok_def oi_stored_def)
  moreover have "canonical_inv d'"
    using inv(1) wf' by (simp add: d' canonical_inv_def states_ok_def candles_ok_def)
  ultimately show ?thesis by (intro evolvesI) (auto simp: d' stored_def oi_stored_def)
qed

lemma keeps_save_track [keeps_intro]: "keeps (work_ok (evolves d0)) (uow_write (save_track_progress p))"
  by (rule keeps_uow_write_evolves) (rule save_track_evolves)

lemma keeps_update_track [keeps_intro]: "keeps (disk_ok (evolves d0)) (update_track E stream changes)"
  unfolding update_track_def by (intro keeps_intro)

lemma save_open_interest_stored:
  assumes "db_wf d" "save_open_interest p d = Inr d'"
  shows "oi_stored d' k t \<longleftrightarrow> oi_stored d k t \<or> (k, t) = (co_stream p, co_open_time_ms p)"
proof -
  obtain n where n: "stream_id d (co_stream p) = Inr n"
    using assms(2) by (auto simp: save_open_interest_def)
  define r where "r = \<lparr>ow_stream_id = n, ow_open_time_ms = co_open_time_ms p,
      ow_open_interest_value = co_open_interest p, ow_source = BYBIT_REST,
      ow_committed_at_ms = co_committed_at_ms p\<rparr>"
  define f :: "open_interest_row \<Rightarrow> open_interest_row" where
    "f = (\<lambda>r. r\<lparr>ow_open_interest_value := co_open_interest p, ow_source := BYBIT_REST,
      ow_committed_at_ms := co_committed_at_ms p\<rparr>)"
  have d': "d' = d\<lparr>db_open_interest := upsert open_interest_key r f (db_open_interest d)\<rparr>"
      "open_interest_key r = (n, co_open_time_ms p)"
      "\<And>x. open_interest_key x = open_interest_key r \<Longrightarrow> open_interest_key (f x) = open_interest_key r"
    using assms(2) n by (simp_all add: save_open_interest_def r_def f_def)
  have sel: "sel open_interest_key key (db_open_interest d') = None \<longleftrightarrow>
      key \<noteq> (n, co_open_time_ms p) \<and> sel open_interest_key key (db_open_interest d) = None" for key
    using sel_upsert [of open_interest_key r f key "db_open_interest d", OF d'(3)] d'(1,2) by auto
  show ?thesis
  proof (cases "stream_id d k")
    case (Inr m)
    have "m = n \<longleftrightarrow> k = co_stream p"
      using stream_id_inj [of d k n "co_stream p"] n Inr assms(1) by auto
    with Inr sel [of "(m, t)"] show ?thesis by (auto simp: oi_stored_def get_open_interest_def d'(1))
  next
    case (Inl e)
    with n have "k \<noteq> co_stream p" by auto
    with Inl show ?thesis by (simp add: oi_stored_def get_open_interest_def d'(1))
  qed
qed

lemma save_open_interest_evolves:
  assumes "service_inv d" "save_open_interest p d = Inr d'"
    "co_open_time_ms p mod stream_step (co_stream p) = 0"
  shows "evolves d d'"
proof -
  have inv: "canonical_inv d" "oi_ok d" and wf: "db_wf d"
    using assms(1) by (simp_all add: service_inv_def canonical_inv_def)
  have wf': "db_wf d'" using save_open_interest_wf [OF wf assms(2)] by blast
  obtain rows where d': "d' = d\<lparr>db_open_interest := rows\<rparr>" using assms(2) by (auto simp: save_open_interest_def)
  note st = save_open_interest_stored [OF wf assms(2)]
  have "canonical_inv d'"
    using inv(1) wf' by (simp add: d' canonical_inv_def states_ok_def candles_ok_def)
  moreover have "oi_ok d'"
    using inv(2) st assms(3) by (auto simp: oi_ok_def) (simp_all add: d')
  ultimately show ?thesis using st by (intro evolvesI) (auto simp: d' stored_def)
qed

lemma keeps_save_open_interest:
  "co_open_time_ms p mod stream_step (co_stream p) = 0 \<Longrightarrow>
   keeps (work_ok (evolves d0)) (uow_write (save_open_interest p))"
  by (rule keeps_uow_write_evolves) (rule save_open_interest_evolves)

lemma keeps_import_open_interest_point:
  "keeps (work_ok (evolves d0)) (import_open_interest_point E stream window acc point)"
proof (cases "open_interest_issue point")
  case None
  have save: "keeps (work_ok (evolves d0)) (uow_write (save_open_interest c))"
    if "mk_canonical_open_interest point now = Inr c" for now c
    using mk_canonical_open_interest_fields [OF that] open_interest_issue_None [OF None]
    by (intro keeps_save_open_interest) simp
  show ?thesis
    unfolding import_open_interest_point_def open_interest_quarantine_def None Let_def case_prod_beta option.case
    by (intro keeps_if keeps_bindE [OF keeps_now_ms(1)] keeps_bind_liftR keeps_bindE [OF keeps_uow_read]
        keeps_bindE keeps_basic keeps_quarantine_evolves save)
next
  case (Some issue)
  show ?thesis
    unfolding import_open_interest_point_def open_interest_quarantine_def Some Let_def case_prod_beta option.case
    by (intro keeps_intro)
qed

lemma keeps_import_open_interest [keeps_intro]:
  "keeps (disk_ok (evolves d0)) (import_open_interest_window E stream window)"
  unfolding import_open_interest_window_def case_prod_beta
  by (intro keeps_intro keeps_import_open_interest_point)

lemma keeps_track_ops [keeps_intro]:
  "keeps (disk_ok (evolves d0)) (track_progress_of stream)"
  "keeps (disk_ok (evolves d0)) (oi_cached_earliest stream)"
  "keeps (disk_ok (evolves d0)) (oi_current_discovery_cursor stream)"
  "keeps (disk_ok (evolves d0)) (oi_discovery_start stream l)"
  "keeps (disk_ok (evolves d0)) (oi_advance_discovery E stream n)"
  "keeps (disk_ok (evolves d0)) (oi_resolve E stream n)"
  "keeps (disk_ok (evolves d0)) (oi_record_audit E stream)"
  "keeps (disk_ok (evolves d0)) (oi_record_rest_success E stream)"
  "keeps (disk_ok (evolves d0)) (oi_record_failure E stream e)"
  "keeps (disk_ok (evolves d0)) (oi_record_unresolved_gaps E stream gs)"
  "keeps (disk_ok (evolves d0)) (oi_record_audit_result E stream n)"
  "keeps (disk_ok (evolves d0)) (open_interest_stored stream t)"
  "keeps (disk_ok (evolves d0)) (append_live_open_interest E stream t)"
  unfolding track_progress_of_def oi_cached_earliest_def oi_current_discovery_cursor_def oi_discovery_start_def
    oi_advance_discovery_def oi_resolve_def oi_record_audit_def oi_record_rest_success_def oi_record_failure_def
    oi_record_unresolved_gaps_def oi_record_audit_result_def open_interest_stored_def append_live_open_interest_def
  by (intro keeps_intro)+


section \<open>The open interest track is separate\<close>

definition lifecycle_tables :: "db \<Rightarrow> candle_row list \<times> (int \<times> stream_state) list \<times> instrument_row list \<times> stream_row list" where
  "lifecycle_tables d = (db_candles d, db_states d, db_instruments d, db_streams d)"

lemma keeps_tables_writes:
  "keeps (work_ok (\<lambda>d. lifecycle_tables d = x)) (uow_write (save_open_interest p))"
  "keeps (work_ok (\<lambda>d. lifecycle_tables d = x)) (uow_write (save_track_progress q))"
  "keeps (work_ok (\<lambda>d. lifecycle_tables d = x)) (uow_write (record_quarantine st a b rc det pl tm))"
  by (rule keeps_uow_write, auto simp: lifecycle_tables_def save_open_interest_def save_track_progress_def
      record_quarantine_def)+

lemma keeps_tables_import:
  "keeps (disk_ok (\<lambda>d. lifecycle_tables d = x)) (import_open_interest_window E stream window)"
  unfolding import_open_interest_window_def import_open_interest_point_def open_interest_quarantine_def
    case_prod_beta Let_def
  by (intro keeps_intro keeps_tables_writes)

lemma keeps_tables_update: "keeps (disk_ok (\<lambda>d. lifecycle_tables d = x)) (update_track E stream changes)"
  unfolding update_track_def by (intro keeps_intro keeps_tables_writes)

lemma keeps_tables_append:
  "keeps (disk_ok (\<lambda>d. lifecycle_tables d = x)) (append_live_open_interest E stream t)"
  unfolding append_live_open_interest_def open_interest_stored_def
  by (intro keeps_intro keeps_tables_import)

text \<open>
  The open interest track never touches candles, lifecycle snapshots or the catalog: after
  an import of a window, an update of track progress or a live append, however it ended,
  those tables of the committed database are what they were.
\<close>

theorem open_interest_track_isolated:
  "lifecycle_tables (w_disk (snd (import_open_interest_window E stream window w))) = lifecycle_tables (w_disk w) \<and>
   lifecycle_tables (w_disk (snd (update_track E stream changes w))) = lifecycle_tables (w_disk w) \<and>
   lifecycle_tables (w_disk (snd (append_live_open_interest E stream t w))) = lifecycle_tables (w_disk w)"
  using keeps_snd [OF keeps_tables_import, of "lifecycle_tables (w_disk w)" w E stream window]
    keeps_snd [OF keeps_tables_update, of "lifecycle_tables (w_disk w)" w E stream changes]
    keeps_snd [OF keeps_tables_append, of "lifecycle_tables (w_disk w)" w E stream t]
  by (simp add: disk_ok_def)

lemma open_interest_stored_run:
  "open_interest_stored s t w =
     (bindR (get_open_interest (w_disk w) s t) (\<lambda>p. Inr (p \<noteq> None)), w\<lparr>w_work := w_disk w\<rparr>)"
  by (cases "get_open_interest (w_disk w) s t")
    (simp_all add: open_interest_stored_def with_uow_def bindE_def run_uow_read)

lemma open_interest_stored_result:
  "open_interest_stored s t w = (Inr b, w') \<Longrightarrow> b \<longleftrightarrow> oi_stored (w_disk w') s t"
  by (cases "get_open_interest (w_disk w) s t") (auto simp: open_interest_stored_run oi_stored_def)

text \<open>
  A live append reports the truth about one bar: when it returns, its answer is whether
  the point is in the committed database, and a bar that was stored already is answered
  without any request to the exchange.
\<close>

theorem append_live_truthful:
  assumes "append_live_open_interest E s t w = (Inr b, w')"
  shows "(b \<longleftrightarrow> oi_stored (w_disk w') s t) \<and>
     (oi_stored (w_disk w) s t \<longrightarrow> b \<and> w_calls w' = w_calls w \<and> w_disk w' = w_disk w)"
proof (cases "get_open_interest (w_disk w) s t")
  case (Inl e)
  with assms show ?thesis by (simp add: append_live_open_interest_def bindE_def open_interest_stored_run)
next
  case (Inr p)
  show ?thesis
  proof (cases "p = None")
    case False
    with assms Inr show ?thesis
      by (auto simp: append_live_open_interest_def bindE_def open_interest_stored_run oi_stored_def)
  next
    case True
    with assms Inr obtain v where "open_interest_stored s t v = (Inr b, w')"
      by (auto simp: append_live_open_interest_def bindE_def open_interest_stored_run
          split: sum.splits prod.splits)
    from open_interest_stored_result [OF this] True Inr show ?thesis by (simp add: oi_stored_def)
  qed
qed

theorem append_live_truthful_witness:
  "\<exists>b w'. append_live_open_interest example_env example_stream 0 example_world = (Inr b, w') \<and>
     (b \<longleftrightarrow> oi_stored (w_disk w') example_stream 0)"
proof -
  have "get_open_interest example_db example_stream 0 = Inr None"
    by (simp add: get_open_interest_def) (simp add: example_db_def empty_db_def sel_def)
  then have "\<exists>b w'. append_live_open_interest example_env example_stream 0 example_world = (Inr b, w')"
    by (simp add: append_live_open_interest_def bindE_def open_interest_stored_run example_world_def
        mk_time_window_def stream_step_def example_stream_def import_open_interest_window_def now_ms_def
        fetch_open_interest_def call_source_def example_env_def with_uow_def commit_def) blast
  then show ?thesis using append_live_truthful by blast
qed

end
