(* ===== verification/Repair.thy ===== *)
theory Repair
  imports Gaps Tracks
begin

text \<open>
  application/audit\_continuity.py, application/repair\_types.py, application/repair\_state.py and
  application/repair\_gaps.py: the continuity audit of one range and the bounded repair of its
  gaps. The workflow is generic in the track: \<open>repair_ops\<close> is what the constructor of
  \<open>RepairStreamGaps\<close> receives, and \<open>candle_repair_ops\<close> and \<open>open_interest_repair_ops\<close> are the
  two instances the service builds.
\<close>

section \<open>audit\_continuity.py\<close>

record audit_request =
  ar_stream :: stream_key
  ar_start_time_ms :: int
  ar_end_time_ms :: int

definition mk_audit_request :: "audit_request \<Rightarrow> audit_request res" where
  "mk_audit_request r =
     (if ar_start_time_ms r \<ge> ar_end_time_ms r
        then Inl (Exn ValueError ''audit range must satisfy start_time_ms < end_time_ms'')
      else if ar_start_time_ms r mod stream_step (ar_stream r) \<noteq> 0 \<or>
              ar_end_time_ms r mod stream_step (ar_stream r) \<noteq> 0
        then Inl (Exn ValueError ''audit range must be aligned to stream timeframe'')
      else Inr r)"

type_synonym open_time_reader = "db \<Rightarrow> stream_key \<Rightarrow> int \<Rightarrow> int \<Rightarrow> int list res"

definition candle_open_times :: open_time_reader where
  "candle_open_times d stream a b =
     bindR (list_candles d stream a b) (\<lambda>cs. Inr (map cc_open_time_ms cs))"

definition open_interest_open_times :: open_time_reader where
  "open_interest_open_times d stream a b = list_open_interest_times d stream a b"

definition audit_stream_continuity :: "open_time_reader \<Rightarrow> audit_request \<Rightarrow> continuity_report app" where
  "audit_stream_continuity open_times request =
     bindE (with_uow
       (bindE (uow_read (\<lambda>d. Inr (stream_exists d (ar_stream request)))) (\<lambda>exists.
        if \<not> exists
        then raiseE (Exn UnknownStreamError
               (''stream is not registered: '' @ canonical_id (ar_stream request)))
        else uow_read (\<lambda>d. open_times d (ar_stream request)
               (ar_start_time_ms request) (ar_end_time_ms request))))) (\<lambda>observed.
     liftR (bindR (mk_time_window (ar_start_time_ms request) (ar_end_time_ms request)) (\<lambda>window.
       build_continuity_report (ar_stream request) window observed (stream_step (ar_stream request)))))"

section \<open>repair\_types.py\<close>

datatype repair_status = REPAIR_COMPLETE | REPAIR_INCOMPLETE | REPAIR_FAILED

record repair_request =
  rq_stream :: stream_key
  rq_start_time_ms :: int
  rq_end_time_ms :: int
  rq_max_windows :: int

definition mk_repair_request :: "repair_request \<Rightarrow> repair_request res" where
  "mk_repair_request r =
     (if rq_start_time_ms r \<ge> rq_end_time_ms r
        then Inl (Exn ValueError ''repair range must satisfy start_time_ms < end_time_ms'')
      else if rq_max_windows r \<le> 0 then Inl (Exn ValueError ''max_windows must be positive'')
      else if rq_start_time_ms r mod stream_step (rq_stream r) \<noteq> 0 \<or>
              rq_end_time_ms r mod stream_step (rq_stream r) \<noteq> 0
        then Inl (Exn ValueError ''repair range must be aligned to stream timeframe'')
      else Inr r)"

datatype window_result = WindowResult (wr_window: time_window) (wr_imported: import_window_result)

record repair_result =
  rr_stream :: stream_key
  rr_requested_window :: time_window
  rr_status :: repair_status
  rr_pre_repair_audit :: continuity_report
  rr_post_repair_audit :: "continuity_report option"
  rr_attempted_windows :: nat
  rr_completed_windows :: nat
  rr_window_results :: "window_result list"
  rr_error_code :: "string option"
  rr_error_detail :: "string option"
  rr_failure_disposition :: "source_failure_disposition option"

record repair_progress_marker =
  pm_requested_window :: time_window
  pm_remaining_missing_candles :: int
  pm_earliest_remaining_gap_start_ms :: "int option"

definition progress_marker :: "repair_result \<Rightarrow> repair_progress_marker" where
  "progress_marker r =
     (let report = (case rr_post_repair_audit r of Some p \<Rightarrow> p | None \<Rightarrow> rr_pre_repair_audit r);
          step = stream_step (rr_stream r)
      in \<lparr>pm_requested_window = rr_requested_window r,
          pm_remaining_missing_candles =
            sum_list (map (\<lambda>g. (gap_end_ms g - gap_start_ms g) div step) (cr_gaps report)),
          pm_earliest_remaining_gap_start_ms =
            (case cr_gaps report of [] \<Rightarrow> None | g # gs \<Rightarrow> Some (gap_start_ms g))\<rparr>)"

section \<open>repair\_state.py\<close>

definition in_transaction :: "env \<Rightarrow> stream_key \<Rightarrow> (int \<Rightarrow> stream_state \<Rightarrow> stream_state option res) \<Rightarrow> unit app" where
  "in_transaction E stream f =
     bindE (now_ms E) (\<lambda>now. with_uow (bindE (modify_state stream (f now)) (\<lambda>_. commit)))"

definition ensure_auditing :: "env \<Rightarrow> stream_key \<Rightarrow> unit app" where
  "ensure_auditing E stream =
     in_transaction E stream (\<lambda>now s.
       if ss_state s = AUDITING then Inr None
       else if ss_state s \<notin> {REPAIRING, DEGRADED, FAILED}
         then Inl (Exn InvalidStreamTransition
                (''repair requires auditing state, got '' @ lifecycle_value (ss_state s)))
       else someR (transition_stream_state s AUDITING (max now (ss_updated_at_ms s)) None None))"

definition transition_to_repairing :: "env \<Rightarrow> stream_key \<Rightarrow> unit app" where
  "transition_to_repairing E stream =
     in_transaction E stream (\<lambda>now s.
       someR (transition_stream_state s REPAIRING (max now (ss_updated_at_ms s)) None None))"

definition transition_repairing_to_auditing :: "env \<Rightarrow> stream_key \<Rightarrow> unit app" where
  "transition_repairing_to_auditing E stream =
     in_transaction E stream (\<lambda>now s.
       if ss_state s = REPAIRING
       then someR (transition_stream_state s AUDITING (max now (ss_updated_at_ms s)) None None)
       else Inr None)"

definition record_audit :: "env \<Rightarrow> stream_key \<Rightarrow> unit app" where
  "record_audit E stream =
     in_transaction E stream (\<lambda>now s. someR (mk_stream_state (s\<lparr>ss_last_audit_at_ms := Some now,
       ss_updated_at_ms := max now (ss_updated_at_ms s)\<rparr>)))"

definition record_rest_success :: "env \<Rightarrow> stream_key \<Rightarrow> unit app" where
  "record_rest_success E stream =
     in_transaction E stream (\<lambda>now s. someR (mk_stream_state (s\<lparr>ss_last_rest_success_at_ms := Some now,
       ss_last_error_code := None, ss_last_error_detail := None,
       ss_updated_at_ms := max now (ss_updated_at_ms s)\<rparr>)))"

definition record_failure :: "env \<Rightarrow> stream_key \<Rightarrow> exn \<Rightarrow> unit app" where
  "record_failure E stream exc =
     in_transaction E stream (\<lambda>now s.
       someR (failed_snapshot (classify_source_failure exc) (max now (ss_updated_at_ms s)) s))"

definition record_unresolved_gaps :: "env \<Rightarrow> stream_key \<Rightarrow> gap list \<Rightarrow> unit app" where
  "record_unresolved_gaps E stream gaps =
     bindE (now_ms E) (\<lambda>now.
       with_uow (bindE (foldE (\<lambda>_ g. bindE (in_work (record_quarantine_once stream (gap_start_ms g)
              (gap_end_ms g) ''repair_incomplete_gap'' ''post-repair audit still reports a gap'' None now))
              (\<lambda>_. returnE ())) () gaps) (\<lambda>_. commit)))"

section \<open>repair\_gaps.py\<close>

record repair_ops =
  ro_open_times :: open_time_reader
  ro_import :: "stream_key \<Rightarrow> time_window \<Rightarrow> import_window_result app"
  ro_ensure_auditing :: "stream_key \<Rightarrow> unit app"
  ro_record_audit :: "stream_key \<Rightarrow> unit app"
  ro_transition_to_repairing :: "stream_key \<Rightarrow> unit app"
  ro_record_rest_success :: "stream_key \<Rightarrow> unit app"
  ro_record_failure :: "stream_key \<Rightarrow> exn \<Rightarrow> unit app"
  ro_transition_repairing_to_auditing :: "stream_key \<Rightarrow> unit app"
  ro_record_unresolved_gaps :: "stream_key \<Rightarrow> gap list \<Rightarrow> unit app"
  ro_max_candles_per_window :: int

definition candle_repair_ops :: "env \<Rightarrow> int \<Rightarrow> repair_ops" where
  "candle_repair_ops E max_candles =
     \<lparr>ro_open_times = candle_open_times, ro_import = import_historical_window E,
      ro_ensure_auditing = ensure_auditing E, ro_record_audit = record_audit E,
      ro_transition_to_repairing = transition_to_repairing E,
      ro_record_rest_success = record_rest_success E, ro_record_failure = record_failure E,
      ro_transition_repairing_to_auditing = transition_repairing_to_auditing E,
      ro_record_unresolved_gaps = record_unresolved_gaps E,
      ro_max_candles_per_window = max_candles\<rparr>"

text \<open>The three lifecycle hooks of \<open>OpenInterestTrackState\<close> return \<open>None\<close>.\<close>

definition open_interest_repair_ops :: "env \<Rightarrow> int \<Rightarrow> repair_ops" where
  "open_interest_repair_ops E max_points =
     \<lparr>ro_open_times = open_interest_open_times, ro_import = import_open_interest_window E,
      ro_ensure_auditing = (\<lambda>_. returnE ()), ro_record_audit = oi_record_audit E,
      ro_transition_to_repairing = (\<lambda>_. returnE ()),
      ro_record_rest_success = oi_record_rest_success E, ro_record_failure = oi_record_failure E,
      ro_transition_repairing_to_auditing = (\<lambda>_. returnE ()),
      ro_record_unresolved_gaps = oi_record_unresolved_gaps E,
      ro_max_candles_per_window = max_points\<rparr>"

definition repair_audit :: "repair_ops \<Rightarrow> repair_request \<Rightarrow> continuity_report app" where
  "repair_audit ops request =
     bindE (liftR (mk_audit_request \<lparr>ar_stream = rq_stream request,
         ar_start_time_ms = rq_start_time_ms request, ar_end_time_ms = rq_end_time_ms request\<rparr>))
       (audit_stream_continuity (ro_open_times ops))"

text \<open>
  The windows the generator \<open>_planned_windows\<close> yields, in order; where it would raise, the
  exception stands in the list.
\<close>

definition planned_windows :: "repair_ops \<Rightarrow> stream_key \<Rightarrow> gap list \<Rightarrow> time_window res list" where
  "planned_windows ops stream gaps =
     concat (map (\<lambda>g. case iter_fetch_windows g (stream_step stream) (ro_max_candles_per_window ops) of
                        Inl e \<Rightarrow> [Inl e] | Inr ws \<Rightarrow> map Inr ws) gaps)"

text \<open>The body of the \<open>try\<close>: the exception that ended it, if any, with the two counters.\<close>

fun repair_loop ::
  "repair_ops \<Rightarrow> stream_key \<Rightarrow> time_window res list \<Rightarrow> nat \<Rightarrow> window_result list \<Rightarrow>
   (exn option \<times> nat \<times> window_result list) app" where
  "repair_loop ops stream [] attempted results = returnE (None, attempted, results)"
| "repair_loop ops stream (Inl e # ws) attempted results = returnE (Some e, attempted, results)"
| "repair_loop ops stream (Inr w # ws) attempted results =
     bindE (tryE (ro_import ops stream w)) (\<lambda>imported.
       case imported of
         Inl e \<Rightarrow> returnE (Some e, Suc attempted, results)
       | Inr r \<Rightarrow>
           bindE (tryE (ro_record_rest_success ops stream)) (\<lambda>recorded.
             case recorded of
               Inl e \<Rightarrow> returnE (Some e, Suc attempted, results @ [WindowResult w r])
             | Inr _ \<Rightarrow> repair_loop ops stream ws (Suc attempted) (results @ [WindowResult w r])))"

definition repair_stream_gaps :: "repair_ops \<Rightarrow> repair_request \<Rightarrow> repair_result app" where
  "repair_stream_gaps ops request =
     (let stream = rq_stream request
      in bindE (liftR (mk_time_window (rq_start_time_ms request) (rq_end_time_ms request))) (\<lambda>requested_window.
         bindE (ro_ensure_auditing ops stream) (\<lambda>_.
         bindE (repair_audit ops request) (\<lambda>pre_repair_audit.
         bindE (ro_record_audit ops stream) (\<lambda>_.
         let result = \<lparr>rr_stream = stream, rr_requested_window = requested_window,
               rr_status = REPAIR_COMPLETE, rr_pre_repair_audit = pre_repair_audit,
               rr_post_repair_audit = Some pre_repair_audit, rr_attempted_windows = 0,
               rr_completed_windows = 0, rr_window_results = [], rr_error_code = None,
               rr_error_detail = None, rr_failure_disposition = None\<rparr>
         in if cr_is_continuous pre_repair_audit then returnE result
            else
              bindE (ro_transition_to_repairing ops stream) (\<lambda>_.
              bindE (repair_loop ops stream
                  (take (nat (rq_max_windows request)) (planned_windows ops stream (cr_gaps pre_repair_audit)))
                  0 []) (\<lambda>(failure, attempted, results).
              case failure of
                Some exc \<Rightarrow>
                  bindE (ro_record_failure ops stream exc) (\<lambda>_.
                  returnE (result\<lparr>rr_status := REPAIR_FAILED, rr_post_repair_audit := None,
                    rr_attempted_windows := attempted, rr_completed_windows := length results,
                    rr_window_results := results,
                    rr_error_code := Some (class_name (exn_cls exc)), rr_error_detail := Some (exn_str exc),
                    rr_failure_disposition := Some (sf_disposition (classify_source_failure exc))\<rparr>))
              | None \<Rightarrow>
                  bindE (ro_transition_repairing_to_auditing ops stream) (\<lambda>_.
                  bindE (repair_audit ops request) (\<lambda>post_repair_audit.
                  bindE (ro_record_audit ops stream) (\<lambda>_.
                  bindE (if cr_is_continuous post_repair_audit then returnE REPAIR_COMPLETE
                         else bindE (ro_record_unresolved_gaps ops stream (cr_gaps post_repair_audit))
                                (\<lambda>_. returnE REPAIR_INCOMPLETE)) (\<lambda>status.
                  returnE (result\<lparr>rr_status := status, rr_post_repair_audit := Some post_repair_audit,
                    rr_attempted_windows := attempted, rr_completed_windows := length results,
                    rr_window_results := results\<rparr>))))))))))))"


section \<open>Repair of any track\<close>

text \<open>
  What the workflow relies on of a track: its reader lists exactly the points present in a
  range, points are on the grid and are never lost, and its recorder and importer follow
  \<open>evolves\<close>. Everything below holds for every such track.
\<close>

lemma run_evolves:
  assumes "\<And>d0. keeps (disk_ok (evolves d0)) m" "m w = (r, w')"
  shows "evolves (w_disk w) (w_disk w')"
  using keeps_snd [OF assms(1), of "w_disk w" w] assms(2) by (simp add: disk_ok_def)

locale repair_track =
  fixes ops :: repair_ops
    and present :: "db \<Rightarrow> stream_key \<Rightarrow> int \<Rightarrow> bool"
  assumes open_times_exact: "service_inv d \<Longrightarrow> stream_exists d s \<Longrightarrow>
      \<exists>ts. ro_open_times ops d s a b = Inr ts \<and> set ts = {t. a \<le> t \<and> t < b \<and> present d s t}"
    and present_aligned: "service_inv d \<Longrightarrow> present d s t \<Longrightarrow> t mod stream_step s = 0"
    and present_kept: "evolves d d' \<Longrightarrow> service_inv d \<Longrightarrow> present d s t \<Longrightarrow> present d' s t"
    and import_evolves: "keeps (disk_ok (evolves d0)) (ro_import ops s w)"
    and recorder_evolves: "keeps (disk_ok (evolves d0)) (ro_ensure_auditing ops s)"
      "keeps (disk_ok (evolves d0)) (ro_record_audit ops s)"
      "keeps (disk_ok (evolves d0)) (ro_transition_to_repairing ops s)"
      "keeps (disk_ok (evolves d0)) (ro_record_rest_success ops s)"
      "keeps (disk_ok (evolves d0)) (ro_record_failure ops s e)"
      "keeps (disk_ok (evolves d0)) (ro_transition_repairing_to_auditing ops s)"
      "keeps (disk_ok (evolves d0)) (ro_record_unresolved_gaps ops s gs)"
begin

lemma keeps_audit: "keeps (disk_ok (evolves d0)) (repair_audit ops request)"
  unfolding repair_audit_def audit_stream_continuity_def by (intro keeps_intro)

lemma keeps_loop: "keeps (disk_ok (evolves d0)) (repair_loop ops stream ws attempted results)"
proof (induction ws arbitrary: attempted results)
  case (Cons w ws)
  show ?case
  proof (cases w)
    case (Inl e)
    show ?thesis unfolding Inl repair_loop.simps by (rule keeps_basic)
  next
    case (Inr x)
    show ?thesis
      unfolding Inr repair_loop.simps by (intro keeps_intro import_evolves recorder_evolves Cons.IH)
  qed
qed (unfold repair_loop.simps, rule keeps_basic)

lemma keeps_repair: "keeps (disk_ok (evolves d0)) (repair_stream_gaps ops request)"
  unfolding repair_stream_gaps_def Let_def case_prod_beta
  by (intro keeps_intro keeps_audit keeps_loop recorder_evolves)

text \<open>An audit that returns tells the truth about the committed database, and leaves it.\<close>

lemma audit_truth:
  assumes "service_inv (w_disk w)" "repair_audit ops request w = (Inr rep, w')"
  shows "w_disk w' = w_disk w"
    "cr_is_continuous rep \<longleftrightarrow>
       (\<forall>t. rq_start_time_ms request \<le> t \<longrightarrow> t < rq_end_time_ms request \<longrightarrow>
          t mod stream_step (rq_stream request) = 0 \<longrightarrow> present (w_disk w) (rq_stream request) t)"
    "cr_is_continuous rep \<longleftrightarrow> cr_gaps rep = []"
proof -
  let ?s = "rq_stream request" and ?a = "rq_start_time_ms request" and ?b = "rq_end_time_ms request"
  have al: "?a < ?b" "?a mod stream_step ?s = 0" "?b mod stream_step ?s = 0"
    using assms(2) by (auto simp: repair_audit_def mk_audit_request_def split: if_splits)
  have ex: "stream_exists (w_disk w) ?s"
    using assms(2) al by (auto simp: repair_audit_def mk_audit_request_def audit_stream_continuity_def run_simps
        split: if_splits)
  obtain ts where ts: "ro_open_times ops (w_disk w) ?s ?a ?b = Inr ts"
    "set ts = {t. ?a \<le> t \<and> t < ?b \<and> present (w_disk w) ?s t}"
    using open_times_exact [OF assms(1) ex] by blast
  have rep: "build_continuity_report ?s (TimeWindow ?a ?b) ts (stream_step ?s) = Inr rep"
    and w': "w_disk w' = w_disk w"
    using assms(2) al ex ts(1)
    by (auto simp: repair_audit_def mk_audit_request_def audit_stream_continuity_def run_simps mk_time_window_def
        split: if_splits sum.splits)
  show "w_disk w' = w_disk w" by (rule w')
  have al': "start_ms (TimeWindow ?a ?b) mod stream_step ?s = 0" "end_ms (TimeWindow ?a ?b) mod stream_step ?s = 0"
    "start_ms (TimeWindow ?a ?b) < end_ms (TimeWindow ?a ?b)"
    using al by simp_all
  note c = continuity_report_exact [OF stream_step_pos [of ?s] al' rep]
  show "cr_is_continuous rep \<longleftrightarrow>
       (\<forall>t. ?a \<le> t \<longrightarrow> t < ?b \<longrightarrow> t mod stream_step ?s = 0 \<longrightarrow> present (w_disk w) ?s t)"
    unfolding c(1) ts(2) window_contains_def time_window.sel mem_Collect_eq by (rule iff_allI) argo
  show "cr_is_continuous rep \<longleftrightarrow> cr_gaps rep = []" by (rule c(2))
qed

text \<open>The ways in which a repair returns a result.\<close>

lemma repair_returns:
  assumes "repair_stream_gaps ops request w = (Inr r, w')"
  obtains (continuous) w1 w2 pre where "ro_ensure_auditing ops (rq_stream request) w = (Inr (), w1)"
      "repair_audit ops request w1 = (Inr pre, w2)" "cr_is_continuous pre"
      "ro_record_audit ops (rq_stream request) w2 = (Inr (), w')" "rr_status r = REPAIR_COMPLETE"
      "rr_attempted_windows r = 0" "rr_completed_windows r = 0" "rr_window_results r = []"
  | (failed) "rr_status r = REPAIR_FAILED" "rr_post_repair_audit r = None"
  | (audited) w1 w2 w3 post where "evolves (w_disk w) (w_disk w1)" "repair_audit ops request w1 = (Inr post, w2)"
      "ro_record_audit ops (rq_stream request) w2 = (Inr (), w3)" "evolves (w_disk w3) (w_disk w')"
      "rr_status r = (if cr_is_continuous post then REPAIR_COMPLETE else REPAIR_INCOMPLETE)"
      "rr_post_repair_audit r = Some post"
proof -
  let ?s = "rq_stream request"
  obtain rw w1 pre w2 w3 where s: "mk_time_window (rq_start_time_ms request) (rq_end_time_ms request) = Inr rw"
    "ro_ensure_auditing ops ?s w = (Inr (), w1)" "repair_audit ops request w1 = (Inr pre, w2)"
    "ro_record_audit ops ?s w2 = (Inr (), w3)"
    using assms by (auto simp: repair_stream_gaps_def Let_def bindE_eq_Inr)
  have ev3: "evolves (w_disk w) (w_disk w3)"
    by (rule evolves_trans [OF run_evolves [OF recorder_evolves(1) s(2)] evolves_trans
          [OF run_evolves [OF keeps_audit s(3)] run_evolves [OF recorder_evolves(2) s(4)]]])
  show thesis
  proof (cases "cr_is_continuous pre")
    case True
    with assms s show thesis
      by (intro continuous) (auto simp: repair_stream_gaps_def Let_def bindE_def)
  next
    case False
    obtain w4 w5 failure attempted results where l: "ro_transition_to_repairing ops ?s w3 = (Inr (), w4)"
      "repair_loop ops ?s (take (nat (rq_max_windows request)) (planned_windows ops ?s (cr_gaps pre))) 0 [] w4 =
        (Inr (failure, attempted, results), w5)"
      using assms s False by (auto simp: repair_stream_gaps_def Let_def bindE_def split: sum.splits prod.splits)
    show thesis
    proof (cases failure)
      case (Some exc)
      with assms s False l show thesis
        by (intro failed)
          (auto simp: repair_stream_gaps_def Let_def bindE_def split: sum.splits prod.splits)
    next
      case None
      have ev5: "evolves (w_disk w) (w_disk w5)"
        by (rule evolves_trans [OF ev3 evolves_trans
              [OF run_evolves [OF recorder_evolves(3) l(1)] run_evolves [OF keeps_loop l(2)]]])
      obtain w6 post w7 w8 where t: "ro_transition_repairing_to_auditing ops ?s w5 = (Inr (), w6)"
        "repair_audit ops request w6 = (Inr post, w7)" "ro_record_audit ops ?s w7 = (Inr (), w8)"
        using assms s False l None
        by (auto simp: repair_stream_gaps_def Let_def bindE_def split: sum.splits prod.splits)
      have "evolves (w_disk w) (w_disk w6)"
        by (rule evolves_trans [OF ev5 run_evolves [OF recorder_evolves(6) t(1)]])
      moreover have "evolves (w_disk w8) (w_disk w') \<and>
          rr_status r = (if cr_is_continuous post then REPAIR_COMPLETE else REPAIR_INCOMPLETE) \<and>
          rr_post_repair_audit r = Some post"
        using assms s False l None t run_evolves [OF recorder_evolves(7), of ?s "cr_gaps post" w8 "Inr ()" w']
        by (auto simp: repair_stream_gaps_def Let_def bindE_def split: sum.splits prod.splits if_splits)
      ultimately show thesis using t by (intro audited) auto
    qed
  qed
qed

lemma complete_sound:
  assumes "service_inv (w_disk w)" "repair_stream_gaps ops request w = (Inr r, w')"
  shows "rr_status r = REPAIR_COMPLETE \<Longrightarrow>
     (\<forall>t. rq_start_time_ms request \<le> t \<longrightarrow> t < rq_end_time_ms request \<longrightarrow>
        t mod stream_step (rq_stream request) = 0 \<longrightarrow> present (w_disk w') (rq_stream request) t)"
    and "rr_status r = REPAIR_INCOMPLETE \<Longrightarrow> \<exists>post. rr_post_repair_audit r = Some post \<and> cr_gaps post \<noteq> []"
proof -
  show "\<forall>t. rq_start_time_ms request \<le> t \<longrightarrow> t < rq_end_time_ms request \<longrightarrow>
        t mod stream_step (rq_stream request) = 0 \<longrightarrow> present (w_disk w') (rq_stream request) t"
    if comp: "rr_status r = REPAIR_COMPLETE"
    using assms(2)
  proof (cases rule: repair_returns)
    case (continuous w1 w2 pre)
    have i1: "service_inv (w_disk w1)"
      using run_evolves [OF recorder_evolves(1) continuous(1)] assms(1) evolvesD(1) by blast
    note a = audit_truth [OF i1 continuous(2)]
    have ev: "evolves (w_disk w1) (w_disk w')"
      using run_evolves [OF recorder_evolves(2) continuous(4)] a(1) by simp
    show ?thesis
      using a(2) continuous(3) by (intro allI impI present_kept [OF ev i1]) auto
  next
    case failed
    with comp show ?thesis by simp
  next
    case (audited w1 w2 w3 post)
    have i1: "service_inv (w_disk w1)" using audited(1) assms(1) evolvesD(1) by blast
    note a = audit_truth [OF i1 audited(2)]
    have "evolves (w_disk w1) (w_disk w3)"
      using run_evolves [OF recorder_evolves(2) audited(3)] a(1) by simp
    then have ev: "evolves (w_disk w1) (w_disk w')" using audited(4) evolves_trans by blast
    have "cr_is_continuous post" using comp audited(5) by (auto split: if_splits)
    with a(2) show ?thesis by (intro allI impI present_kept [OF ev i1]) auto
  qed
  show "\<exists>post. rr_post_repair_audit r = Some post \<and> cr_gaps post \<noteq> []"
    if inc: "rr_status r = REPAIR_INCOMPLETE"
    using assms(2)
  proof (cases rule: repair_returns)
    case (audited w1 w2 w3 post)
    have i1: "service_inv (w_disk w1)" using audited(1) assms(1) evolvesD(1) by blast
    from audit_truth(3) [OF i1 audited(2)] audited(5,6) inc show ?thesis by (auto split: if_splits)
  qed (use inc in auto)
qed

end

lemma repair_loop_counts:
  "repair_loop ops stream ws attempted results w = (Inr (failure, attempted', results'), w') \<Longrightarrow>
   length results \<le> attempted \<Longrightarrow>
   attempted' \<le> attempted + length ws \<and> length results' \<le> attempted' \<and>
   (\<exists>new. results' = results @ new \<and> set (map (Inr \<circ> wr_window) new) \<subseteq> set ws)"
proof (induction ws arbitrary: attempted results w)
  case (Cons x ws)
  show ?case
  proof (cases x)
    case (Inl e)
    with Cons.prems show ?thesis by auto
  next
    case (Inr win)
    show ?thesis
    proof (cases "ro_import ops stream win w")
      case (Pair ir w1)
      show ?thesis
      proof (cases ir)
        case (Inl e)
        with Pair Inr Cons.prems show ?thesis by (auto simp: bindE_def tryE_def)
      next
        case (Inr rr)
        show ?thesis
        proof (cases "ro_record_rest_success ops stream w1")
          case (Pair rs w2)
          show ?thesis
          proof (cases rs)
            case (Inl e)
            with Pair Inr \<open>ro_import ops stream win w = (ir, w1)\<close> \<open>x = Inr win\<close> Cons.prems show ?thesis
              by (auto simp: bindE_def tryE_def)
          next
            case okk: (Inr u)
            with Pair Inr \<open>ro_import ops stream win w = (ir, w1)\<close> \<open>x = Inr win\<close> Cons.prems
            have "repair_loop ops stream ws (Suc attempted) (results @ [WindowResult win rr]) w2 =
                (Inr (failure, attempted', results'), w')"
              by (simp add: bindE_def tryE_def)
            from Cons.IH [OF this] Cons.prems(2) \<open>x = Inr win\<close> show ?thesis
              by (auto simp: image_subset_iff)
          qed
        qed
      qed
    qed
  qed
qed auto


lemma repair_bounded:
  assumes "repair_stream_gaps ops request w = (Inr r, w')"
  shows "rr_attempted_windows r \<le> nat (rq_max_windows request) \<and>
     rr_completed_windows r \<le> rr_attempted_windows r \<and> rr_completed_windows r = length (rr_window_results r)"
proof -
  let ?s = "rq_stream request"
  obtain rw w1 pre w2 w3 where s: "mk_time_window (rq_start_time_ms request) (rq_end_time_ms request) = Inr rw"
    "ro_ensure_auditing ops ?s w = (Inr (), w1)" "repair_audit ops request w1 = (Inr pre, w2)"
    "ro_record_audit ops ?s w2 = (Inr (), w3)"
    using assms by (auto simp: repair_stream_gaps_def Let_def bindE_eq_Inr)
  show ?thesis
  proof (cases "cr_is_continuous pre")
    case True
    with assms s show ?thesis by (auto simp: repair_stream_gaps_def Let_def bindE_def)
  next
    case False
    obtain w4 w5 failure attempted results where l: "ro_transition_to_repairing ops ?s w3 = (Inr (), w4)"
      "repair_loop ops ?s (take (nat (rq_max_windows request)) (planned_windows ops ?s (cr_gaps pre))) 0 [] w4 =
        (Inr (failure, attempted, results), w5)"
      using assms s False by (auto simp: repair_stream_gaps_def Let_def bindE_def split: sum.splits prod.splits)
    have "rr_attempted_windows r = attempted \<and> rr_completed_windows r = length results \<and> rr_window_results r = results"
      using assms s False l
      by (cases failure)
        (auto simp: repair_stream_gaps_def Let_def bindE_def split: sum.splits prod.splits if_splits)
    with repair_loop_counts [OF l(2)] show ?thesis by auto
  qed
qed

section \<open>The candle track and the open interest track\<close>

lemma stored_iff:
  assumes "db_wf d" "stream_id d s = Inr n"
  shows "stored d s t \<longleftrightarrow> (n, t) \<in> candle_key ` set (db_candles d)"
proof (cases "sel candle_key (n, t) (db_candles d)")
  case None
  then have "get_candle d s t = Inr None" using get_candle_none [OF assms(2)] by simp
  with None show ?thesis by (simp add: stored_def sel_None)
next
  case (Some r)
  then have "\<exists>c. get_candle d s t = Inr (Some c)" using get_candle_row [OF assms] by blast
  moreover have "(n, t) \<in> candle_key ` set (db_candles d)"
    using Some sel_None [of candle_key "(n, t)" "db_candles d"] by auto
  ultimately show ?thesis by (simp add: stored_def)
qed

lemma mapR_rows:
  "(\<forall>r \<in> set rows. row_readable r) \<Longrightarrow>
   \<exists>cs. mapR (candle_of_row s) rows = Inr cs \<and> map cc_open_time_ms cs = map cw_open_time_ms rows"
proof (induction rows)
  case (Cons r rows)
  then obtain cs where "mapR (candle_of_row s) rows = Inr cs" "map cc_open_time_ms cs = map cw_open_time_ms rows"
    by auto
  moreover obtain c where "candle_of_row s r = Inr c" "cc_open_time_ms c = cw_open_time_ms r"
    using Cons.prems candle_of_row_readable [of r s] by auto
  ultimately show ?case by simp
qed simp

lemma candle_open_times_spec:
  assumes "db_wf d" "stream_id d s = Inr n"
  shows "candle_open_times d s a b = Inr (map cw_open_time_ms (range_rows d n a b))"
proof -
  have "\<forall>r \<in> set (range_rows d n a b). row_readable r"
    using db_wf_candles(2) [OF assms(1)] by (simp add: range_rows_def)
  from mapR_rows [OF this, of s] assms(2) show ?thesis
    by (auto simp: candle_open_times_def list_candles_def)
qed

lemma candle_open_times_exact:
  assumes "service_inv d" "stream_exists d s"
  shows "\<exists>ts. candle_open_times d s a b = Inr ts \<and> set ts = {t. a \<le> t \<and> t < b \<and> stored d s t}"
proof -
  have wf: "db_wf d" using assms(1) by (simp add: service_inv_def canonical_inv_def)
  obtain n where n: "stream_id d s = Inr n" using assms(2) by (rule stream_existsE)
  show ?thesis
    using candle_open_times_spec [OF wf n, of a b] stored_iff [OF wf n] by (auto simp: range_rows_def image_iff)
qed

lemma open_interest_open_times_exact:
  assumes "stream_exists d s"
  shows "\<exists>ts. open_interest_open_times d s a b = Inr ts \<and> set ts = {t. a \<le> t \<and> t < b \<and> oi_stored d s t}"
proof -
  obtain n where n: "stream_id d s = Inr n" using assms by (rule stream_existsE)
  have "oi_stored d s t \<longleftrightarrow> (n, t) \<in> open_interest_key ` set (db_open_interest d)" for t
    using n sel_None [of open_interest_key "(n, t)" "db_open_interest d"]
    by (auto simp: oi_stored_def get_open_interest_def)
  with n show ?thesis
    by (auto simp: open_interest_open_times_def list_open_interest_times_def image_iff)
qed

lemma keeps_in_transaction [keeps_intro]:
  "(\<And>now. latest_kept (f now)) \<Longrightarrow> keeps (disk_ok (evolves d0)) (in_transaction E stream f)"
  unfolding in_transaction_def by (intro keeps_intro)

lemma keeps_candle_recorder [keeps_intro]:
  "keeps (disk_ok (evolves d0)) (ensure_auditing E s)"
  "keeps (disk_ok (evolves d0)) (transition_to_repairing E s)"
  "keeps (disk_ok (evolves d0)) (transition_repairing_to_auditing E s)"
  "keeps (disk_ok (evolves d0)) (record_audit E s)"
  "keeps (disk_ok (evolves d0)) (record_rest_success E s)"
  "keeps (disk_ok (evolves d0)) (record_failure E s e)"
  unfolding ensure_auditing_def transition_to_repairing_def transition_repairing_to_auditing_def record_audit_def
    record_rest_success_def record_failure_def
  by (intro keeps_in_transaction latest_kept_intro; simp)+

lemma keeps_quarantine_once [keeps_intro]:
  "keeps (work_ok (evolves d0)) (in_work (record_quarantine_once st a b rc det pl tm))"
proof -
  have "keeps (evolves d0) (updateE (record_quarantine st a b rc det pl tm))"
    by (rule keeps_updateE) (rule evolves_step, assumption, rule evolves_quarantine)
  then show ?thesis
    unfolding record_quarantine_once_def by (intro keeps_in_work keeps_intro)
qed

lemma keeps_unresolved [keeps_intro]: "keeps (disk_ok (evolves d0)) (record_unresolved_gaps E s gs)"
  unfolding record_unresolved_gaps_def by (intro keeps_intro)

interpretation candle_track: repair_track "candle_repair_ops E max_candles" stored
  for E max_candles
proof
  show "\<exists>ts. ro_open_times (candle_repair_ops E max_candles) d s a b = Inr ts \<and>
      set ts = {t. a \<le> t \<and> t < b \<and> stored d s t}" if "service_inv d" "stream_exists d s" for d s a b
    using candle_open_times_exact [OF that] by (simp add: candle_repair_ops_def)
  show "t mod stream_step s = 0" if "service_inv d" "stored d s t" for d s t
    using that by (auto simp: service_inv_def canonical_inv_def candles_ok_def stored_def)
  show "stored d' s t" if "evolves d d'" "service_inv d" "stored d s t" for d d' s t
    using evolvesD(3) [OF that] .
qed (simp_all add: candle_repair_ops_def keeps_intro)

interpretation open_interest_track: repair_track "open_interest_repair_ops E max_points" oi_stored
  for E max_points
proof
  show "\<exists>ts. ro_open_times (open_interest_repair_ops E max_points) d s a b = Inr ts \<and>
      set ts = {t. a \<le> t \<and> t < b \<and> oi_stored d s t}" if "service_inv d" "stream_exists d s" for d s a b
    using open_interest_open_times_exact [OF that(2)] by (simp add: open_interest_repair_ops_def)
  show "t mod stream_step s = 0" if "service_inv d" "oi_stored d s t" for d s t
    using that by (auto simp: service_inv_def oi_ok_def)
  show "oi_stored d' s t" if "evolves d d'" "service_inv d" "oi_stored d s t" for d d' s t
    using evolvesD(4) [OF that] .
qed (simp_all add: open_interest_repair_ops_def keeps_track_ops keeps_import_open_interest keeps_basic del: prog_simps)

section \<open>A concrete run\<close>

definition auditing_state :: stream_state where
  "auditing_state = (initial_stream_state example_stream 5)\<lparr>ss_state := AUDITING,
     ss_latest_committed_open_time_ms := Some 60000\<rparr>"

definition auditing_db :: db where
  "auditing_db = example_db\<lparr>db_states := [(1, auditing_state)],
     db_candles := [row_of_candle 1 example_candle],
     db_open_interest := [\<lparr>ow_stream_id = 1, ow_open_time_ms = 60000, ow_open_interest_value = ''7'',
       ow_source = BYBIT_REST, ow_committed_at_ms = 5\<rparr>]\<rparr>"

definition auditing_world :: world where
  "auditing_world = \<lparr>w_disk = auditing_db, w_work = auditing_db, w_ticks = 0, w_calls = 0\<rparr>"

definition auditing_request :: repair_request where
  "auditing_request = \<lparr>rq_stream = example_stream, rq_start_time_ms = 60000, rq_end_time_ms = 120000,
     rq_max_windows = 3\<rparr>"

lemma example_stream_id_iff: "stream_id example_db s = Inr n \<longleftrightarrow> s = example_stream \<and> n = 1"
  by (cases s; cases "sk_instrument s") (auto simp: stream_id_def example_db_def empty_db_def example_stream_def)

lemma auditing_stream_id: "stream_id auditing_db s = Inr n \<longleftrightarrow> s = example_stream \<and> n = 1"
  by (simp add: auditing_db_def example_stream_id_iff)

lemma auditing_reads:
  "get_stream_state auditing_db s = Inr st \<longleftrightarrow> s = example_stream \<and> st = auditing_state"
  "stream_exists auditing_db s \<longleftrightarrow> s = example_stream"
  "get_candle auditing_db s t = Inr (Some c) \<Longrightarrow> s = example_stream \<and> t = 60000"
  "oi_stored auditing_db s t \<Longrightarrow> s = example_stream \<and> t = 60000"
  "get_open_interest_progress auditing_db example_stream = Inr (initial_track_progress example_stream OPEN_INTEREST_TRACK)"
proof -
  show "get_stream_state auditing_db s = Inr st \<longleftrightarrow> s = example_stream \<and> st = auditing_state"
    by (auto simp: get_stream_state_eq auditing_stream_id)
      (auto simp: auditing_db_def sel_def auditing_state_def initial_stream_state_def state_wf_def)
  show "stream_exists auditing_db s \<longleftrightarrow> s = example_stream"
    by (simp add: auditing_db_def example_exists)
  show "get_candle auditing_db s t = Inr (Some c) \<Longrightarrow> s = example_stream \<and> t = 60000"
    by (auto simp: get_candle_def auditing_stream_id split: option.splits dest!: sel_Some)
      (simp add: auditing_db_def example_candle_def)
  show "oi_stored auditing_db s t \<Longrightarrow> s = example_stream \<and> t = 60000"
    by (auto simp: oi_stored_def get_open_interest_def auditing_stream_id dest!: sel_Some)
      (simp add: auditing_db_def)
  show "get_open_interest_progress auditing_db example_stream =
      Inr (initial_track_progress example_stream OPEN_INTEREST_TRACK)"
    by (simp add: get_track_progress_eq auditing_stream_id)
      (simp add: auditing_db_def example_db_def empty_db_def sel_def initial_track_progress_def)
qed

lemma auditing_inv: "service_inv auditing_db"
proof -
  have "db_wf auditing_db"
    using example_db_wf by (simp add: db_wf_def auditing_db_def) (simp add: example_db_def empty_db_def example_candle_def)
  moreover have "candles_ok auditing_db"
    using auditing_reads(1,3)
    by (fastforce simp: candles_ok_def example_stream_def stream_step_def covers_def auditing_state_def)
  moreover have "oi_ok auditing_db"
    using auditing_reads(2,4,5) by (fastforce simp: oi_ok_def example_stream_def stream_step_def)
  ultimately show ?thesis
    using auditing_reads(1,2) by (simp add: service_inv_def canonical_inv_def states_ok_def)
qed

text \<open>
  The work of one repair is bounded by its request: whatever the track, a repair attempts at
  most \<open>max_windows\<close> windows, and reports as completed exactly the windows it lists, never
  more than it attempted.
\<close>

theorem repair_within_budget:
  assumes "repair_stream_gaps ops request w = (Inr r, w')"
  shows "rr_attempted_windows r \<le> nat (rq_max_windows request) \<and>
     rr_completed_windows r \<le> rr_attempted_windows r \<and> rr_completed_windows r = length (rr_window_results r)"
  using assms by (rule repair_bounded)

theorem repair_within_budget_witness:
  "\<exists>r w'. repair_stream_gaps (open_interest_repair_ops example_env 1000) auditing_request auditing_world = (Inr r, w') \<and>
     rr_attempted_windows r \<le> 3"
proof -
  let ?run = "repair_stream_gaps (open_interest_repair_ops example_env 1000) auditing_request auditing_world"
  have "map_sum id rr_status (fst ?run) = Inr REPAIR_COMPLETE" by code_simp
  then obtain r w' where "?run = (Inr r, w')" by (cases ?run; cases "fst ?run") auto
  with repair_within_budget [OF this] show ?thesis by (auto simp: auditing_request_def)
qed

text \<open>
  C16. Candle repair is sound. From a database that satisfies the service invariant a repair
  that reports \<open>complete\<close> leaves every candle of the requested range stored; one that reports
  \<open>incomplete\<close> names remaining gaps; and in every case, also when it raises, the invariant
  is kept, no candle is lost and no latest open time moves back.
\<close>

theorem candle_repair_sound:
  assumes "service_inv (w_disk w)"
    and "repair_stream_gaps (candle_repair_ops E max_candles) request w = (res, w')"
  shows "evolves (w_disk w) (w_disk w') \<and> service_inv (w_disk w') \<and>
     (case res of Inl e \<Rightarrow> True
      | Inr r \<Rightarrow>
          (rr_status r = REPAIR_COMPLETE \<longrightarrow>
             (\<forall>t. rq_start_time_ms request \<le> t \<longrightarrow> t < rq_end_time_ms request \<longrightarrow>
                t mod stream_step (rq_stream request) = 0 \<longrightarrow> stored (w_disk w') (rq_stream request) t)) \<and>
          (rr_status r = REPAIR_INCOMPLETE \<longrightarrow>
             (\<exists>post. rr_post_repair_audit r = Some post \<and> cr_gaps post \<noteq> [])))"
proof -
  have ev: "evolves (w_disk w) (w_disk w')"
    by (rule run_evolves [OF candle_track.keeps_repair assms(2)])
  show ?thesis
    using ev evolvesD(1) [OF ev assms(1)] candle_track.complete_sound [OF assms(1)] assms(2)
    by (auto split: sum.splits)
qed

theorem candle_repair_sound_witness:
  "map_sum id rr_status (fst (repair_stream_gaps (candle_repair_ops example_env 1000) auditing_request auditing_world)) =
     Inr REPAIR_COMPLETE \<and>
   stored (w_disk (snd (repair_stream_gaps (candle_repair_ops example_env 1000) auditing_request auditing_world)))
     example_stream 60000"
proof -
  let ?run = "repair_stream_gaps (candle_repair_ops example_env 1000) auditing_request auditing_world"
  have st: "map_sum id rr_status (fst ?run) = Inr REPAIR_COMPLETE" by code_simp
  then obtain r where r: "fst ?run = Inr r" "rr_status r = REPAIR_COMPLETE" by (cases "fst ?run") auto
  have "service_inv (w_disk auditing_world)" by (simp add: auditing_world_def auditing_inv)
  from candle_repair_sound [OF this, of example_env 1000 auditing_request "fst ?run" "snd ?run"] r st show ?thesis
    by (simp add: auditing_request_def) (simp add: example_stream_def stream_step_def)
qed

text \<open>
  Open interest repair is sound in the same sense: \<open>complete\<close> means that the point of every
  bar of the range is stored, whatever happened the database evolves within the invariant.
\<close>

theorem open_interest_repair_sound:
  assumes "service_inv (w_disk w)"
    and "repair_stream_gaps (open_interest_repair_ops E max_points) request w = (res, w')"
  shows "evolves (w_disk w) (w_disk w') \<and> service_inv (w_disk w') \<and>
     (case res of Inl e \<Rightarrow> True
      | Inr r \<Rightarrow>
          (rr_status r = REPAIR_COMPLETE \<longrightarrow>
             (\<forall>t. rq_start_time_ms request \<le> t \<longrightarrow> t < rq_end_time_ms request \<longrightarrow>
                t mod stream_step (rq_stream request) = 0 \<longrightarrow> oi_stored (w_disk w') (rq_stream request) t)) \<and>
          (rr_status r = REPAIR_INCOMPLETE \<longrightarrow>
             (\<exists>post. rr_post_repair_audit r = Some post \<and> cr_gaps post \<noteq> [])))"
proof -
  have ev: "evolves (w_disk w) (w_disk w')"
    by (rule run_evolves [OF open_interest_track.keeps_repair assms(2)])
  show ?thesis
    using ev evolvesD(1) [OF ev assms(1)] open_interest_track.complete_sound [OF assms(1)] assms(2)
    by (auto split: sum.splits)
qed

theorem open_interest_repair_sound_witness:
  "map_sum id rr_status (fst (repair_stream_gaps (open_interest_repair_ops example_env 1000) auditing_request auditing_world)) =
     Inr REPAIR_COMPLETE \<and>
   oi_stored (w_disk (snd (repair_stream_gaps (open_interest_repair_ops example_env 1000) auditing_request auditing_world)))
     example_stream 60000"
proof -
  let ?run = "repair_stream_gaps (open_interest_repair_ops example_env 1000) auditing_request auditing_world"
  have st: "map_sum id rr_status (fst ?run) = Inr REPAIR_COMPLETE" by code_simp
  then obtain r where r: "fst ?run = Inr r" "rr_status r = REPAIR_COMPLETE" by (cases "fst ?run") auto
  have "service_inv (w_disk auditing_world)" by (simp add: auditing_world_def auditing_inv)
  from open_interest_repair_sound [OF this, of example_env 1000 auditing_request "fst ?run" "snd ?run"] r st show ?thesis
    by (simp add: auditing_request_def) (simp add: example_stream_def stream_step_def)
qed

end
