(* ===== verification/LowerBound.thy ===== *)
theory LowerBound
  imports Repair
begin

text \<open>
  application/lower\_bound.py, application/lower\_bound\_probe.py and
  application/lower\_bound\_state.py: discovery of the first available point of a stream, in
  bounded steps whose progress is durable. The workflow is generic in the track:
  \<open>lb_ops\<close> holds the probe and the progress store the constructor of
  \<open>ResolveHistoricalLowerBound\<close> receives.
\<close>

section \<open>lower\_bound\_probe.py\<close>

definition candle_earliest_valid :: "env \<Rightarrow> stream_key \<Rightarrow> time_window \<Rightarrow> int \<Rightarrow> int option app" where
  "candle_earliest_valid E stream window observed_at_ms =
     bindE (fetch_closed_candles E stream window observed_at_ms) (\<lambda>candles.
       let candidates = map oc_open_time_ms (filter (\<lambda>c. oc_stream c = stream \<and>
             window_contains window (oc_open_time_ms c) \<and> validate_observed_candle c = []) candles)
       in if candidates = []
          then if candles \<noteq> []
               then raiseE (Exn HistoricalLowerBoundUnavailable
                      ''historical probe returned observations but no valid candle'')
               else returnE None
          else returnE (Some (Min (set candidates))))"

definition open_interest_earliest_valid :: "env \<Rightarrow> stream_key \<Rightarrow> time_window \<Rightarrow> int \<Rightarrow> int option app" where
  "open_interest_earliest_valid E stream window observed_at_ms =
     bindE (fetch_open_interest E stream window observed_at_ms) (\<lambda>points.
       let candidates = map oi_open_time_ms (filter (\<lambda>p. oi_stream p = stream \<and>
             window_contains window (oi_open_time_ms p) \<and> open_interest_issue p = None) points)
       in if candidates = []
          then if points \<noteq> []
               then raiseE (Exn HistoricalLowerBoundUnavailable
                      ''open interest probe returned observations but no valid point'')
               else returnE None
          else returnE (Some (Min (set candidates))))"

section \<open>lower\_bound\_state.py\<close>

definition lb_cached_earliest :: "stream_key \<Rightarrow> int option app" where
  "lb_cached_earliest stream =
     with_uow (bindE (uow_read (\<lambda>d. get_stream_state d stream))
       (\<lambda>s. returnE (ss_earliest_available_open_time_ms s)))"

definition lb_current_discovery_cursor :: "stream_key \<Rightarrow> int option app" where
  "lb_current_discovery_cursor stream =
     with_uow (bindE (uow_read (\<lambda>d. get_stream_state d stream))
       (\<lambda>s. returnE (ss_discovery_next_open_time_ms s)))"

definition lb_discovery_start :: "stream_key \<Rightarrow> int \<Rightarrow> int app" where
  "lb_discovery_start stream launch_search_start =
     bindE (lb_current_discovery_cursor stream) (\<lambda>cursor.
       returnE (case cursor of None \<Rightarrow> launch_search_start | Some c \<Rightarrow> max launch_search_start c))"

definition lb_advance_discovery :: "env \<Rightarrow> stream_key \<Rightarrow> int \<Rightarrow> unit app" where
  "lb_advance_discovery E stream next_open_time_ms =
     in_transaction E stream (\<lambda>now s.
       if ss_earliest_available_open_time_ms s \<noteq> None
       then Inl (Exn RuntimeError ''cannot advance discovery cursor after lower-bound resolution'')
       else someR (mk_stream_state (s\<lparr>ss_discovery_next_open_time_ms := Some next_open_time_ms,
              ss_last_error_code := None, ss_last_error_detail := None,
              ss_updated_at_ms := max now (ss_updated_at_ms s)\<rparr>)))"

definition lb_resolve :: "env \<Rightarrow> stream_key \<Rightarrow> int \<Rightarrow> unit app" where
  "lb_resolve E stream earliest_open_time_ms =
     in_transaction E stream (\<lambda>now s.
       someR (mk_stream_state (s\<lparr>ss_earliest_available_open_time_ms := Some earliest_open_time_ms,
         ss_discovery_next_open_time_ms := None, ss_last_error_code := None,
         ss_last_error_detail := None, ss_updated_at_ms := max now (ss_updated_at_ms s)\<rparr>)))"

section \<open>lower\_bound.py\<close>

record lower_bound_result =
  lr_stream :: stream_key
  lr_launch_time_ms :: int
  lr_search_start_time_ms :: int
  lr_earliest_available_open_time_ms :: "int option"
  lr_metadata_cached :: bool
  lr_lower_bound_cached :: bool
  lr_resolved :: bool
  lr_discovery_windows_used :: int
  lr_unresolved_reason :: "string option"
  lr_next_search_start_time_ms :: "int option"

record lb_ops =
  lo_earliest_valid :: "stream_key \<Rightarrow> time_window \<Rightarrow> int \<Rightarrow> int option app"
  lo_max_points_per_probe :: int
  lo_cached_earliest :: "stream_key \<Rightarrow> int option app"
  lo_discovery_start :: "stream_key \<Rightarrow> int \<Rightarrow> int app"
  lo_current_discovery_cursor :: "stream_key \<Rightarrow> int option app"
  lo_advance_discovery :: "stream_key \<Rightarrow> int \<Rightarrow> unit app"
  lo_resolve :: "stream_key \<Rightarrow> int \<Rightarrow> unit app"

definition candle_lb_ops :: "env \<Rightarrow> int \<Rightarrow> lb_ops" where
  "candle_lb_ops E max_points =
     \<lparr>lo_earliest_valid = candle_earliest_valid E, lo_max_points_per_probe = max_points,
      lo_cached_earliest = lb_cached_earliest, lo_discovery_start = lb_discovery_start,
      lo_current_discovery_cursor = lb_current_discovery_cursor,
      lo_advance_discovery = lb_advance_discovery E, lo_resolve = lb_resolve E\<rparr>"

definition open_interest_lb_ops :: "env \<Rightarrow> int \<Rightarrow> lb_ops" where
  "open_interest_lb_ops E max_points =
     \<lparr>lo_earliest_valid = open_interest_earliest_valid E, lo_max_points_per_probe = max_points,
      lo_cached_earliest = oi_cached_earliest, lo_discovery_start = oi_discovery_start,
      lo_current_discovery_cursor = oi_current_discovery_cursor,
      lo_advance_discovery = oi_advance_discovery E, lo_resolve = oi_resolve E\<rparr>"

definition cached_lower_bound :: "lb_ops \<Rightarrow> stream_key \<Rightarrow> lower_bound_result option app" where
  "cached_lower_bound ops stream =
     bindE (lo_cached_earliest ops stream) (\<lambda>earliest.
       case earliest of
         None \<Rightarrow> returnE None
       | Some e \<Rightarrow>
           bindE (with_uow (uow_read (\<lambda>d. get_instrument_metadata d (sk_instrument stream)))) (\<lambda>metadata.
             case im_launch_time_ms metadata of
               None \<Rightarrow> raiseE (Exn HistoricalLowerBoundUnavailable
                 ''observed lower bound is cached but instrument launch time is unresolved'')
             | Some launch \<Rightarrow>
                 bindE (liftR (ceil_to_grid launch (stream_step stream))) (\<lambda>search_start.
                 returnE (Some \<lparr>lr_stream = stream, lr_launch_time_ms = launch,
                   lr_search_start_time_ms = search_start, lr_earliest_available_open_time_ms = Some e,
                   lr_metadata_cached = True, lr_lower_bound_cached = True, lr_resolved = True,
                   lr_discovery_windows_used = 0, lr_unresolved_reason = None,
                   lr_next_search_start_time_ms = None\<rparr>))))"

definition resolve_metadata :: "env \<Rightarrow> instrument_key \<Rightarrow> (instrument_metadata \<times> bool) app" where
  "resolve_metadata E instrument =
     bindE (with_uow (uow_read (\<lambda>d. get_instrument_metadata d instrument))) (\<lambda>metadata.
       if im_launch_time_ms metadata \<noteq> None then returnE (metadata, True)
       else
         bindE (get_launch_time_ms E instrument) (\<lambda>launch_time_ms.
         bindE (now_ms E) (\<lambda>fetched_at_ms.
         bindE (liftR (mk_instrument_metadata (metadata\<lparr>im_launch_time_ms := Some launch_time_ms,
             im_fetched_at_ms := Some fetched_at_ms\<rparr>))) (\<lambda>metadata.
         bindE (with_uow (bindE (uow_write (save_instrument_metadata metadata)) (\<lambda>_. commit))) (\<lambda>_.
         returnE (metadata, False))))))"

text \<open>The \<open>for window in iter_fetch_windows(...)\<close> loop.\<close>

fun discovery_loop ::
  "lb_ops \<Rightarrow> env \<Rightarrow> lower_bound_result \<Rightarrow> int \<Rightarrow> time_window list \<Rightarrow> int \<Rightarrow> lower_bound_result app" where
  "discovery_loop ops E result budget [] used =
     bindE (lo_current_discovery_cursor ops (lr_stream result)) (\<lambda>cursor.
       returnE (result\<lparr>lr_discovery_windows_used := used,
         lr_unresolved_reason := Some ''historical source returned no valid candles'',
         lr_next_search_start_time_ms := cursor\<rparr>))"
| "discovery_loop ops E result budget (window # windows) used =
     (if used \<ge> budget
      then bindE (lo_current_discovery_cursor ops (lr_stream result)) (\<lambda>cursor.
             returnE (result\<lparr>lr_discovery_windows_used := used,
               lr_unresolved_reason := Some ''discovery window budget exhausted'',
               lr_next_search_start_time_ms := cursor\<rparr>))
      else
        bindE (now_ms E) (\<lambda>now.
        bindE (lo_earliest_valid ops (lr_stream result) window now) (\<lambda>earliest.
          case earliest of
            None \<Rightarrow>
              bindE (lo_advance_discovery ops (lr_stream result) (end_ms window)) (\<lambda>_.
                discovery_loop ops E result budget windows (used + 1))
          | Some e \<Rightarrow>
              bindE (lo_resolve ops (lr_stream result) e) (\<lambda>_.
                returnE (result\<lparr>lr_earliest_available_open_time_ms := Some e, lr_resolved := True,
                  lr_discovery_windows_used := used + 1\<rparr>)))))"

definition resolve_historical_lower_bound ::
  "lb_ops \<Rightarrow> env \<Rightarrow> stream_key \<Rightarrow> int \<Rightarrow> lower_bound_result app" where
  "resolve_historical_lower_bound ops E stream budget =
     (if budget \<le> 0 then raiseE (Exn ValueError ''max_windows must be positive'')
      else
        bindE (cached_lower_bound ops stream) (\<lambda>cached.
        case cached of
          Some r \<Rightarrow> returnE r
        | None \<Rightarrow>
            bindE (resolve_metadata E (sk_instrument stream)) (\<lambda>(metadata, metadata_cached).
            case im_launch_time_ms metadata of
              None \<Rightarrow> raiseE (Exn HistoricalLowerBoundUnavailable ''instrument launch time is unresolved'')
            | Some launch \<Rightarrow>
                bindE (liftR (ceil_to_grid launch (stream_step stream))) (\<lambda>launch_search_start.
                bindE (lo_discovery_start ops stream launch_search_start) (\<lambda>search_start.
                bindE (now_ms E) (\<lambda>now.
                bindE (liftR (last_closed_open_time_ms now (stream_step stream))) (\<lambda>last_closed.
                let search_end = last_closed + stream_step stream;
                    result = \<lparr>lr_stream = stream, lr_launch_time_ms = launch,
                      lr_search_start_time_ms = search_start, lr_earliest_available_open_time_ms = None,
                      lr_metadata_cached = metadata_cached, lr_lower_bound_cached = False,
                      lr_resolved = False, lr_discovery_windows_used = 0,
                      lr_unresolved_reason = None, lr_next_search_start_time_ms = None\<rparr>
                in if search_start \<ge> search_end
                   then returnE (result\<lparr>lr_unresolved_reason := Some ''no closed candles are searchable yet'',
                          lr_next_search_start_time_ms := Some search_start\<rparr>)
                   else
                     bindE (liftR (bindR (mk_gap search_start search_end) (\<lambda>g.
                         iter_fetch_windows g (stream_step stream) (lo_max_points_per_probe ops)))) (\<lambda>windows.
                       discovery_loop ops E result budget windows 0))))))))"


section \<open>Every track\<close>

text \<open>Discovery only relies on probes and progress operations that follow \<open>evolves\<close>, and on a
  loop that counts what it spends.\<close>

lemma evolves_instruments:
  assumes "service_inv d" "save_instrument_metadata m d = Inr d'"
  shows "evolves d d'"
proof -
  have wf: "db_wf d" using assms(1) by (simp add: service_inv_def canonical_inv_def)
  obtain rows where d': "d' = d\<lparr>db_instruments := rows\<rparr>"
    using assms(2) by (auto simp: save_instrument_metadata_def put_instruments_def split: option.splits if_splits)
  have wf': "db_wf d'" and sc: "same_catalog d d'" using save_instrument_metadata_wf [OF wf assms(2)] by auto
  have id: "stream_id d' k = stream_id d k" for k by (rule stream_id_same_catalog [OF sc])
  have reads: "get_candle d' k t = get_candle d k t" "get_stream_state d' k = get_stream_state d k"
    "get_open_interest d' k t = get_open_interest d k t" "get_track_progress d' k tr = get_track_progress d k tr"
    "stream_exists d' k = stream_exists d k" for k t tr
    by (simp_all add: get_candle_def get_stream_state_def get_open_interest_def get_track_progress_def
        stream_exists_def id) (simp_all add: d')
  show ?thesis
    using assms(1) wf'
    by (intro evolvesI)
      (auto simp: service_inv_def canonical_inv_def states_ok_def candles_ok_def oi_ok_def stored_def oi_stored_def reads)
qed

lemma keeps_resolve_metadata: "keeps (disk_ok (evolves d0)) (resolve_metadata E i)"
proof -
  have "keeps (work_ok (evolves d0)) (uow_write (save_instrument_metadata m))" for m
    by (rule keeps_uow_write_evolves) (rule evolves_instruments)
  then show ?thesis unfolding resolve_metadata_def by (intro keeps_intro)
qed

locale lower_bound_track =
  fixes ops :: lb_ops
  assumes ops_evolve: "keeps (disk_ok (evolves d0)) (lo_earliest_valid ops s w t)"
      "keeps (disk_ok (evolves d0)) (lo_cached_earliest ops s)"
      "keeps (disk_ok (evolves d0)) (lo_discovery_start ops s n)"
      "keeps (disk_ok (evolves d0)) (lo_current_discovery_cursor ops s)"
      "keeps (disk_ok (evolves d0)) (lo_advance_discovery ops s n)"
      "keeps (disk_ok (evolves d0)) (lo_resolve ops s n)"
begin

lemma keeps_discovery_loop: "keeps (disk_ok (evolves d0)) (discovery_loop ops E result budget ws used)"
proof (induction ws arbitrary: used)
  case Nil
  show ?case unfolding discovery_loop.simps by (intro keeps_intro ops_evolve)
next
  case (Cons w ws)
  show ?case unfolding discovery_loop.simps by (intro keeps_intro ops_evolve Cons.IH)
qed

lemma keeps_lower_bound: "keeps (disk_ok (evolves d0)) (resolve_historical_lower_bound ops E s budget)"
  unfolding resolve_historical_lower_bound_def cached_lower_bound_def Let_def case_prod_beta
  by (intro keeps_intro ops_evolve keeps_discovery_loop keeps_resolve_metadata)

end

lemma discovery_loop_budget:
  "discovery_loop ops E result budget ws used w = (Inr r, w') \<Longrightarrow> 0 \<le> used \<Longrightarrow> used \<le> budget \<Longrightarrow>
   0 \<le> lr_discovery_windows_used r \<and> lr_discovery_windows_used r \<le> budget \<and> lr_stream r = lr_stream result"
proof (induction ws arbitrary: used w)
  case (Cons x ws)
  show ?case
  proof (cases "used \<ge> budget")
    case True
    with Cons.prems show ?thesis by (auto simp: bindE_def split: prod.splits sum.splits)
  next
    case False
    obtain now w1 where n: "now_ms E w = (Inr now, w1)" by (simp add: now_ms_def)
    obtain e w2 where e: "lo_earliest_valid ops (lr_stream result) x now w1 = (Inr e, w2)"
      using Cons.prems(1) False n by (auto simp: bindE_def split: prod.splits sum.splits)
    show ?thesis
    proof (cases e)
      case None
      then obtain w3 where "discovery_loop ops E result budget ws (used + 1) w3 = (Inr r, w')"
        using Cons.prems(1) False n e by (auto simp: bindE_def split: prod.splits sum.splits)
      from Cons.IH [OF this] Cons.prems False show ?thesis by simp
    next
      case (Some t)
      with Cons.prems False n e show ?thesis by (auto simp: bindE_def split: prod.splits sum.splits)
    qed
  qed
qed (auto simp: bindE_def split: prod.splits sum.splits)

lemma discovery_loop_resolved:
  "discovery_loop ops E result budget ws used w = (Inr r, w') \<Longrightarrow>
   lr_resolved result = (lr_earliest_available_open_time_ms result \<noteq> None) \<Longrightarrow>
   lr_resolved r = (lr_earliest_available_open_time_ms r \<noteq> None)"
proof (induction ws arbitrary: used w)
  case (Cons x ws)
  show ?case
  proof (cases "used \<ge> budget")
    case True
    with Cons.prems show ?thesis by (auto simp: bindE_def split: prod.splits sum.splits)
  next
    case False
    obtain now w1 where n: "now_ms E w = (Inr now, w1)" by (simp add: now_ms_def)
    obtain e w2 where e: "lo_earliest_valid ops (lr_stream result) x now w1 = (Inr e, w2)"
      using Cons.prems(1) False n by (auto simp: bindE_def split: prod.splits sum.splits)
    show ?thesis
      using Cons.prems False n e Cons.IH
      by (cases e) (auto simp: bindE_def split: prod.splits sum.splits)
  qed
qed (auto simp: bindE_def split: prod.splits sum.splits)

lemma lower_bound_returns:
  assumes "resolve_historical_lower_bound ops E s budget w = (Inr r, w')"
  obtains (cached) "0 < budget" "cached_lower_bound ops s w = (Inr (Some r), w')"
  | (idle) "0 < budget" "lr_stream r = s" "\<not> lr_resolved r" "lr_earliest_available_open_time_ms r = None"
      "lr_discovery_windows_used r = 0"
  | (searched) result g ws w1 w2 where "0 < budget" "cached_lower_bound ops s w = (Inr None, w1)"
      "lr_stream result = s" "\<not> lr_resolved result" "lr_earliest_available_open_time_ms result = None"
      "iter_fetch_windows g (stream_step s) (lo_max_points_per_probe ops) = Inr ws"
      "gap_start_ms g = lr_search_start_time_ms result" "gap_start_ms g < gap_end_ms g"
      "discovery_loop ops E result budget ws 0 w2 = (Inr r, w')"
proof -
  have b: "0 < budget" using assms by (auto simp: resolve_historical_lower_bound_def split: if_splits)
  obtain c w1 where c: "cached_lower_bound ops s w = (Inr c, w1)"
    using assms b by (auto simp: resolve_historical_lower_bound_def bindE_eq_Inr)
  show thesis
  proof (cases c)
    case (Some x)
    with assms b c show thesis by (intro cached) (auto simp: resolve_historical_lower_bound_def bindE_def)
  next
    case None
    obtain md w2 where md: "resolve_metadata E (sk_instrument s) w1 = (Inr md, w2)"
      using assms b c None by (auto simp: resolve_historical_lower_bound_def bindE_eq_Inr)
    obtain launch where la: "im_launch_time_ms (fst md) = Some launch"
      using assms b c None md
      by (cases "im_launch_time_ms (fst md)")
        (auto simp: resolve_historical_lower_bound_def bindE_def case_prod_beta)
    have rest: "\<exists>l ss w3 now w4 lc. ceil_to_grid launch (stream_step s) = Inr l \<and> lo_discovery_start ops s l w2 = (Inr ss, w3) \<and>
        now_ms E w3 = (Inr now, w4) \<and> last_closed_open_time_ms now (stream_step s) = Inr lc \<and>
        (let search_end = lc + stream_step s;
                    result = \<lparr>lr_stream = s, lr_launch_time_ms = launch,
                      lr_search_start_time_ms = ss, lr_earliest_available_open_time_ms = None,
                      lr_metadata_cached = snd md, lr_lower_bound_cached = False,
                      lr_resolved = False, lr_discovery_windows_used = 0,
                      lr_unresolved_reason = None, lr_next_search_start_time_ms = None\<rparr>
                in if ss \<ge> search_end
                   then returnE (result\<lparr>lr_unresolved_reason := Some ''no closed candles are searchable yet'',
                          lr_next_search_start_time_ms := Some ss\<rparr>)
                   else
                     bindE (liftR (bindR (mk_gap ss search_end) (\<lambda>g.
                         iter_fetch_windows g (stream_step s) (lo_max_points_per_probe ops)))) (\<lambda>windows.
                       discovery_loop ops E result budget windows 0)) w4 = (Inr r, w')"
      using assms b c None md la
      by (simp add: resolve_historical_lower_bound_def bindE_def [of "cached_lower_bound ops s"]
          bindE_def [of "resolve_metadata E (sk_instrument s)"] case_prod_beta)
        (simp add: bindE_eq_Inr del: last_closed_pos)
    then obtain ss w4 lc result where
      res: "result = \<lparr>lr_stream = s, lr_launch_time_ms = launch,
                      lr_search_start_time_ms = ss, lr_earliest_available_open_time_ms = None,
                      lr_metadata_cached = snd md, lr_lower_bound_cached = False,
                      lr_resolved = False, lr_discovery_windows_used = 0,
                      lr_unresolved_reason = None, lr_next_search_start_time_ms = None\<rparr>"
      and run: "(if ss \<ge> lc + stream_step s
                   then returnE (result\<lparr>lr_unresolved_reason := Some ''no closed candles are searchable yet'',
                          lr_next_search_start_time_ms := Some ss\<rparr>)
                   else
                     bindE (liftR (bindR (mk_gap ss (lc + stream_step s)) (\<lambda>g.
                         iter_fetch_windows g (stream_step s) (lo_max_points_per_probe ops)))) (\<lambda>windows.
                       discovery_loop ops E result budget windows 0)) w4 = (Inr r, w')"
      unfolding Let_def by blast
    show thesis
    proof (cases "ss \<ge> lc + stream_step s")
      case True
      show thesis by (rule idle) (use run res b True in auto)
    next
      case False
      then obtain ws where "iter_fetch_windows (Gap ss (lc + stream_step s)) (stream_step s)
          (lo_max_points_per_probe ops) = Inr ws" "discovery_loop ops E result budget ws 0 w4 = (Inr r, w')"
        using run by (auto simp: bindE_eq_Inr mk_gap_def)
      then show thesis
        using False res b c None by - (rule searched [where result = result and ws = ws and g = "Gap ss (lc + stream_step s)"]; (assumption | simp))
    qed
  qed
qed

lemma cached_lower_bound_some:
  "cached_lower_bound ops s w = (Inr (Some r), w') \<Longrightarrow>
   lr_discovery_windows_used r = 0 \<and> lr_stream r = s \<and> lr_resolved r \<and> lr_lower_bound_cached r \<and>
   (\<exists>w1. lo_cached_earliest ops s w = (Inr (lr_earliest_available_open_time_ms r), w1) \<and>
      lr_earliest_available_open_time_ms r \<noteq> None)"
  unfolding cached_lower_bound_def bindE_eq_Inr
  by (auto simp: bindE_eq_Inr split: option.splits)

lemma lower_bound_budget:
  assumes "resolve_historical_lower_bound ops E s budget w = (Inr r, w')"
  shows "0 \<le> lr_discovery_windows_used r \<and> lr_discovery_windows_used r \<le> budget \<and> lr_stream r = s \<and>
     (lr_resolved r \<longleftrightarrow> lr_earliest_available_open_time_ms r \<noteq> None)"
  using assms
proof (cases rule: lower_bound_returns)
  case cached
  with cached_lower_bound_some [OF cached(2)] show ?thesis by auto
next
  case idle
  then show ?thesis by simp
next
  case (searched result g ws w1 w2)
  with discovery_loop_budget [OF searched(9)] discovery_loop_resolved [OF searched(9)] show ?thesis by auto
qed

lemma keeps_probe_ops [keeps_intro]:
  "keeps (disk_ok (evolves d0)) (candle_earliest_valid E s w t)"
  "keeps (disk_ok (evolves d0)) (open_interest_earliest_valid E s w t)"
  "keeps (disk_ok (evolves d0)) (lb_cached_earliest s)"
  "keeps (disk_ok (evolves d0)) (lb_current_discovery_cursor s)"
  "keeps (disk_ok (evolves d0)) (lb_discovery_start s n)"
  "keeps (disk_ok (evolves d0)) (lb_advance_discovery E s n)"
  "keeps (disk_ok (evolves d0)) (lb_resolve E s n)"
proof -
  show "keeps (disk_ok (evolves d0)) (candle_earliest_valid E s w t)"
    "keeps (disk_ok (evolves d0)) (open_interest_earliest_valid E s w t)"
    "keeps (disk_ok (evolves d0)) (lb_cached_earliest s)"
    "keeps (disk_ok (evolves d0)) (lb_current_discovery_cursor s)"
    "keeps (disk_ok (evolves d0)) (lb_discovery_start s n)"
    unfolding candle_earliest_valid_def open_interest_earliest_valid_def lb_cached_earliest_def
      lb_current_discovery_cursor_def lb_discovery_start_def Let_def
    by (intro keeps_intro)+
  show "keeps (disk_ok (evolves d0)) (lb_advance_discovery E s n)" "keeps (disk_ok (evolves d0)) (lb_resolve E s n)"
    unfolding lb_advance_discovery_def lb_resolve_def
    by (intro keeps_in_transaction latest_kept_intro; simp)+
qed

interpretation candle_lb: lower_bound_track "candle_lb_ops E n" for E n
  by unfold_locales (simp_all add: candle_lb_ops_def keeps_probe_ops)

interpretation open_interest_lb: lower_bound_track "open_interest_lb_ops E n" for E n
  by unfold_locales (simp_all add: open_interest_lb_ops_def keeps_probe_ops keeps_track_ops)

section \<open>The first available point\<close>

text \<open>A source with a fixed history \<open>H\<close>: whenever it is asked, a window returns the points of
  \<open>H\<close> that lie in it. Against such a source a probe gives the first valid point of its
  window, and discovery the first valid point after its starting point.\<close>

definition historical :: "(stream_key \<Rightarrow> observed_candle list) \<Rightarrow> (stream_key \<Rightarrow> observed_open_interest list) \<Rightarrow> env \<Rightarrow> env" where
  "historical H P E = E\<lparr>
     e_candles := \<lambda>n s w t. Inr (filter (\<lambda>c. window_contains w (oc_open_time_ms c)) (H s)),
     e_open_interest := \<lambda>n s w t. Inr (filter (\<lambda>p. window_contains w (oi_open_time_ms p)) (P s))\<rparr>"

definition candle_history :: "(stream_key \<Rightarrow> observed_candle list) \<Rightarrow> stream_key \<Rightarrow> int set" where
  "candle_history H s = oc_open_time_ms ` {c \<in> set (H s). oc_stream c = s \<and> validate_observed_candle c = []}"

definition open_interest_history :: "(stream_key \<Rightarrow> observed_open_interest list) \<Rightarrow> stream_key \<Rightarrow> int set" where
  "open_interest_history P s = oi_open_time_ms ` {p \<in> set (P s). oi_stream p = s \<and> open_interest_issue p = None}"

definition first_from :: "int set \<Rightarrow> int \<Rightarrow> int \<Rightarrow> bool" where
  "first_from T a m \<longleftrightarrow> m \<in> T \<and> a \<le> m \<and> (\<forall>t \<in> T. a \<le> t \<longrightarrow> m \<le> t)"

lemma iter_fetch_windows_tiled:
  assumes "iter_fetch_windows g step k = Inr ws" "gap_start_ms g < gap_end_ms g"
  shows "tiles (gap_start_ms g) ws (gap_end_ms g)"
proof -
  have "0 < k" "0 < step" "gap_start_ms g mod step = 0" "gap_end_ms g mod step = 0"
    using assms(1) by (auto simp: iter_fetch_windows_def guardR_def split: if_splits)
  with fetch_windows_loop_spec [of k step "gap_start_ms g" "gap_end_ms g"] assms show ?thesis
    by (auto simp: iter_fetch_windows_def)
qed

locale lower_bound_history = lower_bound_track ops for ops +
  fixes T :: "stream_key \<Rightarrow> int set"
  assumes probe_some: "lo_earliest_valid ops s x t w = (Inr (Some m), w') \<Longrightarrow>
      m \<in> T s \<and> window_contains x m \<and> (\<forall>p \<in> T s. window_contains x p \<longrightarrow> m \<le> p)"
    and probe_none: "lo_earliest_valid ops s x t w = (Inr None, w') \<Longrightarrow> p \<in> T s \<Longrightarrow> \<not> window_contains x p"
begin

lemma discovery_first:
  "discovery_loop ops E result budget ws used w = (Inr r, w') \<Longrightarrow> tiles a ws b \<Longrightarrow> \<not> lr_resolved result \<Longrightarrow>
   lr_search_start_time_ms r = lr_search_start_time_ms result \<and>
   (lr_resolved r \<longrightarrow> (\<exists>m. lr_earliest_available_open_time_ms r = Some m \<and> first_from (T (lr_stream result)) a m))"
proof (induction ws arbitrary: used w a)
  case (Cons x ws)
  show ?case
  proof (cases "used \<ge> budget")
    case True
    with Cons.prems show ?thesis by (auto simp: bindE_def split: prod.splits sum.splits)
  next
    case False
    obtain now w1 where n: "now_ms E w = (Inr now, w1)" by (simp add: now_ms_def)
    obtain e w2 where e: "lo_earliest_valid ops (lr_stream result) x now w1 = (Inr e, w2)"
      using Cons.prems(1) False n by (auto simp: bindE_def split: prod.splits sum.splits)
    have x: "start_ms x = a" "a < end_ms x" "tiles (end_ms x) ws b" using Cons.prems(2) by auto
    show ?thesis
    proof (cases e)
      case None
      then obtain w3 where "discovery_loop ops E result budget ws (used + 1) w3 = (Inr r, w')"
        using Cons.prems(1) False n e by (auto simp: bindE_def split: prod.splits sum.splits)
      from Cons.IH [OF this x(3) Cons.prems(3)] show ?thesis
        using probe_none [of "lr_stream result" x now w1 w2] e None x
        by (fastforce simp: first_from_def window_contains_def)
    next
      case (Some m)
      then have "r = result\<lparr>lr_earliest_available_open_time_ms := Some m, lr_resolved := True,
          lr_discovery_windows_used := used + 1\<rparr>"
        using Cons.prems(1) False n e by (auto simp: bindE_def split: prod.splits sum.splits)
      moreover have "first_from (T (lr_stream result)) a m"
        using probe_some [of "lr_stream result" x now w1 m w2] e Some x
        by (fastforce simp: first_from_def window_contains_def)
      ultimately show ?thesis by simp
    qed
  qed
qed (auto simp: bindE_def split: prod.splits sum.splits)

lemma lower_bound_first:
  assumes "resolve_historical_lower_bound ops E s budget w = (Inr r, w')"
    and "lr_resolved r" "\<not> lr_lower_bound_cached r"
  shows "\<exists>m. lr_earliest_available_open_time_ms r = Some m \<and> first_from (T s) (lr_search_start_time_ms r) m"
  using assms(1)
proof (cases rule: lower_bound_returns)
  case cached
  with cached_lower_bound_some [OF cached(2)] assms(3) show ?thesis by auto
next
  case idle
  with assms(2) show ?thesis by simp
next
  case (searched result g ws w1 w2)
  with discovery_first [OF searched(9) iter_fetch_windows_tiled [OF searched(6,8)] searched(4)] assms(2)
  show ?thesis by auto
qed

end

lemma Min_filtered:
  fixes f :: "'a \<Rightarrow> int"
  assumes "filter P (filter Q xs) \<noteq> []"
  shows "Min (f ` set (filter P (filter Q xs))) \<in> f ` {x \<in> set xs. P x} \<and>
    (\<exists>x. Min (f ` set (filter P (filter Q xs))) = f x \<and> P x \<and> Q x) \<and>
    (\<forall>x \<in> set xs. P x \<longrightarrow> Q x \<longrightarrow> Min (f ` set (filter P (filter Q xs))) \<le> f x)"
proof -
  have "Min (f ` set (filter P (filter Q xs))) \<in> f ` set (filter P (filter Q xs))"
    using assms by (intro Min_in) (auto simp: filter_empty_conv)
  then show ?thesis by auto
qed

lemma fetch_historical:
  "fetch_closed_candles (historical H P E) s x t w =
     (Inr (filter (\<lambda>c. window_contains x (oc_open_time_ms c)) (H s)), w\<lparr>w_calls := Suc (w_calls w)\<rparr>)"
  "fetch_open_interest (historical H P E) s x t w =
     (Inr (filter (\<lambda>p. window_contains x (oi_open_time_ms p)) (P s)), w\<lparr>w_calls := Suc (w_calls w)\<rparr>)"
  by (simp_all add: fetch_closed_candles_def fetch_open_interest_def call_source_def historical_def)

interpretation candle_first: lower_bound_history "candle_lb_ops (historical H P E) n" "candle_history H" for H P E n
proof unfold_locales
  fix s x t w m w'
  assume run: "lo_earliest_valid (candle_lb_ops (historical H P E) n) s x t w = (Inr (Some m), w')"
  let ?c = "filter (\<lambda>c. oc_stream c = s \<and> window_contains x (oc_open_time_ms c) \<and> validate_observed_candle c = [])
        (filter (\<lambda>c. window_contains x (oc_open_time_ms c)) (H s))"
  have ne: "?c \<noteq> []"
    and m: "m = Min (oc_open_time_ms ` set ?c)"
    using run by (auto simp: candle_lb_ops_def candle_earliest_valid_def bindE_def fetch_historical Let_def
        simp del: filter_filter set_filter split: if_splits)
  show "m \<in> candle_history H s \<and> window_contains x m \<and>
      (\<forall>p \<in> candle_history H s. window_contains x p \<longrightarrow> m \<le> p)"
    using Min_filtered [OF ne, of oc_open_time_ms] unfolding m [symmetric] candle_history_def by auto
next
  fix s x t w w' p
  assume "lo_earliest_valid (candle_lb_ops (historical H P E) n) s x t w = (Inr None, w')" "p \<in> candle_history H s"
  then show "\<not> window_contains x p"
    by (auto simp: candle_lb_ops_def candle_earliest_valid_def bindE_def fetch_historical candle_history_def
        Let_def filter_empty_conv split: if_splits)
qed

interpretation open_interest_first: lower_bound_history "open_interest_lb_ops (historical H P E) n"
  "open_interest_history P" for H P E n
proof unfold_locales
  fix s x t w m w'
  assume run: "lo_earliest_valid (open_interest_lb_ops (historical H P E) n) s x t w = (Inr (Some m), w')"
  let ?c = "filter (\<lambda>p. oi_stream p = s \<and> window_contains x (oi_open_time_ms p) \<and> open_interest_issue p = None)
        (filter (\<lambda>p. window_contains x (oi_open_time_ms p)) (P s))"
  have ne: "?c \<noteq> []"
    and m: "m = Min (oi_open_time_ms ` set ?c)"
    using run by (auto simp: open_interest_lb_ops_def open_interest_earliest_valid_def bindE_def fetch_historical Let_def
        simp del: filter_filter set_filter split: if_splits)
  show "m \<in> open_interest_history P s \<and> window_contains x m \<and>
      (\<forall>p \<in> open_interest_history P s. window_contains x p \<longrightarrow> m \<le> p)"
    using Min_filtered [OF ne, of oi_open_time_ms] unfolding m [symmetric] open_interest_history_def by auto
next
  fix s x t w w' p
  assume "lo_earliest_valid (open_interest_lb_ops (historical H P E) n) s x t w = (Inr None, w')"
    "p \<in> open_interest_history P s"
  then show "\<not> window_contains x p"
    by (auto simp: open_interest_lb_ops_def open_interest_earliest_valid_def bindE_def fetch_historical
        open_interest_history_def Let_def filter_empty_conv split: if_splits)
qed


text \<open>
  The same for the open interest track, whose discovery is recorded in the track progress.
\<close>

theorem lower_bound_is_first_open_interest:
  assumes "service_inv (w_disk w)"
    and "resolve_historical_lower_bound (open_interest_lb_ops (historical H P E) n) (historical H P E) s budget w = (Inr r, w')"
  shows "lr_discovery_windows_used r \<le> budget \<and> evolves (w_disk w) (w_disk w') \<and>
     (lr_resolved r \<and> \<not> lr_lower_bound_cached r \<longrightarrow>
        (\<exists>m. lr_earliest_available_open_time_ms r = Some m \<and>
           first_from (open_interest_history P s) (lr_search_start_time_ms r) m))"
  using lower_bound_budget [OF assms(2)] open_interest_first.lower_bound_first [OF assms(2)]
    run_evolves [OF open_interest_lb.keeps_lower_bound assms(2)]
  by blast

definition example_history :: "stream_key \<Rightarrow> observed_candle list" where
  "example_history s = (if s = example_stream then [example_observation] else [])"

definition example_points :: "stream_key \<Rightarrow> observed_open_interest list" where
  "example_points s = [\<lparr>oi_stream = s, oi_open_time_ms = 300000, oi_open_interest = InInt 7, oi_observed_at_ms = 900000\<rparr>]"

lemma example_observation_at: "oc_stream example_observation = example_stream" "oc_open_time_ms example_observation = 60000"
  by (simp_all add: example_observation_def)

lemma example_probe:
  "candle_earliest_valid (historical example_history P E) =
     (\<lambda>s x t w. (Inr (if s = example_stream \<and> window_contains x 60000 then Some 60000 else None),
        w\<lparr>w_calls := Suc (w_calls w)\<rparr>))"
  using example_observation_wf
  by (intro ext) (simp add: candle_earliest_valid_def bindE_def fetch_historical example_history_def
      validation_empty_iff example_observation_at)

definition lower_bound_outcome :: "exn + lower_bound_result \<Rightarrow> exn + (int option \<times> bool \<times> bool \<times> int)" where
  "lower_bound_outcome = map_sum id (\<lambda>r. (lr_earliest_available_open_time_ms r, lr_lower_bound_cached r, lr_resolved r,
     lr_search_start_time_ms r))"

lemma lower_bound_outcome_Inr:
  "lower_bound_outcome (fst x) = Inr (e, c, y, a) \<Longrightarrow>
     \<exists>r w'. x = (Inr r, w') \<and> lr_earliest_available_open_time_ms r = e \<and> lr_lower_bound_cached r = c \<and>
       lr_resolved r = y \<and> lr_search_start_time_ms r = a"
  by (cases x; cases "fst x") (auto simp: lower_bound_outcome_def)

lemma fresh_service_inv:
  assumes "db_wf d" "db_candles d = []" "db_open_interest d = []" "db_tracks d = []" "states_ok d"
  shows "service_inv d"
proof -
  have "\<not> oi_stored d s t" for s t
    using assms(3) by (auto simp: oi_stored_def get_open_interest_def sel_def)
  moreover have "stream_exists d k \<Longrightarrow> \<exists>p. get_open_interest_progress d k = Inr p" for k
    using assms(4) by (auto simp: stream_exists_def get_track_progress_eq sel_def initial_track_progress_def split: sum.splits)
  ultimately show ?thesis
    using assms candles_empty [of d] by (simp add: service_inv_def canonical_inv_def oi_ok_def candles_ok_def)
qed

lemma example_service_inv: "service_inv (w_disk example_world)"
  using example_inv unfolding example_world_def
  by (intro fresh_service_inv) (simp_all add: canonical_inv_def, simp_all add: example_db_def empty_db_def)

definition example_stream5 :: stream_key where
  "example_stream5 = StreamKey (InstrumentKey ''BTCUSDT.P'') TF_5m"

definition example_db5 :: db where
  "example_db5 = example_db\<lparr>db_streams := [\<lparr>st_id = 1, st_instrument_id = 1, st_timeframe = TF_5m,
       st_created_at_ms = 5\<rparr>], db_states := [(1, initial_stream_state example_stream5 5)]\<rparr>"

definition example_world5 :: world where
  "example_world5 = \<lparr>w_disk = example_db5, w_work = example_db5, w_ticks = 0, w_calls = 0\<rparr>"

lemma example_service_inv5: "service_inv example_db5"
proof (rule fresh_service_inv)
  have id: "stream_id example_db5 s = Inr n \<longleftrightarrow> s = example_stream5 \<and> n = 1" for s n
    by (cases s; cases "sk_instrument s")
      (auto simp: stream_id_def example_db5_def example_db_def empty_db_def example_stream5_def)
  show "db_wf example_db5"
    using example_db_wf by (simp add: example_db5_def db_wf_def catalog_wf_def)
  show "states_ok example_db5"
    unfolding states_ok_def get_stream_state_eq
    by (auto simp: stream_exists_def id split: sum.splits)
      (auto simp: example_db5_def sel_def initial_stream_state_def state_wf_def)
qed (simp_all add: example_db5_def example_db_def empty_db_def)

definition example_env5 :: env where
  "example_env5 = example_env\<lparr>e_now := \<lambda>n. 1000000\<rparr>"

lemma example_lower_bound:
  "lower_bound_outcome (fst (resolve_historical_lower_bound (candle_lb_ops (historical example_history example_points example_env) 2)
        (historical example_history example_points example_env) example_stream 5 example_world)) = Inr (Some 60000, False, True, 0)"
  by (simp only: candle_lb_ops_def example_probe) code_simp

lemma example_lower_bound5:
  "lower_bound_outcome (fst (resolve_historical_lower_bound (open_interest_lb_ops (historical example_history example_points example_env5) 2)
        (historical example_history example_points example_env5) example_stream5 5 example_world5)) = Inr (Some 300000, False, True, 0)"
  by code_simp


theorem lower_bound_is_first_open_interest_witness:
  "first_from (open_interest_history example_points example_stream5) 0 300000"
proof -
  obtain r w' where run: "resolve_historical_lower_bound
      (open_interest_lb_ops (historical example_history example_points example_env5) 2)
        (historical example_history example_points example_env5) example_stream5 5 example_world5 = (Inr r, w')"
    and r: "lr_earliest_available_open_time_ms r = Some 300000" "\<not> lr_lower_bound_cached r" "lr_resolved r"
      "lr_search_start_time_ms r = 0"
    using lower_bound_outcome_Inr [OF example_lower_bound5] by auto
  show ?thesis using lower_bound_is_first_open_interest [OF _ run] example_service_inv5 r by (simp add: example_world5_def)
qed

end
