(* ===== verification/Backfill.thy ===== *)
theory Backfill
  imports LowerBound
begin

text \<open>
  application/backfill.py, application/backfill\_types.py and application/backfill\_stream.py: the
  plan of a sequential run, and the bounded, resumable loading of one stream.
\<close>

section \<open>backfill.py\<close>

record backfill_run_plan =
  rp_streams :: "stream_key list"
  rp_max_windows_per_stream :: int

definition mk_backfill_run_plan :: "backfill_run_plan \<Rightarrow> backfill_run_plan res" where
  "mk_backfill_run_plan p =
     (if rp_streams p = [] then Inl (Exn ValueError ''backfill plan requires at least one stream'')
      else if \<not> distinct (rp_streams p) then Inl (Exn ValueError ''backfill plan streams must be unique'')
      else if rp_max_windows_per_stream p \<le> 0
        then Inl (Exn ValueError ''max_windows_per_stream must be positive'')
      else Inr p)"

text \<open>\<open>dict.fromkeys\<close> keeps the first occurrence of every element.\<close>

fun dict_fromkeys :: "'a list \<Rightarrow> 'a list" where
  "dict_fromkeys [] = []"
| "dict_fromkeys (x # xs) = x # filter (\<lambda>y. y \<noteq> x) (dict_fromkeys xs)"

text \<open>\<open>str(stream)\<close> of the dataclass.\<close>

definition stream_key_str :: "stream_key \<Rightarrow> string" where
  "stream_key_str s = ''StreamKey(instrument=InstrumentKey(ticker='' @ py_repr (ticker (sk_instrument s))
     @ ''), timeframe='' @ py_repr (tf_id (sk_timeframe s)) @ '')''"

definition plan_sequential_backfill :: "backfill_request \<Rightarrow> stream_key list \<Rightarrow> backfill_run_plan res" where
  "plan_sequential_backfill request configured_streams =
     (let unique_streams = dict_fromkeys configured_streams
      in bindR (case br_stream request of
             Some s \<Rightarrow> if s \<notin> set unique_streams
                then Inl (Exn ValueError (''stream is not configured: '' @ stream_key_str s))
                else Inr [s]
           | None \<Rightarrow> if unique_streams = []
                then Inl (Exn ValueError ''no configured streams available for backfill'')
                else Inr unique_streams) (\<lambda>selected.
         mk_backfill_run_plan \<lparr>rp_streams = selected,
           rp_max_windows_per_stream = max_windows (br_budget request)\<rparr>))"

section \<open>backfill\_types.py\<close>

record backfill_stream_request =
  bq_stream :: stream_key
  bq_start_time_ms :: int
  bq_end_time_ms :: int
  bq_max_windows :: int
  bq_resume_from_latest_committed :: bool

definition mk_backfill_stream_request :: "backfill_stream_request \<Rightarrow> backfill_stream_request res" where
  "mk_backfill_stream_request r =
     (if bq_start_time_ms r \<ge> bq_end_time_ms r
        then Inl (Exn ValueError ''backfill range must satisfy start_time_ms < end_time_ms'')
      else if bq_max_windows r \<le> 0 then Inl (Exn ValueError ''max_windows must be positive'')
      else if bq_start_time_ms r mod stream_step (bq_stream r) \<noteq> 0 \<or>
              bq_end_time_ms r mod stream_step (bq_stream r) \<noteq> 0
        then Inl (Exn ValueError ''backfill range must be aligned to stream timeframe'')
      else Inr r)"

record backfill_stream_result =
  bs_stream :: stream_key
  bs_requested_window :: time_window
  bs_attempted_windows :: nat
  bs_completed_windows :: nat
  bs_reached_end :: bool
  bs_next_start_time_ms :: int
  bs_window_results :: "window_result list"
  bs_error_code :: "string option"
  bs_error_detail :: "string option"
  bs_failure_disposition :: "source_failure_disposition option"

section \<open>backfill\_stream.py\<close>

definition ensure_bootstrapping :: "env \<Rightarrow> stream_key \<Rightarrow> unit app" where
  "ensure_bootstrapping E stream =
     in_transaction E stream (\<lambda>now s.
       if ss_state s \<in> {UNINITIALIZED, DEGRADED}
       then someR (transition_stream_state s BOOTSTRAPPING now None None)
       else Inr None)"

definition record_window_success :: "env \<Rightarrow> stream_key \<Rightarrow> unit app" where
  "record_window_success E stream =
     in_transaction E stream (\<lambda>now s.
       someR (mk_stream_state (s\<lparr>ss_last_rest_success_at_ms := Some now, ss_last_error_code := None,
         ss_last_error_detail := None, ss_updated_at_ms := now\<rparr>)))"

definition record_backfill_failure :: "env \<Rightarrow> stream_key \<Rightarrow> exn \<Rightarrow> source_failure_decision app" where
  "record_backfill_failure E stream exc =
     bindE (now_ms E) (\<lambda>now. record_stream_failure stream exc now)"

definition transition_to_auditing :: "env \<Rightarrow> stream_key \<Rightarrow> unit app" where
  "transition_to_auditing E stream =
     in_transaction E stream (\<lambda>now s.
       if ss_state s = BOOTSTRAPPING
       then someR (transition_stream_state s AUDITING now None None)
       else Inr None)"

definition resume_start :: "backfill_stream_request \<Rightarrow> int app" where
  "resume_start request =
     (if \<not> bq_resume_from_latest_committed request then returnE (bq_start_time_ms request)
      else bindE (with_uow (uow_read (\<lambda>d. get_stream_state d (bq_stream request)))) (\<lambda>snapshot.
        returnE (case ss_latest_committed_open_time_ms snapshot of
            None \<Rightarrow> bq_start_time_ms request
          | Some latest \<Rightarrow> max (bq_start_time_ms request) (latest + stream_step (bq_stream request)))))"

text \<open>The loop over the windows: the window, exception and decision that ended it early, if any,
  and the results so far.\<close>

fun backfill_loop ::
  "env \<Rightarrow> stream_key \<Rightarrow> time_window list \<Rightarrow> window_result list \<Rightarrow>
   ((time_window \<times> exn \<times> source_failure_decision) option \<times> window_result list) app" where
  "backfill_loop E stream [] results = returnE (None, results)"
| "backfill_loop E stream (window # windows) results =
     bindE (tryE (import_historical_window E stream window)) (\<lambda>imported.
       case imported of
         Inl exc \<Rightarrow>
           bindE (record_backfill_failure E stream exc) (\<lambda>decision.
             returnE (Some (window, exc, decision), results))
       | Inr r \<Rightarrow>
           bindE (record_window_success E stream) (\<lambda>_.
             backfill_loop E stream windows (results @ [WindowResult window r])))"

definition backfill_stream_history ::
  "env \<Rightarrow> int \<Rightarrow> backfill_stream_request \<Rightarrow> backfill_stream_result app" where
  "backfill_stream_history E max_candles_per_window request =
     (let stream = bq_stream request
      in bindE (ensure_bootstrapping E stream) (\<lambda>_.
         bindE (resume_start request) (\<lambda>cursor.
         bindE (liftR (mk_time_window (bq_start_time_ms request) (bq_end_time_ms request))) (\<lambda>requested_window.
         let result = \<lparr>bs_stream = stream, bs_requested_window = requested_window,
               bs_attempted_windows = 0, bs_completed_windows = 0, bs_reached_end = True,
               bs_next_start_time_ms = bq_end_time_ms request, bs_window_results = [],
               bs_error_code = None, bs_error_detail = None, bs_failure_disposition = None\<rparr>
         in if cursor \<ge> bq_end_time_ms request
            then bindE (transition_to_auditing E stream) (\<lambda>_. returnE result)
            else
              bindE (liftR (bindR (mk_gap cursor (bq_end_time_ms request)) (\<lambda>g.
                  iter_fetch_windows g (stream_step stream) max_candles_per_window))) (\<lambda>windows.
              bindE (backfill_loop E stream (take (nat (bq_max_windows request)) windows) []) (\<lambda>(failure, results).
              case failure of
                Some (window, exc, decision) \<Rightarrow>
                  returnE (result\<lparr>bs_attempted_windows := length results + 1,
                    bs_completed_windows := length results, bs_reached_end := False,
                    bs_next_start_time_ms := start_ms window, bs_window_results := results,
                    bs_error_code := Some (class_name (exn_cls exc)), bs_error_detail := Some (exn_str exc),
                    bs_failure_disposition := Some (sf_disposition decision)\<rparr>)
              | None \<Rightarrow>
                  bindE (if bq_resume_from_latest_committed request then resume_start request
                         else if results \<noteq> [] then returnE (end_ms (wr_window (last results)))
                         else returnE cursor) (\<lambda>next_start_time_ms.
                  let reached_end = next_start_time_ms \<ge> bq_end_time_ms request
                  in bindE (if reached_end then transition_to_auditing E stream else returnE ()) (\<lambda>_.
                     returnE (result\<lparr>bs_attempted_windows := length results,
                       bs_completed_windows := length results, bs_reached_end := reached_end,
                       bs_next_start_time_ms := min next_start_time_ms (bq_end_time_ms request),
                       bs_window_results := results\<rparr>)))))))))"

section \<open>The plan\<close>

lemma dict_fromkeys_props [simp]: "set (dict_fromkeys xs) = set xs" "distinct (dict_fromkeys xs)"
  by (induction xs) auto

lemma dict_fromkeys_distinct: "distinct xs \<Longrightarrow> dict_fromkeys xs = xs"
  by (induction xs) (auto simp: filter_id_conv)

lemma dict_fromkeys_empty [simp]: "dict_fromkeys xs = [] \<longleftrightarrow> xs = []"
  by (cases xs) auto

text \<open>
  The plan of a sequential run is a function of the request and of the configured streams only:
  it fails exactly when no stream is configured or the pinned stream is not, and otherwise lists
  the pinned stream alone, or every configured stream once, with the positive budget of the request.
\<close>

theorem plan_covers_selection:
  assumes "0 < max_windows (br_budget request)"
  shows "(case plan_sequential_backfill request configured of
            Inl e \<Rightarrow> exn_cls e = ValueError \<and>
              (case br_stream request of None \<Rightarrow> configured = [] | Some s \<Rightarrow> s \<notin> set configured)
          | Inr p \<Rightarrow> distinct (rp_streams p) \<and>
              set (rp_streams p) = (case br_stream request of None \<Rightarrow> set configured | Some s \<Rightarrow> {s}) \<and>
              set (rp_streams p) \<subseteq> set configured \<and> rp_streams p \<noteq> [] \<and>
              rp_max_windows_per_stream p = max_windows (br_budget request))"
  using assms
  by (auto simp: plan_sequential_backfill_def mk_backfill_run_plan_def Let_def split: option.splits if_splits sum.splits)

theorem plan_covers_selection_witness:
  "(case plan_sequential_backfill \<lparr>br_selection = ALL_STREAMS, br_budget = BackfillBudget 3, br_stream = None\<rparr>
       [example_stream, example_stream5, example_stream] of
      Inl e \<Rightarrow> False
    | Inr p \<Rightarrow> distinct (rp_streams p) \<and> set (rp_streams p) = {example_stream, example_stream5})"
  using plan_covers_selection [of "\<lparr>br_selection = ALL_STREAMS, br_budget = BackfillBudget 3, br_stream = None\<rparr>"
      "[example_stream, example_stream5, example_stream]"]
  by (auto split: sum.splits)

section \<open>Loading one stream\<close>

text \<open>What a lifecycle transaction that returns has done.\<close>

lemma in_transaction_Inr:
  assumes "in_transaction E k f w = (Inr u, w')"
  obtains (skipped) now s where "get_stream_state (w_disk w) k = Inr s" "f now s = Inr None" "w_disk w' = w_disk w"
  | (saved) now s s' where "get_stream_state (w_disk w) k = Inr s" "f now s = Inr (Some s')"
      "save_stream_state s' (w_disk w) = Inr (w_disk w')"
  using assms
  by (auto simp: in_transaction_def modify_state_def run_simps returnE_def split: sum.splits option.splits)

lemma save_read:
  assumes "service_inv d" "get_stream_state d k = Inr s" "save_stream_state s' d = Inr d'" "ss_stream s' = k" "state_wf s'"
  shows "get_stream_state d' k = Inr s'"
proof -
  have "db_wf d" using assms(1) by (simp add: service_inv_def canonical_inv_def)
  then show ?thesis using sqlite_states.save_get [OF _ _ assms(5,3)] assms(2,4) by auto
qed

lemma transition_to_auditing_run:
  assumes "service_inv (w_disk w)" "transition_to_auditing E k w = (Inr u, w')"
  shows "\<exists>s s'. get_stream_state (w_disk w) k = Inr s \<and> get_stream_state (w_disk w') k = Inr s' \<and>
     ss_state s' \<noteq> BOOTSTRAPPING \<and> ss_latest_committed_open_time_ms s' = ss_latest_committed_open_time_ms s"
  using assms(2) unfolding transition_to_auditing_def
proof (cases rule: in_transaction_Inr)
  case (skipped now s)
  then show ?thesis by (auto simp: someR_def split: if_splits)
next
  case (saved now s s')
  have k: "ss_stream s = k"
    using sqlite_states.get_good [OF _ saved(1)] assms(1) by (simp add: service_inv_def canonical_inv_def)
  have t: "transition_stream_state s AUDITING now None None = Inr s'"
    using saved by (auto simp: someR_def split: if_splits)
  then show ?thesis
    using save_read [OF assms(1) saved(1,3)] transition_kept [OF t] transition_result [OF t] k saved(1) by simp
qed

lemma keeps_backfill_ops [keeps_intro]:
  "keeps (disk_ok (evolves d0)) (ensure_bootstrapping E s)"
  "keeps (disk_ok (evolves d0)) (record_window_success E s)"
  "keeps (disk_ok (evolves d0)) (transition_to_auditing E s)"
  "keeps (disk_ok (evolves d0)) (record_backfill_failure E s e)"
  "keeps (disk_ok (evolves d0)) (resume_start rq)"
proof -
  show "keeps (disk_ok (evolves d0)) (ensure_bootstrapping E s)"
    "keeps (disk_ok (evolves d0)) (record_window_success E s)"
    "keeps (disk_ok (evolves d0)) (transition_to_auditing E s)"
    unfolding ensure_bootstrapping_def record_window_success_def transition_to_auditing_def
    by (intro keeps_in_transaction latest_kept_intro; simp)+
  show "keeps (disk_ok (evolves d0)) (record_backfill_failure E s e)"
    "keeps (disk_ok (evolves d0)) (resume_start rq)"
    unfolding record_backfill_failure_def resume_start_def by (intro keeps_intro)+
qed

lemma keeps_backfill_loop [keeps_intro]: "keeps (disk_ok (evolves d0)) (backfill_loop E s ws results)"
proof (induction ws arbitrary: results)
  case Nil
  show ?case unfolding backfill_loop.simps by (intro keeps_intro)
next
  case (Cons x ws)
  show ?case unfolding backfill_loop.simps by (intro keeps_intro Cons.IH)
qed

lemma keeps_backfill [keeps_intro]: "keeps (disk_ok (evolves d0)) (backfill_stream_history E n rq)"
  unfolding backfill_stream_history_def Let_def case_prod_beta by (intro keeps_intro)

text \<open>The loop imports a prefix of its windows, and says which window stopped it.\<close>

lemma backfill_loop_run:
  "backfill_loop E s ws results w = (Inr (failure, results'), w') \<Longrightarrow>
   \<exists>rs. results' = results @ rs \<and>
     (case failure of
        None \<Rightarrow> map wr_window rs = ws
      | Some (x, e, decision) \<Rightarrow> \<exists>rest. ws = map wr_window rs @ x # rest \<and> decision = classify_source_failure e)"
proof (induction ws arbitrary: results w)
  case (Cons x ws)
  obtain i w1 where i: "import_historical_window E s x w = (i, w1)" by fastforce
  show ?case
  proof (cases i)
    case (Inl e)
    with Cons.prems i have "failure = Some (x, e, classify_source_failure e)" "results' = results"
      by (auto simp: bindE_def tryE_def record_backfill_failure_def record_stream_failure_def Let_def
          run_now_ms split: sum.splits prod.splits)
    then show ?thesis by simp
  next
    case (Inr r)
    with Cons.prems i obtain w2 where
      "backfill_loop E s ws (results @ [WindowResult x r]) w2 = (Inr (failure, results'), w')"
      by (auto simp: bindE_def tryE_def split: sum.splits prod.splits)
    from Cons.IH [OF this] obtain rs where rs: "results' = results @ WindowResult x r # rs"
      "case failure of None \<Rightarrow> map wr_window rs = ws
       | Some (x, e, decision) \<Rightarrow> \<exists>rest. ws = map wr_window rs @ x # rest \<and> decision = classify_source_failure e"
      by auto
    then show ?thesis
      by (intro exI [of _ "WindowResult x r # rs"]) (auto split: option.splits prod.splits)
  qed
qed auto

lemma tiles_append: "tiles a (xs @ ys) b \<longleftrightarrow> (\<exists>c. tiles a xs c \<and> tiles c ys b)"
  by (induction xs arbitrary: a) auto

lemma resume_start_run:
  assumes "resume_start rq w = (Inr c, w')"
  shows "w_disk w' = w_disk w \<and> bq_start_time_ms rq \<le> c \<and>
     (bq_resume_from_latest_committed rq \<longrightarrow>
        (\<exists>s. get_stream_state (w_disk w) (bq_stream rq) = Inr s \<and>
           (bq_start_time_ms rq < c \<longrightarrow> covers s (c - stream_step (bq_stream rq)))))"
  using assms
  by (auto simp: resume_start_def bindE_eq_Inr with_uow_read covers_def split: if_splits option.splits)

lemma tiles_last: "tiles a ws b \<Longrightarrow> ws \<noteq> [] \<Longrightarrow> end_ms (last ws) = b"
  by (induction ws arbitrary: a) (auto split: if_splits)

lemma tiles_take: "tiles a ws b \<Longrightarrow> \<exists>c. tiles a (take n ws) c \<and> c \<le> b"
  using tiles_append [of a "take n ws" "drop n ws" b] by (auto dest: tiles_le)

text \<open>The three ways a backfill returns: nothing was left to load, a window failed, or every window
  of the budget was imported.\<close>

lemma backfill_returns:
  assumes "backfill_stream_history E n rq w = (Inr r, w')"
  obtains (idle) c w2 where "evolves (w_disk w) (w_disk w2)" "resume_start rq w2 = (Inr c, w2)"
      "bq_end_time_ms rq \<le> c" "transition_to_auditing E (bq_stream rq) w2 = (Inr (), w')"
      "bs_reached_end r" "bs_attempted_windows r = 0" "bs_completed_windows r = 0" "bs_window_results r = []"
      "bs_next_start_time_ms r = bq_end_time_ms rq" "bs_error_code r = None"
  | (failed) c x e rest where "bq_start_time_ms rq \<le> c"
      "tiles c (map wr_window (bs_window_results r) @ x # rest) (bq_end_time_ms rq)"
      "\<not> bs_reached_end r" "bs_completed_windows r = length (bs_window_results r)"
      "bs_attempted_windows r = length (bs_window_results r) + 1" "bs_attempted_windows r \<le> nat (bq_max_windows rq)"
      "bs_next_start_time_ms r = start_ms x" "bs_error_code r = Some (class_name (exn_cls e))"
  | (loaded) c ws nx w4 w5 where "bq_start_time_ms rq \<le> c" "tiles c ws (bq_end_time_ms rq)"
      "map wr_window (bs_window_results r) = take (nat (bq_max_windows rq)) ws"
      "evolves (w_disk w) (w_disk w4)"
      "if bq_resume_from_latest_committed rq then resume_start rq w4 = (Inr nx, w5)
       else w5 = w4 \<and> nx = (if bs_window_results r \<noteq> [] then end_ms (wr_window (last (bs_window_results r))) else c)"
      "bs_reached_end r \<longleftrightarrow> bq_end_time_ms rq \<le> nx"
      "if bs_reached_end r then transition_to_auditing E (bq_stream rq) w5 = (Inr (), w') else w' = w5"
      "bs_attempted_windows r = length (bs_window_results r)" "bs_completed_windows r = length (bs_window_results r)"
      "bs_next_start_time_ms r = min nx (bq_end_time_ms rq)" "bs_error_code r = None"
proof -
  obtain w1 c w2 where s: "ensure_bootstrapping E (bq_stream rq) w = (Inr (), w1)" "resume_start rq w1 = (Inr c, w2)"
    using assms(1) by (auto simp: backfill_stream_history_def Let_def bindE_eq_Inr)
  have ev: "evolves (w_disk w) (w_disk w2)"
    by (rule evolves_trans [OF run_evolves [OF keeps_backfill_ops(1) s(1)] run_evolves [OF keeps_backfill_ops(5) s(2)]])
  have c: "bq_start_time_ms rq \<le> c" "resume_start rq w2 = (Inr c, w2)"
    using resume_start_run [OF s(2)] s(2)
    by (auto simp: resume_start_def bindE_def with_uow_read split: if_splits sum.splits)
  show thesis
  proof (cases "bq_end_time_ms rq \<le> c")
    case True
    have "transition_to_auditing E (bq_stream rq) w2 = (Inr (), w')" "bs_reached_end r" "bs_attempted_windows r = 0"
      "bs_completed_windows r = 0" "bs_window_results r = []" "bs_next_start_time_ms r = bq_end_time_ms rq"
      "bs_error_code r = None"
      using assms(1) s True
      by (auto simp: backfill_stream_history_def Let_def bindE_def split: sum.splits prod.splits)
    then show thesis by (rule idle [OF ev c(2) True])
  next
    case False
    obtain ws failure results w4 where l: "iter_fetch_windows (Gap c (bq_end_time_ms rq)) (stream_step (bq_stream rq)) n = Inr ws"
      "backfill_loop E (bq_stream rq) (take (nat (bq_max_windows rq)) ws) [] w2 = (Inr (failure, results), w4)"
      using assms(1) s False
      by (auto simp: backfill_stream_history_def Let_def bindE_eq_Inr mk_gap_def)
    have t: "tiles c ws (bq_end_time_ms rq)" using iter_fetch_windows_tiled [OF l(1)] False by simp
    have ev4: "evolves (w_disk w) (w_disk w4)"
      by (rule evolves_trans [OF ev run_evolves [OF keeps_backfill_loop l(2)]])
    note rs = backfill_loop_run [OF l(2), simplified]
    show thesis
    proof (cases failure)
      case (Some f)
      obtain x e decision where f: "f = (x, e, decision)" by (cases f)
      obtain rest where rest: "take (nat (bq_max_windows rq)) ws = map wr_window results @ x # rest"
        using rs Some f by auto
      have len: "length results + 1 \<le> nat (bq_max_windows rq)"
        using arg_cong [OF rest, of length] by simp
      have "tiles c (map wr_window results @ x # rest @ drop (nat (bq_max_windows rq)) ws) (bq_end_time_ms rq)"
        using t append_take_drop_id [of "nat (bq_max_windows rq)" ws] rest by simp
      moreover have "bs_window_results r = results" "\<not> bs_reached_end r" "bs_completed_windows r = length results"
        "bs_attempted_windows r = length results + 1" "bs_next_start_time_ms r = start_ms x"
        "bs_error_code r = Some (class_name (exn_cls e))"
        using assms(1) s False l Some f
        by (auto simp: backfill_stream_history_def Let_def bindE_def mk_gap_def split: sum.splits prod.splits)
      ultimately show thesis using len by (intro failed [OF c(1), of x]) auto
    next
      case None
      obtain nx w5 where nx: "if bq_resume_from_latest_committed rq then resume_start rq w4 = (Inr nx, w5)
         else w5 = w4 \<and> nx = (if results \<noteq> [] then end_ms (wr_window (last results)) else c)"
        using assms(1) s False l None
        by (auto simp: backfill_stream_history_def Let_def bindE_def mk_gap_def split: sum.splits prod.splits if_splits)
      have "map wr_window results = take (nat (bq_max_windows rq)) ws" using rs None by simp
      moreover have "bs_window_results r = results" "bs_reached_end r \<longleftrightarrow> bq_end_time_ms rq \<le> nx"
        "if bs_reached_end r then transition_to_auditing E (bq_stream rq) w5 = (Inr (), w') else w' = w5"
        "bs_attempted_windows r = length results" "bs_completed_windows r = length results"
        "bs_next_start_time_ms r = min nx (bq_end_time_ms rq)" "bs_error_code r = None"
        using assms(1) s False l None nx
        by (auto simp: backfill_stream_history_def Let_def bindE_def mk_gap_def split: sum.splits prod.splits if_splits)
      ultimately show thesis using nx by (intro loaded [OF c(1) t _ ev4, of nx w5]) simp_all
    qed
  qed
qed

lemma backfill_effect:
  assumes "service_inv (w_disk w)" "mk_backfill_stream_request rq = Inr rq"
    and "backfill_stream_history E n rq w = (Inr r, w')"
  shows "evolves (w_disk w) (w_disk w') \<and> bs_completed_windows r = length (bs_window_results r) \<and>
     bs_attempted_windows r = bs_completed_windows r + (if bs_error_code r = None then 0 else 1) \<and>
     bs_attempted_windows r \<le> nat (bq_max_windows rq) \<and>
     (\<exists>a b. bq_start_time_ms rq \<le> a \<and> b \<le> bq_end_time_ms rq \<and> tiles a (map wr_window (bs_window_results r)) b) \<and>
     (if bs_reached_end r
      then bs_next_start_time_ms r = bq_end_time_ms rq \<and> bs_error_code r = None \<and>
        (\<exists>st. get_stream_state (w_disk w') (bq_stream rq) = Inr st \<and> ss_state st \<noteq> BOOTSTRAPPING \<and>
           (bq_resume_from_latest_committed rq \<longrightarrow> covers st (bq_end_time_ms rq - stream_step (bq_stream rq))))
      else bq_start_time_ms rq \<le> bs_next_start_time_ms r \<and> bs_next_start_time_ms r < bq_end_time_ms rq)"
proof -
  have ev: "evolves (w_disk w) (w_disk w')" by (rule run_evolves [OF keeps_backfill assms(3)])
  have lt: "bq_start_time_ms rq < bq_end_time_ms rq"
    using assms(2) by (auto simp: mk_backfill_stream_request_def split: if_splits)
  have reach: "\<exists>st. get_stream_state (w_disk w') (bq_stream rq) = Inr st \<and> ss_state st \<noteq> BOOTSTRAPPING \<and>
      (bq_resume_from_latest_committed rq \<longrightarrow> covers st (bq_end_time_ms rq - stream_step (bq_stream rq)))"
    if v: "evolves (w_disk w) (w_disk v)" "transition_to_auditing E (bq_stream rq) v = (Inr (), w')"
      "bq_resume_from_latest_committed rq \<Longrightarrow> resume_start rq u = (Inr c, u')" "bq_end_time_ms rq \<le> c"
      "w_disk v = w_disk u" for c v u u'
  proof -
    have inv: "service_inv (w_disk v)" using evolvesD(1) [OF v(1) assms(1)] .
    obtain s s' where s: "get_stream_state (w_disk v) (bq_stream rq) = Inr s"
      "get_stream_state (w_disk w') (bq_stream rq) = Inr s'" "ss_state s' \<noteq> BOOTSTRAPPING"
      "ss_latest_committed_open_time_ms s' = ss_latest_committed_open_time_ms s"
      using transition_to_auditing_run [OF inv v(2)] by blast
    with resume_start_run [of rq u c u'] v(3,4,5) lt show ?thesis by (fastforce simp: covers_def)
  qed
  from assms(3) show ?thesis
  proof (cases rule: backfill_returns)
    case (idle c w2)
    with reach [OF idle(1,4,2,3) refl] ev show ?thesis by (auto intro!: exI [of _ "bq_end_time_ms rq"] simp: lt less_imp_le)
  next
    case (failed c x e rest)
    obtain b where b: "tiles c (map wr_window (bs_window_results r)) b" "start_ms x = b" "b < end_ms x"
      "tiles (end_ms x) rest (bq_end_time_ms rq)"
      using failed(2) by (auto simp: tiles_append)
    have "c \<le> b" "b < bq_end_time_ms rq" using tiles_le [OF b(1)] tiles_le [OF b(4)] b(3) by simp_all
    then have "\<exists>a b. bq_start_time_ms rq \<le> a \<and> b \<le> bq_end_time_ms rq \<and> tiles a (map wr_window (bs_window_results r)) b"
      using failed(1) b(1) by (intro exI [of _ c] exI [of _ b]) simp
    with failed ev b \<open>c \<le> b\<close> \<open>b < bq_end_time_ms rq\<close> show ?thesis by simp
  next
    case (loaded c ws nx w4 w5)
    obtain b where b: "tiles c (map wr_window (bs_window_results r)) b" "b \<le> bq_end_time_ms rq"
      using tiles_take [OF loaded(2)] loaded(3) by metis
    have len: "length (bs_window_results r) \<le> nat (bq_max_windows rq)"
      using arg_cong [OF loaded(3), of length] by simp
    have nx: "bq_start_time_ms rq \<le> nx"
      using loaded(1,5) tiles_le [OF b(1)] tiles_last [OF b(1)] resume_start_run [of rq w4 nx w5]
      by (auto simp: last_map split: if_splits)
    have "w_disk w5 = w_disk w4" using loaded(5) resume_start_run [of rq w4 nx w5] by (auto split: if_splits)
    then have end_reached: "bs_reached_end r \<Longrightarrow> \<exists>st. get_stream_state (w_disk w') (bq_stream rq) = Inr st \<and>
        ss_state st \<noteq> BOOTSTRAPPING \<and> (bq_resume_from_latest_committed rq \<longrightarrow>
          covers st (bq_end_time_ms rq - stream_step (bq_stream rq)))"
      using loaded(4-7) by (intro reach [of w5 w4 nx w5]) (auto split: if_splits)
    have "\<exists>a b. bq_start_time_ms rq \<le> a \<and> b \<le> bq_end_time_ms rq \<and> tiles a (map wr_window (bs_window_results r)) b"
      using loaded(1) b by (intro exI [of _ c] exI [of _ b]) simp
    with len nx loaded(6-) ev end_reached show ?thesis by (cases "bs_reached_end r") simp_all
  qed
qed


definition example_backfill :: backfill_stream_request where
  "example_backfill = \<lparr>bq_stream = example_stream, bq_start_time_ms = 0, bq_end_time_ms = 180000, bq_max_windows = 2,
     bq_resume_from_latest_committed = True\<rparr>"

definition quiet_env :: env where
  "quiet_env = example_env\<lparr>e_candles := \<lambda>n s w t. Inr []\<rparr>"

lemma example_backfill_run:
  "map_sum id (\<lambda>r. (bs_attempted_windows r, bs_next_start_time_ms r))
     (fst (backfill_stream_history quiet_env 1 example_backfill example_world)) = Inr (2, 0)"
  by code_simp


end
