(* ===== verification/Bootstrap.thy ===== *)
theory Bootstrap
  imports Backfill
begin

text \<open>
  application/full\_bootstrap.py, application/market\_metadata.py and
  application/multi\_stream\_backfill.py: the full history of one stream, the check of the configured
  instruments against the exchange, and the run over every configured stream.
\<close>

section \<open>full\_bootstrap.py\<close>

datatype full_bootstrap_status = BACKFILLED | INCOMPLETE | LOWER_BOUND_UNRESOLVED

record full_bootstrap_request =
  fq_stream :: stream_key
  fq_max_windows :: int

definition mk_full_bootstrap_request :: "full_bootstrap_request \<Rightarrow> full_bootstrap_request res" where
  "mk_full_bootstrap_request r =
     (if fq_max_windows r \<le> 0 then Inl (Exn ValueError ''max_windows must be positive'') else Inr r)"

record full_bootstrap_result =
  fr_stream :: stream_key
  fr_status :: full_bootstrap_status
  fr_max_windows :: int
  fr_target_open_time_ms :: "int option"
  fr_lower_bound :: "lower_bound_result option"
  fr_backfill :: "backfill_stream_result option"
  fr_error_code :: "string option"
  fr_error_detail :: "string option"
  fr_failure_disposition :: "source_failure_disposition option"

definition reached_target :: "full_bootstrap_result \<Rightarrow> bool" where
  "reached_target r = (case fr_backfill r of None \<Rightarrow> False | Some b \<Rightarrow> bs_reached_end b)"

definition lower_bound_resolved :: "full_bootstrap_result \<Rightarrow> bool" where
  "lower_bound_resolved r = (case fr_lower_bound r of None \<Rightarrow> False | Some l \<Rightarrow> lr_resolved l)"

definition discovery_windows_used :: "full_bootstrap_result \<Rightarrow> int" where
  "discovery_windows_used r = (case fr_lower_bound r of None \<Rightarrow> 0 | Some l \<Rightarrow> lr_discovery_windows_used l)"

definition backfill_windows_attempted :: "full_bootstrap_result \<Rightarrow> int" where
  "backfill_windows_attempted r = (case fr_backfill r of None \<Rightarrow> 0 | Some b \<Rightarrow> int (bs_attempted_windows b))"

definition total_windows_used :: "full_bootstrap_result \<Rightarrow> int" where
  "total_windows_used r = discovery_windows_used r + backfill_windows_attempted r"

definition full_ensure_bootstrapping :: "env \<Rightarrow> stream_key \<Rightarrow> unit app" where
  "full_ensure_bootstrapping E stream =
     in_transaction E stream (\<lambda>now s.
       if ss_state s \<in> {UNINITIALIZED, DEGRADED}
       then someR (transition_stream_state s BOOTSTRAPPING now None None)
       else Inr None)"

text \<open>What follows a lower bound that was returned.\<close>

definition bootstrap_from_lower_bound ::
  "env \<Rightarrow> int \<Rightarrow> full_bootstrap_request \<Rightarrow> full_bootstrap_result \<Rightarrow> lower_bound_result \<Rightarrow> full_bootstrap_result app" where
  "bootstrap_from_lower_bound E max_candles_per_window request result lower_bound =
     (if \<not> lr_resolved lower_bound then returnE result
      else
        bindE (now_ms E) (\<lambda>now.
        bindE (liftR (last_closed_open_time_ms now (stream_step (fq_stream request)))) (\<lambda>target_open_time_ms.
        let remaining_budget = fq_max_windows request - lr_discovery_windows_used lower_bound;
            result = result\<lparr>fr_target_open_time_ms := Some target_open_time_ms\<rparr>
        in if remaining_budget \<le> 0 then returnE result
           else case lr_earliest_available_open_time_ms lower_bound of
               None \<Rightarrow> raiseE (Exn RuntimeError ''resolved lower bound missing earliest open time'')
             | Some earliest \<Rightarrow>
                 bindE (liftR (mk_backfill_stream_request \<lparr>bq_stream = fq_stream request,
                     bq_start_time_ms = earliest,
                     bq_end_time_ms = target_open_time_ms + stream_step (fq_stream request),
                     bq_max_windows = remaining_budget, bq_resume_from_latest_committed = True\<rparr>)) (\<lambda>rq.
                 bindE (backfill_stream_history E max_candles_per_window rq) (\<lambda>backfill.
                 returnE (result\<lparr>fr_status := BACKFILLED, fr_backfill := Some backfill,
                   fr_error_code := bs_error_code backfill, fr_error_detail := bs_error_detail backfill,
                   fr_failure_disposition := bs_failure_disposition backfill\<rparr>))))))"

definition bootstrap_full_stream_history ::
  "lb_ops \<Rightarrow> env \<Rightarrow> int \<Rightarrow> full_bootstrap_request \<Rightarrow> full_bootstrap_result app" where
  "bootstrap_full_stream_history ops E max_candles_per_window request =
     (let stream = fq_stream request;
          result = \<lparr>fr_stream = stream, fr_status = LOWER_BOUND_UNRESOLVED, fr_max_windows = fq_max_windows request,
            fr_target_open_time_ms = None, fr_lower_bound = None, fr_backfill = None, fr_error_code = None,
            fr_error_detail = None, fr_failure_disposition = None\<rparr>
      in bindE (full_ensure_bootstrapping E stream) (\<lambda>_.
         bindE (tryE (resolve_historical_lower_bound ops E stream (fq_max_windows request))) (\<lambda>resolved.
         case resolved of
           Inl exc \<Rightarrow>
             bindE (now_ms E) (\<lambda>now.
             bindE (record_stream_failure stream exc now) (\<lambda>decision.
             if exn_cls exc = HistoricalLowerBoundUnavailable
             then returnE (result\<lparr>fr_error_code := Some (class_name (exn_cls exc)),
                    fr_error_detail := Some (exn_str exc),
                    fr_failure_disposition := Some (sf_disposition decision)\<rparr>)
             else returnE (result\<lparr>fr_error_code := Some (class_name (exn_cls exc)),
                    fr_error_detail := Some (exn_str exc)\<rparr>)))
         | Inr lower_bound \<Rightarrow>
             bootstrap_from_lower_bound E max_candles_per_window request
               (result\<lparr>fr_status := INCOMPLETE, fr_lower_bound := Some lower_bound\<rparr>) lower_bound)))"

section \<open>market\_metadata.py\<close>

record verified_instrument_metadata =
  vm_coverage :: instrument_coverage
  vm_specification :: exchange_spec

definition verify_configured_instrument_metadata ::
  "env \<Rightarrow> string \<Rightarrow> instrument_coverage \<Rightarrow> verified_instrument_metadata app" where
  "verify_configured_instrument_metadata E category coverage =
     bindE (get_instrument_specification E (ic_instrument coverage)) (\<lambda>specification.
     let expected_actual =
           [(''exchange_symbol'', ic_exchange_symbol coverage, es_exchange_symbol specification),
            (''category'', py_lower (py_strip category), es_category specification),
            (''contract_type'', ''LinearPerpetual'', es_contract_type specification),
            (''status'', ''Trading'', es_status specification),
            (''settle_coin'', ''USDT'', es_settle_coin specification)];
         mismatches = map (\<lambda>(name, expected, actual).
             name @ '': expected='' @ py_repr expected @ '' actual='' @ py_repr actual)
           (filter (\<lambda>(name, expected, actual). actual \<noteq> expected) expected_actual)
     in if mismatches \<noteq> []
        then raiseE (Exn InstrumentMetadataMismatch
               (''metadata mismatch for '' @ ticker (ic_instrument coverage) @ '': '' @ py_join ''; '' mismatches))
        else returnE \<lparr>vm_coverage = coverage, vm_specification = specification\<rparr>)"

section \<open>multi\_stream\_backfill.py\<close>

datatype run_status = COMPLETE | RUN_INCOMPLETE | RUN_FAILED

record multi_stream_request =
  mq_max_windows_per_stream :: int

definition mk_multi_stream_request :: "multi_stream_request \<Rightarrow> multi_stream_request res" where
  "mk_multi_stream_request r =
     (if mq_max_windows_per_stream r \<le> 0
      then Inl (Exn ValueError ''max_windows_per_stream must be positive'') else Inr r)"

record multi_stream_outcome =
  mo_coverage :: instrument_coverage
  mo_stream :: stream_key
  mo_result :: "full_bootstrap_result option"
  mo_error_code :: "string option"
  mo_error_detail :: "string option"
  mo_failure_disposition :: "source_failure_disposition option"

record multi_stream_result =
  mr_outcomes :: "multi_stream_outcome list"
  mr_status :: run_status

definition attempted_streams :: "multi_stream_result \<Rightarrow> nat" where
  "attempted_streams r = length (mr_outcomes r)"

definition has_errors :: "multi_stream_result \<Rightarrow> bool" where
  "has_errors r \<longleftrightarrow> (\<exists>o' \<in> set (mr_outcomes r). mo_error_code o' \<noteq> None)"

text \<open>
  The two constructor arguments of \<open>BackfillAllConfiguredStreams\<close>: the verifier, of which only the
  exception matters, and the bootstrap of a stream of a coverage. The inner loop returns whether it
  ended the whole run.
\<close>

type_synonym verifier = "instrument_coverage \<Rightarrow> verified_instrument_metadata app"
type_synonym bootstrapper = "instrument_coverage \<Rightarrow> stream_key \<Rightarrow> full_bootstrap_request \<Rightarrow> full_bootstrap_result app"

fun stream_loop ::
  "bootstrapper \<Rightarrow> int \<Rightarrow> instrument_coverage \<Rightarrow> stream_key list \<Rightarrow> multi_stream_outcome list \<Rightarrow> run_status \<Rightarrow>
   (bool \<times> multi_stream_outcome list \<times> run_status) app" where
  "stream_loop bootstrap n coverage [] outcomes overall = returnE (False, outcomes, overall)"
| "stream_loop bootstrap n coverage (stream # streams) outcomes overall =
     bindE (liftR (mk_full_bootstrap_request \<lparr>fq_stream = stream, fq_max_windows = n\<rparr>)) (\<lambda>request.
     bindE (bootstrap coverage stream request) (\<lambda>result.
     let outcomes = outcomes @ [\<lparr>mo_coverage = coverage, mo_stream = stream, mo_result = Some result,
           mo_error_code = fr_error_code result, mo_error_detail = fr_error_detail result,
           mo_failure_disposition = fr_failure_disposition result\<rparr>]
     in if fr_failure_disposition result = Some FATAL then returnE (True, outcomes, RUN_FAILED)
        else stream_loop bootstrap n coverage streams outcomes
               (if fr_error_code result \<noteq> None \<or> \<not> reached_target result then RUN_INCOMPLETE else overall)))"

fun coverage_loop ::
  "verifier \<Rightarrow> bootstrapper \<Rightarrow> int \<Rightarrow> instrument_coverage list \<Rightarrow> multi_stream_outcome list \<Rightarrow> run_status \<Rightarrow>
   multi_stream_result app" where
  "coverage_loop verify bootstrap n [] outcomes overall =
     returnE \<lparr>mr_outcomes = outcomes, mr_status = overall\<rparr>"
| "coverage_loop verify bootstrap n (coverage # coverages) outcomes overall =
     bindE (tryE (verify coverage)) (\<lambda>verified.
     case verified of
       Inl exc \<Rightarrow>
         let decision = classify_source_failure exc;
             outcomes = outcomes @ map (\<lambda>stream. \<lparr>mo_coverage = coverage, mo_stream = stream, mo_result = None,
               mo_error_code = Some (sf_code decision), mo_error_detail = Some (sf_detail decision),
               mo_failure_disposition = Some (sf_disposition decision)\<rparr>) (stream_keys coverage)
         in if sf_disposition decision = FATAL
            then returnE \<lparr>mr_outcomes = outcomes, mr_status = RUN_FAILED\<rparr>
            else coverage_loop verify bootstrap n coverages outcomes RUN_INCOMPLETE
     | Inr _ \<Rightarrow>
         bindE (stream_loop bootstrap n coverage (stream_keys coverage) outcomes overall) (\<lambda>(stop, outcomes, overall).
         if stop then returnE \<lparr>mr_outcomes = outcomes, mr_status = overall\<rparr>
         else coverage_loop verify bootstrap n coverages outcomes overall))"

definition backfill_all_configured_streams ::
  "verifier \<Rightarrow> bootstrapper \<Rightarrow> instrument_coverage list \<Rightarrow> multi_stream_request \<Rightarrow> multi_stream_result app" where
  "backfill_all_configured_streams verify bootstrap coverages request =
     (let enabled = filter ic_enabled coverages
      in if enabled = [] then raiseE (Exn ValueError ''no enabled instruments configured'')
         else coverage_loop verify bootstrap (mq_max_windows_per_stream request) enabled [] COMPLETE)"

section \<open>The bootstrap of one stream\<close>

lemma keeps_full_ensure [keeps_intro]: "keeps (disk_ok (evolves d0)) (full_ensure_bootstrapping E s)"
  unfolding full_ensure_bootstrapping_def by (intro keeps_in_transaction latest_kept_intro; simp)

context lower_bound_track
begin

lemma keeps_bootstrap: "keeps (disk_ok (evolves d0)) (bootstrap_full_stream_history ops E n rq)"
  unfolding bootstrap_full_stream_history_def bootstrap_from_lower_bound_def Let_def
  by (intro keeps_intro keeps_lower_bound)

end

text \<open>How a bootstrap returns: discovery raised, discovery left no budget, or a backfill ran.\<close>

lemma bootstrap_returns:
  assumes "bootstrap_full_stream_history ops E n rq w = (Inr r, w')"
  obtains (unresolved) w1 e w2 where "full_ensure_bootstrapping E (fq_stream rq) w = (Inr (), w1)"
      "resolve_historical_lower_bound ops E (fq_stream rq) (fq_max_windows rq) w1 = (Inl e, w2)"
      "fr_status r = LOWER_BOUND_UNRESOLVED" "fr_lower_bound r = None" "fr_backfill r = None"
      "fr_error_code r = Some (class_name (exn_cls e))" "fr_error_detail r = Some (exn_str e)"
      "fr_failure_disposition r = (if exn_cls e = HistoricalLowerBoundUnavailable
         then Some (sf_disposition (classify_source_failure e)) else None)"
  | (incomplete) w1 l w2 where "full_ensure_bootstrapping E (fq_stream rq) w = (Inr (), w1)"
      "resolve_historical_lower_bound ops E (fq_stream rq) (fq_max_windows rq) w1 = (Inr l, w2)"
      "fr_status r = INCOMPLETE" "fr_lower_bound r = Some l" "fr_backfill r = None" "fr_error_code r = None"
  | (backfilled) w1 l w2 t e b w3 where "full_ensure_bootstrapping E (fq_stream rq) w = (Inr (), w1)"
      "resolve_historical_lower_bound ops E (fq_stream rq) (fq_max_windows rq) w1 = (Inr l, w2)"
      "lr_resolved l" "lr_earliest_available_open_time_ms l = Some e" "w_disk w3 = w_disk w2"
      "mk_backfill_stream_request \<lparr>bq_stream = fq_stream rq, bq_start_time_ms = e,
         bq_end_time_ms = t + stream_step (fq_stream rq),
         bq_max_windows = fq_max_windows rq - lr_discovery_windows_used l, bq_resume_from_latest_committed = True\<rparr> =
       Inr \<lparr>bq_stream = fq_stream rq, bq_start_time_ms = e,
         bq_end_time_ms = t + stream_step (fq_stream rq),
         bq_max_windows = fq_max_windows rq - lr_discovery_windows_used l, bq_resume_from_latest_committed = True\<rparr>"
      "backfill_stream_history E n \<lparr>bq_stream = fq_stream rq, bq_start_time_ms = e,
         bq_end_time_ms = t + stream_step (fq_stream rq),
         bq_max_windows = fq_max_windows rq - lr_discovery_windows_used l, bq_resume_from_latest_committed = True\<rparr> w3 =
       (Inr b, w')"
      "fr_status r = BACKFILLED" "fr_lower_bound r = Some l" "fr_backfill r = Some b" "fr_target_open_time_ms r = Some t"
      "fr_error_code r = bs_error_code b" "fr_failure_disposition r = bs_failure_disposition b"
proof -
  obtain w1 where w1: "full_ensure_bootstrapping E (fq_stream rq) w = (Inr (), w1)"
    using assms(1) by (auto simp: bootstrap_full_stream_history_def Let_def bindE_eq_Inr)
  obtain x w2 where x: "resolve_historical_lower_bound ops E (fq_stream rq) (fq_max_windows rq) w1 = (x, w2)" by fastforce
  show thesis
  proof (cases x)
    case (Inl e)
    with assms(1) w1 x have "fr_status r = LOWER_BOUND_UNRESOLVED" "fr_lower_bound r = None" "fr_backfill r = None"
      "fr_error_code r = Some (class_name (exn_cls e))" "fr_error_detail r = Some (exn_str e)"
      "fr_failure_disposition r = (if exn_cls e = HistoricalLowerBoundUnavailable
         then Some (sf_disposition (classify_source_failure e)) else None)"
      by (auto simp: bootstrap_full_stream_history_def tryE_def record_stream_failure_def Let_def bindE_def run_now_ms
          split: sum.splits prod.splits if_splits)
    with unresolved [OF w1] x Inl show thesis by blast
  next
    case (Inr l)
    define t where "t = e_now E (w_ticks w2) - e_now E (w_ticks w2) mod stream_step (fq_stream rq) - stream_step (fq_stream rq)"
    define w3 where "w3 = w2\<lparr>w_ticks := Suc (w_ticks w2)\<rparr>"
    have run: "bootstrap_from_lower_bound E n rq \<lparr>fr_stream = fq_stream rq, fr_status = INCOMPLETE,
        fr_max_windows = fq_max_windows rq, fr_target_open_time_ms = None, fr_lower_bound = Some l, fr_backfill = None,
        fr_error_code = None, fr_error_detail = None, fr_failure_disposition = None\<rparr> l w2 = (Inr r, w')"
      using assms(1) w1 x Inr by (simp add: bootstrap_full_stream_history_def tryE_def bindE_def Let_def)
    have inc: thesis if "fr_status r = INCOMPLETE" "fr_lower_bound r = Some l" "fr_backfill r = None" "fr_error_code r = None"
      using incomplete [OF w1] x Inr that by blast
    show thesis
    proof (cases "lr_resolved l \<and> lr_discovery_windows_used l < fq_max_windows rq")
      case False
      with run show thesis
        by (intro inc) (auto simp: bootstrap_from_lower_bound_def bindE_def run_now_ms Let_def not_less split: if_splits)
    next
      case True
      then obtain e b where eb: "lr_earliest_available_open_time_ms l = Some e"
        "mk_backfill_stream_request \<lparr>bq_stream = fq_stream rq, bq_start_time_ms = e,
         bq_end_time_ms = t + stream_step (fq_stream rq),
         bq_max_windows = fq_max_windows rq - lr_discovery_windows_used l, bq_resume_from_latest_committed = True\<rparr> =
         Inr \<lparr>bq_stream = fq_stream rq, bq_start_time_ms = e, bq_end_time_ms = t + stream_step (fq_stream rq),
         bq_max_windows = fq_max_windows rq - lr_discovery_windows_used l, bq_resume_from_latest_committed = True\<rparr>"
        "backfill_stream_history E n \<lparr>bq_stream = fq_stream rq, bq_start_time_ms = e,
         bq_end_time_ms = t + stream_step (fq_stream rq),
         bq_max_windows = fq_max_windows rq - lr_discovery_windows_used l, bq_resume_from_latest_committed = True\<rparr> w3 =
         (Inr b, w')"
        "fr_status r = BACKFILLED \<and> fr_lower_bound r = Some l \<and> fr_backfill r = Some b \<and> fr_target_open_time_ms r = Some t \<and>
         fr_error_code r = bs_error_code b \<and> fr_failure_disposition r = bs_failure_disposition b"
        using run
        by (auto simp: bootstrap_from_lower_bound_def bindE_eq_Inr run_now_ms Let_def t_def w3_def
            mk_backfill_stream_request_def split: if_splits option.splits)
      have "w_disk w3 = w_disk w2" by (simp add: w3_def)
      with backfilled [OF w1] x Inr True eb show thesis by blast
    qed
  qed
qed

text \<open>
  C21. A full bootstrap stays within its budget and tells what it did: discovery and backfill together
  use at most \<open>max_windows\<close> windows, the database only evolves, a backfill ran exactly when the
  status says so and only after a resolved lower bound, and a bootstrap that reached its target left
  the stream out of bootstrapping with its committed candles up to the target.
\<close>

theorem full_bootstrap_correct:
  assumes "service_inv (w_disk w)"
    and "bootstrap_full_stream_history (candle_lb_ops E m) E n rq w = (Inr r, w')"
    and "0 < fq_max_windows rq"
  shows "evolves (w_disk w) (w_disk w') \<and> total_windows_used r \<le> fq_max_windows rq \<and>
     (fr_status r = BACKFILLED \<longleftrightarrow> fr_backfill r \<noteq> None) \<and> (fr_backfill r \<noteq> None \<longrightarrow> lower_bound_resolved r) \<and>
     (reached_target r \<longrightarrow>
        (\<exists>target st. fr_target_open_time_ms r = Some target \<and> get_stream_state (w_disk w') (fq_stream rq) = Inr st \<and>
           ss_state st \<noteq> BOOTSTRAPPING \<and> covers st target))"
proof -
  have ev: "evolves (w_disk w) (w_disk w')" by (rule run_evolves [OF candle_lb.keeps_bootstrap assms(2)])
  from assms(2) show ?thesis
  proof (cases rule: bootstrap_returns)
    case (unresolved w1 e w2)
    with ev assms(3) show ?thesis
      by (simp add: total_windows_used_def discovery_windows_used_def backfill_windows_attempted_def reached_target_def)
  next
    case (incomplete w1 l w2)
    with ev lower_bound_budget [OF incomplete(2)] show ?thesis
      by (simp add: total_windows_used_def discovery_windows_used_def backfill_windows_attempted_def reached_target_def)
  next
    case (backfilled w1 l w2 t e b w3)
    have ev2: "evolves (w_disk w) (w_disk w2)"
      by (rule evolves_trans [OF run_evolves [OF keeps_full_ensure backfilled(1)]
            run_evolves [OF candle_lb.keeps_lower_bound backfilled(2)]])
    have inv3: "service_inv (w_disk w3)" using evolvesD(1) [OF ev2 assms(1)] backfilled(5) by simp
    note b = backfill_effect [OF inv3 backfilled(6,7)]
    have "fq_max_windows rq - lr_discovery_windows_used l > 0"
      using backfilled(6) by (auto simp: mk_backfill_stream_request_def split: if_splits)
    then show ?thesis
      using ev b backfilled lower_bound_budget [OF backfilled(2)]
      by (auto simp: total_windows_used_def discovery_windows_used_def backfill_windows_attempted_def reached_target_def
          lower_bound_resolved_def split: if_splits)
  qed
qed

text \<open>
  C36. What a bootstrap reports when discovery raises: no lower bound, no backfill, and the class and
  text of the exception. The disposition of the failure is reported only for
  \<open>HistoricalLowerBoundUnavailable\<close>; for every other exception the result carries none, even when
  the failure recorded on the stream is fatal.
\<close>

theorem bootstrap_discovery_failure:
  assumes "full_ensure_bootstrapping E (fq_stream rq) w = (Inr (), w1)"
    and "resolve_historical_lower_bound ops E (fq_stream rq) (fq_max_windows rq) w1 = (Inl e, w2)"
    and "bootstrap_full_stream_history ops E n rq w = (Inr r, w')"
  shows "fr_status r = LOWER_BOUND_UNRESOLVED \<and> fr_lower_bound r = None \<and> fr_backfill r = None \<and>
     fr_error_code r = Some (class_name (exn_cls e)) \<and> fr_error_detail r = Some (exn_str e) \<and>
     fr_failure_disposition r = (if exn_cls e = HistoricalLowerBoundUnavailable
       then Some (sf_disposition (classify_source_failure e)) else None)"
  using assms(3) by (cases rule: bootstrap_returns) (use assms(1,2) in auto)

section \<open>The run over all streams\<close>

definition outcome_ok :: "multi_stream_outcome \<Rightarrow> bool" where
  "outcome_ok oc \<longleftrightarrow> mo_error_code oc = None \<and>
     (case mo_result oc of None \<Rightarrow> False | Some result \<Rightarrow> reached_target result)"

definition outcome_fatal :: "multi_stream_outcome \<Rightarrow> bool" where
  "outcome_fatal oc \<longleftrightarrow> mo_failure_disposition oc = Some FATAL"

definition verdict :: "multi_stream_outcome list \<Rightarrow> run_status" where
  "verdict os =
     (if \<exists>oc \<in> set os. outcome_fatal oc then RUN_FAILED
      else if \<forall>oc \<in> set os. outcome_ok oc then COMPLETE else RUN_INCOMPLETE)"

lemma verdict_snoc:
  "\<not> (\<exists>oc \<in> set os. outcome_fatal oc) \<Longrightarrow> \<not> outcome_fatal oc \<Longrightarrow>
   (if outcome_ok oc then verdict os else RUN_INCOMPLETE) = verdict (os @ [oc])"
  by (auto simp: verdict_def)

lemma stream_loop_run:
  "stream_loop bootstrap n c ss os ov w = (Inr (stop, os', ov'), w') \<Longrightarrow>
   ov = verdict os \<Longrightarrow> \<not> (\<exists>oc \<in> set os. outcome_fatal oc) \<Longrightarrow>
   \<exists>new rest. os' = os @ new \<and> map mo_stream new @ rest = ss \<and> ov' = verdict os' \<and>
     (stop \<longleftrightarrow> (\<exists>oc \<in> set os'. outcome_fatal oc)) \<and> (\<not> stop \<longrightarrow> rest = [])"
proof (induction ss arbitrary: os ov w)
  case (Cons s ss)
  obtain r w1 where r: "bootstrap c s \<lparr>fq_stream = s, fq_max_windows = n\<rparr> w = (Inr r, w1)"
    using Cons.prems(1) by (auto simp: bindE_eq_Inr mk_full_bootstrap_request_def split: if_splits)
  define oc where "oc = \<lparr>mo_coverage = c, mo_stream = s, mo_result = Some r,
           mo_error_code = fr_error_code r, mo_error_detail = fr_error_detail r,
           mo_failure_disposition = fr_failure_disposition r\<rparr>"
  have oc: "mo_stream oc = s" "outcome_fatal oc \<longleftrightarrow> fr_failure_disposition r = Some FATAL"
    "outcome_ok oc \<longleftrightarrow> fr_error_code r = None \<and> reached_target r"
    by (simp_all add: oc_def outcome_ok_def outcome_fatal_def)
  show ?case
  proof (cases "outcome_fatal oc")
    case True
    then have "stop" "os' = os @ [oc]" "ov' = RUN_FAILED"
      using Cons.prems(1) r oc by (auto simp: bindE_def mk_full_bootstrap_request_def oc_def Let_def split: if_splits)
    with True oc show ?thesis by (intro exI [of _ "[oc]"] exI [of _ ss]) (auto simp: verdict_def)
  next
    case False
    then have rec: "stream_loop bootstrap n c ss (os @ [oc]) (if outcome_ok oc then ov else RUN_INCOMPLETE) w1 =
        (Inr (stop, os', ov'), w')"
      using Cons.prems(1) r oc
      by (auto simp: bindE_def mk_full_bootstrap_request_def oc_def Let_def split: if_splits)
    have "\<not> (\<exists>oc \<in> set (os @ [oc]). outcome_fatal oc)" using False Cons.prems(3) by simp
    from Cons.IH [OF rec _ this] verdict_snoc [OF Cons.prems(3) False] Cons.prems(2) obtain new rest where
      "os' = (os @ [oc]) @ new" "map mo_stream new @ rest = ss" "ov' = verdict os'"
      "stop \<longleftrightarrow> (\<exists>oc \<in> set os'. outcome_fatal oc)" "\<not> stop \<longrightarrow> rest = []"
      by blast
    then show ?thesis using oc(1) by (intro exI [of _ "oc # new"] exI [of _ rest]) auto
  qed
qed (auto simp: verdict_def)

lemma coverage_loop_run:
  "coverage_loop verify bootstrap n cs os ov w = (Inr r, w') \<Longrightarrow>
   ov = verdict os \<Longrightarrow> \<not> (\<exists>oc \<in> set os. outcome_fatal oc) \<Longrightarrow> \<forall>c \<in> set cs. stream_keys c \<noteq> [] \<Longrightarrow>
   \<exists>new rest. mr_outcomes r = os @ new \<and> map mo_stream new @ rest = concat (map stream_keys cs) \<and>
     mr_status r = verdict (mr_outcomes r) \<and> (mr_status r \<noteq> RUN_FAILED \<longrightarrow> rest = [])"
proof (induction cs arbitrary: os ov w)
  case (Cons c cs)
  obtain v w1 where v: "verify c w = (v, w1)" by fastforce
  show ?case
  proof (cases v)
    case (Inl e)
    define d where "d = classify_source_failure e"
    define fs where "fs = map (\<lambda>stream. \<lparr>mo_coverage = c, mo_stream = stream, mo_result = None,
               mo_error_code = Some (sf_code d), mo_error_detail = Some (sf_detail d),
               mo_failure_disposition = Some (sf_disposition d)\<rparr>) (stream_keys c)"
    have fs: "map mo_stream fs = stream_keys c" "fs \<noteq> []" "\<forall>oc \<in> set fs. \<not> outcome_ok oc"
      "\<forall>oc \<in> set fs. outcome_fatal oc \<longleftrightarrow> sf_disposition d = FATAL"
      using Cons.prems(4) by (auto simp: fs_def outcome_ok_def outcome_fatal_def o_def)
    have "if sf_disposition d = FATAL then r = \<lparr>mr_outcomes = os @ fs, mr_status = RUN_FAILED\<rparr>
      else coverage_loop verify bootstrap n cs (os @ fs) RUN_INCOMPLETE w1 = (Inr r, w')"
      using Cons.prems(1) v Inl by (auto simp: bindE_def tryE_def Let_def fs_def d_def)
    moreover have "verdict (os @ fs) = (if sf_disposition d = FATAL then RUN_FAILED else RUN_INCOMPLETE)"
      using fs Cons.prems(3) by (auto simp: verdict_def neq_Nil_conv)
    moreover have "sf_disposition d \<noteq> FATAL \<Longrightarrow> \<not> (\<exists>oc \<in> set (os @ fs). outcome_fatal oc)"
      using fs Cons.prems(3) by auto
    ultimately consider "r = \<lparr>mr_outcomes = os @ fs, mr_status = RUN_FAILED\<rparr>" "verdict (os @ fs) = RUN_FAILED"
      | new rest where "mr_outcomes r = (os @ fs) @ new" "map mo_stream new @ rest = concat (map stream_keys cs)"
          "mr_status r = verdict (mr_outcomes r)" "mr_status r \<noteq> RUN_FAILED \<longrightarrow> rest = []"
      using Cons.IH [of "os @ fs" RUN_INCOMPLETE w1] Cons.prems(4) by (cases "sf_disposition d = FATAL") (simp, fastforce)
    then show ?thesis
    proof cases
      case 1
      with fs show ?thesis by (intro exI [of _ fs] exI [of _ "concat (map stream_keys cs)"]) simp
    next
      case 2
      with fs show ?thesis by (intro exI [of _ "fs @ new"] exI [of _ rest]) simp
    qed
  next
    case (Inr m)
    obtain stop os1 ov1 w2 where l: "stream_loop bootstrap n c (stream_keys c) os ov w1 = (Inr (stop, os1, ov1), w2)"
      and k: "if stop then r = \<lparr>mr_outcomes = os1, mr_status = ov1\<rparr>
        else coverage_loop verify bootstrap n cs os1 ov1 w2 = (Inr r, w')"
      using Cons.prems(1) v Inr by (auto simp: bindE_eq_Inr tryE_def split: if_splits)
    obtain new rest where new: "os1 = os @ new" "map mo_stream new @ rest = stream_keys c" "ov1 = verdict os1"
      "stop \<longleftrightarrow> (\<exists>oc \<in> set os1. outcome_fatal oc)" "\<not> stop \<longrightarrow> rest = []"
      using stream_loop_run [OF l Cons.prems(2,3)] by blast
    show ?thesis
    proof (cases stop)
      case True
      with new k show ?thesis
        by (intro exI [of _ new] exI [of _ "rest @ concat (map stream_keys cs)"]) (auto simp: verdict_def)
    next
      case False
      then have run: "coverage_loop verify bootstrap n cs os1 ov1 w2 = (Inr r, w')"
        "\<not> (\<exists>oc \<in> set os1. outcome_fatal oc)" "\<forall>c \<in> set cs. stream_keys c \<noteq> []"
        using k new(4) Cons.prems(4) by simp_all
      obtain new' rest' where "mr_outcomes r = os1 @ new'" "map mo_stream new' @ rest' = concat (map stream_keys cs)"
        "mr_status r = verdict (mr_outcomes r)" "mr_status r \<noteq> RUN_FAILED \<longrightarrow> rest' = []"
        using Cons.IH [OF run(1) new(3) run(2,3)] by blast
      with new False show ?thesis by (intro exI [of _ "new @ new'"] exI [of _ rest']) auto
    qed
  qed
qed (auto)

text \<open>
  The status of a run over all streams is exactly what its outcomes say, whatever the verifier and
  the bootstrap do: failed when some outcome is fatal, complete when every outcome reached its target
  without an error, incomplete otherwise. The outcomes are in the order of the configuration, one for
  every stream of every enabled instrument, and only a failed run stops before the last.
\<close>

theorem multi_stream_status:
  assumes "backfill_all_configured_streams verify bootstrap coverages request w = (Inr r, w')"
    and "\<forall>c \<in> set coverages. stream_keys c \<noteq> []"
  shows "mr_status r = verdict (mr_outcomes r) \<and>
     (\<exists>rest. map mo_stream (mr_outcomes r) @ rest = concat (map stream_keys (filter ic_enabled coverages)) \<and>
        (mr_status r \<noteq> RUN_FAILED \<longrightarrow> rest = []))"
proof -
  have "coverage_loop verify bootstrap (mq_max_windows_per_stream request) (filter ic_enabled coverages) [] COMPLETE w = (Inr r, w')"
    using assms(1) by (auto simp: backfill_all_configured_streams_def Let_def split: if_splits)
  from coverage_loop_run [OF this] assms(2) show ?thesis by (simp add: verdict_def [of "[]"]) blast
qed

section \<open>Examples\<close>

lemma run_Inr: "map_sum id f (fst x) = Inr y \<Longrightarrow> \<exists>r w'. x = (Inr r, w') \<and> f r = y"
  by (cases x; cases "fst x") auto

definition example_full_request :: full_bootstrap_request where
  "example_full_request = \<lparr>fq_stream = example_stream, fq_max_windows = 2\<rparr>"

definition example_coverage :: instrument_coverage where
  "example_coverage = \<lparr>ic_instrument = InstrumentKey ''BTCUSDT.P'', ic_exchange_symbol = ''BTCUSDT'', ic_enabled = True,
     ic_canonical_timeframes = [TF_1m], ic_history_policy = FULL_AVAILABLE, ic_open_interest = False\<rparr>"

definition broken_env :: env where
  "broken_env = quiet_env\<lparr>e_launch_time := \<lambda>n i. Inl (Exn BybitPayloadError ''malformed'')\<rparr>"

lemma example_bootstrap_run:
  "map_sum id (\<lambda>r. (fr_status r, total_windows_used r))
     (fst (bootstrap_full_stream_history (candle_lb_ops quiet_env 1) quiet_env 1 example_full_request example_world)) =
   Inr (INCOMPLETE, 2)"
  by code_simp

theorem full_bootstrap_correct_witness:
  "\<exists>r w'. bootstrap_full_stream_history (candle_lb_ops quiet_env 1) quiet_env 1 example_full_request example_world = (Inr r, w') \<and>
     evolves (w_disk example_world) (w_disk w') \<and> total_windows_used r \<le> 2 \<and> fr_backfill r = None"
proof -
  obtain r w' where run: "bootstrap_full_stream_history (candle_lb_ops quiet_env 1) quiet_env 1 example_full_request example_world =
      (Inr r, w')" and r: "fr_status r = INCOMPLETE"
    using run_Inr [OF example_bootstrap_run] by auto
  from full_bootstrap_correct [OF example_service_inv run] r run show ?thesis by (simp add: example_full_request_def)
qed

lemma broken_bootstrap_run:
  "map_sum id fr_failure_disposition
     (fst (bootstrap_full_stream_history (candle_lb_ops broken_env 1) broken_env 1 example_full_request example_world)) = Inr None"
  "fst (full_ensure_bootstrapping broken_env example_stream example_world) = Inr ()"
  "fst (resolve_historical_lower_bound (candle_lb_ops broken_env 1) broken_env example_stream 2
     (snd (full_ensure_bootstrapping broken_env example_stream example_world))) = Inl (Exn BybitPayloadError ''malformed'')"
  by code_simp+

theorem bootstrap_discovery_failure_witness:
  "\<exists>r w'. bootstrap_full_stream_history (candle_lb_ops broken_env 1) broken_env 1 example_full_request example_world = (Inr r, w') \<and>
     fr_error_code r = Some ''BybitPayloadError'' \<and> fr_failure_disposition r = None \<and>
     sf_disposition (classify_source_failure (Exn BybitPayloadError ''malformed'')) = FATAL"
proof -
  obtain r w' where run: "bootstrap_full_stream_history (candle_lb_ops broken_env 1) broken_env 1 example_full_request example_world =
      (Inr r, w')" using run_Inr [OF broken_bootstrap_run(1)] by auto
  have "full_ensure_bootstrapping broken_env (fq_stream example_full_request) example_world =
      (Inr (), snd (full_ensure_bootstrapping broken_env example_stream example_world))"
    using broken_bootstrap_run(2) by (simp add: prod_eq_iff example_full_request_def)
  moreover have "resolve_historical_lower_bound (candle_lb_ops broken_env 1) broken_env (fq_stream example_full_request)
      (fq_max_windows example_full_request) (snd (full_ensure_bootstrapping broken_env example_stream example_world)) =
      (Inl (Exn BybitPayloadError ''malformed''), snd (resolve_historical_lower_bound (candle_lb_ops broken_env 1) broken_env
        example_stream 2 (snd (full_ensure_bootstrapping broken_env example_stream example_world))))"
    using broken_bootstrap_run(3) by (simp add: prod_eq_iff example_full_request_def)
  ultimately show ?thesis
    using bootstrap_discovery_failure [OF _ _ run] run by (auto simp: classify_source_failure_def)
qed

lemma example_multi_run:
  "map_sum id mr_status (fst (backfill_all_configured_streams
       (\<lambda>c. returnE \<lparr>vm_coverage = c, vm_specification = undefined\<rparr>)
       (\<lambda>c s. bootstrap_full_stream_history (candle_lb_ops quiet_env 1) quiet_env 1)
       [example_coverage] \<lparr>mq_max_windows_per_stream = 2\<rparr> example_world)) = Inr RUN_INCOMPLETE"
  by code_simp

theorem multi_stream_status_witness:
  "\<exists>r w'. backfill_all_configured_streams (\<lambda>c. returnE \<lparr>vm_coverage = c, vm_specification = undefined\<rparr>)
       (\<lambda>c s. bootstrap_full_stream_history (candle_lb_ops quiet_env 1) quiet_env 1)
       [example_coverage] \<lparr>mq_max_windows_per_stream = 2\<rparr> example_world = (Inr r, w') \<and>
     map mo_stream (mr_outcomes r) = [example_stream] \<and> verdict (mr_outcomes r) = RUN_INCOMPLETE"
proof -
  obtain r w' where run: "backfill_all_configured_streams (\<lambda>c. returnE \<lparr>vm_coverage = c, vm_specification = undefined\<rparr>)
       (\<lambda>c s. bootstrap_full_stream_history (candle_lb_ops quiet_env 1) quiet_env 1)
       [example_coverage] \<lparr>mq_max_windows_per_stream = 2\<rparr> example_world = (Inr r, w')" and r: "mr_status r = RUN_INCOMPLETE"
    using run_Inr [OF example_multi_run] by auto
  have "\<forall>c \<in> set [example_coverage]. stream_keys c \<noteq> []" by (simp add: stream_keys_def example_coverage_def)
  from multi_stream_status [OF run this] r run show ?thesis
    by (auto simp: stream_keys_def example_coverage_def example_stream_def)
qed

end
