(* ===== verification/Supervisor.thy ===== *)
theory Supervisor
  imports Backfill
begin

text \<open>
  application/realtime: events.py, outcomes.py, frontier.py, supervisor\_types.py,
  supervisor\_state.py and supervisor.py. The supervisor is an object in memory; its operations are
  programs over its state, so that a \<open>KeyError\<close> for an unknown stream or topic keeps the changes
  made before it. The clock is the argument \<open>clk\<close>: its value at every call, counted in
  \<open>sv_ticks\<close>.
\<close>

section \<open>events.py and outcomes.py\<close>

datatype realtime_event =
    Connected int
  | SubscriptionConfirmed "string list" int
  | HeartbeatObserved int
  | CandleObserved stream_key observed_candle
  | TransportFailed string string int
  | Disconnected "int option" "string option" int
  | ReconnectExhausted int int
  | Stopped int

datatype recovery_reason =
  STARTUP_RECONCILIATION | DISCONNECT | STALE_BAR | SEQUENCE_DISCONTINUITY | REJECTED_OBSERVATION

record recovery_required =
  rc_stream :: stream_key
  rc_reason :: recovery_reason
  rc_detected_at_ms :: int
  rc_suspected_start_time_ms :: "int option"

datatype realtime_classification = RT_COMMITTED | RT_DUPLICATE | RT_CORRECTED | RT_REJECTED | RT_FAILED

fun realtime_classification_value :: "realtime_classification \<Rightarrow> string" where
  "realtime_classification_value RT_COMMITTED = ''committed''"
| "realtime_classification_value RT_DUPLICATE = ''duplicate''"
| "realtime_classification_value RT_CORRECTED = ''corrected''"
| "realtime_classification_value RT_REJECTED = ''rejected''"
| "realtime_classification_value RT_FAILED = ''failed''"

record realtime_outcome =
  rt_stream :: stream_key
  rt_open_time_ms :: int
  rt_classification :: realtime_classification
  rt_issue_codes :: "string list"
  rt_error_code :: "string option"
  rt_error_detail :: "string option"

section \<open>frontier.py\<close>

text \<open>\<open>previous or x\<close>: Python takes \<open>x\<close> for \<open>None\<close> and for zero.\<close>

definition or_else :: "int option \<Rightarrow> int \<Rightarrow> int" where
  "or_else previous x = (case previous of None \<Rightarrow> x | Some p \<Rightarrow> if p = 0 then x else p)"

definition extend_frontier :: "int option \<Rightarrow> int \<Rightarrow> stream_key \<Rightarrow> int" where
  "extend_frontier previous open_time_ms stream =
     (case previous of
        Some p \<Rightarrow> if open_time_ms > p + stream_step stream then p
                  else max (or_else previous open_time_ms) open_time_ms
      | None \<Rightarrow> max (or_else previous open_time_ms) open_time_ms)"

definition advance_frontier :: "int option \<Rightarrow> int option \<Rightarrow> int option" where
  "advance_frontier current restored_through =
     (case current of None \<Rightarrow> restored_through | Some c \<Rightarrow> Some (max c (or_else restored_through c)))"

section \<open>supervisor\_types.py\<close>

datatype realtime_stream_status =
    RS_EXPECTED | RS_SUBSCRIBED | RS_LIVE | RS_STALE | RS_DISCONNECTED | RS_RECOVERY_REQUIRED
  | RS_FAILED | RS_STOPPED

datatype stale_policy = StalePolicy (grace_ms: int)

definition mk_stale_policy :: "int \<Rightarrow> stale_policy res" where
  "mk_stale_policy g =
     (if g < 0 then Inl (Exn ValueError ''stale grace_ms must be non-negative'') else Inr (StalePolicy g))"

record realtime_stream_facts =
  rf_stream :: stream_key
  rf_status :: realtime_stream_status
  rf_subscription_active :: bool
  rf_last_transport_activity_ms :: "int option"
  rf_last_confirmed_observed_at_ms :: "int option"
  rf_last_confirmed_open_time_ms :: "int option"
  rf_last_successful_open_time_ms :: "int option"
  rf_last_checked_expected_open_ms :: "int option"
  rf_pending_expected_open_ms :: "int option"
  rf_last_ingestion_classification :: "string option"
  rf_recovery_pending :: bool
  rf_recovery_restored :: bool
  rf_recovery_completed_at_ms :: "int option"
  rf_fatal_error_code :: "string option"
  rf_open_interest_required :: bool
  rf_last_open_interest_open_time_ms :: "int option"
  rf_expected_open_time_ms :: "int option"

definition continuity_frontier_ms :: "realtime_stream_facts \<Rightarrow> int option" where
  "continuity_frontier_ms f =
     (if \<not> rf_open_interest_required f then rf_last_successful_open_time_ms f
      else case (rf_last_successful_open_time_ms f, rf_last_open_interest_open_time_ms f) of
             (Some a, Some b) \<Rightarrow> Some (min a b)
           | _ \<Rightarrow> None)"

definition facts_current :: "realtime_stream_facts \<Rightarrow> bool" where
  "facts_current f =
     (case (rf_expected_open_time_ms f, continuity_frontier_ms f) of
        (Some expected, Some frontier) \<Rightarrow> frontier \<ge> expected
      | _ \<Rightarrow> False)"

definition data_ready :: "realtime_stream_facts \<Rightarrow> bool" where
  "data_ready f \<longleftrightarrow> rf_subscription_active f \<and> rf_recovery_restored f \<and> \<not> rf_recovery_pending f \<and>
     rf_fatal_error_code f = None \<and> facts_current f"

definition published_through :: "realtime_stream_facts \<Rightarrow> int \<Rightarrow> bool" where
  "published_through f open_time_ms \<longleftrightarrow> data_ready f \<and>
     (case continuity_frontier_ms f of None \<Rightarrow> False | Some frontier \<Rightarrow> frontier \<ge> open_time_ms)"

definition realtime_live :: "realtime_stream_facts \<Rightarrow> bool" where
  "realtime_live f \<longleftrightarrow> data_ready f \<and> rf_status f = RS_LIVE \<and>
     (case (rf_recovery_completed_at_ms f, rf_last_confirmed_observed_at_ms f) of
        (Some completed, Some observed) \<Rightarrow> observed \<ge> completed
      | _ \<Rightarrow> False)"

section \<open>supervisor\_state.py\<close>

text \<open>
  The dict \<open>_facts\<close>, in its order of insertion, and the attributes of the supervisor that change.
  Every value carries its own key.
\<close>

record supervisor =
  sv_facts :: "realtime_stream_facts list"
  sv_topic_to_stream :: "(string \<times> stream_key) list"
  sv_grace_ms :: int
  sv_disconnected :: bool
  sv_ticks :: nat

type_synonym 'a sup = "(supervisor, 'a) prog"

definition initial_facts :: "stream_key \<Rightarrow> int option \<Rightarrow> bool \<Rightarrow> int option \<Rightarrow> realtime_stream_facts" where
  "initial_facts stream latest oi_required oi_latest =
     \<lparr>rf_stream = stream, rf_status = RS_EXPECTED, rf_subscription_active = False,
      rf_last_transport_activity_ms = None, rf_last_confirmed_observed_at_ms = None,
      rf_last_confirmed_open_time_ms = None, rf_last_successful_open_time_ms = latest,
      rf_last_checked_expected_open_ms = None, rf_pending_expected_open_ms = None,
      rf_last_ingestion_classification = None, rf_recovery_pending = False, rf_recovery_restored = False,
      rf_recovery_completed_at_ms = None, rf_fatal_error_code = None, rf_open_interest_required = oi_required,
      rf_last_open_interest_open_time_ms = oi_latest, rf_expected_open_time_ms = None\<rparr>"

definition mk_supervisor ::
  "stream_key list \<Rightarrow> (string \<times> stream_key) list \<Rightarrow> int \<Rightarrow> (stream_key \<times> int option) list \<Rightarrow>
   (stream_key \<times> int option) list \<Rightarrow> supervisor res" where
  "mk_supervisor streams topic_to_stream grace initial initial_oi =
     (if streams = [] then Inl (Exn ValueError ''at least one realtime stream is required'')
      else Inr \<lparr>sv_facts = map (\<lambda>stream. initial_facts stream
                  (case map_of initial stream of None \<Rightarrow> None | Some x \<Rightarrow> x)
                  (map_of initial_oi stream \<noteq> None)
                  (case map_of initial_oi stream of None \<Rightarrow> None | Some x \<Rightarrow> x)) (dict_fromkeys streams),
                sv_topic_to_stream = topic_to_stream, sv_grace_ms = grace, sv_disconnected = False,
                sv_ticks = 0\<rparr>)"

definition facts_of :: "stream_key \<Rightarrow> realtime_stream_facts sup" where
  "facts_of stream sv =
     (case find (\<lambda>f. rf_stream f = stream) (sv_facts sv) of
        None \<Rightarrow> (Inl (Exn KeyError (stream_key_str stream)), sv)
      | Some f \<Rightarrow> (Inr f, sv))"

definition put_facts :: "stream_key \<Rightarrow> realtime_stream_facts \<Rightarrow> unit sup" where
  "put_facts stream f sv =
     (Inr (), sv\<lparr>sv_facts := map (\<lambda>g. if rf_stream g = stream then f else g) (sv_facts sv)\<rparr>)"

text \<open>\<open>self._facts[stream] = replace(self._facts[stream], ...)\<close>.\<close>

definition update_facts :: "stream_key \<Rightarrow> (realtime_stream_facts \<Rightarrow> realtime_stream_facts) \<Rightarrow> unit sup" where
  "update_facts stream change = bindE (facts_of stream) (\<lambda>f. put_facts stream (change f))"

definition subscribe :: "stream_key \<Rightarrow> int \<Rightarrow> unit sup" where
  "subscribe stream observed_at_ms =
     update_facts stream (\<lambda>f. f\<lparr>rf_status := RS_SUBSCRIBED, rf_subscription_active := True,
       rf_last_transport_activity_ms := Some observed_at_ms\<rparr>)"

definition observe_candle :: "stream_key \<Rightarrow> observed_candle \<Rightarrow> unit sup" where
  "observe_candle stream candle =
     update_facts stream (\<lambda>f. f\<lparr>rf_last_transport_activity_ms := Some (oc_observed_at_ms candle),
       rf_last_confirmed_observed_at_ms :=
         (if oc_confirmed candle then Some (oc_observed_at_ms candle) else rf_last_confirmed_observed_at_ms f),
       rf_last_confirmed_open_time_ms :=
         (if oc_confirmed candle then Some (oc_open_time_ms candle) else rf_last_confirmed_open_time_ms f)\<rparr>)"

definition record_success :: "realtime_outcome \<Rightarrow> int option sup" where
  "record_success outcome =
     bindE (facts_of (rt_stream outcome)) (\<lambda>f.
     let previous = rf_last_successful_open_time_ms f
     in bindE (put_facts (rt_stream outcome) (f\<lparr>rf_status := RS_LIVE,
            rf_last_successful_open_time_ms :=
              Some (extend_frontier previous (rt_open_time_ms outcome) (rt_stream outcome)),
            rf_last_ingestion_classification :=
              Some (realtime_classification_value (rt_classification outcome))\<rparr>)) (\<lambda>_.
        returnE previous))"

definition state_synchronize_successful_open_time :: "stream_key \<Rightarrow> int \<Rightarrow> unit sup" where
  "state_synchronize_successful_open_time stream open_time_ms =
     update_facts stream (\<lambda>f. f\<lparr>rf_last_successful_open_time_ms :=
       Some (max (or_else (rf_last_successful_open_time_ms f) open_time_ms) open_time_ms)\<rparr>)"

definition record_rejected :: "realtime_outcome \<Rightarrow> unit sup" where
  "record_rejected outcome =
     update_facts (rt_stream outcome) (\<lambda>f. f\<lparr>rf_status := RS_RECOVERY_REQUIRED,
       rf_last_ingestion_classification := Some (realtime_classification_value (rt_classification outcome)),
       rf_recovery_pending := True, rf_recovery_restored := False\<rparr>)"

definition record_failed :: "realtime_outcome \<Rightarrow> unit sup" where
  "record_failed outcome =
     update_facts (rt_stream outcome) (\<lambda>f. f\<lparr>rf_status := RS_FAILED,
       rf_last_ingestion_classification := Some (realtime_classification_value (rt_classification outcome)),
       rf_fatal_error_code := Some (case rt_error_code outcome of
           None \<Rightarrow> ''realtime_ingestion_failed''
         | Some c \<Rightarrow> if c = [] then ''realtime_ingestion_failed'' else c)\<rparr>)"

definition required_facts ::
  "realtime_stream_status \<Rightarrow> int option \<Rightarrow> realtime_stream_facts \<Rightarrow> realtime_stream_facts" where
  "required_facts status pending_expected_open_ms f =
     f\<lparr>rf_status := status, rf_recovery_pending := True, rf_recovery_restored := False,
       rf_pending_expected_open_ms := (case pending_expected_open_ms of
           None \<Rightarrow> rf_pending_expected_open_ms f | Some p \<Rightarrow> Some p)\<rparr>"

definition require_recovery :: "stream_key \<Rightarrow> realtime_stream_status \<Rightarrow> int option \<Rightarrow> unit sup" where
  "require_recovery stream status pending_expected_open_ms =
     update_facts stream (required_facts status pending_expected_open_ms)"

definition commit_checked :: "realtime_stream_facts \<Rightarrow> int option" where
  "commit_checked f =
     (case rf_pending_expected_open_ms f of
        None \<Rightarrow> rf_last_checked_expected_open_ms f
      | Some pending \<Rightarrow>
          Some (case rf_last_checked_expected_open_ms f of None \<Rightarrow> pending | Some checked \<Rightarrow> max checked pending))"

definition state_record_recovery_result :: "stream_key \<Rightarrow> bool \<Rightarrow> bool \<Rightarrow> int \<Rightarrow> int option \<Rightarrow> unit sup" where
  "state_record_recovery_result stream restored fatal completed_at_ms restored_through_open_time_ms =
     update_facts stream (\<lambda>f.
       if fatal
       then f\<lparr>rf_status := RS_FAILED, rf_recovery_pending := False, rf_recovery_restored := False,
              rf_fatal_error_code := Some ''recovery_fatal_failure''\<rparr>
       else f\<lparr>rf_status := (if restored \<and> rf_subscription_active f then RS_SUBSCRIBED else RS_RECOVERY_REQUIRED),
              rf_recovery_pending := \<not> restored, rf_recovery_restored := restored,
              rf_recovery_completed_at_ms := (if restored then Some completed_at_ms else None),
              rf_last_checked_expected_open_ms :=
                (if restored then commit_checked f else rf_last_checked_expected_open_ms f),
              rf_pending_expected_open_ms := (if restored then None else rf_pending_expected_open_ms f),
              rf_last_successful_open_time_ms :=
                (if restored
                 then Some (or_else (advance_frontier (rf_last_successful_open_time_ms f)
                        restored_through_open_time_ms) 0)
                 else rf_last_successful_open_time_ms f),
              rf_last_open_interest_open_time_ms :=
                (if restored \<and> rf_open_interest_required f
                 then advance_frontier (rf_last_open_interest_open_time_ms f) restored_through_open_time_ms
                 else rf_last_open_interest_open_time_ms f)\<rparr>)"

text \<open>The loops over all streams.\<close>

definition map_facts :: "(realtime_stream_facts \<Rightarrow> realtime_stream_facts) \<Rightarrow> unit sup" where
  "map_facts change sv = (Inr (), sv\<lparr>sv_facts := map change (sv_facts sv)\<rparr>)"

definition mark_disconnected :: "int \<Rightarrow> unit sup" where
  "mark_disconnected observed_at_ms =
     map_facts (\<lambda>f. f\<lparr>rf_status := RS_DISCONNECTED, rf_subscription_active := False,
       rf_last_transport_activity_ms := Some observed_at_ms, rf_recovery_restored := False\<rparr>)"

definition mark_stopped :: "int \<Rightarrow> unit sup" where
  "mark_stopped observed_at_ms =
     map_facts (\<lambda>f. f\<lparr>rf_status := RS_STOPPED, rf_subscription_active := False,
       rf_last_transport_activity_ms := Some observed_at_ms\<rparr>)"

definition touch_all :: "int \<Rightarrow> unit sup" where
  "touch_all observed_at_ms = map_facts (\<lambda>f. f\<lparr>rf_last_transport_activity_ms := Some observed_at_ms\<rparr>)"

definition touch_subscribed :: "int \<Rightarrow> unit sup" where
  "touch_subscribed observed_at_ms =
     map_facts (\<lambda>f. if rf_subscription_active f then f\<lparr>rf_last_transport_activity_ms := Some observed_at_ms\<rparr> else f)"

section \<open>supervisor.py\<close>

definition sup_now :: "(nat \<Rightarrow> int) \<Rightarrow> int sup" where
  "sup_now clk sv = (Inr (clk (sv_ticks sv)), sv\<lparr>sv_ticks := Suc (sv_ticks sv)\<rparr>)"

definition signal :: "(nat \<Rightarrow> int) \<Rightarrow> stream_key \<Rightarrow> recovery_reason \<Rightarrow> int option \<Rightarrow> recovery_required list sup" where
  "signal clk stream reason suspected =
     bindE (facts_of stream) (\<lambda>f.
     let suspected = (case continuity_frontier_ms f of
           None \<Rightarrow> suspected
         | Some frontier \<Rightarrow>
             let proven_next = frontier + stream_step stream
             in Some (min (or_else suspected proven_next) proven_next))
     in bindE (sup_now clk) (\<lambda>now.
        returnE [\<lparr>rc_stream = stream, rc_reason = reason, rc_detected_at_ms = now,
                  rc_suspected_start_time_ms = suspected\<rparr>]))"

fun confirm_topics ::
  "(nat \<Rightarrow> int) \<Rightarrow> bool \<Rightarrow> int \<Rightarrow> string list \<Rightarrow> recovery_required list \<Rightarrow> recovery_required list sup" where
  "confirm_topics clk restored_after_disconnect observed_at_ms [] signals = returnE signals"
| "confirm_topics clk restored_after_disconnect observed_at_ms (topic # topics) signals =
     bindE (readE (\<lambda>sv. case map_of (sv_topic_to_stream sv) topic of
         None \<Rightarrow> Inl (Exn KeyError (py_repr topic)) | Some s \<Rightarrow> Inr s)) (\<lambda>stream.
     bindE (subscribe stream observed_at_ms) (\<lambda>_.
     if restored_after_disconnect
     then bindE (require_recovery stream RS_RECOVERY_REQUIRED None) (\<lambda>_.
          bindE (signal clk stream DISCONNECT None) (\<lambda>new.
          confirm_topics clk restored_after_disconnect observed_at_ms topics (signals @ new)))
     else confirm_topics clk restored_after_disconnect observed_at_ms topics signals))"

definition set_disconnected :: "bool \<Rightarrow> unit sup" where
  "set_disconnected b sv = (Inr (), sv\<lparr>sv_disconnected := b\<rparr>)"

definition subscriptions_confirmed :: "(nat \<Rightarrow> int) \<Rightarrow> string list \<Rightarrow> int \<Rightarrow> recovery_required list sup" where
  "subscriptions_confirmed clk topics observed_at_ms =
     bindE (readE (\<lambda>sv. Inr (sv_disconnected sv))) (\<lambda>restored_after_disconnect.
     bindE (set_disconnected False) (\<lambda>_.
     confirm_topics clk restored_after_disconnect observed_at_ms topics []))"

definition lost_connection :: "int \<Rightarrow> recovery_required list sup" where
  "lost_connection observed_at_ms =
     bindE (set_disconnected True) (\<lambda>_. bindE (mark_disconnected observed_at_ms) (\<lambda>_. returnE []))"

fun observe_event :: "(nat \<Rightarrow> int) \<Rightarrow> realtime_event \<Rightarrow> recovery_required list sup" where
  "observe_event clk (Connected tm) = bindE (touch_all tm) (\<lambda>_. returnE [])"
| "observe_event clk (SubscriptionConfirmed topics tm) = subscriptions_confirmed clk topics tm"
| "observe_event clk (HeartbeatObserved tm) = bindE (touch_subscribed tm) (\<lambda>_. returnE [])"
| "observe_event clk (CandleObserved stream candle) = bindE (observe_candle stream candle) (\<lambda>_. returnE [])"
| "observe_event clk (Disconnected code reason tm) = lost_connection tm"
| "observe_event clk (TransportFailed code detail tm) = lost_connection tm"
| "observe_event clk (ReconnectExhausted attempts tm) = lost_connection tm"
| "observe_event clk (Stopped tm) = bindE (mark_stopped tm) (\<lambda>_. returnE [])"

definition observe_outcome :: "(nat \<Rightarrow> int) \<Rightarrow> realtime_outcome \<Rightarrow> recovery_required list sup" where
  "observe_outcome clk outcome =
     (let stream = rt_stream outcome; open_time_ms = rt_open_time_ms outcome
      in if rt_classification outcome = RT_FAILED
         then bindE (record_failed outcome) (\<lambda>_. returnE [])
         else if rt_classification outcome = RT_REJECTED
         then bindE (record_rejected outcome) (\<lambda>_. signal clk stream REJECTED_OBSERVATION (Some open_time_ms))
         else
           bindE (record_success outcome) (\<lambda>previous.
           case previous of
             Some p \<Rightarrow>
               if open_time_ms > p + stream_step stream
               then bindE (require_recovery stream RS_RECOVERY_REQUIRED None) (\<lambda>_.
                    signal clk stream SEQUENCE_DISCONTINUITY (Some (p + stream_step stream)))
               else returnE []
           | None \<Rightarrow> returnE []))"

definition observe_open_interest :: "(nat \<Rightarrow> int) \<Rightarrow> stream_key \<Rightarrow> int \<Rightarrow> recovery_required list sup" where
  "observe_open_interest clk stream open_time_ms =
     bindE (facts_of stream) (\<lambda>f.
     let previous = rf_last_open_interest_open_time_ms f
     in bindE (update_facts stream (\<lambda>f. f\<lparr>rf_last_open_interest_open_time_ms :=
            Some (extend_frontier previous open_time_ms stream)\<rparr>)) (\<lambda>_.
        case previous of
          Some p \<Rightarrow>
            if open_time_ms > p + stream_step stream
            then bindE (require_recovery stream RS_RECOVERY_REQUIRED None) (\<lambda>_.
                 signal clk stream SEQUENCE_DISCONTINUITY (Some (p + stream_step stream)))
            else returnE []
        | None \<Rightarrow> returnE []))"

definition expected_open_ms :: "int \<Rightarrow> stream_key \<Rightarrow> int \<Rightarrow> int res" where
  "expected_open_ms grace stream now =
     bindR (align_to_grid (now - grace) (stream_step stream)) (\<lambda>t. Inr (t - stream_step stream))"

definition stale_step ::
  "(nat \<Rightarrow> int) \<Rightarrow> int \<Rightarrow> recovery_required list \<Rightarrow> realtime_stream_facts \<Rightarrow> recovery_required list sup" where
  "stale_step clk observed_now signals f =
     (if \<not> rf_subscription_active f \<or> rf_recovery_pending f \<or> rf_fatal_error_code f \<notin> {None, Some []}
      then returnE signals
      else case continuity_frontier_ms f of
          None \<Rightarrow> returnE signals
        | Some frontier \<Rightarrow>
            bindE (readE (\<lambda>sv. expected_open_ms (sv_grace_ms sv) (rf_stream f) observed_now)) (\<lambda>expected.
            if frontier \<ge> expected then returnE signals
            else if (case rf_last_checked_expected_open_ms f of None \<Rightarrow> False | Some checked \<Rightarrow> expected \<le> checked)
              then returnE signals
            else
              bindE (require_recovery (rf_stream f) RS_STALE (Some expected)) (\<lambda>_.
              bindE (signal clk (rf_stream f) STALE_BAR (Some (frontier + stream_step (rf_stream f)))) (\<lambda>new.
              returnE (signals @ new)))))"

definition detect_stale :: "(nat \<Rightarrow> int) \<Rightarrow> int option \<Rightarrow> recovery_required list sup" where
  "detect_stale clk given_now =
     bindE (case given_now of None \<Rightarrow> sup_now clk | Some n \<Rightarrow> returnE n) (\<lambda>observed_now.
     bindE (readE (\<lambda>sv. Inr (sv_facts sv))) (\<lambda>all_facts.
       foldE (stale_step clk observed_now) [] all_facts))"

definition record_recovery_result :: "(nat \<Rightarrow> int) \<Rightarrow> stream_key \<Rightarrow> bool \<Rightarrow> bool \<Rightarrow> int option \<Rightarrow> unit sup" where
  "record_recovery_result clk stream restored fatal restored_through =
     bindE (sup_now clk) (\<lambda>now. state_record_recovery_result stream restored fatal now restored_through)"

definition synchronize_successful_open_time :: "stream_key \<Rightarrow> int \<Rightarrow> unit sup" where
  "synchronize_successful_open_time stream open_time_ms =
     state_synchronize_successful_open_time stream open_time_ms"

definition synchronize_open_interest_open_time :: "stream_key \<Rightarrow> int \<Rightarrow> unit sup" where
  "synchronize_open_interest_open_time stream open_time_ms =
     bindE (facts_of stream) (\<lambda>f.
     let previous = rf_last_open_interest_open_time_ms f
     in update_facts stream (\<lambda>f. f\<lparr>rf_last_open_interest_open_time_ms :=
          Some (max (or_else previous open_time_ms) open_time_ms)\<rparr>))"

definition as_of_now :: "(nat \<Rightarrow> int) \<Rightarrow> realtime_stream_facts \<Rightarrow> realtime_stream_facts sup" where
  "as_of_now clk f =
     bindE (sup_now clk) (\<lambda>now.
     bindE (readE (\<lambda>sv. expected_open_ms (sv_grace_ms sv) (rf_stream f) now)) (\<lambda>expected.
     returnE (f\<lparr>rf_expected_open_time_ms := Some expected\<rparr>)))"

definition supervisor_facts :: "(nat \<Rightarrow> int) \<Rightarrow> stream_key \<Rightarrow> realtime_stream_facts sup" where
  "supervisor_facts clk stream = bindE (facts_of stream) (as_of_now clk)"

definition supervisor_all_facts :: "(nat \<Rightarrow> int) \<Rightarrow> realtime_stream_facts list sup" where
  "supervisor_all_facts clk =
     bindE (readE (\<lambda>sv. Inr (sv_facts sv))) (\<lambda>fs.
       foldE (\<lambda>acc f. bindE (as_of_now clk f) (\<lambda>g. returnE (acc @ [g]))) [] fs)"

section \<open>Steps\<close>

text \<open>Every operation that changes the supervisor, as one datatype, and a run of several.\<close>

datatype sup_op =
    ObserveEvent realtime_event
  | ObserveOutcome realtime_outcome
  | ObserveOpenInterest stream_key int
  | DetectStale "int option"
  | RecordRecoveryResult stream_key bool bool "int option"
  | SynchronizeSuccessful stream_key int
  | SynchronizeOpenInterest stream_key int

fun run_op :: "(nat \<Rightarrow> int) \<Rightarrow> sup_op \<Rightarrow> recovery_required list sup" where
  "run_op clk (ObserveEvent e) = observe_event clk e"
| "run_op clk (ObserveOutcome oc) = observe_outcome clk oc"
| "run_op clk (ObserveOpenInterest s t) = observe_open_interest clk s t"
| "run_op clk (DetectStale n) = detect_stale clk n"
| "run_op clk (RecordRecoveryResult s restored fatal through) =
     bindE (record_recovery_result clk s restored fatal through) (\<lambda>_. returnE [])"
| "run_op clk (SynchronizeSuccessful s t) = bindE (synchronize_successful_open_time s t) (\<lambda>_. returnE [])"
| "run_op clk (SynchronizeOpenInterest s t) = bindE (synchronize_open_interest_open_time s t) (\<lambda>_. returnE [])"

inductive sup_run :: "(nat \<Rightarrow> int) \<Rightarrow> supervisor \<Rightarrow> sup_op list \<Rightarrow> supervisor \<Rightarrow> bool" for clk where
  start: "sup_run clk sv [] sv"
| step: "sup_run clk sv ops sv' \<Longrightarrow> snd (run_op clk op sv') = sv'' \<Longrightarrow> sup_run clk sv (ops @ [op]) sv''"

section \<open>Supervision stream by stream\<close>

text \<open>
  The abstraction: each stream has its own small state machine. \<open>fact_step tm op f f'\<close> says that
  operation \<open>op\<close> may change the facts \<open>f\<close> of one stream into \<open>f'\<close>; every operation of the
  supervisor is, on every stream, a sequence of such steps.
\<close>

fun connection_lost :: "realtime_event \<Rightarrow> bool" where
  "connection_lost (Disconnected x y n) = True"
| "connection_lost (TransportFailed x y n) = True"
| "connection_lost (ReconnectExhausted x n) = True"
| "connection_lost _ = False"

inductive fact_step :: "(string \<times> stream_key) list \<Rightarrow> sup_op \<Rightarrow> realtime_stream_facts \<Rightarrow> realtime_stream_facts \<Rightarrow> bool"
  for tm where
  touch: "fact_step tm (ObserveEvent e) f (f\<lparr>rf_last_transport_activity_ms := a\<rparr>)"
| subscribe: "t \<in> set topics \<Longrightarrow> map_of tm t = Some (rf_stream f) \<Longrightarrow>
    fact_step tm (ObserveEvent (SubscriptionConfirmed topics n)) f (f\<lparr>rf_status := RS_SUBSCRIBED,
      rf_subscription_active := True, rf_last_transport_activity_ms := a\<rparr>)"
| candle: "fact_step tm (ObserveEvent (CandleObserved k c)) f (f\<lparr>rf_last_transport_activity_ms := a,
      rf_last_confirmed_observed_at_ms := b, rf_last_confirmed_open_time_ms := d\<rparr>)"
| lost: "connection_lost e \<Longrightarrow>
    fact_step tm (ObserveEvent e) f (f\<lparr>rf_status := RS_DISCONNECTED, rf_subscription_active := False,
      rf_last_transport_activity_ms := a, rf_recovery_restored := False\<rparr>)"
| stop: "fact_step tm (ObserveEvent (Stopped n)) f (f\<lparr>rf_status := RS_STOPPED, rf_subscription_active := False,
      rf_last_transport_activity_ms := a\<rparr>)"
| require: "fact_step tm op f (f\<lparr>rf_status := st, rf_recovery_pending := True, rf_recovery_restored := False,
      rf_pending_expected_open_ms := x\<rparr>)"
| success: "rf_stream f = rt_stream oc \<Longrightarrow> rt_classification oc \<notin> {RT_FAILED, RT_REJECTED} \<Longrightarrow>
    fact_step tm (ObserveOutcome oc) f (f\<lparr>rf_status := RS_LIVE, rf_last_successful_open_time_ms :=
      Some (extend_frontier (rf_last_successful_open_time_ms f) (rt_open_time_ms oc) (rt_stream oc)),
      rf_last_ingestion_classification := x\<rparr>)"
| rejected: "rt_classification oc = RT_REJECTED \<Longrightarrow>
    fact_step tm (ObserveOutcome oc) f (f\<lparr>rf_status := RS_RECOVERY_REQUIRED,
      rf_last_ingestion_classification := x, rf_recovery_pending := True, rf_recovery_restored := False\<rparr>)"
| failed: "rt_classification oc = RT_FAILED \<Longrightarrow>
    fact_step tm (ObserveOutcome oc) f (f\<lparr>rf_status := RS_FAILED, rf_last_ingestion_classification := x,
      rf_fatal_error_code := Some y\<rparr>)"
| open_interest: "rf_stream f = k \<Longrightarrow>
    fact_step tm (ObserveOpenInterest k t) f (f\<lparr>rf_last_open_interest_open_time_ms :=
      Some (extend_frontier (rf_last_open_interest_open_time_ms f) t k)\<rparr>)"
| fatal: "rf_stream f = k \<Longrightarrow>
    fact_step tm (RecordRecoveryResult k restored True through) f (f\<lparr>rf_status := RS_FAILED,
      rf_recovery_pending := False, rf_recovery_restored := False, rf_fatal_error_code := Some x\<rparr>)"
| recovery: "rf_stream f = k \<Longrightarrow>
    fact_step tm (RecordRecoveryResult k restored False through) f
      (f\<lparr>rf_status := st, rf_recovery_pending := \<not> restored, rf_recovery_restored := restored,
        rf_recovery_completed_at_ms := a, rf_last_checked_expected_open_ms := b, rf_pending_expected_open_ms := c,
        rf_last_successful_open_time_ms :=
          (if restored then Some (or_else (advance_frontier (rf_last_successful_open_time_ms f) through) 0)
           else rf_last_successful_open_time_ms f),
        rf_last_open_interest_open_time_ms :=
          (if restored \<and> rf_open_interest_required f
           then advance_frontier (rf_last_open_interest_open_time_ms f) through
           else rf_last_open_interest_open_time_ms f)\<rparr>)"
| sync: "rf_stream f = k \<Longrightarrow>
    fact_step tm (SynchronizeSuccessful k t) f (f\<lparr>rf_last_successful_open_time_ms :=
      Some (max (or_else (rf_last_successful_open_time_ms f) t) t)\<rparr>)"
| sync_open_interest: "rf_stream f = k \<Longrightarrow>
    fact_step tm (SynchronizeOpenInterest k t) f (f\<lparr>rf_last_open_interest_open_time_ms :=
      Some (max (or_else (rf_last_open_interest_open_time_ms f) t) t)\<rparr>)"

text \<open>The states an operation may pass through: the same streams in the same order, each reached from
  its old facts by steps of the operation.\<close>

definition by_steps :: "supervisor \<Rightarrow> sup_op \<Rightarrow> supervisor \<Rightarrow> bool" where
  "by_steps sv0 op sv \<longleftrightarrow> sv_topic_to_stream sv = sv_topic_to_stream sv0 \<and>
     distinct (map rf_stream (sv_facts sv)) \<and>
     list_all2 (fact_step (sv_topic_to_stream sv0) op)\<^sup>*\<^sup>* (sv_facts sv0) (sv_facts sv)"

lemma fact_step_stream: "fact_step tm op f f' \<Longrightarrow> rf_stream f' = rf_stream f"
  by (induction rule: fact_step.induct) simp_all

lemma fact_steps_stream: "(fact_step tm op)\<^sup>*\<^sup>* f f' \<Longrightarrow> rf_stream f' = rf_stream f"
  by (induction rule: rtranclp_induct) (auto dest: fact_step_stream)

lemma by_steps_refl: "distinct (map rf_stream (sv_facts sv)) \<Longrightarrow> by_steps sv op sv"
  by (simp add: by_steps_def list_all2_refl)

text \<open>A pointwise change of the facts by steps of the operation.\<close>

lemma by_steps_map:
  assumes "by_steps sv0 op sv" "\<And>f. f \<in> set (sv_facts sv) \<Longrightarrow> f' f = f \<or> fact_step (sv_topic_to_stream sv0) op f (f' f)"
    and "sv_facts sv' = map f' (sv_facts sv)" "sv_topic_to_stream sv' = sv_topic_to_stream sv"
  shows "by_steps sv0 op sv'"
proof -
  have "rf_stream (f' f) = rf_stream f" if "f \<in> set (sv_facts sv)" for f
    using assms(2) [OF that] fact_step_stream by metis
  then have "map rf_stream (sv_facts sv') = map rf_stream (sv_facts sv)" by (simp add: assms(3))
  then have "distinct (map rf_stream (sv_facts sv'))" using assms(1) by (simp only: by_steps_def)
  moreover have "list_all2 (fact_step (sv_topic_to_stream sv0) op)\<^sup>*\<^sup>* (sv_facts sv0) (map f' (sv_facts sv))"
    using assms(1,2) unfolding by_steps_def list_all2_conv_all_nth
    by (auto simp: in_set_conv_nth) (metis rtranclp.rtrancl_into_rtrancl)
  ultimately show ?thesis using assms(1,4) by (simp only: by_steps_def assms(3))
qed

lemma update_facts_run:
  assumes "distinct (map rf_stream (sv_facts sv))"
  shows "update_facts k change sv =
     (if k \<in> rf_stream ` set (sv_facts sv)
      then (Inr (), sv\<lparr>sv_facts := map (\<lambda>g. if rf_stream g = k then change g else g) (sv_facts sv)\<rparr>)
      else (Inl (Exn KeyError (stream_key_str k)), sv))"
proof (cases "find (\<lambda>f. rf_stream f = k) (sv_facts sv)")
  case None
  then have "k \<notin> rf_stream ` set (sv_facts sv)" by (auto simp: find_None_iff)
  with None show ?thesis by (simp add: update_facts_def facts_of_def bindE_def)
next
  case (Some f)
  then have f: "f \<in> set (sv_facts sv)" "rf_stream f = k" by (auto simp: find_Some_iff)
  have "map (\<lambda>g. if rf_stream g = k then change f else g) (sv_facts sv) =
      map (\<lambda>g. if rf_stream g = k then change g else g) (sv_facts sv)"
    using f assms by (auto simp: distinct_map inj_on_def)
  with Some f show ?thesis by (auto simp: update_facts_def facts_of_def put_facts_def bindE_def)
qed

lemma keepsI: "(\<And>s. I s \<Longrightarrow> I (snd (m s))) \<Longrightarrow> keeps I m"
  by (rule validI) (metis snd_conv)+

lemma keeps_update_facts:
  assumes "\<And>f. rf_stream f = k \<Longrightarrow> fact_step (sv_topic_to_stream sv0) op f (change f)"
  shows "keeps (by_steps sv0 op) (update_facts k change)"
proof -
  have "by_steps sv0 op (snd (update_facts k change sv))" if "by_steps sv0 op sv" for sv
  proof -
    have "distinct (map rf_stream (sv_facts sv))" using that by (simp add: by_steps_def)
    note run = update_facts_run [OF this, of k change]
    show ?thesis
    proof (cases "k \<in> rf_stream ` set (sv_facts sv)")
      case True
      then show ?thesis
        by (intro by_steps_map [OF that, of "\<lambda>g. if rf_stream g = k then change g else g"]) (auto simp: run assms)
    qed (simp add: run that)
  qed
  then show ?thesis by (rule keepsI)
qed

lemma keeps_facts_ops [keeps_intro]:
  "keeps (by_steps sv0 op) (facts_of k)" "keeps (by_steps sv0 op) (sup_now clk)"
  "keeps (by_steps sv0 op) (set_disconnected b)"
  by (auto simp: valid_def facts_of_def sup_now_def set_disconnected_def by_steps_def split: option.splits)

lemma keeps_map_facts:
  assumes "\<And>f. change f = f \<or> fact_step (sv_topic_to_stream sv0) op f (change f)"
  shows "keeps (by_steps sv0 op) (map_facts change)"
proof (rule keepsI)
  show "by_steps sv0 op (snd (map_facts change s))" if "by_steps sv0 op s" for s
    using by_steps_map [OF that assms, of "snd (map_facts change s)"] by (simp add: map_facts_def)
qed

lemma keeps_require [keeps_intro]: "keeps (by_steps sv0 op) (require_recovery k st x)"
  unfolding require_recovery_def required_facts_def by (intro keeps_update_facts) (rule fact_step.require)

lemma keeps_signal [keeps_intro]: "keeps (by_steps sv0 op) (signal clk k reason x)"
  unfolding signal_def Let_def by (intro keeps_intro)

lemma keeps_confirm:
  "set ts \<subseteq> set topics \<Longrightarrow>
   keeps (by_steps sv0 (ObserveEvent (SubscriptionConfirmed topics n))) (confirm_topics clk b n' ts signals)"
proof (induction ts arbitrary: signals)
  case (Cons t ts)
  let ?P = "by_steps sv0 (ObserveEvent (SubscriptionConfirmed topics n))"
  have sub: "keeps ?P (subscribe k n')" if "map_of (sv_topic_to_stream sv0) t = Some k" for k
    unfolding subscribe_def using that Cons.prems by (intro keeps_update_facts fact_step.subscribe [of t]) auto
  have rest: "keeps ?P (bindE (subscribe k n') (\<lambda>_.
     if b
     then bindE (require_recovery k RS_RECOVERY_REQUIRED None) (\<lambda>_.
          bindE (signal clk k DISCONNECT None) (\<lambda>new. confirm_topics clk b n' ts (signals @ new)))
     else confirm_topics clk b n' ts signals))" if "map_of (sv_topic_to_stream sv0) t = Some k" for k
    using Cons.prems by (intro keeps_intro sub [OF that] Cons.IH) simp_all
  have "?P (snd (confirm_topics clk b n' (t # ts) signals sv))" if "?P sv" for sv
  proof -
    have "sv_topic_to_stream sv = sv_topic_to_stream sv0" using that by (simp add: by_steps_def)
    then show ?thesis
      using keeps_snd [OF rest that] that by (auto simp: bindE_def readE_def split: option.splits)
  qed
  then show ?case by (rule keepsI)
qed (simp add: keeps_basic)

lemma keeps_lost:
  "connection_lost e \<Longrightarrow> keeps (by_steps sv0 (ObserveEvent e)) (lost_connection n)"
  unfolding lost_connection_def mark_disconnected_def
  by (intro keeps_intro keeps_map_facts disjI2 fact_step.lost)

lemma keeps_observe_event: "keeps (by_steps sv0 (ObserveEvent e)) (observe_event clk e)"
proof (cases e)
  case (SubscriptionConfirmed topics n)
  show ?thesis
    unfolding SubscriptionConfirmed observe_event.simps subscriptions_confirmed_def
    by (intro keeps_intro keeps_confirm) simp
next
  case (CandleObserved k c)
  show ?thesis
    unfolding CandleObserved observe_event.simps observe_candle_def
    by (intro keeps_intro keeps_update_facts fact_step.candle)
next
  case (Stopped n)
  show ?thesis
    unfolding Stopped observe_event.simps mark_stopped_def
    by (intro keeps_intro keeps_map_facts disjI2 fact_step.stop)
next
  case (HeartbeatObserved n)
  have "(if rf_subscription_active f then f\<lparr>rf_last_transport_activity_ms := Some n\<rparr> else f) = f \<or>
      fact_step (sv_topic_to_stream sv0) (ObserveEvent e) f
        (if rf_subscription_active f then f\<lparr>rf_last_transport_activity_ms := Some n\<rparr> else f)" for f
    by (simp add: fact_step.touch)
  then show ?thesis
    unfolding HeartbeatObserved observe_event.simps touch_subscribed_def
    by (intro keeps_intro keeps_map_facts) simp
next
  case (Connected n)
  show ?thesis
    unfolding Connected observe_event.simps touch_all_def
    by (intro keeps_intro keeps_map_facts disjI2 fact_step.touch)
qed (simp_all add: keeps_lost)

lemma record_success_update:
  "record_success oc = bindE (facts_of (rt_stream oc)) (\<lambda>f.
     bindE (update_facts (rt_stream oc) (\<lambda>g. g\<lparr>rf_status := RS_LIVE, rf_last_successful_open_time_ms :=
         Some (extend_frontier (rf_last_successful_open_time_ms g) (rt_open_time_ms oc) (rt_stream oc)),
         rf_last_ingestion_classification := Some (realtime_classification_value (rt_classification oc))\<rparr>))
       (\<lambda>_. returnE (rf_last_successful_open_time_ms f)))"
  by (rule ext) (auto simp: record_success_def update_facts_def facts_of_def bindE_def Let_def split: option.splits)

lemma observe_open_interest_update:
  "observe_open_interest clk k t =
     bindE (facts_of k) (\<lambda>f.
     bindE (update_facts k (\<lambda>g. g\<lparr>rf_last_open_interest_open_time_ms :=
         Some (extend_frontier (rf_last_open_interest_open_time_ms g) t k)\<rparr>)) (\<lambda>_.
        case rf_last_open_interest_open_time_ms f of
          Some p \<Rightarrow>
            if t > p + stream_step k
            then bindE (require_recovery k RS_RECOVERY_REQUIRED None) (\<lambda>_.
                 signal clk k SEQUENCE_DISCONTINUITY (Some (p + stream_step k)))
            else returnE []
        | None \<Rightarrow> returnE []))"
  by (rule ext) (auto simp: observe_open_interest_def update_facts_def facts_of_def bindE_def Let_def split: option.splits)

lemma synchronize_open_interest_update:
  "synchronize_open_interest_open_time k t =
     bindE (facts_of k) (\<lambda>f. update_facts k (\<lambda>g. g\<lparr>rf_last_open_interest_open_time_ms :=
         Some (max (or_else (rf_last_open_interest_open_time_ms g) t) t)\<rparr>))"
  by (rule ext) (auto simp: synchronize_open_interest_open_time_def update_facts_def facts_of_def bindE_def Let_def
      split: option.splits)

lemma keeps_observe_outcome: "keeps (by_steps sv0 (ObserveOutcome oc)) (observe_outcome clk oc)"
proof -
  have failed: "rt_classification oc = RT_FAILED \<Longrightarrow> keeps (by_steps sv0 (ObserveOutcome oc)) (record_failed oc)"
    unfolding record_failed_def by (intro keeps_update_facts fact_step.failed)
  have rejected: "rt_classification oc = RT_REJECTED \<Longrightarrow> keeps (by_steps sv0 (ObserveOutcome oc)) (record_rejected oc)"
    unfolding record_rejected_def by (intro keeps_update_facts fact_step.rejected)
  have success: "rt_classification oc \<notin> {RT_FAILED, RT_REJECTED} \<Longrightarrow>
      keeps (by_steps sv0 (ObserveOutcome oc)) (record_success oc)"
    unfolding record_success_update
    by (intro keeps_intro keeps_update_facts fact_step.success)
  show ?thesis
    unfolding observe_outcome_def Let_def
    using failed rejected success
    by (cases "rt_classification oc") (simp_all, (intro keeps_intro; simp)+)
qed

lemma keeps_stale_step [keeps_intro]: "keeps (by_steps sv0 op) (stale_step clk n signals f)"
  unfolding stale_step_def by (intro keeps_intro)

lemma keeps_run_op: "keeps (by_steps sv0 op) (run_op clk op)"
proof (cases op)
  case (ObserveEvent e)
  then show ?thesis by (simp add: keeps_observe_event)
next
  case (ObserveOutcome oc)
  then show ?thesis by (simp add: keeps_observe_outcome)
next
  case (ObserveOpenInterest k t)
  show ?thesis
    unfolding ObserveOpenInterest run_op.simps observe_open_interest_update
    by (intro keeps_intro keeps_update_facts fact_step.open_interest)
next
  case (DetectStale n)
  show ?thesis
    unfolding DetectStale run_op.simps detect_stale_def by (intro keeps_intro)
next
  case (RecordRecoveryResult k restored fatal through)
  show ?thesis
    unfolding RecordRecoveryResult run_op.simps record_recovery_result_def state_record_recovery_result_def
    by (intro keeps_intro keeps_update_facts) (cases fatal; simp add: fact_step.fatal fact_step.recovery)
next
  case (SynchronizeSuccessful k t)
  show ?thesis
    unfolding SynchronizeSuccessful run_op.simps synchronize_successful_open_time_def
      state_synchronize_successful_open_time_def
    by (intro keeps_intro keeps_update_facts fact_step.sync)
next
  case (SynchronizeOpenInterest k t)
  show ?thesis
    unfolding SynchronizeOpenInterest run_op.simps synchronize_open_interest_update
    by (intro keeps_intro keeps_update_facts fact_step.sync_open_interest)
qed

lemma run_op_by_steps:
  "distinct (map rf_stream (sv_facts sv)) \<Longrightarrow> by_steps sv op (snd (run_op clk op sv))"
  by (rule keeps_snd [OF keeps_run_op by_steps_refl])

lemma list_all2_right: "list_all2 P xs ys \<Longrightarrow> y \<in> set ys \<Longrightarrow> \<exists>x \<in> set xs. P x y"
  by (induction rule: list_all2_induct) auto

lemma sup_run_steps:
  assumes "sup_run clk sv ops sv'" "distinct (map rf_stream (sv_facts sv))"
  shows "sv_topic_to_stream sv' = sv_topic_to_stream sv \<and> distinct (map rf_stream (sv_facts sv')) \<and>
     list_all2 (\<lambda>f f'. \<exists>op \<in> set ops. fact_step (sv_topic_to_stream sv) op f f')\<^sup>*\<^sup>* (sv_facts sv) (sv_facts sv')"
  using assms
proof (induction rule: sup_run.induct)
  case (start sv)
  then show ?case by (simp add: list_all2_refl)
next
  case (step sv ops sv' op sv'')
  let ?R = "\<lambda>ops f f'. \<exists>op \<in> set ops. fact_step (sv_topic_to_stream sv) op f f'"
  have IH: "sv_topic_to_stream sv' = sv_topic_to_stream sv" "distinct (map rf_stream (sv_facts sv'))"
    "list_all2 (?R ops)\<^sup>*\<^sup>* (sv_facts sv) (sv_facts sv')" using step by auto
  have st: "by_steps sv' op sv''" using run_op_by_steps [OF IH(2), of op clk] step.hyps(2) by simp
  have mono: "(?R ops)\<^sup>*\<^sup>* f f' \<Longrightarrow> (?R (ops @ [op]))\<^sup>*\<^sup>* f f'"
    "(fact_step (sv_topic_to_stream sv) op)\<^sup>*\<^sup>* f f' \<Longrightarrow> (?R (ops @ [op]))\<^sup>*\<^sup>* f f'" for f f'
    by (erule mono_rtranclp [rule_format, rotated]; auto)+
  have l: "list_all2 (fact_step (sv_topic_to_stream sv) op)\<^sup>*\<^sup>* (sv_facts sv') (sv_facts sv'')"
    using st IH(1) by (simp add: by_steps_def)
  have "list_all2 (?R (ops @ [op]))\<^sup>*\<^sup>* (sv_facts sv) (sv_facts sv'')"
    by (rule list_all2_trans [OF _ IH(3) l]) (rule rtranclp_trans [OF mono(1) mono(2)])
  then show ?case using st IH(1) by (simp add: by_steps_def)
qed

text \<open>The facts of one stream before and after a run.\<close>

lemma sup_run_facts:
  assumes "sup_run clk sv ops sv'" "distinct (map rf_stream (sv_facts sv))" "f' \<in> set (sv_facts sv')"
  obtains f where "f \<in> set (sv_facts sv)" "rf_stream f = rf_stream f'"
    "(\<lambda>f f'. \<exists>op \<in> set ops. fact_step (sv_topic_to_stream sv) op f f')\<^sup>*\<^sup>* f f'"
proof -
  have "list_all2 (\<lambda>f f'. \<exists>op \<in> set ops. fact_step (sv_topic_to_stream sv) op f f')\<^sup>*\<^sup>* (sv_facts sv) (sv_facts sv')"
    using sup_run_steps [OF assms(1,2)] by simp
  then obtain f where f: "f \<in> set (sv_facts sv)"
    "(\<lambda>f f'. \<exists>op \<in> set ops. fact_step (sv_topic_to_stream sv) op f f')\<^sup>*\<^sup>* f f'"
    using list_all2_right [OF _ assms(3)] by blast
  from f(2) have "rf_stream f' = rf_stream f"
    by (induction rule: rtranclp_induct) (auto dest: fact_step_stream)
  with f show thesis using that by simp
qed

text \<open>Which step turns a flag on, and which flags never go off.\<close>

lemma fact_step_flags:
  assumes "fact_step tm op f f'"
  shows "rf_fatal_error_code f \<noteq> None \<Longrightarrow> rf_fatal_error_code f' \<noteq> None"
    and "\<not> rf_recovery_restored f \<Longrightarrow> rf_recovery_restored f' \<Longrightarrow> \<exists>th. op = RecordRecoveryResult (rf_stream f) True False th"
    and "\<not> rf_subscription_active f \<Longrightarrow> rf_subscription_active f' \<Longrightarrow>
      \<exists>topics n t. op = ObserveEvent (SubscriptionConfirmed topics n) \<and> t \<in> set topics \<and> map_of tm t = Some (rf_stream f)"
    and "rf_open_interest_required f' = rf_open_interest_required f"
  using assms by (induction rule: fact_step.induct) auto

lemma fact_run_flags:
  assumes "(\<lambda>f f'. \<exists>op \<in> set ops. fact_step tm op f f')\<^sup>*\<^sup>* f f'"
  shows "(rf_fatal_error_code f \<noteq> None \<longrightarrow> rf_fatal_error_code f' \<noteq> None) \<and>
    (\<not> rf_recovery_restored f \<and> rf_recovery_restored f' \<longrightarrow>
       (\<exists>th. RecordRecoveryResult (rf_stream f) True False th \<in> set ops)) \<and>
    (\<not> rf_subscription_active f \<and> rf_subscription_active f' \<longrightarrow>
      (\<exists>topics n t. ObserveEvent (SubscriptionConfirmed topics n) \<in> set ops \<and> t \<in> set topics \<and>
         map_of tm t = Some (rf_stream f))) \<and>
    rf_stream f' = rf_stream f \<and> rf_open_interest_required f' = rf_open_interest_required f"
  using assms
proof (induction rule: rtranclp_induct)
  case (step g h)
  then obtain op where op: "op \<in> set ops" "fact_step tm op g h" by blast
  note flags = fact_step_flags [OF op(2)] fact_step_stream [OF op(2)]
  show ?case using step.IH flags op(1) by metis
qed simp

lemma supervisor_facts_run:
  assumes "supervisor_facts clk k sv = (Inr g, sv')"
  shows "\<exists>f x. f \<in> set (sv_facts sv) \<and> rf_stream f = k \<and> g = f\<lparr>rf_expected_open_time_ms := x\<rparr>"
  using assms
  by (auto simp: supervisor_facts_def facts_of_def as_of_now_def bindE_eq_Inr sup_now_def
      split: option.splits dest!: find_SomeD)


text \<open>
  A fatal failure is final: no later operation makes the stream data-ready again.
\<close>

theorem fatal_is_final:
  assumes "distinct (map rf_stream (sv_facts sv))" "f \<in> set (sv_facts sv)" "rf_fatal_error_code f \<noteq> None"
    and "sup_run clk sv ops sv'" "supervisor_facts clk (rf_stream f) sv' = (Inr g, sv'')"
  shows "\<not> data_ready g"
proof -
  obtain f' x where f': "f' \<in> set (sv_facts sv')" "rf_stream f' = rf_stream f" "g = f'\<lparr>rf_expected_open_time_ms := x\<rparr>"
    using supervisor_facts_run [OF assms(5)] by blast
  obtain f0 where f0: "f0 \<in> set (sv_facts sv)" "rf_stream f0 = rf_stream f'"
    "(\<lambda>f f'. \<exists>op \<in> set ops. fact_step (sv_topic_to_stream sv) op f f')\<^sup>*\<^sup>* f0 f'"
    by (rule sup_run_facts [OF assms(4,1) f'(1)])
  have "f0 = f" using f0(1,2) f'(2) assms(1,2) by (auto simp: distinct_map inj_on_def)
  with fact_run_flags [OF f0(3)] assms(3) f'(3) show ?thesis by (simp add: data_ready_def)
qed

section \<open>The continuity frontier\<close>

text \<open>
  \<open>track_proven S base k x\<close>: the frontier \<open>x\<close> of stream \<open>k\<close> is on the grid, and every bar after
  \<open>base\<close> up to it is in \<open>S\<close>.
\<close>

definition proven :: "int set \<Rightarrow> int \<Rightarrow> stream_key \<Rightarrow> int \<Rightarrow> bool" where
  "proven S base k p \<longleftrightarrow> 0 \<le> p \<and> p mod stream_step k = 0 \<and>
     (\<forall>u. base < u \<longrightarrow> u \<le> p \<longrightarrow> u mod stream_step k = 0 \<longrightarrow> u \<in> S)"

definition track_proven :: "int set \<Rightarrow> int \<Rightarrow> stream_key \<Rightarrow> int option \<Rightarrow> bool" where
  "track_proven S base k x \<longleftrightarrow> (\<exists>p. x = Some p \<and> proven S base k p)"

lemma or_else_max: "0 \<le> p \<Longrightarrow> 0 \<le> t \<Longrightarrow> max (or_else (Some p) t) t = max p t"
  by (auto simp: or_else_def)

lemma proven_max: "proven S base k p \<Longrightarrow> proven S base k q \<Longrightarrow> proven S base k (max p q)"
  by (auto simp: proven_def max_def)

lemma grid_next:
  fixes step :: int
  assumes "0 < step" "p mod step = 0" "u mod step = 0" "p < u"
  shows "p + step \<le> u"
proof -
  have "(u - p) mod step = 0" using assms(2,3) by (simp add: mod_diff_eq [symmetric])
  then have "step dvd u - p" by (simp add: dvd_eq_mod_eq_0)
  with assms(4) show ?thesis using zdvd_imp_le [of step "u - p"] by simp
qed

text \<open>A live point extends the frontier over itself only.\<close>

lemma extend_frontier_proven:
  assumes "proven S base k p" "t \<in> S" "0 \<le> t" "t mod stream_step k = 0"
  shows "proven S base k (extend_frontier (Some p) t k)"
proof (cases "t > p + stream_step k")
  case False
  have "u \<in> S" if "base < u" "u \<le> max p t" "u mod stream_step k = 0" for u
  proof (cases "u \<le> p")
    case True
    with assms(1) that show ?thesis by (auto simp: proven_def)
  next
    case not_yet: False
    have "p + stream_step k \<le> u"
      using grid_next [of "stream_step k" p u] not_yet that(3) assms(1) by (simp add: proven_def)
    with that(2) False not_yet have "u = t" by (simp add: max_def split: if_splits)
    with assms(2) show ?thesis by simp
  qed
  with assms False show ?thesis
    using or_else_max [of p t] by (auto simp: extend_frontier_def proven_def max_def)
qed (use assms in \<open>simp add: extend_frontier_def\<close>)

lemma advance_frontier_proven:
  assumes "proven S base k p" "\<And>th. through = Some th \<Longrightarrow> proven S base k th"
  shows "\<exists>q. advance_frontier (Some p) through = Some q \<and> proven S base k q"
proof (cases through)
  case None
  with assms(1) show ?thesis by (simp add: advance_frontier_def or_else_def)
next
  case (Some th)
  with assms proven_max [OF assms(1) assms(2) [OF Some]] show ?thesis by (auto simp: advance_frontier_def or_else_def)
qed

text \<open>What an operation reports of stream \<open>k\<close> is true of the stored bars: \<open>S\<close> for candles,
  \<open>P\<close> for open interest.\<close>

fun justified :: "int set \<Rightarrow> int set \<Rightarrow> int \<Rightarrow> stream_key \<Rightarrow> sup_op \<Rightarrow> bool" where
  "justified S P base k (ObserveOutcome oc) \<longleftrightarrow>
     (rt_stream oc = k \<and> rt_classification oc \<notin> {RT_FAILED, RT_REJECTED} \<longrightarrow>
        rt_open_time_ms oc \<in> S \<and> 0 \<le> rt_open_time_ms oc \<and> rt_open_time_ms oc mod stream_step k = 0)"
| "justified S P base k (ObserveOpenInterest s t) \<longleftrightarrow> (s = k \<longrightarrow> t \<in> P \<and> 0 \<le> t \<and> t mod stream_step k = 0)"
| "justified S P base k (RecordRecoveryResult s restored fatal through) \<longleftrightarrow>
     (s = k \<and> restored \<and> \<not> fatal \<longrightarrow>
        (case through of None \<Rightarrow> True | Some th \<Rightarrow> proven S base k th \<and> proven P base k th))"
| "justified S P base k (SynchronizeSuccessful s t) \<longleftrightarrow> (s = k \<longrightarrow> proven S base k t)"
| "justified S P base k (SynchronizeOpenInterest s t) \<longleftrightarrow> (s = k \<longrightarrow> proven P base k t)"
| "justified S P base k _ \<longleftrightarrow> True"

definition facts_proven :: "int set \<Rightarrow> int set \<Rightarrow> int \<Rightarrow> realtime_stream_facts \<Rightarrow> bool" where
  "facts_proven S P base f \<longleftrightarrow> track_proven S base (rf_stream f) (rf_last_successful_open_time_ms f) \<and>
     (rf_open_interest_required f \<longrightarrow> track_proven P base (rf_stream f) (rf_last_open_interest_open_time_ms f))"

lemma fact_step_proven:
  assumes "fact_step tm op f f'" "facts_proven S P base f" "justified S P base (rf_stream f) op"
  shows "facts_proven S P base f'"
proof -
  obtain p where p: "rf_last_successful_open_time_ms f = Some p" "proven S base (rf_stream f) p"
    using assms(2) by (auto simp: facts_proven_def track_proven_def)
  have p0: "0 \<le> p" using p(2) by (simp add: proven_def)
  show ?thesis
    using assms(1)
  proof cases
    case (success oc x)
    then show ?thesis
      using assms(2,3) p extend_frontier_proven [OF p(2), of "rt_open_time_ms oc"]
      by (simp add: facts_proven_def track_proven_def)
  next
    case (open_interest k t)
    then show ?thesis
      using assms(2,3) extend_frontier_proven [of P base "rf_stream f" _ t]
      by (auto simp: facts_proven_def track_proven_def)
  next
    case (recovery k restored through st a b c)
    show ?thesis
    proof (cases restored)
      case True
      then have th: "\<And>th. through = Some th \<Longrightarrow> proven S base (rf_stream f) th \<and> proven P base (rf_stream f) th"
        using assms(3) recovery by simp
      obtain q where "advance_frontier (Some p) through = Some q" "proven S base (rf_stream f) q"
        using advance_frontier_proven [OF p(2), of through] th by blast
      moreover have "or_else (Some q) 0 = q" by (simp add: or_else_def)
      moreover have "rf_open_interest_required f \<Longrightarrow>
          track_proven P base (rf_stream f) (advance_frontier (rf_last_open_interest_open_time_ms f) through)"
        using assms(2) advance_frontier_proven [of P base "rf_stream f" _ through] th
        by (auto simp: facts_proven_def track_proven_def)
      ultimately show ?thesis using True recovery p by (simp add: facts_proven_def track_proven_def)
    qed (use assms(2) recovery in \<open>simp add: facts_proven_def\<close>)
  next
    case (sync k t)
    then have t: "proven S base (rf_stream f) t" using assms(3) by simp
    then have "0 \<le> t" by (simp add: proven_def)
    with sync p t p0 assms(2) proven_max [OF p(2) t] show ?thesis
      by (simp add: facts_proven_def track_proven_def or_else_max)
  next
    case (sync_open_interest k t)
    then have t: "proven P base (rf_stream f) t" using assms(3) by simp
    have "track_proven P base (rf_stream f) (Some (max (or_else (Some q) t) t))" if "proven P base (rf_stream f) q" for q
      using proven_max [OF that t] that t by (simp add: track_proven_def or_else_max proven_def)
    with sync_open_interest assms(2) show ?thesis by (auto simp: facts_proven_def track_proven_def [of P _ _ "rf_last_open_interest_open_time_ms f"])
  qed (use assms(2) in \<open>simp_all add: facts_proven_def\<close>)
qed


section \<open>Signals\<close>

text \<open>A signal that recovery can rely on: its stream waits for recovery, and the range to recover starts
  no later than the bar after the frontier.\<close>

definition covered :: "supervisor \<Rightarrow> recovery_required \<Rightarrow> bool" where
  "covered sv r \<longleftrightarrow> (\<exists>f \<in> set (sv_facts sv). rf_stream f = rc_stream r \<and> rf_recovery_pending f \<and>
     \<not> rf_recovery_restored f \<and>
     (\<forall>x. continuity_frontier_ms f = Some x \<longrightarrow>
        (\<exists>y. rc_suspected_start_time_ms r = Some y \<and> y \<le> x + stream_step (rc_stream r))))"

definition all_covered :: "recovery_required list \<Rightarrow> supervisor \<Rightarrow> bool" where
  "all_covered rs sv \<longleftrightarrow> distinct (map rf_stream (sv_facts sv)) \<and> (\<forall>r \<in> set rs. covered sv r)"

lemma all_covered_update:
  assumes "all_covered rs sv" "update_facts k change sv = (Inr u, sv')"
    and "\<And>f. rf_stream (change f) = rf_stream f \<and> continuity_frontier_ms (change f) = continuity_frontier_ms f \<and>
      (rf_recovery_pending f \<longrightarrow> rf_recovery_pending (change f)) \<and> (rf_recovery_restored (change f) \<longrightarrow> rf_recovery_restored f)"
  shows "all_covered rs sv'" "sv_facts sv' = map (\<lambda>g. if rf_stream g = k then change g else g) (sv_facts sv)"
    "k \<in> rf_stream ` set (sv_facts sv)"
proof -
  have d: "distinct (map rf_stream (sv_facts sv))" using assms(1) by (simp add: all_covered_def)
  show k: "k \<in> rf_stream ` set (sv_facts sv)"
    and sv': "sv_facts sv' = map (\<lambda>g. if rf_stream g = k then change g else g) (sv_facts sv)"
    using assms(2) update_facts_run [OF d, of k change] by (auto split: if_splits)
  have "map rf_stream (sv_facts sv') = map rf_stream (sv_facts sv)" using assms(3) by (simp add: sv')
  then have "distinct (map rf_stream (sv_facts sv'))" using d by simp
  moreover have "covered sv' r" if "covered sv r" for r
  proof -
    note cov = that
    obtain f where "f \<in> set (sv_facts sv)" "rf_stream f = rc_stream r" "rf_recovery_pending f" "\<not> rf_recovery_restored f"
      "\<forall>x. continuity_frontier_ms f = Some x \<longrightarrow>
        (\<exists>y. rc_suspected_start_time_ms r = Some y \<and> y \<le> x + stream_step (rc_stream r))"
      using cov by (auto simp: covered_def)
    then show ?thesis
      unfolding covered_def sv' using assms(3) [of f]
      by (intro bexI [of _ "if rf_stream f = k then change f else f"]) auto
  qed
  ultimately show "all_covered rs sv'" using assms(1) by (simp add: all_covered_def)
qed

lemma signal_covered:
  assumes "all_covered rs sv" "signal clk k reason x sv = (Inr new, sv')"
    and "\<forall>f \<in> set (sv_facts sv). rf_stream f = k \<longrightarrow> rf_recovery_pending f \<and> \<not> rf_recovery_restored f"
  shows "all_covered (rs @ new) sv'" "map rc_stream new = [k]" "sv_facts sv' = sv_facts sv"
proof -
  obtain f where f: "f \<in> set (sv_facts sv)" "rf_stream f = k" and
    new: "new = [\<lparr>rc_stream = k, rc_reason = reason, rc_detected_at_ms = clk (sv_ticks sv),
      rc_suspected_start_time_ms = (case continuity_frontier_ms f of None \<Rightarrow> x
        | Some frontier \<Rightarrow> Some (min (or_else x (frontier + stream_step k)) (frontier + stream_step k)))\<rparr>]"
    and sv': "sv' = sv\<lparr>sv_ticks := Suc (sv_ticks sv)\<rparr>"
    using assms(2)
    by (auto simp: signal_def facts_of_def sup_now_def bindE_eq_Inr Let_def split: option.splits dest!: find_SomeD)
  show "map rc_stream new = [k]" "sv_facts sv' = sv_facts sv" by (simp_all add: new sv')
  have "covered sv' r" if "r \<in> set new" for r
    using f assms(3) that by (auto simp: covered_def new sv' intro!: bexI [of _ f])
  then show "all_covered (rs @ new) sv'" using assms(1) by (auto simp: all_covered_def covered_def sv')
qed

lemma ball_update:
  "(\<forall>f \<in> set (map (\<lambda>g. if p g then c g else g) xs). q f) \<longleftrightarrow> (\<forall>g \<in> set xs. if p g then q (c g) else q g)"
  by auto

lemma required_facts_simps [simp]:
  "rf_stream (required_facts st x f) = rf_stream f" "rf_recovery_pending (required_facts st x f)"
  "\<not> rf_recovery_restored (required_facts st x f)"
  "continuity_frontier_ms (required_facts st x f) = continuity_frontier_ms f"
  by (simp_all add: required_facts_def continuity_frontier_ms_def)

lemma require_covered:
  assumes "all_covered rs sv" "bindE (require_recovery k st x) (\<lambda>_. signal clk k reason y) sv = (Inr new, sv')"
  shows "all_covered (rs @ new) sv'" "map rc_stream new = [k]"
    "sv_facts sv' = map (\<lambda>g. if rf_stream g = k then required_facts st x g else g) (sv_facts sv)"
proof -
  obtain sv1 where r: "require_recovery k st x sv = (Inr (), sv1)" "signal clk k reason y sv1 = (Inr new, sv')"
    using assms(2) by (auto simp: bindE_eq_Inr)
  note u = all_covered_update [OF assms(1) r(1) [unfolded require_recovery_def], simplified]
  have "\<forall>f \<in> set (sv_facts sv1). rf_stream f = k \<longrightarrow> rf_recovery_pending f \<and> \<not> rf_recovery_restored f"
    unfolding u(2) ball_update by simp
  note s = signal_covered [OF u(1) r(2) this]
  show "all_covered (rs @ new) sv'" "map rc_stream new = [k]"
    "sv_facts sv' = map (\<lambda>g. if rf_stream g = k then required_facts st x g else g) (sv_facts sv)"
    using s u(2) by simp_all
qed

lemma confirm_covered:
  "all_covered rs sv \<Longrightarrow> confirm_topics clk b n ts rs sv = (Inr rs', sv') \<Longrightarrow> all_covered rs' sv'"
proof (induction ts arbitrary: rs sv)
  case (Cons t ts)
  obtain k sv1 where k: "map_of (sv_topic_to_stream sv) t = Some k" "subscribe k n sv = (Inr (), sv1)"
    using Cons.prems(2) by (auto simp: bindE_eq_Inr readE_def split: option.splits sum.splits)
  have c: "all_covered rs sv1"
    by (rule all_covered_update(1) [OF Cons.prems(1) k(2) [unfolded subscribe_def]])
      (simp add: continuity_frontier_ms_def)
  show ?case
  proof (cases b)
    case True
    with Cons.prems(2) k obtain new sv2 where
      "bindE (require_recovery k RS_RECOVERY_REQUIRED None) (\<lambda>_. signal clk k DISCONNECT None) sv1 = (Inr new, sv2)"
      "confirm_topics clk b n ts (rs @ new) sv2 = (Inr rs', sv')"
      by (auto simp: bindE_eq_Inr readE_def)
    with Cons.IH require_covered(1) [OF c] show ?thesis by blast
  next
    case False
    with Cons.prems(2) k have "confirm_topics clk b n ts rs sv1 = (Inr rs', sv')"
      by (auto simp: bindE_eq_Inr readE_def)
    with Cons.IH c show ?thesis by blast
  qed
qed simp

text \<open>Which streams \<open>detect_stale\<close> reports at time \<open>now\<close>.\<close>

definition expected_at :: "int \<Rightarrow> stream_key \<Rightarrow> int \<Rightarrow> int" where
  "expected_at grace k now = (now - grace) - (now - grace) mod stream_step k - stream_step k"

definition is_stale :: "int \<Rightarrow> int \<Rightarrow> realtime_stream_facts \<Rightarrow> bool" where
  "is_stale grace now f \<longleftrightarrow> rf_subscription_active f \<and> \<not> rf_recovery_pending f \<and> rf_fatal_error_code f \<in> {None, Some []} \<and>
     (\<exists>x. continuity_frontier_ms f = Some x \<and> x < expected_at grace (rf_stream f) now) \<and>
     (\<forall>c. rf_last_checked_expected_open_ms f = Some c \<longrightarrow> c < expected_at grace (rf_stream f) now)"

lemma expected_open_ms_run: "expected_open_ms grace k now = Inr (expected_at grace k now)"
  by (simp add: expected_open_ms_def expected_at_def)

lemma stale_step_run:
  assumes "\<not> is_stale (sv_grace_ms sv) now f"
  shows "stale_step clk now rs f sv = (Inr rs, sv)"
  using assms
  by (auto simp: stale_step_def is_stale_def expected_open_ms_run bindE_def readE_def not_less split: option.splits)

lemma bindE_assoc: "bindE (bindE m f) g = bindE m (\<lambda>x. bindE (f x) g)"
  by (rule ext) (simp add: bindE_def split: prod.splits sum.splits)

lemma bindE_readE: "bindE (readE h) g sv = (case h sv of Inl e \<Rightarrow> (Inl e, sv) | Inr x \<Rightarrow> g x sv)"
  by (simp add: bindE_def readE_def split: sum.splits)

lemma stale_step_signals:
  assumes "is_stale (sv_grace_ms sv) now f"
  shows "\<exists>e y. stale_step clk now rs f sv =
     bindE (bindE (require_recovery (rf_stream f) RS_STALE (Some e)) (\<lambda>_. signal clk (rf_stream f) STALE_BAR (Some y)))
       (\<lambda>new. returnE (rs @ new)) sv"
proof -
  obtain x where x: "continuity_frontier_ms f = Some x" "x < expected_at (sv_grace_ms sv) (rf_stream f) now"
    using assms by (auto simp: is_stale_def)
  with assms have "stale_step clk now rs f sv =
     bindE (bindE (require_recovery (rf_stream f) RS_STALE (Some (expected_at (sv_grace_ms sv) (rf_stream f) now)))
       (\<lambda>_. signal clk (rf_stream f) STALE_BAR (Some (x + stream_step (rf_stream f)))))
       (\<lambda>new. returnE (rs @ new)) sv"
    by (auto simp: stale_step_def is_stale_def bindE_readE expected_open_ms_run bindE_assoc split: option.splits)
  then show ?thesis by blast
qed

lemma require_signal_runs:
  assumes "distinct (map rf_stream (sv_facts sv))" "k \<in> rf_stream ` set (sv_facts sv)"
  shows "\<exists>new sv'. bindE (require_recovery k st x) (\<lambda>_. signal clk k reason y) sv = (Inr new, sv') \<and> sv_grace_ms sv' = sv_grace_ms sv"
proof -
  let ?sv = "sv\<lparr>sv_facts := map (\<lambda>g. if rf_stream g = k then required_facts st x g else g) (sv_facts sv)\<rparr>"
  have "find (\<lambda>f. rf_stream f = k) (sv_facts ?sv) \<noteq> None" using assms(2) by (auto simp: find_None_iff)
  then show ?thesis
    using assms
    by (auto simp: bindE_def require_recovery_def update_facts_run signal_def facts_of_def sup_now_def Let_def
        split: option.splits)
qed

lemma stale_loop:
  assumes "all_covered rs sv" "distinct (map rf_stream fs)" "set fs \<subseteq> set (sv_facts sv)"
  shows "\<exists>new sv'. foldE (stale_step clk now) rs fs sv = (Inr (rs @ new), sv') \<and> all_covered (rs @ new) sv' \<and>
     map rc_stream new = map rf_stream (filter (is_stale (sv_grace_ms sv) now) fs)"
  using assms
proof (induction fs arbitrary: rs sv)
  case (Cons f fs)
  have d: "distinct (map rf_stream (sv_facts sv))" using Cons.prems(1) by (simp add: all_covered_def)
  show ?case
  proof (cases "is_stale (sv_grace_ms sv) now f")
    case False
    with Cons.IH [OF Cons.prems(1)] Cons.prems(2,3) show ?thesis
      by (simp add: bindE_def stale_step_run)
  next
    case True
    obtain e y where st: "stale_step clk now rs f sv =
       bindE (bindE (require_recovery (rf_stream f) RS_STALE (Some e)) (\<lambda>_. signal clk (rf_stream f) STALE_BAR (Some y)))
         (\<lambda>new. returnE (rs @ new)) sv"
      using stale_step_signals [OF True] by blast
    obtain new sv1 where run: "bindE (require_recovery (rf_stream f) RS_STALE (Some e))
        (\<lambda>_. signal clk (rf_stream f) STALE_BAR (Some y)) sv = (Inr new, sv1)" "sv_grace_ms sv1 = sv_grace_ms sv"
      using require_signal_runs [OF d, of "rf_stream f"] Cons.prems(3) by auto blast
    note c = require_covered [OF Cons.prems(1) run(1)]
    have "set fs \<subseteq> set (sv_facts sv1)"
    proof
      fix g assume g: "g \<in> set fs"
      then have "rf_stream g \<in> rf_stream ` set fs" "g \<in> set (sv_facts sv)" using Cons.prems(3) by auto
      moreover from this(1) have "rf_stream g \<noteq> rf_stream f" using Cons.prems(2) by (metis distinct.simps(2) list.simps(9) set_map)
      ultimately have "rf_stream g \<noteq> rf_stream f" "g \<in> set (sv_facts sv)" by simp_all
      then show "g \<in> set (sv_facts sv1)" by (simp add: c(3))
    qed
    from Cons.IH [OF c(1) _ this] Cons.prems(2) obtain new' sv' where
      "foldE (stale_step clk now) (rs @ new) fs sv1 = (Inr ((rs @ new) @ new'), sv')" "all_covered ((rs @ new) @ new') sv'"
      "map rc_stream new' = map rf_stream (filter (is_stale (sv_grace_ms sv) now) fs)"
      using run(2) by auto
    then show ?thesis
      using st run(1) c(2) True by (intro exI [of _ "new @ new'"] exI [of _ sv']) (simp add: bindE_def)
  qed
qed simp

text \<open>
  Stale detection is exact: at any time it raises nothing, and it reports, once each and in order,
  exactly the subscribed streams without a pending recovery or a fatal failure whose frontier is
  behind the last bar expected after the grace period and not already checked. Each signal covers the
  whole missing range, and its stream waits for recovery.
\<close>

theorem detect_stale_exact:
  assumes "distinct (map rf_stream (sv_facts sv))"
  shows "\<exists>rs sv'. detect_stale clk (Some now) sv = (Inr rs, sv') \<and>
     map rc_stream rs = map rf_stream (filter (is_stale (sv_grace_ms sv) now) (sv_facts sv)) \<and>
     (\<forall>r \<in> set rs. covered sv' r)"
proof -
  have "all_covered [] sv" using assms by (simp add: all_covered_def)
  from stale_loop [OF this assms subset_refl, of clk now] show ?thesis
    by (auto simp: detect_stale_def bindE_def readE_def all_covered_def)
qed

lemma all_covered_Nil: "distinct (map rf_stream (sv_facts v)) \<Longrightarrow> all_covered [] v"
  by (simp add: all_covered_def)

lemma live_outcome_covered:
  assumes "distinct (map rf_stream (sv_facts sv))" "observe_outcome clk oc sv = (Inr rs, sv')" "r \<in> set rs"
    and live: "rt_classification oc \<notin> {RT_FAILED, RT_REJECTED}"
  shows "all_covered rs sv'"
proof -
  obtain previous sv1 where r: "record_success oc sv = (Inr previous, sv1)"
    "(case previous of
        Some p \<Rightarrow>
          if rt_open_time_ms oc > p + stream_step (rt_stream oc)
          then bindE (require_recovery (rt_stream oc) RS_RECOVERY_REQUIRED None) (\<lambda>_.
               signal clk (rt_stream oc) SEQUENCE_DISCONTINUITY (Some (p + stream_step (rt_stream oc))))
          else returnE []
      | None \<Rightarrow> returnE []) sv1 = (Inr rs, sv')"
    using assms(2) live by (auto simp: observe_outcome_def Let_def bindE_eq_Inr)
  have "keeps (by_steps sv (ObserveOutcome oc)) (record_success oc)"
    unfolding record_success_update using live
    by (intro keeps_intro keeps_update_facts fact_step.success)
  from keeps_snd [OF this by_steps_refl [OF assms(1)]] r(1) have "all_covered [] sv1"
    by (intro all_covered_Nil) (simp add: by_steps_def)
  with r(2) require_covered(1) [of "[]" sv1] assms(3) show ?thesis by (auto split: option.splits if_splits)
qed

lemma rejected_outcome_covered:
  assumes "distinct (map rf_stream (sv_facts sv))" "observe_outcome clk oc sv = (Inr rs, sv')"
    and "rt_classification oc = RT_REJECTED"
  shows "all_covered rs sv'"
proof -
  obtain sv1 where r: "record_rejected oc sv = (Inr (), sv1)"
    "signal clk (rt_stream oc) REJECTED_OBSERVATION (Some (rt_open_time_ms oc)) sv1 = (Inr rs, sv')"
    using assms(2,3) by (auto simp: observe_outcome_def Let_def bindE_eq_Inr)
  let ?change = "\<lambda>f. f\<lparr>rf_status := RS_RECOVERY_REQUIRED, rf_last_ingestion_classification :=
    Some (realtime_classification_value (rt_classification oc)), rf_recovery_pending := True, rf_recovery_restored := False\<rparr>"
  have "rf_stream (?change f) = rf_stream f \<and> continuity_frontier_ms (?change f) = continuity_frontier_ms f \<and>
    (rf_recovery_pending f \<longrightarrow> rf_recovery_pending (?change f)) \<and>
    (rf_recovery_restored (?change f) \<longrightarrow> rf_recovery_restored f)" for f
    by (simp add: continuity_frontier_ms_def)
  note u = all_covered_update [OF all_covered_Nil [OF assms(1)] r(1) [unfolded record_rejected_def] this]
  have "\<forall>f \<in> set (sv_facts sv1). rf_stream f = rt_stream oc \<longrightarrow> rf_recovery_pending f \<and> \<not> rf_recovery_restored f"
    unfolding u(2) ball_update by simp
  from signal_covered(1) [OF u(1) r(2) this] show ?thesis by simp
qed

lemma open_interest_covered:
  assumes "distinct (map rf_stream (sv_facts sv))" "observe_open_interest clk k t sv = (Inr rs, sv')" "r \<in> set rs"
  shows "all_covered rs sv'"
proof -
  let ?change = "\<lambda>g. g\<lparr>rf_last_open_interest_open_time_ms :=
       Some (extend_frontier (rf_last_open_interest_open_time_ms g) t k)\<rparr>"
  obtain f where f: "facts_of k sv = (Inr f, sv)"
    using assms(2) by (auto simp: observe_open_interest_def bindE_eq_Inr facts_of_def split: option.splits)
  obtain sv1 where r1: "update_facts k ?change sv = (Inr (), sv1)"
    using assms(2) f by (auto simp: observe_open_interest_update bindE_eq_Inr)
  then have r: "(case rf_last_open_interest_open_time_ms f of
        Some p \<Rightarrow>
          if t > p + stream_step k
          then bindE (require_recovery k RS_RECOVERY_REQUIRED None) (\<lambda>_.
               signal clk k SEQUENCE_DISCONTINUITY (Some (p + stream_step k)))
          else returnE []
      | None \<Rightarrow> returnE []) sv1 = (Inr rs, sv')"
    using assms(2) f by (simp add: observe_open_interest_update bindE_def [of "facts_of k"]
        bindE_def [of "update_facts k c" for c])
  have "keeps (by_steps sv (ObserveOpenInterest k t)) (update_facts k ?change)"
    by (intro keeps_update_facts fact_step.open_interest)
  from keeps_snd [OF this by_steps_refl [OF assms(1)]] r1 have "all_covered [] sv1"
    by (intro all_covered_Nil) (simp add: by_steps_def)
  with r require_covered(1) [of "[]" sv1] assms(3) show ?thesis by (auto split: option.splits if_splits)
qed

lemma event_covered:
  assumes "distinct (map rf_stream (sv_facts sv))" "observe_event clk e sv = (Inr rs, sv')" "r \<in> set rs"
  shows "all_covered rs sv'"
  using assms(2,3)
proof (cases e)
  case (SubscriptionConfirmed topics n)
  let ?v = "sv\<lparr>sv_disconnected := False\<rparr>"
  have "confirm_topics clk (sv_disconnected sv) n topics [] ?v = (Inr rs, sv')"
    using assms(2) SubscriptionConfirmed
    by (simp add: subscriptions_confirmed_def bindE_def readE_def set_disconnected_def)
  moreover have "all_covered [] ?v" using all_covered_Nil assms(1) by simp
  ultimately show ?thesis using confirm_covered by blast
qed (auto simp: bindE_eq_Inr lost_connection_def)

lemma stale_covered:
  assumes "distinct (map rf_stream (sv_facts sv))" "detect_stale clk n sv = (Inr rs, sv')"
  shows "all_covered rs sv'"
proof -
  let ?v = "case n of None \<Rightarrow> sv\<lparr>sv_ticks := Suc (sv_ticks sv)\<rparr> | Some _ \<Rightarrow> sv"
  have v: "distinct (map rf_stream (sv_facts ?v))" using assms(1) by (cases n) simp_all
  obtain now where "foldE (stale_step clk now) [] (sv_facts ?v) ?v = (Inr rs, sv')"
    using assms(2) by (cases n) (auto simp: detect_stale_def bindE_def readE_def sup_now_def)
  then show ?thesis using stale_loop [OF all_covered_Nil [OF v] v subset_refl, of clk now] by auto
qed

lemma outcome_covered:
  assumes "distinct (map rf_stream (sv_facts sv))" "observe_outcome clk oc sv = (Inr rs, sv')" "r \<in> set rs"
  shows "all_covered rs sv'"
proof (cases "rt_classification oc")
  case RT_REJECTED
  then show ?thesis using rejected_outcome_covered assms(1,2) by blast
next
  case RT_FAILED
  then show ?thesis using assms by (auto simp: observe_outcome_def bindE_eq_Inr)
qed (use live_outcome_covered [OF assms] in simp_all)

text \<open>
  C19. Every recovery signal of every operation can be relied on: when the operation returns, the
  stream of the signal waits for recovery, is not restored, and the suspected start is no later than
  the bar after the stream's continuity frontier, so that recovery from there leaves no bar out.
\<close>

theorem signals_cover_missing_range:
  assumes "distinct (map rf_stream (sv_facts sv))" "run_op clk op sv = (Inr rs, sv')" "r \<in> set rs"
  shows "covered sv' r"
proof -
  have "all_covered rs sv'"
    using assms(2,3) event_covered [OF assms(1)] outcome_covered [OF assms(1)] open_interest_covered [OF assms(1)]
      stale_covered [OF assms(1)]
    by (cases op) (auto simp: bindE_eq_Inr)
  with assms(3) show ?thesis by (simp add: all_covered_def)
qed

section \<open>An example run\<close>

definition example_supervisor :: supervisor where
  "example_supervisor = \<lparr>sv_facts = [initial_facts example_stream (Some 60000) False None],
     sv_topic_to_stream = [(''kline.1.BTCUSDT'', example_stream)], sv_grace_ms = 15000, sv_disconnected = False,
     sv_ticks = 0\<rparr>"

definition example_outcome :: "int \<Rightarrow> realtime_outcome" where
  "example_outcome t = \<lparr>rt_stream = example_stream, rt_open_time_ms = t, rt_classification = RT_COMMITTED,
     rt_issue_codes = [], rt_error_code = None, rt_error_detail = None\<rparr>"

definition example_ops :: "sup_op list" where
  "example_ops = [ObserveEvent (SubscriptionConfirmed [''kline.1.BTCUSDT''] 10),
     RecordRecoveryResult example_stream True False (Some 120000), ObserveOutcome (example_outcome 180000)]"

fun run_ops :: "(nat \<Rightarrow> int) \<Rightarrow> sup_op list \<Rightarrow> supervisor \<Rightarrow> supervisor" where
  "run_ops clk [] sv = sv"
| "run_ops clk (op # ops) sv = run_ops clk ops (snd (run_op clk op sv))"

lemma run_ops_sup_run: "sup_run clk sv0 ops0 sv \<Longrightarrow> sup_run clk sv0 (ops0 @ ops) (run_ops clk ops sv)"
proof (induction ops arbitrary: ops0 sv)
  case (Cons op ops)
  from Cons.IH [OF sup_run.step [OF Cons.prems refl]] show ?case by simp
qed simp

lemma run_ops_reached: "sup_run clk sv ops (run_ops clk ops sv)"
  using run_ops_sup_run [OF sup_run.start] by simp

lemma example_supervisor_distinct: "distinct (map rf_stream (sv_facts example_supervisor))"
  by (simp add: example_supervisor_def)

lemma example_run_facts:
  "map_sum id data_ready (fst (supervisor_facts (\<lambda>_. 255000) example_stream
     (run_ops (\<lambda>_. 255000) example_ops (snd (observe_event (\<lambda>_. 255000) (Disconnected None None 5) example_supervisor))))) = Inr True"
  "map continuity_frontier_ms (sv_facts (run_ops (\<lambda>_. 255000) example_ops example_supervisor)) = [Some 180000]"
  "map rf_stream (sv_facts (run_ops (\<lambda>_. 255000) example_ops example_supervisor)) = [example_stream]"
  by code_simp+

lemma run_Inr_sup: "map_sum id h (fst x) = Inr y \<Longrightarrow> \<exists>r s. x = (Inr r, s) \<and> h r = y"
  by (cases x; cases "fst x") auto


definition failed_facts :: realtime_stream_facts where
  "failed_facts = (initial_facts example_stream (Some 60000) False None)\<lparr>rf_fatal_error_code := Some ''recovery_fatal_failure''\<rparr>"

definition failed_supervisor :: supervisor where
  "failed_supervisor = example_supervisor\<lparr>sv_facts := [failed_facts]\<rparr>"

lemma failed_run_facts:
  "map_sum id rf_recovery_restored (fst (supervisor_facts (\<lambda>_. 255000) example_stream
     (run_ops (\<lambda>_. 255000) example_ops failed_supervisor))) = Inr True"
  by code_simp

theorem fatal_is_final_witness:
  "\<exists>g sv''. supervisor_facts (\<lambda>_. 255000) example_stream (run_ops (\<lambda>_. 255000) example_ops failed_supervisor) = (Inr g, sv'') \<and>
     rf_recovery_restored g \<and> \<not> data_ready g"
proof -
  obtain g sv'' where g: "supervisor_facts (\<lambda>_. 255000) example_stream (run_ops (\<lambda>_. 255000) example_ops failed_supervisor) = (Inr g, sv'')"
    "rf_recovery_restored g" using run_Inr_sup [OF failed_run_facts] by auto
  have "distinct (map rf_stream (sv_facts failed_supervisor))" "failed_facts \<in> set (sv_facts failed_supervisor)"
    "rf_fatal_error_code failed_facts \<noteq> None" "rf_stream failed_facts = example_stream"
    by (simp_all add: failed_supervisor_def failed_facts_def initial_facts_def)
  then show ?thesis using fatal_is_final [OF _ _ _ run_ops_reached] g by metis
qed


theorem detect_stale_exact_witness:
  "\<exists>rs sv'. detect_stale (\<lambda>_. 255000) (Some 255000) example_supervisor = (Inr rs, sv') \<and> (\<forall>r \<in> set rs. covered sv' r)"
  using detect_stale_exact [OF example_supervisor_distinct, of "\<lambda>_. 255000" 255000] by auto

lemma example_gap:
  "map_sum id (map rc_stream) (fst (run_op (\<lambda>_. 255000) (ObserveOutcome (example_outcome 180000)) example_supervisor)) = Inr [example_stream]"
  by code_simp

theorem signals_cover_missing_range_witness:
  "\<exists>rs sv'. run_op (\<lambda>_. 255000) (ObserveOutcome (example_outcome 180000)) example_supervisor = (Inr rs, sv') \<and>
     rs \<noteq> [] \<and> (\<forall>r \<in> set rs. covered sv' r)"
proof -
  obtain rs sv' where "run_op (\<lambda>_. 255000) (ObserveOutcome (example_outcome 180000)) example_supervisor = (Inr rs, sv')"
    "map rc_stream rs = [example_stream]" using run_Inr_sup [OF example_gap] by auto
  then show ?thesis using signals_cover_missing_range [OF example_supervisor_distinct] by (metis list.map_disc_iff list.simps(3))
qed

end
