(* ===== verification/Realtime.thy ===== *)
theory Realtime
  imports Supervisor
begin

text \<open>
  application/realtime/handler.py and application/realtime/connector.py: what is done with one live
  candle, and the life of the WebSocket connection. The transport is a parameter: the list of the
  sessions it gives, with the messages of each and how it ends. The event loop runs one step at a
  time, so a run is a sequence of actions: events and outcomes handed to the callbacks, and texts sent.
\<close>

section \<open>handler.py\<close>

fun classification_map :: "ingestion_classification \<Rightarrow> realtime_classification" where
  "classification_map COMMITTED = RT_COMMITTED"
| "classification_map DUPLICATE = RT_DUPLICATE"
| "classification_map CORRECTED = RT_CORRECTED"
| "classification_map REJECTED_INVALID = RT_REJECTED"
| "classification_map REJECTED_UNCONFIRMED = RT_REJECTED"
| "classification_map REJECTED_UNCONFIGURED = RT_REJECTED"

definition handle_candle :: "env \<Rightarrow> stream_key \<Rightarrow> observed_candle \<Rightarrow> realtime_outcome option app" where
  "handle_candle E stream candle =
     (if \<not> oc_confirmed candle then returnE None
      else
        bindE (now_ms E) (\<lambda>committed_at_ms.
        bindE (tryE (ingest_observed_candle candle committed_at_ms)) (\<lambda>ingested.
        case ingested of
          Inl exc \<Rightarrow> returnE (Some \<lparr>rt_stream = stream, rt_open_time_ms = oc_open_time_ms candle,
            rt_classification = RT_FAILED, rt_issue_codes = [],
            rt_error_code = Some (class_name (exn_cls exc)), rt_error_detail = Some (exn_str exc)\<rparr>)
        | Inr result \<Rightarrow> returnE (Some \<lparr>rt_stream = stream, rt_open_time_ms = oc_open_time_ms candle,
            rt_classification = classification_map (ing_classification result),
            rt_issue_codes = ing_issue_codes result, rt_error_code = None, rt_error_detail = None\<rparr>))))"

section \<open>connector.py\<close>

record reconnect_policy =
  po_max_attempts :: int
  po_delay_seconds :: int
  po_healthy_session_seconds :: int

definition mk_reconnect_policy :: "reconnect_policy \<Rightarrow> reconnect_policy res" where
  "mk_reconnect_policy p =
     (if po_max_attempts p \<le> 0 then Inl (Exn ValueError ''max_attempts must be positive'')
      else if po_delay_seconds p < 0 then Inl (Exn ValueError ''delay_seconds must be non-negative'')
      else if po_healthy_session_seconds p < 0
        then Inl (Exn ValueError ''healthy_session_seconds must be non-negative'')
      else Inr p)"

text \<open>How a session of the transport ends: the stop event came while waiting for a message, or was already
  set when the loop tested it, the peer closed the connection, or something else raised.\<close>

datatype session_end =
    StopRequested
  | StopNoticed
  | Dropped "int option" "string option" string
  | Broken exn

record session =
  se_connected_at :: "int option"
  se_messages :: "string list"
  se_end :: session_end
  se_end_at :: int

datatype action = OnEvent realtime_event | OnOutcome realtime_outcome | SendText string

record protocol_adapter =
  ad_subscription_payload :: "string \<Rightarrow> string"
  ad_unsubscription_payload :: "string \<Rightarrow> string"
  ad_parse :: "string \<Rightarrow> int \<Rightarrow> realtime_event list res"

fun deliver_event :: "env \<Rightarrow> realtime_event \<Rightarrow> action list app" where
  "deliver_event E (CandleObserved stream candle) =
     bindE (handle_candle E stream candle) (\<lambda>outcome.
       returnE (OnEvent (CandleObserved stream candle) #
         (case outcome of None \<Rightarrow> [] | Some oc \<Rightarrow> [OnOutcome oc])))"
| "deliver_event E event = returnE [OnEvent event]"

fun deliver_events :: "env \<Rightarrow> realtime_event list \<Rightarrow> action list app" where
  "deliver_events E [] = returnE []"
| "deliver_events E (event # events) =
     bindE (deliver_event E event) (\<lambda>done.
     bindE (deliver_events E events) (\<lambda>rest. returnE (done @ rest)))"

text \<open>The receive loop: the actions done, and how it ended.\<close>

fun receive_loop :: "env \<Rightarrow> protocol_adapter \<Rightarrow> string list \<Rightarrow> session_end \<Rightarrow> (action list \<times> session_end) app" where
  "receive_loop E adapter [] ending =
     returnE (case ending of
         StopRequested \<Rightarrow> ([SendText (ad_unsubscription_payload adapter ''unsubscribe-1'')], ending)
       | _ \<Rightarrow> ([], ending))"
| "receive_loop E adapter (raw # raws) ending =
     bindE (now_ms E) (\<lambda>observed_at_ms.
     case ad_parse adapter raw observed_at_ms of
       Inl exc \<Rightarrow> returnE ([], Broken exc)
     | Inr events \<Rightarrow>
         bindE (deliver_events E events) (\<lambda>done.
         bindE (receive_loop E adapter raws ending) (\<lambda>(rest, end').
         returnE (done @ rest, end'))))"

definition run_session :: "env \<Rightarrow> protocol_adapter \<Rightarrow> session \<Rightarrow> (action list \<times> session_end) app" where
  "run_session E adapter s =
     (case se_connected_at s of
        None \<Rightarrow> returnE ([], se_end s)
      | Some _ \<Rightarrow>
          bindE (now_ms E) (\<lambda>now.
          bindE (receive_loop E adapter (se_messages s) (se_end s)) (\<lambda>(actions, ending).
          returnE ([OnEvent (Connected now), SendText (ad_subscription_payload adapter ''subscribe-1'')] @ actions,
            ending))))"

text \<open>The \<open>except\<close> clauses of the reconnect loop.\<close>

definition report_end :: "env \<Rightarrow> session_end \<Rightarrow> action list app" where
  "report_end E ending =
     (case ending of
        StopRequested \<Rightarrow> returnE []
      | StopNoticed \<Rightarrow> returnE []
      | Dropped code reason detail \<Rightarrow>
          bindE (now_ms E) (\<lambda>t1. bindE (now_ms E) (\<lambda>t2.
            returnE [OnEvent (Disconnected code reason t1),
                     OnEvent (TransportFailed ''WebSocketDisconnected'' detail t2)]))
      | Broken exc \<Rightarrow>
          bindE (now_ms E) (\<lambda>t. returnE [OnEvent (TransportFailed (class_name (exn_cls exc)) (exn_str exc) t)]))"

definition session_healthy :: "reconnect_policy \<Rightarrow> session \<Rightarrow> bool" where
  "session_healthy policy s =
     (case se_connected_at s of
        None \<Rightarrow> False
      | Some t \<Rightarrow> se_end_at s - t \<ge> po_healthy_session_seconds policy)"

text \<open>
  The \<open>while\<close> loop over the sessions; when the list is used up, the stop event is set. Returns
  whether the budget is exhausted, how each failed session counted (healthy or not), and the actions.
\<close>

fun reconnect_loop ::
  "env \<Rightarrow> reconnect_policy \<Rightarrow> protocol_adapter \<Rightarrow> session list \<Rightarrow> int \<Rightarrow> (bool \<times> bool list \<times> action list) app" where
  "reconnect_loop E policy adapter [] failures = returnE (False, [], [])"
| "reconnect_loop E policy adapter (s # sessions) failures =
     bindE (run_session E adapter s) (\<lambda>(actions, ending).
     if ending \<in> {StopRequested, StopNoticed} then returnE (False, [], actions)
     else
       bindE (report_end E ending) (\<lambda>reported.
       let healthy = session_healthy policy s;
           failures = (if healthy then 1 else failures + 1)
       in if failures \<ge> po_max_attempts policy then returnE (True, [healthy], actions @ reported)
          else bindE (reconnect_loop E policy adapter sessions failures) (\<lambda>(exhausted, healths, rest).
               returnE (exhausted, healthy # healths, actions @ reported @ rest))))"

definition connector_run ::
  "env \<Rightarrow> reconnect_policy \<Rightarrow> protocol_adapter \<Rightarrow> session list \<Rightarrow> (bool \<times> bool list \<times> action list) app" where
  "connector_run E policy adapter sessions =
     bindE (reconnect_loop E policy adapter sessions 0) (\<lambda>(exhausted, healths, actions).
     bindE (if exhausted
            then bindE (now_ms E) (\<lambda>t. returnE [OnEvent (ReconnectExhausted (po_max_attempts policy) t)])
            else returnE []) (\<lambda>exhausted_event.
     bindE (now_ms E) (\<lambda>t.
     returnE (exhausted, healths, actions @ exhausted_event @ [OnEvent (Stopped t)]))))"

section \<open>One live candle\<close>

text \<open>
  A live candle is reported for what it is. From a database satisfying the invariant the handler
  does not raise and never reports a failure: an unconfirmed candle gives no outcome and changes
  nothing; otherwise, whenever the outcome is committed, duplicate or corrected, the bar is stored
  afterwards, on the grid of its stream, which is what the supervisor's frontier relies on.
\<close>

theorem handle_candle_truthful:
  assumes "service_inv (w_disk w)"
  shows "\<exists>oc w'. handle_candle E stream candle w = (Inr oc, w') \<and> evolves (w_disk w) (w_disk w') \<and>
     (\<not> oc_confirmed candle \<longrightarrow> oc = None \<and> w' = w) \<and>
     (oc_confirmed candle \<longrightarrow> (\<exists>x. oc = Some x \<and> rt_stream x = stream \<and> rt_open_time_ms x = oc_open_time_ms candle \<and>
        rt_classification x \<noteq> RT_FAILED \<and>
        (rt_classification x \<noteq> RT_REJECTED \<longrightarrow>
           stored (w_disk w') (oc_stream candle) (oc_open_time_ms candle) \<and> well_formed_candle candle)))"
proof (cases "oc_confirmed candle")
  case False
  then show ?thesis by (simp add: handle_candle_def)
next
  case True
  let ?t = "e_now E (w_ticks w)" and ?w = "w\<lparr>w_ticks := Suc (w_ticks w)\<rparr>"
  obtain r d' where r: "execute_in_unit_of_work candle ?t (w_disk w) = (Inr r, d')"
    "decision_ok candle ?t (w_disk w) (ing_classification r) d'"
    using ingest_decides [of "w_disk w" candle ?t] assms by (auto simp: service_inv_def)
  define w' where "w' = ?w\<lparr>w_disk := d', w_work := d'\<rparr>"
  have run: "ingest_observed_candle candle ?t ?w = (Inr r, w')"
    using r(1) by (simp add: ingest_observed_candle_def with_uow_def bindE_def in_work_def commit_def w'_def)
  have ev: "evolves (w_disk w) (w_disk w')" using run_evolves [OF keeps_ingest_app_evolves run] by simp
  have st: "classification_map (ing_classification r) \<noteq> RT_FAILED \<and>
      (classification_map (ing_classification r) \<noteq> RT_REJECTED \<longrightarrow>
         stored d' (oc_stream candle) (oc_open_time_ms candle) \<and> well_formed_candle candle)"
    using r(2) unfolding decision_ok_def stored_def stored_in_def
    by (auto split: if_splits sum.splits option.splits)
  show ?thesis
    using True run ev st
    by (auto simp: handle_candle_def bindE_def run_now_ms tryE_def) (simp_all add: w'_def)
qed

theorem handle_candle_truthful_witness:
  "\<exists>oc w'. handle_candle example_env example_stream example_observation example_world = (Inr (Some oc), w') \<and>
     rt_classification oc \<noteq> RT_FAILED \<and> evolves (w_disk example_world) (w_disk w')"
  using handle_candle_truthful [OF example_service_inv, of example_env example_stream example_observation]
  by (auto simp: example_observation_def)

section \<open>Reconnecting\<close>

text \<open>The budget, said without counting: some \<open>n\<close> failed sessions in a row, all but the first of
  them unhealthy, and this was reached only by the last session.\<close>

definition out_of_attempts :: "nat \<Rightarrow> bool list \<Rightarrow> bool" where
  "out_of_attempts n healths \<longleftrightarrow> n \<le> length healths \<and> (\<forall>h \<in> set (drop (length healths - (n - 1)) healths). \<not> h)"

fun failure_count :: "int \<Rightarrow> bool list \<Rightarrow> int" where
  "failure_count f [] = f"
| "failure_count f (h # hs) = failure_count (if h then 1 else f + 1) hs"

lemma failure_count_snoc: "failure_count f (hs @ [h]) = (if h then 1 else failure_count f hs + 1)"
  by (induction hs arbitrary: f) auto

lemma failure_count_nonneg: "0 \<le> f \<Longrightarrow> 0 \<le> failure_count f hs"
  by (induction hs arbitrary: f) auto

lemma failure_count_spec:
  "0 < n \<Longrightarrow> int n \<le> failure_count 0 hs \<longleftrightarrow> out_of_attempts n hs"
proof (induction hs arbitrary: n rule: rev_induct)
  case (snoc h hs)
  show ?case
  proof (cases "n = 1")
    case True
    then show ?thesis using failure_count_nonneg [of 0 hs] by (auto simp: failure_count_snoc out_of_attempts_def)
  next
    case False
    then obtain m where n: "n = Suc m" "0 < m" using snoc.prems by (cases n) auto
    have d: "drop (length (hs @ [h]) - (n - 1)) (hs @ [h]) = drop (length hs - (m - 1)) hs @ [h]" if "m \<le> length hs"
      using that n by (cases m) auto
    have "out_of_attempts n (hs @ [h]) \<longleftrightarrow> \<not> h \<and> out_of_attempts m hs"
      using d n by (auto simp: out_of_attempts_def)
    then show ?thesis using snoc.IH [OF n(2)] n by (auto simp: failure_count_snoc)
  qed
qed (simp add: out_of_attempts_def)

lemma reconnect_loop_run:
  "reconnect_loop E p ad ss f w = (Inr (exh, hs, acts), w') \<Longrightarrow> f < po_max_attempts p \<Longrightarrow>
   (exh \<longleftrightarrow> po_max_attempts p \<le> failure_count f hs) \<and>
   (\<forall>k < length hs. failure_count f (take k hs) < po_max_attempts p) \<and> length hs \<le> length ss"
proof (induction ss arbitrary: f w exh hs acts)
  case (Cons s ss)
  obtain a ending w1 where r: "run_session E ad s w = (Inr (a, ending), w1)"
    using Cons.prems(1) by (auto simp: bindE_eq_Inr)
  show ?case
  proof (cases "ending \<in> {StopRequested, StopNoticed}")
    case True
    with Cons.prems r show ?thesis by (auto simp: bindE_def)
  next
    case False
    let ?f = "if session_healthy p s then 1 else f + 1"
    obtain rep w2 where e: "report_end E ending w1 = (Inr rep, w2)"
      using Cons.prems(1) r False by (auto simp: bindE_def split: prod.splits sum.splits)
    show ?thesis
    proof (cases "po_max_attempts p \<le> ?f")
      case True
      with Cons.prems r e False have "exh" "hs = [session_healthy p s]" by (auto simp: bindE_def Let_def split: if_splits)
      with True Cons.prems(2) show ?thesis by auto
    next
      case not_yet: False
      then obtain hs' rest where l: "reconnect_loop E p ad ss ?f w2 = (Inr (exh, hs', rest), w')"
        "hs = session_healthy p s # hs'"
        using Cons.prems(1) r e False by (auto simp: bindE_def Let_def split: if_splits prod.splits sum.splits)
      have "?f < po_max_attempts p" using not_yet by simp
      from Cons.IH [OF l(1) this] have "exh \<longleftrightarrow> po_max_attempts p \<le> failure_count ?f hs'"
        "\<forall>k < length hs'. failure_count ?f (take k hs') < po_max_attempts p" "length hs' \<le> length ss"
        by blast+
      then show ?thesis using l(2) Cons.prems(2) by (auto simp: take_Cons' less_Suc_eq_0_disj)
    qed
  qed
qed auto

text \<open>Nothing the connector does raises.\<close>

definition returns :: "'a app \<Rightarrow> bool" where
  "returns m \<longleftrightarrow> (\<forall>w. \<exists>x w'. m w = (Inr x, w'))"

lemma returns_basic: "returns (returnE x)" "returns (Pair (Inr x))" "returns (now_ms E)" "returns (tryE m)"
  unfolding returns_def by (simp_all add: run_now_ms tryE_def split: prod.splits)

lemma returns_bindE:
  assumes "returns m" "\<And>x. returns (f x)"
  shows "returns (bindE m f)"
  unfolding returns_def
proof
  fix w
  obtain x w1 where "m w = (Inr x, w1)" using assms(1) unfolding returns_def by blast
  then show "\<exists>y w'. bindE m f w = (Inr y, w')" using assms(2) [of x] unfolding returns_def bindE_def by simp
qed

lemmas returns_intro = returns_basic returns_bindE

lemma returns_handle: "returns (handle_candle E k c)"
  unfolding handle_candle_def by (auto intro!: returns_intro split: sum.splits)

lemma returns_deliver: "returns (deliver_events E es)"
proof (induction es)
  case (Cons e es)
  have "returns (deliver_event E e)" by (cases e) (auto intro!: returns_intro returns_handle)
  with Cons show ?case by (auto intro!: returns_intro)
qed (auto intro: returns_intro)

lemma returns_receive: "returns (receive_loop E ad raws ending)"
  by (induction raws) (auto intro!: returns_intro returns_deliver split: sum.splits)

lemma returns_reconnect: "returns (reconnect_loop E p ad ss f)"
proof (induction ss arbitrary: f)
  case (Cons s ss)
  have "returns (run_session E ad s)" unfolding run_session_def by (auto intro!: returns_intro returns_receive split: option.splits)
  moreover have "returns (report_end E e)" for e unfolding report_end_def by (auto intro!: returns_intro split: session_end.splits)
  ultimately show ?case using Cons by (auto intro!: returns_intro simp: Let_def)
qed (auto intro: returns_intro)


definition example_policy :: reconnect_policy where
  "example_policy = \<lparr>po_max_attempts = 2, po_delay_seconds = 1, po_healthy_session_seconds = 30\<rparr>"


end
