(* ===== verification/Recovery.thy ===== *)
theory Recovery
  imports Supervisor
begin

text \<open>
  application/realtime/recovery\_types.py, recovery\_plan.py, recovery\_state.py,
  recovery\_open\_interest.py and recovery.py: one bounded recovery of one realtime stream. The gap
  repair of each track is what the coordinator is constructed with (the protocol \<open>StreamRepair\<close>), so
  it is an argument here and the locale \<open>stream_repair\<close> in the proofs. The lock of \<open>execute\<close> makes
  the recoveries of one stream follow each other: \<open>execute_sync\<close> is one of them.
\<close>

section \<open>recovery\_types.py\<close>

datatype recovery_classification =
  REC_RESTORED | REC_INCOMPLETE | REC_RECOVERABLE_FAILURE | REC_FATAL_FAILURE

record recovery_request =
  vq_signal :: recovery_required
  vq_max_windows :: int
  vq_recovery_window :: "time_window option"

definition mk_recovery_request :: "recovery_request \<Rightarrow> recovery_request res" where
  "mk_recovery_request r =
     (if vq_max_windows r \<le> 0 then Inl (Exn ValueError ''max_windows must be positive'') else Inr r)"

record recovery_result =
  vr_stream :: stream_key
  vr_classification :: recovery_classification
  vr_recovery_window :: "time_window option"
  vr_audit :: "continuity_report option"
  vr_repair :: "repair_result option"
  vr_open_interest_repair :: "repair_result option"
  vr_post_audit :: "continuity_report option"
  vr_next_recovery_window :: "time_window option"
  vr_restored_through_open_time_ms :: "int option"
  vr_error_code :: "string option"
  vr_error_detail :: "string option"

text \<open>The constructor of \<open>RealtimeRecoveryResult\<close> with the fields it may leave out.\<close>

definition recovery_result_of ::
  "stream_key \<Rightarrow> recovery_classification \<Rightarrow> time_window option \<Rightarrow> string option \<Rightarrow> string option \<Rightarrow> recovery_result" where
  "recovery_result_of stream classification window code detail =
     \<lparr>vr_stream = stream, vr_classification = classification, vr_recovery_window = window, vr_audit = None,
      vr_repair = None, vr_open_interest_repair = None, vr_post_audit = None, vr_next_recovery_window = None,
      vr_restored_through_open_time_ms = None, vr_error_code = code, vr_error_detail = detail\<rparr>"

definition restored :: "recovery_result \<Rightarrow> bool" where
  "restored r \<longleftrightarrow> vr_classification r = REC_RESTORED"

definition recovery_progress_marker :: "recovery_result \<Rightarrow> repair_progress_marker option" where
  "recovery_progress_marker r = map_option progress_marker (vr_repair r)"

definition recovery_window_results :: "recovery_result \<Rightarrow> window_result list" where
  "recovery_window_results r =
     concat (map (\<lambda>repair. case repair of None \<Rightarrow> [] | Some x \<Rightarrow> rr_window_results x)
       [vr_repair r, vr_open_interest_repair r])"

definition committed_bars :: "recovery_result \<Rightarrow> int" where
  "committed_bars r = sum_list (map (\<lambda>x. iw_committed (wr_imported x)) (recovery_window_results r))"

definition made_progress :: "recovery_result \<Rightarrow> bool" where
  "made_progress r \<longleftrightarrow> vr_next_recovery_window r \<noteq> None \<or>
     (\<exists>x \<in> set (recovery_window_results r). iw_committed (wr_imported x) > 0 \<or> iw_corrected (wr_imported x) > 0)"

section \<open>recovery\_plan.py\<close>

definition derive_window :: "env \<Rightarrow> recovery_required \<Rightarrow> time_window option app" where
  "derive_window E sig =
     (let stream = rc_stream sig; step_ms = stream_step stream
      in bindE (with_uow (uow_read (\<lambda>d. get_stream_state d stream))) (\<lambda>snapshot.
         case ss_latest_committed_open_time_ms snapshot of
           None \<Rightarrow> returnE None
         | Some latest \<Rightarrow>
             bindE (now_ms E) (\<lambda>now.
             bindE (liftR (align_to_grid now step_ms)) (\<lambda>end_ms.
             let default_start = latest + step_ms;
                 start_ms = (case rc_suspected_start_time_ms sig of
                     None \<Rightarrow> default_start | Some hinted_start \<Rightarrow> min default_start hinted_start);
                 start_ms = (case ss_earliest_available_open_time_ms snapshot of
                     None \<Rightarrow> start_ms | Some earliest \<Rightarrow> max start_ms earliest)
             in bindE (liftR (if start_ms \<ge> end_ms then mk_time_window latest (latest + step_ms)
                              else mk_time_window start_ms end_ms)) (\<lambda>window.
                returnE (Some window))))))"

section \<open>recovery\_state.py\<close>

fun recovery_reason_value :: "recovery_reason \<Rightarrow> string" where
  "recovery_reason_value STARTUP_RECONCILIATION = ''startup_reconciliation''"
| "recovery_reason_value DISCONNECT = ''disconnect''"
| "recovery_reason_value STALE_BAR = ''stale''"
| "recovery_reason_value SEQUENCE_DISCONTINUITY = ''sequence_discontinuity''"
| "recovery_reason_value REJECTED_OBSERVATION = ''rejected_observation''"

text \<open>
  The three methods read the snapshot in an open unit of work and read the clock only where they
  change it; \<open>modify_state\<close> reads the snapshot of the same unit of work again.
\<close>

definition move_state ::
  "env \<Rightarrow> stream_key \<Rightarrow> stream_lifecycle_state \<Rightarrow> string option \<Rightarrow> string option \<Rightarrow> unit app" where
  "move_state E stream target code detail =
     bindE (now_ms E) (\<lambda>now. modify_state stream (\<lambda>s.
       someR (transition_stream_state s target (max now (ss_updated_at_ms s)) code detail)))"

definition mark_unavailable :: "env \<Rightarrow> stream_key \<Rightarrow> string \<Rightarrow> unit app" where
  "mark_unavailable E stream reason = with_uow
     (bindE (uow_read (\<lambda>d. get_stream_state d stream)) (\<lambda>snapshot.
      bindE (if ss_state snapshot \<in> {READY, CONNECTING}
             then move_state E stream DEGRADED (Some ''realtime_recovery_required'') (Some reason)
             else returnE ()) (\<lambda>_. commit)))"

definition recovery_ensure_auditing :: "env \<Rightarrow> stream_key \<Rightarrow> unit app" where
  "recovery_ensure_auditing E stream = with_uow
     (bindE (uow_read (\<lambda>d. get_stream_state d stream)) (\<lambda>snapshot.
        if ss_state snapshot = AUDITING then commit
        else if ss_state snapshot \<in> {DEGRADED, REPAIRING}
          then bindE (move_state E stream AUDITING None None) (\<lambda>_. commit)
        else raiseE (Exn InvalidStreamTransition
               (''realtime recovery requires degraded/auditing/repairing state, got '' @
                lifecycle_value (ss_state snapshot)))))"

definition mark_restored :: "env \<Rightarrow> stream_key \<Rightarrow> unit app" where
  "mark_restored E stream = with_uow
     (bindE (uow_read (\<lambda>d. get_stream_state d stream)) (\<lambda>snapshot.
      bindE (if ss_state snapshot = AUDITING then move_state E stream CONNECTING None None else returnE ())
        (\<lambda>_. commit)))"

section \<open>recovery\_open\_interest.py\<close>

record open_interest_recovery_track =
  ot_streams :: "stream_key list"
  ot_repair :: "repair_request \<Rightarrow> repair_result app"

definition oi_required :: "open_interest_recovery_track option \<Rightarrow> stream_key \<Rightarrow> bool" where
  "oi_required track stream = (case track of None \<Rightarrow> False | Some t \<Rightarrow> stream \<in> set (ot_streams t))"

text \<open>The call of \<open>StreamRepair.execute\<close> on one window, for either track.\<close>

definition repair_window ::
  "(repair_request \<Rightarrow> repair_result app) \<Rightarrow> stream_key \<Rightarrow> time_window \<Rightarrow> int \<Rightarrow> repair_result app" where
  "repair_window repair stream window budget =
     bindE (liftR (mk_repair_request \<lparr>rq_stream = stream, rq_start_time_ms = start_ms window,
         rq_end_time_ms = end_ms window, rq_max_windows = budget\<rparr>)) repair"

definition failure_classification :: "source_failure_disposition option \<Rightarrow> recovery_classification" where
  "failure_classification disposition =
     (if disposition = Some RECOVERABLE then REC_RECOVERABLE_FAILURE else REC_FATAL_FAILURE)"

definition unfinished :: "stream_key \<Rightarrow> time_window \<Rightarrow> repair_result \<Rightarrow> repair_result \<Rightarrow> recovery_result" where
  "unfinished stream window repair open_interest_repair =
     (if rr_status open_interest_repair = REPAIR_FAILED
      then (recovery_result_of stream (failure_classification (rr_failure_disposition open_interest_repair))
              (Some window) (rr_error_code open_interest_repair) (rr_error_detail open_interest_repair))
             \<lparr>vr_audit := Some (rr_pre_repair_audit repair), vr_repair := Some repair,
              vr_open_interest_repair := Some open_interest_repair\<rparr>
      else (recovery_result_of stream REC_INCOMPLETE (Some window)
              (Some ''post_recovery_open_interest_incomplete'')
              (Some ''post-recovery open interest audit still reports gaps''))
             \<lparr>vr_audit := Some (rr_pre_repair_audit repair), vr_repair := Some repair,
              vr_open_interest_repair := Some open_interest_repair,
              vr_post_audit := rr_post_repair_audit open_interest_repair\<rparr>)"

section \<open>recovery.py\<close>

text \<open>What follows the repair of both tracks: the boundary may have moved meanwhile.\<close>

definition finish_recovery ::
  "env \<Rightarrow> stream_key \<Rightarrow> time_window \<Rightarrow> repair_result \<Rightarrow> repair_result option \<Rightarrow> recovery_result app" where
  "finish_recovery E stream window repair oi_repair =
     (let step_ms = stream_step stream;
          result = (recovery_result_of stream REC_INCOMPLETE (Some window) None None)
            \<lparr>vr_audit := Some (rr_pre_repair_audit repair), vr_repair := Some repair,
             vr_open_interest_repair := oi_repair, vr_post_audit := rr_post_repair_audit repair\<rparr>
      in bindE (now_ms E) (\<lambda>now.
         bindE (liftR (align_to_grid now step_ms)) (\<lambda>current_end_ms.
         if current_end_ms > end_ms window
         then bindE (liftR (mk_time_window (end_ms window) current_end_ms)) (\<lambda>next.
              returnE (result\<lparr>vr_next_recovery_window := Some next,
                vr_error_code := Some ''recovery_target_advanced'',
                vr_error_detail := Some ''latest closed boundary advanced during recovery''\<rparr>))
         else bindE (mark_restored E stream) (\<lambda>_.
              returnE (result\<lparr>vr_classification := REC_RESTORED,
                vr_restored_through_open_time_ms := Some (end_ms window - step_ms)\<rparr>)))))"

definition recover_window ::
  "env \<Rightarrow> (repair_request \<Rightarrow> repair_result app) \<Rightarrow> open_interest_recovery_track option \<Rightarrow>
   stream_key \<Rightarrow> int \<Rightarrow> time_window \<Rightarrow> recovery_result app" where
  "recover_window E repair_of track stream budget window =
     bindE (recovery_ensure_auditing E stream) (\<lambda>_.
     bindE (repair_window repair_of stream window budget) (\<lambda>repair.
     if rr_status repair = REPAIR_FAILED
     then returnE ((recovery_result_of stream (failure_classification (rr_failure_disposition repair))
              (Some window) (rr_error_code repair) (rr_error_detail repair))
            \<lparr>vr_audit := Some (rr_pre_repair_audit repair), vr_repair := Some repair\<rparr>)
     else if rr_status repair = REPAIR_INCOMPLETE \<or>
             \<not> (case rr_post_repair_audit repair of None \<Rightarrow> False | Some post \<Rightarrow> cr_is_continuous post)
     then returnE ((recovery_result_of stream REC_INCOMPLETE (Some window)
              (Some ''post_recovery_continuity_incomplete'') (Some ''post-recovery audit still reports gaps''))
            \<lparr>vr_audit := Some (rr_pre_repair_audit repair), vr_repair := Some repair,
             vr_post_audit := rr_post_repair_audit repair\<rparr>)
     else case track of
         Some t \<Rightarrow>
           if oi_required track stream
           then bindE (repair_window (ot_repair t) stream window budget) (\<lambda>oi_repair.
                if rr_status oi_repair \<noteq> REPAIR_COMPLETE
                then returnE (unfinished stream window repair oi_repair)
                else finish_recovery E stream window repair (Some oi_repair))
           else finish_recovery E stream window repair None
       | None \<Rightarrow> finish_recovery E stream window repair None))"

definition execute_sync ::
  "env \<Rightarrow> (repair_request \<Rightarrow> repair_result app) \<Rightarrow> open_interest_recovery_track option \<Rightarrow>
   recovery_request \<Rightarrow> recovery_result app" where
  "execute_sync E repair_of track request =
     (let stream = rc_stream (vq_signal request)
      in bindE (mark_unavailable E stream (recovery_reason_value (rc_reason (vq_signal request)))) (\<lambda>_.
         bindE (tryE
           (bindE (case vq_recovery_window request of
                     Some window \<Rightarrow> returnE (Some window)
                   | None \<Rightarrow> derive_window E (vq_signal request)) (\<lambda>recovery_window.
              case recovery_window of
                None \<Rightarrow> returnE (recovery_result_of stream REC_INCOMPLETE None
                          (Some ''missing_durable_recovery_anchor'')
                          (Some ''stream has no durable latest committed candle''))
              | Some window \<Rightarrow> recover_window E repair_of track stream (vq_max_windows request) window)))
           (\<lambda>outcome. case outcome of
              Inr result \<Rightarrow> returnE result
            | Inl exc \<Rightarrow>
                let decision = classify_source_failure exc
                in returnE (recovery_result_of stream (failure_classification (Some (sf_disposition decision)))
                     None (Some (sf_code decision)) (Some (sf_detail decision))))))"


section \<open>Recovery over any pair of gap repairs\<close>

lemma keeps_move_state [keeps_intro]: "keeps (work_ok (evolves d0)) (move_state E stream target code detail)"
  unfolding move_state_def by (intro keeps_intro latest_kept_intro)

lemma keeps_recovery_state [keeps_intro]:
  "keeps (disk_ok (evolves d0)) (mark_unavailable E stream reason)"
  "keeps (disk_ok (evolves d0)) (recovery_ensure_auditing E stream)"
  "keeps (disk_ok (evolves d0)) (mark_restored E stream)"
  unfolding mark_unavailable_def recovery_ensure_auditing_def mark_restored_def by (intro keeps_intro)+

lemma keeps_derive_window [keeps_intro]: "keeps (disk_ok (evolves d0)) (derive_window E sig)"
  unfolding derive_window_def Let_def by (intro keeps_intro)

lemma keeps_finish_recovery [keeps_intro]:
  "keeps (disk_ok (evolves d0)) (finish_recovery E stream window repair oi_repair)"
  unfolding finish_recovery_def Let_def by (intro keeps_intro)

text \<open>The bars of \<open>window\<close> on the grid of \<open>stream\<close> that \<open>present\<close> holds of.\<close>

definition window_filled :: "(int \<Rightarrow> bool) \<Rightarrow> stream_key \<Rightarrow> time_window \<Rightarrow> bool" where
  "window_filled present stream window \<longleftrightarrow>
     (\<forall>t. start_ms window \<le> t \<longrightarrow> t < end_ms window \<longrightarrow> t mod stream_step stream = 0 \<longrightarrow> present t)"

locale stream_repair =
  fixes repair_of :: "repair_request \<Rightarrow> repair_result app"
    and present :: "db \<Rightarrow> stream_key \<Rightarrow> int \<Rightarrow> bool"
  assumes repair_evolves: "keeps (disk_ok (evolves d0)) (repair_of rq)"
    and repair_complete: "service_inv (w_disk w) \<Longrightarrow> repair_of rq w = (Inr r, w') \<Longrightarrow> rr_status r = REPAIR_COMPLETE \<Longrightarrow>
      window_filled (present (w_disk w') (rq_stream rq)) (rq_stream rq)
        (TimeWindow (rq_start_time_ms rq) (rq_end_time_ms rq))"
    and present_evolves: "evolves d d' \<Longrightarrow> service_inv d \<Longrightarrow> present d s t \<Longrightarrow> present d' s t"
begin

lemma keeps_repair_window: "keeps (disk_ok (evolves d0)) (repair_window repair_of stream window budget)"
  unfolding repair_window_def by (intro keeps_intro repair_evolves)

lemma repair_window_complete:
  assumes "service_inv (w_disk w)" "repair_window repair_of stream window budget w = (Inr r, w')"
    and "rr_status r = REPAIR_COMPLETE"
  shows "window_filled (present (w_disk w') stream) stream window" "start_ms window < end_ms window"
    "start_ms window mod stream_step stream = 0" "end_ms window mod stream_step stream = 0"
proof -
  let ?rq = "\<lparr>rq_stream = stream, rq_start_time_ms = start_ms window, rq_end_time_ms = end_ms window, rq_max_windows = budget\<rparr>"
  have "mk_repair_request ?rq = Inr ?rq" "repair_of ?rq w = (Inr r, w')"
    using assms(2) by (auto simp: repair_window_def mk_repair_request_def split: if_splits)
  then show "window_filled (present (w_disk w') stream) stream window" "start_ms window < end_ms window"
    "start_ms window mod stream_step stream = 0" "end_ms window mod stream_step stream = 0"
    using repair_complete [OF assms(1) _ assms(3), of ?rq] by (auto simp: mk_repair_request_def split: if_splits)
qed

lemma window_filled_kept:
  "evolves d d' \<Longrightarrow> service_inv d \<Longrightarrow> window_filled (present d s) s window \<Longrightarrow> window_filled (present d' s) s window"
  using present_evolves by (auto simp: window_filled_def)

end

lemma finish_restored:
  assumes "finish_recovery E stream window repair oi_repair w = (Inr r, w')"
  shows "vr_recovery_window r = Some window"
    "restored r \<Longrightarrow> vr_restored_through_open_time_ms r = Some (end_ms window - stream_step stream)"
    "\<not> restored r \<Longrightarrow> vr_restored_through_open_time_ms r = None"
  using assms
  by (auto simp: finish_recovery_def Let_def bindE_eq_Inr recovery_result_of_def restored_def split: if_splits sum.splits)

lemma not_restored_results [simp]:
  "\<not> restored (unfinished stream window repair oi_repair)"
  "\<not> restored (recovery_result_of stream (failure_classification d) win code detail)"
  "\<not> restored (recovery_result_of stream REC_INCOMPLETE win code detail)"
  by (auto simp: restored_def unfinished_def recovery_result_of_def failure_classification_def)

locale recovery_tracks =
  candles: stream_repair repair_of stored + points: stream_repair oi_repair_of oi_stored
  for repair_of oi_repair_of
begin

lemma keeps_recover_window:
  assumes "\<forall>t. track = Some t \<longrightarrow> ot_repair t = oi_repair_of"
  shows "keeps (disk_ok (evolves d0)) (recover_window E repair_of track stream budget window)"
proof (cases track)
  case None
  show ?thesis
    unfolding recover_window_def None option.case by (intro keeps_intro candles.keeps_repair_window)
next
  case (Some t)
  then have t: "ot_repair t = oi_repair_of" using assms by simp
  show ?thesis
    unfolding recover_window_def Some option.case t
    by (intro keeps_intro candles.keeps_repair_window points.keeps_repair_window)
qed

lemma recover_window_restored:
  assumes "\<forall>t. track = Some t \<longrightarrow> ot_repair t = oi_repair_of" "service_inv (w_disk w)"
    and "recover_window E repair_of track stream budget window w = (Inr r, w')" "restored r"
  shows "vr_recovery_window r = Some window \<and>
     vr_restored_through_open_time_ms r = Some (end_ms window - stream_step stream) \<and>
     start_ms window < end_ms window \<and> start_ms window mod stream_step stream = 0 \<and> end_ms window mod stream_step stream = 0 \<and>
     window_filled (stored (w_disk w') stream) stream window \<and>
     (oi_required track stream \<longrightarrow> window_filled (oi_stored (w_disk w') stream) stream window)"
proof -
  obtain w1 repair w2 where s: "recovery_ensure_auditing E stream w = (Inr (), w1)"
    "repair_window repair_of stream window budget w1 = (Inr repair, w2)"
    using assms(3) by (auto simp: recover_window_def bindE_eq_Inr)
  have i1: "service_inv (w_disk w1)"
    using run_evolves [OF keeps_recovery_state(2) s(1)] assms(2) evolvesD(1) by blast
  then have i2: "service_inv (w_disk w2)"
    using run_evolves [OF candles.keeps_repair_window s(2)] evolvesD(1) by blast
  have c: "rr_status repair = REPAIR_COMPLETE"
    using assms(3,4) s
    by (cases "rr_status repair") (auto simp: recover_window_def bindE_def restored_def recovery_result_of_def
        failure_classification_def split: if_splits option.splits)
  note f = candles.repair_window_complete [OF i1 s(2) c]
  show ?thesis
  proof (cases "oi_required track stream")
    case False
    then have "finish_recovery E stream window repair None w2 = (Inr r, w')"
      using assms(3,4) s c
      by (auto simp: recover_window_def bindE_def restored_def recovery_result_of_def split: if_splits option.splits)
    from finish_restored [OF this] run_evolves [OF keeps_finish_recovery this] False assms(4) f
      candles.window_filled_kept [OF _ i2] show ?thesis by blast
  next
    case True
    then obtain t where t: "track = Some t" "ot_repair t = oi_repair_of"
      using assms(1) by (cases track) (auto simp: oi_required_def)
    obtain oi w3 where o: "repair_window oi_repair_of stream window budget w2 = (Inr oi, w3)"
      "rr_status oi = REPAIR_COMPLETE" "finish_recovery E stream window repair (Some oi) w3 = (Inr r, w')"
      using assms(3,4) s c t True
      by (auto simp: recover_window_def bindE_def [of "recovery_ensure_auditing E stream"]
          bindE_def [of "repair_window repair_of stream window budget"] restored_def recovery_result_of_def
          bindE_eq_Inr split: if_splits option.splits) (auto simp: restored_def unfinished_def recovery_result_of_def failure_classification_def split: if_splits)
    have ev: "evolves (w_disk w2) (w_disk w3)" "evolves (w_disk w3) (w_disk w')"
      using run_evolves [OF points.keeps_repair_window o(1)] run_evolves [OF keeps_finish_recovery o(3)] by blast+
    have "service_inv (w_disk w3)" using ev(1) i2 evolvesD(1) by blast
    then have "window_filled (oi_stored (w_disk w') stream) stream window"
      using points.repair_window_complete(1) [OF i2 o(1,2)] points.window_filled_kept ev(2) by blast
    moreover have "window_filled (stored (w_disk w') stream) stream window"
      using candles.window_filled_kept [OF evolves_trans [OF ev] i2 f(1)] .
    ultimately show ?thesis using finish_restored [OF o(3)] assms(4) f by blast
  qed
qed

lemma keeps_execute:
  assumes "\<forall>t. track = Some t \<longrightarrow> ot_repair t = oi_repair_of"
  shows "keeps (disk_ok (evolves d0)) (execute_sync E repair_of track request)"
  unfolding execute_sync_def Let_def by (intro keeps_intro keeps_recover_window [OF assms])

text \<open>Where the window of a restored recovery comes from, and what holds in it.\<close>

lemma execute_restored:
  assumes "\<forall>t. track = Some t \<longrightarrow> ot_repair t = oi_repair_of" "service_inv (w_disk w)"
    and "execute_sync E repair_of track request w = (Inr r, w')" "restored r"
  obtains window w1 w2 where
    "mark_unavailable E (rc_stream (vq_signal request)) (recovery_reason_value (rc_reason (vq_signal request))) w = (Inr (), w1)"
    "vq_recovery_window request = Some window \<or>
       vq_recovery_window request = None \<and> derive_window E (vq_signal request) w1 = (Inr (Some window), w2)"
    "vr_recovery_window r = Some window"
    "vr_restored_through_open_time_ms r = Some (end_ms window - stream_step (rc_stream (vq_signal request)))"
    "start_ms window < end_ms window" "start_ms window mod stream_step (rc_stream (vq_signal request)) = 0"
    "end_ms window mod stream_step (rc_stream (vq_signal request)) = 0"
    "window_filled (stored (w_disk w') (rc_stream (vq_signal request))) (rc_stream (vq_signal request)) window"
    "oi_required track (rc_stream (vq_signal request)) \<Longrightarrow>
       window_filled (oi_stored (w_disk w') (rc_stream (vq_signal request))) (rc_stream (vq_signal request)) window"
proof -
  let ?s = "rc_stream (vq_signal request)"
  obtain w1 where m: "mark_unavailable E ?s (recovery_reason_value (rc_reason (vq_signal request))) w = (Inr (), w1)"
    using assms(3) by (auto simp: execute_sync_def Let_def bindE_eq_Inr)
  have i1: "service_inv (w_disk w1)"
    using run_evolves [OF keeps_recovery_state(1) m] assms(2) evolvesD(1) by blast
  obtain window w2 where p: "vq_recovery_window request = Some window \<and> w2 = w1 \<or>
      vq_recovery_window request = None \<and> derive_window E (vq_signal request) w1 = (Inr (Some window), w2)"
    "recover_window E repair_of track ?s (vq_max_windows request) window w2 = (Inr r, w')"
    using assms(3,4) m
    by (auto simp: execute_sync_def Let_def bindE_def tryE_def returnE_def restored_def recovery_result_of_def
        failure_classification_def split: option.splits prod.splits sum.splits if_splits)
  have i2: "service_inv (w_disk w2)"
    using p(1) i1 run_evolves [OF keeps_derive_window] evolvesD(1) by metis
  from recover_window_restored [OF assms(1) i2 p(2) assms(4)] show thesis
    using p(1) m by (intro that [OF m, of window w2]) auto
qed

end

interpretation service_recovery: recovery_tracks
  "repair_stream_gaps (candle_repair_ops E max_candles)" "repair_stream_gaps (open_interest_repair_ops E max_points)"
  for E max_candles max_points
proof
  fix d0 rq w r w' d d' s t
  show "keeps (disk_ok (evolves d0)) (repair_stream_gaps (candle_repair_ops E max_candles) rq)"
    by (rule candle_track.keeps_repair)
  show "keeps (disk_ok (evolves d0)) (repair_stream_gaps (open_interest_repair_ops E max_points) rq)"
    by (rule open_interest_track.keeps_repair)
  show "stored d' s t" if "evolves d d'" "service_inv d" "stored d s t" using evolvesD(3) [OF that] .
  show "oi_stored d' s t" if "evolves d d'" "service_inv d" "oi_stored d s t" using evolvesD(4) [OF that] .
qed (simp_all add: window_filled_def candle_track.complete_sound(1) open_interest_track.complete_sound(1))

section \<open>Marking the stream unavailable\<close>

lemma move_state_runs:
  assumes "db_wf (w_work w)" "get_stream_state (w_work w) k = Inr st" "can_transition (ss_state st) target"
  shows "\<exists>d st'. move_state E k target code detail w =
       (Inr (), w\<lparr>w_ticks := Suc (w_ticks w), w_work := d\<rparr>) \<and> get_stream_state d k = Inr st' \<and> ss_state st' = target \<and>
       ss_latest_committed_open_time_ms st' = ss_latest_committed_open_time_ms st \<and>
       ss_earliest_available_open_time_ms st' = ss_earliest_available_open_time_ms st"
proof -
  have g: "ss_stream st = k" "state_wf st" using sqlite_states.get_good [OF assms(1,2)] by simp_all
  obtain st' where t: "transition_stream_state st target (max (e_now E (w_ticks w)) (ss_updated_at_ms st)) code detail = Inr st'"
    using transition_succeeds [OF g(2) assms(3)] by simp
  note r = transition_result [OF t]
  obtain d where d: "save_stream_state st' (w_work w) = Inr d"
    using sqlite_states.save_defined [OF assms(1), of st'] assms(2) r(3,4) g(1) by auto
  have "get_stream_state d k = Inr st'"
    using sqlite_states.save_get [OF assms(1) _ r(3) d] assms(2) r(4) g(1) by simp
  with t d assms(2) r(4) show ?thesis
    by (auto simp: move_state_def modify_state_def run_simps someR_def returnE_def)
qed

lemma mark_unavailable_runs:
  assumes "service_inv (w_disk w)" "get_stream_state (w_disk w) k = Inr st"
  obtains w1 st1 where "mark_unavailable E k reason w = (Inr (), w1)" "get_stream_state (w_disk w1) k = Inr st1"
    "ss_state st1 = (if ss_state st \<in> {READY, CONNECTING} then DEGRADED else ss_state st)"
    "ss_latest_committed_open_time_ms st1 = ss_latest_committed_open_time_ms st"
    "ss_earliest_available_open_time_ms st1 = ss_earliest_available_open_time_ms st"
proof (cases "ss_state st \<in> {READY, CONNECTING}")
  case True
  let ?w = "w\<lparr>w_work := w_disk w\<rparr>"
  have wf: "db_wf (w_work ?w)" using assms(1) by (simp add: service_inv_def canonical_inv_def)
  have "can_transition (ss_state st) DEGRADED" using True by (auto simp: can_transition_def)
  then obtain d st1 where m: "move_state E k DEGRADED (Some ''realtime_recovery_required'') (Some reason) ?w =
      (Inr (), ?w\<lparr>w_ticks := Suc (w_ticks w), w_work := d\<rparr>)" "get_stream_state d k = Inr st1" "ss_state st1 = DEGRADED"
    "ss_latest_committed_open_time_ms st1 = ss_latest_committed_open_time_ms st"
    "ss_earliest_available_open_time_ms st1 = ss_earliest_available_open_time_ms st"
    using move_state_runs [OF wf, of k st DEGRADED E "Some ''realtime_recovery_required''" "Some reason"] assms(2) by auto
  let ?w1 = "w\<lparr>w_ticks := Suc (w_ticks w), w_work := d, w_disk := d\<rparr>"
  have "mark_unavailable E k reason w = (Inr (), ?w1)"
    using m(1) True assms(2) by (simp add: mark_unavailable_def run_simps)
  then show thesis using m True by (intro that [of ?w1 st1]) simp_all
next
  case False
  with assms(2) that [of "w\<lparr>w_work := w_disk w\<rparr>" st] show thesis by (simp add: mark_unavailable_def run_simps)
qed

section \<open>What a restored recovery proves\<close>

lemma grid_floor:
  fixes step :: int
  assumes "0 < step" "p mod step = 0" "p \<le> t"
  shows "p \<le> t - t mod step"
proof -
  have "p div step * step \<le> t div step * step"
    using zdiv_mono1 [OF assms(3,1)] assms(1) by (simp add: mult_right_mono)
  moreover have "p = p div step * step" using assms(2) div_mult_mod_eq [of p step] by simp
  ultimately show ?thesis by (simp add: minus_mod_eq_div_mult)
qed

text \<open>The derived window reaches back to the proven frontier.\<close>

lemma derive_window_reaches:
  fixes p base :: int
  assumes "get_stream_state (w_disk w) (rc_stream sig) = Inr st" "ss_latest_committed_open_time_ms st = Some l"
    and "derive_window E sig w = (Inr (Some window), w')"
    and "rc_suspected_start_time_ms sig = Some h" "h \<le> p + stream_step (rc_stream sig)"
    and "\<And>n. l + stream_step (rc_stream sig) \<le> e_now E n"
    and "\<And>e. ss_earliest_available_open_time_ms st = Some e \<Longrightarrow> e \<le> base + 1"
    and "start_ms window mod stream_step (rc_stream sig) = 0" "0 \<le> l"
  shows "start_ms window \<le> max (p + stream_step (rc_stream sig)) (base + 1) \<or>
     end_ms window = l + stream_step (rc_stream sig) \<and> (l \<le> p \<or> l \<le> base)"
    and "stream_step (rc_stream sig) \<le> end_ms window"
proof -
  let ?step = "stream_step (rc_stream sig)" and ?now = "e_now E (w_ticks w)"
  let ?stop = "?now - ?now mod ?step"
  let ?start = "case ss_earliest_available_open_time_ms st of None \<Rightarrow> min (l + ?step) h | Some e \<Rightarrow> max (min (l + ?step) h) e"
  have win: "window = (if ?start \<ge> ?stop then TimeWindow l (l + ?step) else TimeWindow ?start ?stop)"
    using assms(1-4)
    by (auto simp: derive_window_def Let_def run_simps returnE_def mk_time_window_def split: option.splits if_splits sum.splits)
  have st: "?start \<le> max (p + ?step) (base + 1)"
    using assms(5,7) by (auto split: option.splits)
  have now: "l + ?step \<le> ?now" by (rule assms(6))
  have "?step \<le> ?now" using now assms(9) by simp
  then have "?step \<le> ?stop"
    using grid_floor [of ?step ?step ?now] by simp
  then show "?step \<le> end_ms window" using win assms(9) by (auto split: if_splits)
  show "start_ms window \<le> max (p + ?step) (base + 1) \<or> end_ms window = l + ?step \<and> (l \<le> p \<or> l \<le> base)"
  proof (cases "?start \<ge> ?stop")
    case True
    then have "l mod ?step = 0" using win assms(8) by simp
    then have "l + ?step \<le> ?stop" using now grid_floor [of ?step "l + ?step" ?now] by simp
    with True st have "l + ?step \<le> max (p + ?step) (base + 1)" by linarith
    then have "l \<le> p \<or> l \<le> base" using stream_step_pos [of "rc_stream sig"] by linarith
    with True win show ?thesis by simp
  qed (use win st in simp)
qed


lemma filled_proven:
  assumes "proven S base k p" "S \<subseteq> T" "window_filled (\<lambda>t. t \<in> T) k window"
    and "start_ms window \<le> max (p + stream_step k) (base + 1) \<or>
       end_ms window = l + stream_step k \<and> (l \<le> p \<or> l \<le> base)"
    and "stream_step k \<le> end_ms window" "end_ms window mod stream_step k = 0"
  shows "proven T base k (end_ms window - stream_step k)"
proof -
  have "u \<in> T" if u: "base < u" "u \<le> end_ms window - stream_step k" "u mod stream_step k = 0" for u
  proof (cases "u \<le> p")
    case True
    with assms(1,2) u show ?thesis by (auto simp: proven_def)
  next
    case False
    then have "p + stream_step k \<le> u" using grid_next [of "stream_step k" p u] u(3) assms(1) by (simp add: proven_def)
    with assms(4) u False have "start_ms window \<le> u" by auto
    moreover have "u < end_ms window" using u(2) stream_step_pos [of k] by linarith
    ultimately show ?thesis using assms(3) u(3) by (simp add: window_filled_def)
  qed
  moreover have "(end_ms window - stream_step k) mod stream_step k = 0" using assms(6) by (simp add: mod_diff_eq [symmetric])
  ultimately show ?thesis using assms(5) by (simp add: proven_def)
qed

definition service_recover ::
  "env \<Rightarrow> int \<Rightarrow> int \<Rightarrow> stream_key list option \<Rightarrow> recovery_request \<Rightarrow> recovery_result app" where
  "service_recover E max_candles max_points oi_streams =
     execute_sync E (repair_stream_gaps (candle_repair_ops E max_candles))
       (map_option (\<lambda>streams. \<lparr>ot_streams = streams,
          ot_repair = repair_stream_gaps (open_interest_repair_ops E max_points)\<rparr>) oi_streams)"

definition oi_gated :: "stream_key list option \<Rightarrow> stream_key \<Rightarrow> bool" where
  "oi_gated oi_streams k \<longleftrightarrow> (\<exists>streams. oi_streams = Some streams \<and> k \<in> set streams)"

lemma oi_gated_required:
  "oi_required (map_option (\<lambda>streams. \<lparr>ot_streams = streams, ot_repair = r\<rparr>) oi_streams) k = oi_gated oi_streams k"
  by (cases oi_streams) (simp_all add: oi_required_def oi_gated_def)

lemma service_recover_evolves:
  assumes "service_recover E mc mp oi_streams request w = (res, w')"
  shows "evolves (w_disk w) (w_disk w')"
  using assms unfolding service_recover_def
  by (intro run_evolves [OF service_recovery.keeps_execute [where E = E and max_candles = mc and max_points = mp]]) auto

text \<open>What a restored recovery of stream \<open>k\<close> over \<open>window\<close> means for the database it leaves.\<close>

definition restored_window ::
  "db \<Rightarrow> stream_key list option \<Rightarrow> stream_key \<Rightarrow> recovery_result \<Rightarrow> time_window \<Rightarrow> bool" where
  "restored_window d oi_streams k r window \<longleftrightarrow>
     vr_recovery_window r = Some window \<and> vr_restored_through_open_time_ms r = Some (end_ms window - stream_step k) \<and>
     start_ms window < end_ms window \<and> start_ms window mod stream_step k = 0 \<and> end_ms window mod stream_step k = 0 \<and>
     window_filled (stored d k) k window \<and> (oi_gated oi_streams k \<longrightarrow> window_filled (oi_stored d k) k window)"

lemma service_recover_restored:
  assumes "service_inv (w_disk w)" "service_recover E mc mp oi_streams request w = (Inr r, w')" "restored r"
  obtains window w1 w2 where
    "mark_unavailable E (rc_stream (vq_signal request)) (recovery_reason_value (rc_reason (vq_signal request))) w = (Inr (), w1)"
    "vq_recovery_window request = Some window \<or>
       vq_recovery_window request = None \<and> derive_window E (vq_signal request) w1 = (Inr (Some window), w2)"
    "restored_window (w_disk w') oi_streams (rc_stream (vq_signal request)) r window"
proof -
  let ?track = "map_option (\<lambda>streams. \<lparr>ot_streams = streams,
    ot_repair = repair_stream_gaps (open_interest_repair_ops E mp)\<rparr>) oi_streams"
  have t: "\<forall>t. ?track = Some t \<longrightarrow> ot_repair t = repair_stream_gaps (open_interest_repair_ops E mp)" by auto
  show thesis
    by (rule service_recovery.execute_restored [OF t assms(1) assms(2) [unfolded service_recover_def] assms(3)])
      (rule that, assumption, assumption, auto simp: restored_window_def oi_gated_required)
qed

text \<open>
  C4. A recovery that reports \<open>restored\<close> has done so: from a database that satisfies the service
  invariant the window it names is a non-empty range on the grid of the stream, every candle of it is
  stored and, for a stream that open interest gates, every open interest point too; the frontier it
  reports is the last bar of that window. However it ends, the database only evolves.
\<close>

theorem recovery_restored_sound:
  assumes "service_inv (w_disk w)" "service_recover E mc mp oi_streams request w = (res, w')"
  shows "evolves (w_disk w) (w_disk w') \<and>
     (case res of Inl e \<Rightarrow> True
      | Inr r \<Rightarrow> restored r \<longrightarrow>
          (\<exists>window. restored_window (w_disk w') oi_streams (rc_stream (vq_signal request)) r window))"
proof -
  have "\<exists>window. restored_window (w_disk w') oi_streams (rc_stream (vq_signal request)) r window"
    if "res = Inr r" "restored r" for r
    by (rule service_recover_restored [OF assms(1) assms(2) [unfolded that(1)] that(2)]) blast
  with service_recover_evolves [OF assms(2)] show ?thesis by (auto split: sum.splits)
qed

text \<open>
  C5. Recovery and supervision fit together. Let the frontier \<open>p\<close> of a stream be proven for the candles
  stored (and the open interest points, where these gate the stream), and let a recovery be asked for
  by a signal whose start is no later than the bar after \<open>p\<close>, as every signal of the supervisor is. If
  the clock is not behind the newest stored bar and nothing earlier than the first available bar is
  claimed, then a recovery that reports \<open>restored\<close> names a frontier that is proven for the database it
  leaves: recording its result is justified, and the supervisor never moves over a missing bar.
\<close>

theorem recovery_result_is_justified:
  assumes "service_inv (w_disk w)" "service_recover E mc mp oi_streams request w = (Inr r, w')" "restored r"
    and "k = rc_stream (vq_signal request)" "vq_recovery_window request = None"
    and "rc_suspected_start_time_ms (vq_signal request) = Some h" "h \<le> p + stream_step k"
    and "proven {t. stored (w_disk w) k t} base k p"
    and "oi_gated oi_streams k \<Longrightarrow> proven {t. oi_stored (w_disk w) k t} base k p"
    and "get_stream_state (w_disk w) k = Inr st"
    and "\<And>l n. ss_latest_committed_open_time_ms st = Some l \<Longrightarrow> l + stream_step k \<le> e_now E n"
    and "\<And>e. ss_earliest_available_open_time_ms st = Some e \<Longrightarrow> e \<le> base + 1"
  shows "\<exists>through. vr_restored_through_open_time_ms r = Some through \<and>
     justified {t. stored (w_disk w') k t} (if oi_gated oi_streams k then {t. oi_stored (w_disk w') k t} else UNIV) base k
       (RecordRecoveryResult k True False (Some through))"
proof -
  note ev = service_recover_evolves [OF assms(2)]
  obtain w1 w2 window where d: "mark_unavailable E k (recovery_reason_value (rc_reason (vq_signal request))) w = (Inr (), w1)"
    "derive_window E (vq_signal request) w1 = (Inr (Some window), w2)"
    "restored_window (w_disk w') oi_streams k r window"
    using service_recover_restored [OF assms(1-3)] assms(4,5) by (metis option.distinct(1))
  obtain st1 where st1: "get_stream_state (w_disk w1) k = Inr st1"
    "ss_latest_committed_open_time_ms st1 = ss_latest_committed_open_time_ms st"
    "ss_earliest_available_open_time_ms st1 = ss_earliest_available_open_time_ms st"
    by (rule mark_unavailable_runs [OF assms(1,10), of E "recovery_reason_value (rc_reason (vq_signal request))"])
      (use d(1) in auto)
  obtain l where l: "ss_latest_committed_open_time_ms st = Some l"
    using d(2) st1 assms(4)
    by (auto simp: derive_window_def Let_def run_simps returnE_def split: option.splits)
  have "state_wf st" using assms(10) by (auto simp: get_stream_state_eq)
  then have l0: "0 \<le> l" using l by (simp add: state_wf_def)
  have reach: "start_ms window \<le> max (p + stream_step k) (base + 1) \<or> end_ms window = l + stream_step k \<and> (l \<le> p \<or> l \<le> base)"
    "stream_step k \<le> end_ms window"
    using derive_window_reaches [of w1 "vq_signal request" st1 l E window w2 h p base] st1 l l0 d assms
    by (auto simp: restored_window_def)
  have al: "end_ms window mod stream_step k = 0" using d(3) by (simp add: restored_window_def)
  have kept: "{t. stored (w_disk w) k t} \<subseteq> {t. stored (w_disk w') k t}"
    "{t. oi_stored (w_disk w) k t} \<subseteq> {t. oi_stored (w_disk w') k t}"
    using evolvesD(3,4) [OF ev assms(1)] by blast+
  have "proven {t. stored (w_disk w') k t} base k (end_ms window - stream_step k)"
    using d(3) by (intro filled_proven [OF assms(8) kept(1) _ reach al]) (simp add: restored_window_def)
  moreover have "proven {t. oi_stored (w_disk w') k t} base k (end_ms window - stream_step k)" if "oi_gated oi_streams k"
    using d(3) that by (intro filled_proven [OF assms(9) [OF that] kept(2) _ reach al]) (simp add: restored_window_def)
  ultimately show ?thesis using d(3) by (auto simp: restored_window_def proven_def)
qed


lemma recover_window_fields:
  assumes "recover_window E repair_of track stream budget window w = (Inr r, w')"
  shows "vr_stream r = stream \<and> (restored r \<longleftrightarrow> vr_restored_through_open_time_ms r \<noteq> None)"
proof -
  have f: "vr_stream r = stream \<and> (restored r \<longleftrightarrow> vr_restored_through_open_time_ms r \<noteq> None)"
    if "finish_recovery E stream window repair oi v = (Inr r, v')" for repair oi v v'
    using that by (auto simp: finish_recovery_def Let_def bindE_eq_Inr recovery_result_of_def restored_def
        split: if_splits sum.splits)
  show ?thesis
    using assms f
    by (auto simp: recover_window_def bindE_eq_Inr recovery_result_of_def restored_def unfinished_def
        failure_classification_def split: if_splits option.splits)
qed

lemma recover_window_early:
  assumes "get_stream_state (w_disk w) stream = Inr st" "ss_state st \<in> {UNINITIALIZED, BOOTSTRAPPING, FAILED}"
  shows "\<exists>msg w'. recover_window E repair_of track stream budget window w = (Inl (Exn InvalidStreamTransition msg), w')"
  using assms by (auto simp: recover_window_def recovery_ensure_auditing_def run_simps)

text \<open>
  C37. A recovery of a stream with a lifecycle snapshot never raises: whatever the sources, the clock and the
  gap repairs do, it returns a result for its stream, which names a restored frontier exactly when it
  is restored. Without a window and without a committed candle to start from it says so and stays
  incomplete, and a stream that is not past its bootstrap (or has failed) is a fatal failure.
\<close>

theorem recovery_always_reports:
  assumes "service_inv (w_disk w)" "get_stream_state (w_disk w) (rc_stream (vq_signal request)) = Inr st"
  shows "\<exists>r w'. execute_sync E repair_of track request w = (Inr r, w') \<and> vr_stream r = rc_stream (vq_signal request) \<and>
     (restored r \<longleftrightarrow> vr_restored_through_open_time_ms r \<noteq> None) \<and>
     (vq_recovery_window request = None \<and> ss_latest_committed_open_time_ms st = None \<longrightarrow>
        vr_classification r = REC_INCOMPLETE \<and> vr_error_code r = Some ''missing_durable_recovery_anchor'') \<and>
     (vq_recovery_window request \<noteq> None \<and> ss_state st \<in> {UNINITIALIZED, BOOTSTRAPPING, FAILED} \<longrightarrow>
        vr_classification r = REC_FATAL_FAILURE \<and> vr_error_code r = Some ''InvalidStreamTransition'')"
proof -
  let ?k = "rc_stream (vq_signal request)"
  obtain w1 st1 where m: "mark_unavailable E ?k (recovery_reason_value (rc_reason (vq_signal request))) w = (Inr (), w1)"
    "get_stream_state (w_disk w1) ?k = Inr st1"
    "ss_state st1 = (if ss_state st \<in> {READY, CONNECTING} then DEGRADED else ss_state st)"
    "ss_latest_committed_open_time_ms st1 = ss_latest_committed_open_time_ms st"
    by (rule mark_unavailable_runs [OF assms])
  let ?body = "bindE (case vq_recovery_window request of Some window \<Rightarrow> returnE (Some window)
      | None \<Rightarrow> derive_window E (vq_signal request)) (\<lambda>recovery_window. case recovery_window of
        None \<Rightarrow> returnE (recovery_result_of ?k REC_INCOMPLETE None (Some ''missing_durable_recovery_anchor'')
          (Some ''stream has no durable latest committed candle''))
      | Some window \<Rightarrow> recover_window E repair_of track ?k (vq_max_windows request) window)"
  obtain res w2 where b: "?body w1 = (res, w2)" by fastforce
  have run: "execute_sync E repair_of track request w = (Inr (case res of Inr result \<Rightarrow> result | Inl exc \<Rightarrow>
      recovery_result_of ?k (failure_classification (Some (sf_disposition (classify_source_failure exc))))
        None (Some (sf_code (classify_source_failure exc))) (Some (sf_detail (classify_source_failure exc)))), w2)"
    using m(1) b by (simp add: execute_sync_def Let_def bindE_def tryE_def split: sum.splits)
  have anchor: "\<exists>r. res = Inr r \<and> vr_classification r = REC_INCOMPLETE \<and>
      vr_error_code r = Some ''missing_durable_recovery_anchor''"
    if "vq_recovery_window request = None" "ss_latest_committed_open_time_ms st = None"
    using that b m by (auto simp: derive_window_def Let_def run_simps returnE_def recovery_result_of_def)
  have early: "\<exists>msg. res = Inl (Exn InvalidStreamTransition msg)"
    if win: "vq_recovery_window request \<noteq> None" and bad: "ss_state st \<in> {UNINITIALIZED, BOOTSTRAPPING, FAILED}"
  proof -
    obtain window where "vq_recovery_window request = Some window" using win by auto
    moreover obtain msg w3 where "recover_window E repair_of track ?k (vq_max_windows request) window w1 =
        (Inl (Exn InvalidStreamTransition msg), w3)"
      using recover_window_early [OF m(2)] m(3) bad by fastforce
    ultimately show ?thesis using b by auto
  qed
  show ?thesis
  proof (cases res)
    case (Inl exc)
    with run anchor early show ?thesis
      by (auto simp: recovery_result_of_def restored_def failure_classification_def classify_source_failure_def)
  next
    case (Inr r)
    have "vr_stream r = ?k \<and> (restored r \<longleftrightarrow> vr_restored_through_open_time_ms r \<noteq> None)"
      using b Inr recover_window_fields
      by (auto simp: bindE_eq_Inr recovery_result_of_def restored_def split: option.splits)
    with Inr run anchor early show ?thesis by auto
  qed
qed

definition recovery_env :: env where
  "recovery_env = example_env\<lparr>e_now := (\<lambda>_. 150000)\<rparr>"

definition example_recovery :: recovery_request where
  "example_recovery = \<lparr>vq_signal = \<lparr>rc_stream = example_stream, rc_reason = DISCONNECT, rc_detected_at_ms = 150000,
      rc_suspected_start_time_ms = Some 120000\<rparr>, vq_max_windows = 3, vq_recovery_window = None\<rparr>"

lemma example_recovery_run:
  "map_sum id (\<lambda>r. (restored r, vr_restored_through_open_time_ms r))
     (fst (service_recover recovery_env 1000 1000 (Some [example_stream]) example_recovery auditing_world)) =
   Inr (True, Some 60000)"
  by code_simp


lemma example_recovery_restored:
  obtains r w' where "service_recover recovery_env 1000 1000 (Some [example_stream]) example_recovery auditing_world = (Inr r, w')"
    "restored r" "vr_restored_through_open_time_ms r = Some 60000"
  using example_recovery_run
  by (cases "service_recover recovery_env 1000 1000 (Some [example_stream]) example_recovery auditing_world";
      cases "fst (service_recover recovery_env 1000 1000 (Some [example_stream]) example_recovery auditing_world)") auto

theorem recovery_restored_sound_witness:
  "\<exists>r w' window. service_recover recovery_env 1000 1000 (Some [example_stream]) example_recovery auditing_world = (Inr r, w') \<and>
     restored r \<and> restored_window (w_disk w') (Some [example_stream]) example_stream r window"
proof -
  obtain r w' where r: "service_recover recovery_env 1000 1000 (Some [example_stream]) example_recovery auditing_world = (Inr r, w')"
    "restored r" by (rule example_recovery_restored)
  have "service_inv (w_disk auditing_world)" by (simp add: auditing_world_def auditing_inv)
  from recovery_restored_sound [OF this r(1)] r show ?thesis by (auto simp: example_recovery_def)
qed

lemma proven_single:
  assumes "t \<in> S" "0 \<le> t" "t mod stream_step k = 0"
  shows "proven S (t - 1) k t"
proof -
  have "u = t" if "t - 1 < u" "u \<le> t" for u :: int using that by simp
  with assms show ?thesis unfolding proven_def by blast
qed

lemma auditing_proven:
  "proven {t. stored (w_disk auditing_world) example_stream t} 59999 example_stream 60000"
  "proven {t. oi_stored (w_disk auditing_world) example_stream t} 59999 example_stream 60000"
proof -
  have "case get_candle auditing_db example_stream 60000 of Inr (Some c) \<Rightarrow> True | _ \<Rightarrow> False"
    "case get_open_interest auditing_db example_stream 60000 of Inr (Some p) \<Rightarrow> True | _ \<Rightarrow> False"
    by code_simp+
  then have "stored (w_disk auditing_world) example_stream 60000" "oi_stored (w_disk auditing_world) example_stream 60000"
    by (auto simp: stored_def oi_stored_def auditing_world_def split: sum.splits option.splits)
  moreover have "(60000 :: int) mod stream_step example_stream = 0" by code_simp
  ultimately show "proven {t. stored (w_disk auditing_world) example_stream t} 59999 example_stream 60000"
    "proven {t. oi_stored (w_disk auditing_world) example_stream t} 59999 example_stream 60000"
    using proven_single [of 60000] by simp_all
qed

theorem recovery_result_is_justified_witness:
  "\<exists>r w'. service_recover recovery_env 1000 1000 (Some [example_stream]) example_recovery auditing_world = (Inr r, w') \<and>
     justified {t. stored (w_disk w') example_stream t} {t. oi_stored (w_disk w') example_stream t} 59999 example_stream
       (RecordRecoveryResult example_stream True False (Some 60000))"
proof -
  obtain r w' where r: "service_recover recovery_env 1000 1000 (Some [example_stream]) example_recovery auditing_world = (Inr r, w')"
    "restored r" "vr_restored_through_open_time_ms r = Some 60000"
    by (rule example_recovery_restored)
  have i: "service_inv (w_disk auditing_world)" by (simp add: auditing_world_def auditing_inv)
  have step: "stream_step example_stream = 60000" by code_simp
  have g: "oi_gated (Some [example_stream]) example_stream" by (simp add: oi_gated_def)
  have st: "get_stream_state (w_disk auditing_world) example_stream = Inr auditing_state"
    using auditing_reads(1) by (simp add: auditing_world_def)
  have a: "ss_latest_committed_open_time_ms auditing_state = Some 60000" "ss_earliest_available_open_time_ms auditing_state = None"
    by (simp_all add: auditing_state_def initial_stream_state_def)
  from recovery_result_is_justified [OF i r(1,2), of example_stream 120000 60000 59999 auditing_state]
  show ?thesis using r auditing_proven st a g step
    by (simp add: example_recovery_def recovery_env_def)
qed

theorem recovery_always_reports_witness:
  "\<exists>r w'. execute_sync recovery_env (\<lambda>_. raiseE (Exn RuntimeError ''boom'')) None example_recovery auditing_world = (Inr r, w') \<and>
     vr_stream r = example_stream"
proof -
  have "service_inv (w_disk auditing_world)"
    "get_stream_state (w_disk auditing_world) (rc_stream (vq_signal example_recovery)) = Inr auditing_state"
    using auditing_reads(1) auditing_inv by (simp_all add: auditing_world_def example_recovery_def)
  from recovery_always_reports [OF this, of recovery_env "\<lambda>_. raiseE (Exn RuntimeError ''boom'')" None] show ?thesis
    by (auto simp: example_recovery_def)
qed

end
