(* ===== verification/Digest.thy ===== *)
theory Digest
  imports Prelude "HOL-Library.Word" "HOL-Library.Char_ord" "HOL-Library.List_Lexorder"
begin

text \<open>
  The two parts of Python's standard library that application/consumer\_read/provenance.py builds the
  identity of a candle range from: \<open>json.dumps\<close> with sorted keys and compact separators, and
  \<open>hashlib.sha256(...).hexdigest()\<close> (FIPS 180-4, on 32-bit words whose addition wraps).
\<close>

section \<open>json.dumps\<close>

datatype json = JString string | JInt int | JArray "json list" | JObject "(string \<times> json) list"

definition json_char :: "char \<Rightarrow> string" where
  "json_char c =
     (let n = of_char c :: nat
      in if c = CHR 0x22 then [CHR 0x5C, CHR 0x22]
         else if c = CHR 0x5C then [CHR 0x5C, CHR 0x5C]
         else if n = 10 then [CHR 0x5C, CHR ''n'']
         else if n = 13 then [CHR 0x5C, CHR ''r'']
         else if n = 9 then [CHR 0x5C, CHR ''t'']
         else if n = 12 then [CHR 0x5C, CHR ''f'']
         else if n = 8 then [CHR 0x5C, CHR ''b'']
         else if n < 32 then [CHR 0x5C, CHR ''u'', CHR ''0'', CHR ''0'', hex_char (n div 16), hex_char (n mod 16)]
         else [c])"

definition json_string :: "string \<Rightarrow> string" where
  "json_string s = CHR 0x22 # concat (map json_char s) @ [CHR 0x22]"

text \<open>Keys are sorted by code point, separators are a comma and a colon, non-ASCII is kept.\<close>

fun json_dumps :: "json \<Rightarrow> string" where
  "json_dumps (JString s) = json_string s"
| "json_dumps (JInt i) = py_int_str i"
| "json_dumps (JArray xs) = ''['' @ py_join '','' (map json_dumps xs) @ '']''"
| "json_dumps (JObject kvs) =
     ''{'' @ py_join '','' (map (\<lambda>(k, v). json_string k @ '':'' @ v)
        (sort_key fst (map (\<lambda>(k, v). (k, json_dumps v)) kvs))) @ ''}''"

text \<open>\<open>str.encode("utf-8")\<close> for code points below 256, as byte values.\<close>

definition utf8_char :: "char \<Rightarrow> nat list" where
  "utf8_char c = (let n = of_char c :: nat in if n < 128 then [n] else [192 + n div 64, 128 + n mod 64])"

definition encode_utf8 :: "string \<Rightarrow> nat list" where
  "encode_utf8 s = concat (map utf8_char s)"

section \<open>hashlib.sha256\<close>

unbundle bit_operations_syntax

text \<open>
  FIPS 180-4 defines its constants: the first 32 bits of the fractional parts of the cube roots of the
  first 64 primes, and for the initial state of the square roots of the first eight. \<open>root_floor\<close> finds
  an integer root bit by bit.
\<close>

fun root_floor :: "nat \<Rightarrow> int \<Rightarrow> nat \<Rightarrow> int" where
  "root_floor k n 0 = 0"
| "root_floor k n (Suc b) =
     (let r = 2 * root_floor k (n div 2 ^ k) b in if (r + 1) ^ k \<le> n then r + 1 else r)"

definition fractional_root :: "nat \<Rightarrow> int \<Rightarrow> 32 word" where
  "fractional_root k p = word_of_int (root_floor k (p * 2 ^ (32 * k)) 40)"

definition small_primes :: "int list" where
  "small_primes = filter (\<lambda>p. 2 \<le> p \<and> list_all (\<lambda>q. p mod q \<noteq> 0) [2..p - 1]) [0..311]"

definition sha_constants :: "32 word list" where
  "sha_constants = map (fractional_root 3) small_primes"

record sha_state =
  sha_a :: "32 word"
  sha_b :: "32 word"
  sha_c :: "32 word"
  sha_d :: "32 word"
  sha_e :: "32 word"
  sha_f :: "32 word"
  sha_g :: "32 word"
  sha_h :: "32 word"

definition sha_initial :: sha_state where
  "sha_initial =
     (let h = (\<lambda>i. fractional_root 2 (small_primes ! i))
      in \<lparr>sha_a = h 0, sha_b = h 1, sha_c = h 2, sha_d = h 3, sha_e = h 4, sha_f = h 5, sha_g = h 6, sha_h = h 7\<rparr>)"

definition sha_pad :: "nat list \<Rightarrow> nat list" where
  "sha_pad bytes =
     (let n = length bytes
      in bytes @ [128] @ replicate ((119 - n mod 64) mod 64) 0 @
         map (\<lambda>i. (8 * n) div 256 ^ i mod 256) [7, 6, 5, 4, 3, 2, 1, 0])"

fun sha_words :: "nat list \<Rightarrow> 32 word list" where
  "sha_words (a # b # c # d # bytes) =
     word_of_int (((int a * 256 + int b) * 256 + int c) * 256 + int d) # sha_words bytes"
| "sha_words _ = []"

text \<open>The message schedule, newest word first.\<close>

definition sha_extend :: "32 word list \<Rightarrow> 32 word list" where
  "sha_extend ws =
     (let w2 = ws ! 1; w7 = ws ! 6; w15 = ws ! 14; w16 = ws ! 15;
          s0 = word_rotr 7 w15 XOR word_rotr 18 w15 XOR drop_bit 3 w15;
          s1 = word_rotr 17 w2 XOR word_rotr 19 w2 XOR drop_bit 10 w2
      in (w16 + s0 + w7 + s1) # ws)"

definition sha_schedule :: "32 word list \<Rightarrow> 32 word list" where
  "sha_schedule block = rev ((sha_extend ^^ 48) (rev block))"

definition sha_round :: "32 word \<times> 32 word \<Rightarrow> sha_state \<Rightarrow> sha_state" where
  "sha_round kw s =
     (let e = sha_e s; a = sha_a s;
          s1 = word_rotr 6 e XOR word_rotr 11 e XOR word_rotr 25 e;
          ch = (e AND sha_f s) XOR (NOT e AND sha_g s);
          t1 = sha_h s + s1 + ch + fst kw + snd kw;
          s0 = word_rotr 2 a XOR word_rotr 13 a XOR word_rotr 22 a;
          maj = (a AND sha_b s) XOR (a AND sha_c s) XOR (sha_b s AND sha_c s);
          t2 = s0 + maj
      in \<lparr>sha_a = t1 + t2, sha_b = a, sha_c = sha_b s, sha_d = sha_c s,
          sha_e = sha_d s + t1, sha_f = e, sha_g = sha_f s, sha_h = sha_g s\<rparr>)"

definition sha_block :: "32 word list \<Rightarrow> sha_state \<Rightarrow> sha_state" where
  "sha_block block s =
     (let r = fold sha_round (zip sha_constants (sha_schedule block)) s
      in \<lparr>sha_a = sha_a s + sha_a r, sha_b = sha_b s + sha_b r, sha_c = sha_c s + sha_c r, sha_d = sha_d s + sha_d r,
          sha_e = sha_e s + sha_e r, sha_f = sha_f s + sha_f r, sha_g = sha_g s + sha_g r, sha_h = sha_h s + sha_h r\<rparr>)"

function sha_blocks :: "32 word list \<Rightarrow> 32 word list list" where
  "sha_blocks ws = (if ws = [] then [] else take 16 ws # sha_blocks (drop 16 ws))"
  by auto
termination by (relation "measure length") simp_all

declare sha_blocks.simps [simp del]

definition word_hex :: "32 word \<Rightarrow> string" where
  "word_hex w = map (\<lambda>i. hex_char (nat (uint w div 16 ^ i mod 16))) [7, 6, 5, 4, 3, 2, 1, 0]"

definition sha256_hexdigest :: "nat list \<Rightarrow> string" where
  "sha256_hexdigest bytes =
     (let s = fold sha_block (sha_blocks (sha_words (sha_pad bytes))) sha_initial
      in concat (map word_hex [sha_a s, sha_b s, sha_c s, sha_d s, sha_e s, sha_f s, sha_g s, sha_h s]))"

text \<open>The root found is the integer part of the root.\<close>

lemma root_floor_bounds:
  "0 \<le> n \<Longrightarrow> n < 2 ^ (k * b) \<Longrightarrow> 0 \<le> root_floor k n b \<and> root_floor k n b ^ k \<le> n \<and> n < (root_floor k n b + 1) ^ k"
  if "0 < k"
  using that
proof (induction k n b rule: root_floor.induct)
  case (2 k n b)
  define q where "q = n div 2 ^ k"
  define r where "r = root_floor k q b"
  have n: "n = 2 ^ k * q + n mod 2 ^ k" by (simp add: q_def)
  have m: "0 \<le> n mod 2 ^ k" "n mod 2 ^ k < 2 ^ k" by simp_all
  have "n < 2 ^ k * 2 ^ (k * b)" using "2.prems" by (simp add: power_add)
  then have "2 ^ k * q < 2 ^ k * 2 ^ (k * b)" using m(1) n by linarith
  then have "q < 2 ^ (k * b)" by simp
  moreover have "0 \<le> q" using "2.prems" by (simp add: q_def pos_imp_zdiv_nonneg_iff)
  ultimately have r: "0 \<le> r" "r ^ k \<le> q" "q < (r + 1) ^ k" using "2.IH" "2.prems" by (simp_all add: r_def q_def)
  have "(2 * r) ^ k \<le> 2 ^ k * q" using r(2) by (simp add: power_mult_distrib)
  then have low: "(2 * r) ^ k \<le> n" using n m(1) by linarith
  have "2 ^ k * (q + 1) = 2 ^ k * q + 2 ^ k" by (simp add: distrib_left)
  then have "n < 2 ^ k * (q + 1)" using n m(2) by linarith
  also have "\<dots> \<le> 2 ^ k * (r + 1) ^ k" using r(3) by simp
  also have "\<dots> = (2 * r + 2) ^ k" by (simp add: distrib_left flip: power_mult_distrib)
  finally show ?case using low r(1) by (auto simp: Let_def add.assoc simp flip: q_def r_def)
qed (simp add: zero_power)

definition is_hex_char :: "char \<Rightarrow> bool" where
  "is_hex_char c \<longleftrightarrow> c \<in> set ''0123456789abcdef''"

lemma hex_char_is_hex: "n < 16 \<Longrightarrow> is_hex_char (hex_char n)"
proof -
  assume "n < 16"
  then have "n \<in> set [0..<16]" by simp
  moreover have "\<forall>n \<in> set [0..<16]. is_hex_char (hex_char n)" by code_simp
  ultimately show ?thesis by blast
qed

lemma word_hex_format: "length (word_hex w) = 8 \<and> (\<forall>c \<in> set (word_hex w). is_hex_char c)"
  by (auto simp: word_hex_def intro!: hex_char_is_hex)

lemma sha256_hexdigest_format:
  "length (sha256_hexdigest bytes) = 64 \<and> (\<forall>c \<in> set (sha256_hexdigest bytes). is_hex_char c)"
  using word_hex_format by (simp add: sha256_hexdigest_def Let_def ball_Un)

end
