(* ===== verification/ConsumerRead.thy ===== *)
theory ConsumerRead
  imports Repair Digest
begin

text \<open>
  application/consumer\_read/*.py, application/history\_planning/*.py and the SQLite readers behind
  them: the candle range a consumer gets, its identity, and the bounds and audits that plan which
  ranges to ask for. A reader opens one read transaction, so it is a function of one committed
  database.
\<close>

section \<open>ports/consumer\_read.py, the SQLite readers\<close>

record consumer_read_snapshot =
  cs_state :: stream_state
  cs_candles :: "canonical_candle list"
  cs_open_interest :: "string option list"

type_synonym candle_reader = "stream_key \<Rightarrow> int \<Rightarrow> int \<Rightarrow> consumer_read_snapshot res"

definition read_snapshot :: "db \<Rightarrow> candle_reader" where
  "read_snapshot d stream start_time_ms end_time_ms =
     bindR (get_stream_state d stream) (\<lambda>state.
     bindR (list_range_with_open_interest d stream start_time_ms end_time_ms) (\<lambda>(candles, open_interest).
       Inr \<lparr>cs_state = state, cs_candles = candles, cs_open_interest = open_interest\<rparr>))"

definition read_stream_state :: "db \<Rightarrow> stream_key \<Rightarrow> stream_state res" where
  "read_stream_state d stream = get_stream_state d stream"

section \<open>models.py\<close>

record candle_range_request =
  qr_ticker :: string
  qr_timeframe :: string
  qr_from_ms :: int
  qr_to_ms :: int

record historical_candle_range_request = candle_range_request +
  qr_expected_market_data_hash :: string

record candle_range_result =
  cg_stream :: stream_key
  cg_from_ms :: int
  cg_to_ms :: int
  cg_market_data_hash :: string
  cg_candles :: "canonical_candle list"
  cg_open_interest :: "string option list"

section \<open>provenance.py\<close>

text \<open>The five texts of \<open>ohlcv_text\<close>, and the document of one candle.\<close>

definition candle_document :: "canonical_candle \<Rightarrow> json" where
  "candle_document candle =
     (case canonical_ohlcv_text candle of (open_text, high_text, low_text, close_text, volume_text) \<Rightarrow>
        JObject [(''open_time_ms'', JInt (cc_open_time_ms candle)), (''open'', JString open_text),
          (''high'', JString high_text), (''low'', JString low_text), (''close'', JString close_text),
          (''volume'', JString volume_text)])"

definition canonical_market_data_hash :: "stream_key \<Rightarrow> int \<Rightarrow> int \<Rightarrow> canonical_candle list \<Rightarrow> string" where
  "canonical_market_data_hash stream from_ms to_ms candles =
     sha256_hexdigest (encode_utf8 (json_dumps (JObject
       [(''ticker'', JString (ticker (sk_instrument stream))),
        (''timeframe'', JString (tf_id (sk_timeframe stream))),
        (''from_ms'', JInt from_ms), (''to_ms'', JInt to_ms),
        (''candles'', JArray (map candle_document candles))])))"

section \<open>validation.py\<close>

definition validate_requested_range :: "int \<Rightarrow> int \<Rightarrow> int \<Rightarrow> unit res" where
  "validate_requested_range from_ms to_ms step_ms =
     (if from_ms < 0 \<or> to_ms < 0 \<or> from_ms \<ge> to_ms
        then Inl (Exn InvalidRange ''from_ms and to_ms must define a positive half-open range'')
      else if from_ms mod step_ms \<noteq> 0 \<or> to_ms mod step_ms \<noteq> 0
        then Inl (Exn RangeNotAligned ''from_ms and to_ms must align to the timeframe grid'')
      else Inr ())"

definition validate_available_range :: "int \<Rightarrow> int \<Rightarrow> int \<Rightarrow> int \<Rightarrow> unit res" where
  "validate_available_range from_ms to_ms available_from_ms available_to_ms =
     (if from_ms < available_from_ms \<or> to_ms > available_to_ms
      then Inl (Exn RangeOutOfBounds (''requested ['' @ py_int_str from_ms @ '', '' @ py_int_str to_ms @
             '') outside ['' @ py_int_str available_from_ms @ '', '' @ py_int_str available_to_ms @ '')''))
      else Inr ())"

fun check_grid :: "canonical_candle list \<Rightarrow> int \<Rightarrow> int \<Rightarrow> unit res" where
  "check_grid [] expected step_ms = Inr ()"
| "check_grid (candle # candles) expected step_ms =
     (if cc_open_time_ms candle \<noteq> expected
      then Inl (Exn ContinuityInvariantBroken ''ready stream returned a gapped or unordered range'')
      else check_grid candles (expected + step_ms) step_ms)"

definition validate_complete_grid :: "canonical_candle list \<Rightarrow> int \<Rightarrow> int \<Rightarrow> int \<Rightarrow> unit res" where
  "validate_complete_grid candles from_ms to_ms step_ms =
     (if int (length candles) \<noteq> (to_ms - from_ms) div step_ms
      then Inl (Exn ContinuityInvariantBroken ''ready stream returned an incomplete candle grid'')
      else check_grid candles from_ms step_ms)"

section \<open>get\_candle\_range.py\<close>

text \<open>The first lines of both use cases.\<close>

definition configured_stream :: "stream_key list \<Rightarrow> string \<Rightarrow> string \<Rightarrow> stream_key res" where
  "configured_stream configured tk tf =
     (case bindR (mk_instrument_key tk) (\<lambda>i. mk_stream_key i tf) of
        Inl exc \<Rightarrow> if is_value_error (exn_cls exc) then Inl (Exn ConfiguredStreamNotFound (exn_str exc)) else Inl exc
      | Inr stream \<Rightarrow>
          if stream \<notin> set configured then Inl (Exn ConfiguredStreamNotFound (canonical_id stream)) else Inr stream)"

definition get_candle_range :: "stream_key list \<Rightarrow> candle_reader \<Rightarrow> candle_range_request \<Rightarrow> candle_range_result res" where
  "get_candle_range configured read request =
     bindR (configured_stream configured (qr_ticker request) (qr_timeframe request)) (\<lambda>stream.
     let step_ms = stream_step stream
     in bindR (validate_requested_range (qr_from_ms request) (qr_to_ms request) step_ms) (\<lambda>_.
        bindR (read stream (qr_from_ms request) (qr_to_ms request)) (\<lambda>snapshot.
        let state = cs_state snapshot
        in if ss_state state \<noteq> READY
           then Inl (Exn StreamNotReady (canonical_id stream @ '' is '' @ lifecycle_value (ss_state state)))
           else case (ss_earliest_available_open_time_ms state, ss_latest_committed_open_time_ms state) of
               (Some earliest, Some latest) \<Rightarrow>
                 bindR (validate_available_range (qr_from_ms request) (qr_to_ms request) earliest (latest + step_ms)) (\<lambda>_.
                 bindR (validate_complete_grid (cs_candles snapshot) (qr_from_ms request) (qr_to_ms request) step_ms) (\<lambda>_.
                 Inr \<lparr>cg_stream = stream, cg_from_ms = qr_from_ms request, cg_to_ms = qr_to_ms request,
                   cg_market_data_hash = canonical_market_data_hash stream (qr_from_ms request) (qr_to_ms request)
                     (cs_candles snapshot),
                   cg_candles = cs_candles snapshot, cg_open_interest = cs_open_interest snapshot\<rparr>))
             | _ \<Rightarrow> Inl (Exn StreamNotReady (canonical_id stream @ '' has no proven available window'')))))"

section \<open>get\_historical\_candle\_range.py\<close>

text \<open>
  The pattern \<open>^[0-9a-f]{64}$\<close> with \<open>match\<close>: in Python \<open>$\<close> also matches before a newline at the
  end of the text.
\<close>

definition hash_format_matches :: "string \<Rightarrow> bool" where
  "hash_format_matches text \<longleftrightarrow>
     length (take 64 text) = 64 \<and> (\<forall>c \<in> set (take 64 text). is_hex_char c) \<and> drop 64 text \<in> {[], [CHR 0x0A]}"

definition get_historical_candle_range ::
  "stream_key list \<Rightarrow> candle_reader \<Rightarrow> historical_candle_range_request \<Rightarrow> candle_range_result res" where
  "get_historical_candle_range configured read request =
     bindR (configured_stream configured (qr_ticker request) (qr_timeframe request)) (\<lambda>stream.
     if \<not> hash_format_matches (qr_expected_market_data_hash request)
     then Inl (Exn InvalidRange ''expected_market_data_hash must be a 64-character lowercase hex digest'')
     else
       let step_ms = stream_step stream
       in bindR (validate_requested_range (qr_from_ms request) (qr_to_ms request) step_ms) (\<lambda>_.
          bindR (read stream (qr_from_ms request) (qr_to_ms request)) (\<lambda>snapshot.
          bindR (validate_complete_grid (cs_candles snapshot) (qr_from_ms request) (qr_to_ms request) step_ms) (\<lambda>_.
          let actual_hash = canonical_market_data_hash stream (qr_from_ms request) (qr_to_ms request) (cs_candles snapshot)
          in if actual_hash \<noteq> qr_expected_market_data_hash request
             then Inl (Exn CoverageStale ''historical candle range no longer matches the audited market_data_hash'')
             else Inr \<lparr>cg_stream = stream, cg_from_ms = qr_from_ms request, cg_to_ms = qr_to_ms request,
                    cg_market_data_hash = actual_hash, cg_candles = cs_candles snapshot,
                    cg_open_interest = cs_open_interest snapshot\<rparr>))))"

section \<open>history\_planning\<close>

record stream_bounds_result =
  sb_stream :: stream_key
  sb_state :: string
  sb_earliest_committed_open_time_ms :: "int option"
  sb_latest_committed_open_time_ms :: "int option"

record continuity_audit_result =
  ca_stream :: stream_key
  ca_checked_start_ms :: int
  ca_checked_end_ms :: int
  ca_candle_count :: int
  ca_is_continuous :: bool
  ca_gaps :: "gap list"
  ca_state :: string
  ca_market_data_hash :: "string option"

fun bounds_intersection :: "int option \<times> int option \<Rightarrow> int option \<times> int option \<Rightarrow> int option \<times> int option" where
  "bounds_intersection (Some candle_earliest, Some candle_latest) (Some oi_earliest, Some oi_latest) =
     (let earliest = max candle_earliest oi_earliest; latest = min candle_latest oi_latest
      in if earliest > latest then (None, None) else (Some earliest, Some latest))"
| "bounds_intersection _ _ = (None, None)"

definition get_stream_bounds :: "stream_key list \<Rightarrow> stream_key \<Rightarrow> stream_bounds_result app" where
  "get_stream_bounds open_interest_streams stream =
     with_uow
       (bindE (uow_read (\<lambda>d. Inr (stream_exists d stream))) (\<lambda>exists.
        if \<not> exists
        then raiseE (Exn UnknownStreamError (''stream is not registered: '' @ canonical_id stream))
        else
          bindE (uow_read (\<lambda>d. committed_bounds d stream)) (\<lambda>candle_bounds.
          bindE (if stream \<in> set open_interest_streams
                 then bindE (uow_read (\<lambda>d. get_open_interest_progress d stream)) (\<lambda>progress.
                      returnE (bounds_intersection candle_bounds
                        (tp_earliest_available_open_time_ms progress, tp_latest_committed_open_time_ms progress)))
                 else returnE candle_bounds) (\<lambda>(earliest, latest).
          bindE (uow_read (\<lambda>d. get_stream_state d stream)) (\<lambda>state.
          returnE \<lparr>sb_stream = stream, sb_state = lifecycle_value (ss_state state),
            sb_earliest_committed_open_time_ms = earliest, sb_latest_committed_open_time_ms = latest\<rparr>)))))"

text \<open>The reader of \<open>AuditStreamRange\<close> may be left out.\<close>

definition audit_stream_range ::
  "(db \<Rightarrow> candle_reader) option \<Rightarrow> stream_key \<Rightarrow> int \<Rightarrow> int \<Rightarrow> continuity_audit_result app" where
  "audit_stream_range reader stream start_time_ms end_time_ms =
     bindE (liftR (mk_audit_request \<lparr>ar_stream = stream, ar_start_time_ms = start_time_ms, ar_end_time_ms = end_time_ms\<rparr>))
       (\<lambda>request.
     bindE (audit_stream_continuity candle_open_times request) (\<lambda>report.
     bindE (with_uow (uow_read (\<lambda>d. get_stream_state d stream))) (\<lambda>state.
     bindE (case reader of
              Some read \<Rightarrow>
                if cr_is_continuous report
                then bindE (readE (\<lambda>w. read (w_disk w) stream start_time_ms end_time_ms)) (\<lambda>snapshot.
                     returnE (Some (canonical_market_data_hash stream start_time_ms end_time_ms (cs_candles snapshot))))
                else returnE None
            | None \<Rightarrow> returnE None) (\<lambda>market_data_hash.
     returnE \<lparr>ca_stream = stream, ca_checked_start_ms = cr_checked_start_ms report,
       ca_checked_end_ms = cr_checked_end_ms report, ca_candle_count = cr_candle_count report,
       ca_is_continuous = cr_is_continuous report, ca_gaps = cr_gaps report,
       ca_state = lifecycle_value (ss_state state), ca_market_data_hash = market_data_hash\<rparr>))))"

section \<open>The grid of a range\<close>

definition grid :: "int \<Rightarrow> int \<Rightarrow> int \<Rightarrow> int list" where
  "grid from_ms to_ms step_ms = map (\<lambda>i. from_ms + int i * step_ms) [0..<nat ((to_ms - from_ms) div step_ms)]"

lemma check_grid_iff:
  "check_grid cs a step = Inr () \<longleftrightarrow> map cc_open_time_ms cs = map (\<lambda>i. a + int i * step) [0..<length cs]"
proof (induction cs arbitrary: a)
  case (Cons c cs)
  have "map (\<lambda>i. a + int i * step) [0..<length (c # cs)] =
      a # map (\<lambda>i. (a + step) + int i * step) [0..<length cs]"
    by (simp add: upt_conv_Cons map_Suc_upt [symmetric] algebra_simps del: upt_Suc)
  with Cons.IH [of "a + step"] show ?case by auto
qed simp

lemma complete_grid_iff:
  assumes "0 < step" "a \<le> b"
  shows "validate_complete_grid cs a b step = Inr () \<longleftrightarrow> map cc_open_time_ms cs = grid a b step"
proof -
  have n: "0 \<le> (b - a) div step" using assms by (simp add: pos_imp_zdiv_nonneg_iff)
  show ?thesis
  proof (cases "int (length cs) = (b - a) div step")
    case True
    then have "nat ((b - a) div step) = length cs" by simp
    with True show ?thesis by (simp add: validate_complete_grid_def grid_def check_grid_iff)
  next
    case False
    have "length (map cc_open_time_ms cs) \<noteq> length (grid a b step)" using False n by (simp add: grid_def)
    then have "map cc_open_time_ms cs \<noteq> grid a b step" by metis
    with False show ?thesis by (simp add: validate_complete_grid_def)
  qed
qed

lemma grid_sorted: "0 < step \<Longrightarrow> sorted_wrt (<) (grid a b step)"
  by (simp add: grid_def sorted_wrt_map sorted_wrt_upt)

lemma set_grid:
  assumes "0 < step" "a mod step = 0" "b mod step = 0" "a \<le> b"
  shows "set (grid a b step) = {t. a \<le> t \<and> t < b \<and> t mod step = 0}"
proof -
  obtain x y where xy: "a = step * x" "b = step * y" using assms(2,3) by (auto simp: mod_eq_0_iff_dvd elim!: dvdE)
  have len: "(b - a) div step = y - x" using assms(1) by (simp add: xy right_diff_distrib [symmetric])
  have xy_le: "x \<le> y" using assms(1,4) by (simp add: xy)
  have mem: "t \<in> set (grid a b step) \<longleftrightarrow> (\<exists>i. 0 \<le> i \<and> i < y - x \<and> t = a + i * step)" for t
  proof
    assume "t \<in> set (grid a b step)"
    then obtain j where "j < nat (y - x)" "t = a + int j * step" by (auto simp: grid_def len)
    then show "\<exists>i. 0 \<le> i \<and> i < y - x \<and> t = a + i * step" by (intro exI [of _ "int j"]) simp
  next
    assume "\<exists>i. 0 \<le> i \<and> i < y - x \<and> t = a + i * step"
    then obtain i where "0 \<le> i" "i < y - x" "t = a + i * step" by blast
    then have "nat i \<in> {0..<nat (y - x)}" "t = a + int (nat i) * step" by simp_all
    then show "t \<in> set (grid a b step)" unfolding grid_def len set_map by (intro image_eqI [of _ _ "nat i"]) simp_all
  qed
  have range: "(\<exists>i. 0 \<le> i \<and> i < y - x \<and> t = a + i * step) \<longleftrightarrow> a \<le> t \<and> t < b \<and> t mod step = 0" for t
  proof
    assume "\<exists>i. 0 \<le> i \<and> i < y - x \<and> t = a + i * step"
    then obtain i where i: "0 \<le> i" "i < y - x" "t = step * (x + i)" by (auto simp: xy algebra_simps)
    with assms(1) show "a \<le> t \<and> t < b \<and> t mod step = 0" by (simp add: xy)
  next
    assume t: "a \<le> t \<and> t < b \<and> t mod step = 0"
    then obtain z where z: "t = step * z" by (auto simp: mod_eq_0_iff_dvd elim!: dvdE)
    with t assms(1) have "x \<le> z" "z < y" by (simp_all add: xy)
    with z show "\<exists>i. 0 \<le> i \<and> i < y - x \<and> t = a + i * step"
      by (intro exI [of _ "z - x"]) (simp add: xy algebra_simps)
  qed
  show ?thesis unfolding set_eq_iff mem_Collect_eq mem range by simp
qed

section \<open>What a reader promises\<close>

definition oi_text :: "db \<Rightarrow> stream_key \<Rightarrow> int \<Rightarrow> string option" where
  "oi_text d s t = (case get_open_interest d s t of Inr (Some p) \<Rightarrow> Some (co_open_interest p) | _ \<Rightarrow> None)"

text \<open>The answer to a range: every bar of the grid in order, as stored, with its open interest.\<close>

definition range_answer :: "db \<Rightarrow> stream_key \<Rightarrow> int \<Rightarrow> int \<Rightarrow> canonical_candle list \<Rightarrow> string option list \<Rightarrow> bool" where
  "range_answer d s a b candles open_interest \<longleftrightarrow>
     map cc_open_time_ms candles = grid a b (stream_step s) \<and>
     (\<forall>c \<in> set candles. get_candle d s (cc_open_time_ms c) = Inr (Some c)) \<and>
     open_interest = map (\<lambda>c. oi_text d s (cc_open_time_ms c)) candles"

lemma range_answer_unique:
  assumes "range_answer d s a b cs ois" "range_answer d s a b cs' ois'"
  shows "cs' = cs \<and> ois' = ois"
proof -
  have m: "map cc_open_time_ms cs' = map cc_open_time_ms cs" using assms by (simp add: range_answer_def)
  then have len: "length cs' = length cs" by (metis length_map)
  have "cs' ! i = cs ! i" if "i < length cs" for i
  proof -
    have "cc_open_time_ms (cs' ! i) = cc_open_time_ms (cs ! i)"
      using m that len by (metis nth_map)
    moreover have "get_candle d s (cc_open_time_ms (cs ! i)) = Inr (Some (cs ! i))"
      "get_candle d s (cc_open_time_ms (cs' ! i)) = Inr (Some (cs' ! i))"
      using assms that len by (simp_all add: range_answer_def)
    ultimately show ?thesis by simp
  qed
  then have "cs' = cs" using len by (simp add: list_eq_iff_nth_eq)
  with assms show ?thesis by (simp add: range_answer_def)
qed

locale consumer_reader =
  fixes read :: "db \<Rightarrow> candle_reader"
  assumes read_exact: "service_inv d \<Longrightarrow> get_stream_state d s = Inr st \<Longrightarrow>
      \<exists>snapshot. read d s a b = Inr snapshot \<and> cs_state snapshot = st \<and>
        sorted_wrt (<) (map cc_open_time_ms (cs_candles snapshot)) \<and>
        cc_open_time_ms ` set (cs_candles snapshot) = {t. a \<le> t \<and> t < b \<and> stored d s t} \<and>
        (\<forall>c \<in> set (cs_candles snapshot). get_candle d s (cc_open_time_ms c) = Inr (Some c)) \<and>
        cs_open_interest snapshot = map (\<lambda>c. oi_text d s (cc_open_time_ms c)) (cs_candles snapshot)"
    and read_unknown: "get_stream_state d s = Inl e \<Longrightarrow> read d s a b = Inl e"
begin

text \<open>A snapshot passes the grid check exactly when the whole grid is stored, and is then its answer.\<close>

lemma read_answers:
  assumes "service_inv d" "read d s a b = Inr snapshot"
    and "a < b" "a mod stream_step s = 0" "b mod stream_step s = 0"
  shows "validate_complete_grid (cs_candles snapshot) a b (stream_step s) = Inr () \<longleftrightarrow>
      range_answer d s a b (cs_candles snapshot) (cs_open_interest snapshot)" (is "?v \<longleftrightarrow> ?r")
    and "validate_complete_grid (cs_candles snapshot) a b (stream_step s) = Inr () \<longleftrightarrow>
      (\<forall>t. a \<le> t \<longrightarrow> t < b \<longrightarrow> t mod stream_step s = 0 \<longrightarrow> stored d s t)"
    and "get_stream_state d s = Inr (cs_state snapshot)"
proof -
  obtain st where st: "get_stream_state d s = Inr st"
    using read_unknown [of d s] assms(2) by (cases "get_stream_state d s") auto
  then have snap: "cs_state snapshot = st" "sorted_wrt (<) (map cc_open_time_ms (cs_candles snapshot))"
    "set (map cc_open_time_ms (cs_candles snapshot)) = {t. a \<le> t \<and> t < b \<and> stored d s t}"
    "\<forall>c \<in> set (cs_candles snapshot). get_candle d s (cc_open_time_ms c) = Inr (Some c)"
    "cs_open_interest snapshot = map (\<lambda>c. oi_text d s (cc_open_time_ms c)) (cs_candles snapshot)"
    using read_exact [OF assms(1) st, of a b] assms(2) by auto
  show "get_stream_state d s = Inr (cs_state snapshot)" using st snap(1) by simp
  have v: "?v \<longleftrightarrow> map cc_open_time_ms (cs_candles snapshot) = grid a b (stream_step s)"
    using complete_grid_iff [of "stream_step s" a b] assms(3) by simp
  with snap(4,5) show "?v \<longleftrightarrow> ?r" by (simp add: range_answer_def)
  have al: "t mod stream_step s = 0" if "stored d s t" for t
    using that assms(1) by (auto simp: service_inv_def canonical_inv_def candles_ok_def stored_def)
  have g: "set (grid a b (stream_step s)) = {t. a \<le> t \<and> t < b \<and> t mod stream_step s = 0}"
    using set_grid [of "stream_step s" a b] assms(3-5) by simp
  have "map cc_open_time_ms (cs_candles snapshot) = grid a b (stream_step s) \<longleftrightarrow>
      set (map cc_open_time_ms (cs_candles snapshot)) = set (grid a b (stream_step s))"
    using strict_sorted_equal [OF grid_sorted [OF stream_step_pos] snap(2)] by (intro iffI) (simp only:, blast)
  also have "\<dots> \<longleftrightarrow> (\<forall>t. a \<le> t \<longrightarrow> t < b \<longrightarrow> t mod stream_step s = 0 \<longrightarrow> stored d s t)"
    unfolding snap(3) g set_eq_iff mem_Collect_eq using al by meson
  finally show "?v \<longleftrightarrow> (\<forall>t. a \<le> t \<longrightarrow> t < b \<longrightarrow> t mod stream_step s = 0 \<longrightarrow> stored d s t)" using v by simp
qed

end

lemma oi_text_sel:
  "stream_id d s = Inr n \<Longrightarrow>
   oi_text d s t = map_option ow_open_interest_value (sel open_interest_key (n, t) (db_open_interest d))"
  by (auto simp: oi_text_def get_open_interest_def split: option.splits)

lemma range_rows_candles:
  assumes "db_wf d" "stream_id d s = Inr n" "set rows \<subseteq> set (db_candles d)" "\<forall>r \<in> set rows. cw_stream_id r = n"
  shows "\<exists>cs. mapR (candle_of_row s) rows = Inr cs \<and> map cc_open_time_ms cs = map cw_open_time_ms rows \<and>
     (\<forall>c \<in> set cs. get_candle d s (cc_open_time_ms c) = Inr (Some c))"
  using assms(3,4)
proof (induction rows)
  case (Cons r rows)
  then obtain cs where cs: "mapR (candle_of_row s) rows = Inr cs" "map cc_open_time_ms cs = map cw_open_time_ms rows"
    "\<forall>c \<in> set cs. get_candle d s (cc_open_time_ms c) = Inr (Some c)" by auto
  have "sel candle_key (n, cw_open_time_ms r) (db_candles d) = Some r"
    using Cons.prems db_wf_candles(1) [OF assms(1)] by (simp add: sel_iff)
  from get_candle_row [OF assms(1,2) this] cs show ?case by auto
qed simp

lemma range_rows_sorted:
  assumes "db_wf d"
  shows "sorted_wrt (<) (map cw_open_time_ms (range_rows d n a b))"
proof -
  let ?rows = "filter (\<lambda>r. cw_stream_id r = n \<and> a \<le> cw_open_time_ms r \<and> cw_open_time_ms r < b) (db_candles d)"
  have "inj_on candle_key (set (db_candles d))" "distinct (db_candles d)"
    using db_wf_candles(1) [OF assms] by (simp_all add: distinct_map)
  then have "inj_on cw_open_time_ms (set ?rows)" by (auto simp: inj_on_def)
  then have "distinct (map cw_open_time_ms (range_rows d n a b))"
    using \<open>distinct (db_candles d)\<close> by (simp add: range_rows_def distinct_map)
  then show ?thesis by (simp add: range_rows_def strict_sorted_iff)
qed

interpretation sqlite_reader: consumer_reader read_snapshot
proof
  fix d s st a b assume inv: "service_inv d" and st: "get_stream_state d s = Inr st"
  have wf: "db_wf d" using inv by (simp add: service_inv_def canonical_inv_def)
  obtain n where n: "stream_id d s = Inr n" using st by (auto simp: get_stream_state_eq)
  let ?rows = "range_rows d n a b"
  have sub: "set ?rows \<subseteq> set (db_candles d)" "\<forall>r \<in> set ?rows. cw_stream_id r = n" by (auto simp: range_rows_def)
  obtain cs where cs: "mapR (candle_of_row s) ?rows = Inr cs" "map cc_open_time_ms cs = map cw_open_time_ms ?rows"
    "\<forall>c \<in> set cs. get_candle d s (cc_open_time_ms c) = Inr (Some c)"
    using range_rows_candles [OF wf n sub] by blast
  have "map (\<lambda>r. map_option ow_open_interest_value (sel open_interest_key (candle_key r) (db_open_interest d))) ?rows =
      map (\<lambda>t. oi_text d s t) (map cw_open_time_ms ?rows)"
    by (auto simp: oi_text_sel [OF n] range_rows_def)
  also have "\<dots> = map (\<lambda>c. oi_text d s (cc_open_time_ms c)) cs" by (simp add: cs(2) [symmetric])
  finally have oi: "map (\<lambda>r. map_option ow_open_interest_value (sel open_interest_key (candle_key r) (db_open_interest d))) ?rows =
      map (\<lambda>c. oi_text d s (cc_open_time_ms c)) cs" .
  have read: "read_snapshot d s a b = Inr \<lparr>cs_state = st, cs_candles = cs,
      cs_open_interest = map (\<lambda>c. oi_text d s (cc_open_time_ms c)) cs\<rparr>"
    using st n cs(1) oi by (simp add: read_snapshot_def list_range_with_open_interest_def)
  have "cc_open_time_ms ` set cs = set (map cw_open_time_ms ?rows)" by (simp only: cs(2) [symmetric] set_map)
  also have "\<dots> = {t. a \<le> t \<and> t < b \<and> stored d s t}"
    using stored_iff [OF wf n] by (auto simp: range_rows_def image_iff)
  finally show "\<exists>snapshot. read_snapshot d s a b = Inr snapshot \<and> cs_state snapshot = st \<and>
        sorted_wrt (<) (map cc_open_time_ms (cs_candles snapshot)) \<and>
        cc_open_time_ms ` set (cs_candles snapshot) = {t. a \<le> t \<and> t < b \<and> stored d s t} \<and>
        (\<forall>c \<in> set (cs_candles snapshot). get_candle d s (cc_open_time_ms c) = Inr (Some c)) \<and>
        cs_open_interest snapshot = map (\<lambda>c. oi_text d s (cc_open_time_ms c)) (cs_candles snapshot)"
    using cs range_rows_sorted [OF wf, of n a b] by - (rule exI, intro conjI, rule read, simp_all)
qed (simp add: read_snapshot_def)

section \<open>The candle range use cases\<close>

definition range_valid :: "stream_key \<Rightarrow> int \<Rightarrow> int \<Rightarrow> bool" where
  "range_valid s a b \<longleftrightarrow> 0 \<le> a \<and> a < b \<and> a mod stream_step s = 0 \<and> b mod stream_step s = 0"

lemma validate_requested_range_iff: "validate_requested_range a b (stream_step s) = Inr () \<longleftrightarrow> range_valid s a b"
  by (auto simp: validate_requested_range_def range_valid_def)

lemma unit_res: "(r :: unit res) = Inr () \<or> (\<exists>e. r = Inl e)"
  by (cases r) auto

lemma answer_complete:
  assumes "service_inv d" "read_snapshot d s a b = Inr snapshot" "range_valid s a b" "range_answer d s a b cs ois"
  shows "validate_complete_grid (cs_candles snapshot) a b (stream_step s) = Inr () \<and>
    range_answer d s a b (cs_candles snapshot) (cs_open_interest snapshot)"
proof -
  have v: "a < b" "a mod stream_step s = 0" "b mod stream_step s = 0" using assms(3) by (simp_all add: range_valid_def)
  have all: "cc_open_time_ms ` set cs = {t. a \<le> t \<and> t < b \<and> t mod stream_step s = 0}"
    using assms(4) set_grid [OF stream_step_pos v(2,3)] v(1) unfolding range_answer_def set_map [symmetric] by simp
  have "stored d s t" if t: "a \<le> t" "t < b" "t mod stream_step s = 0" for t
  proof -
    have "t \<in> cc_open_time_ms ` set cs" unfolding all mem_Collect_eq using t by simp
    then obtain c where "c \<in> set cs" "t = cc_open_time_ms c" by blast
    with assms(4) show ?thesis by (auto simp: range_answer_def stored_def)
  qed
  then show ?thesis using sqlite_reader.read_answers [OF assms(1,2) v] by simp
qed

text \<open>
  C13. The consumer's candle range, sound and complete. From a database satisfying the service invariant
  the request is answered exactly when its stream is configured, the range is a non-empty range on the
  grid, the stream is ready and the range lies within its available window, and every bar of the range
  is stored. The answer is then every bar of the grid once and in order, each as it is stored, with the
  stored open interest of each bar, under the hash of exactly these candles.
\<close>

theorem candle_range_sound_complete:
  assumes "service_inv d"
  shows "get_candle_range configured (read_snapshot d) q = Inr r \<longleftrightarrow>
     (\<exists>s st earliest latest. configured_stream configured (qr_ticker q) (qr_timeframe q) = Inr s \<and>
        range_valid s (qr_from_ms q) (qr_to_ms q) \<and> get_stream_state d s = Inr st \<and> ss_state st = READY \<and>
        ss_earliest_available_open_time_ms st = Some earliest \<and> earliest \<le> qr_from_ms q \<and>
        ss_latest_committed_open_time_ms st = Some latest \<and> qr_to_ms q \<le> latest + stream_step s \<and>
        range_answer d s (qr_from_ms q) (qr_to_ms q) (cg_candles r) (cg_open_interest r) \<and>
        r = \<lparr>cg_stream = s, cg_from_ms = qr_from_ms q, cg_to_ms = qr_to_ms q,
          cg_market_data_hash = canonical_market_data_hash s (qr_from_ms q) (qr_to_ms q) (cg_candles r),
          cg_candles = cg_candles r, cg_open_interest = cg_open_interest r\<rparr>)"
  (is "?l \<longleftrightarrow> ?r")
proof
  assume ?l
  then obtain s snap earliest latest where h: "configured_stream configured (qr_ticker q) (qr_timeframe q) = Inr s"
    "range_valid s (qr_from_ms q) (qr_to_ms q)" "read_snapshot d s (qr_from_ms q) (qr_to_ms q) = Inr snap"
    "ss_state (cs_state snap) = READY" "ss_earliest_available_open_time_ms (cs_state snap) = Some earliest"
    "ss_latest_committed_open_time_ms (cs_state snap) = Some latest" "earliest \<le> qr_from_ms q" "qr_to_ms q \<le> latest + stream_step s"
    "validate_complete_grid (cs_candles snap) (qr_from_ms q) (qr_to_ms q) (stream_step s) = Inr ()"
    "r = \<lparr>cg_stream = s, cg_from_ms = qr_from_ms q, cg_to_ms = qr_to_ms q,
       cg_market_data_hash = canonical_market_data_hash s (qr_from_ms q) (qr_to_ms q) (cs_candles snap),
       cg_candles = cs_candles snap, cg_open_interest = cs_open_interest snap\<rparr>"
    by (auto simp: get_candle_range_def Let_def bindR_eq_Inr validate_requested_range_iff validate_available_range_def
        split: if_splits option.splits)
  note a = sqlite_reader.read_answers [OF assms h(3)]
  show ?r using h a by (intro exI [of _ s] exI [of _ "cs_state snap"] exI [of _ earliest] exI [of _ latest])
      (simp add: range_valid_def)
next
  assume ?r
  then obtain s st earliest latest where h: "configured_stream configured (qr_ticker q) (qr_timeframe q) = Inr s"
    "range_valid s (qr_from_ms q) (qr_to_ms q)" "get_stream_state d s = Inr st" "ss_state st = READY"
    "ss_earliest_available_open_time_ms st = Some earliest" "earliest \<le> qr_from_ms q"
    "ss_latest_committed_open_time_ms st = Some latest" "qr_to_ms q \<le> latest + stream_step s"
    "range_answer d s (qr_from_ms q) (qr_to_ms q) (cg_candles r) (cg_open_interest r)"
    "r = \<lparr>cg_stream = s, cg_from_ms = qr_from_ms q, cg_to_ms = qr_to_ms q,
          cg_market_data_hash = canonical_market_data_hash s (qr_from_ms q) (qr_to_ms q) (cg_candles r),
          cg_candles = cg_candles r, cg_open_interest = cg_open_interest r\<rparr>"
    by blast
  obtain snap where snap: "read_snapshot d s (qr_from_ms q) (qr_to_ms q) = Inr snap" "cs_state snap = st"
    using sqlite_reader.read_exact [OF assms h(3)] by blast
  have g: "validate_complete_grid (cs_candles snap) (qr_from_ms q) (qr_to_ms q) (stream_step s) = Inr ()"
    "range_answer d s (qr_from_ms q) (qr_to_ms q) (cs_candles snap) (cs_open_interest snap)"
    using answer_complete [OF assms snap(1) h(2,9)] by blast+
  have "cs_candles snap = cg_candles r \<and> cs_open_interest snap = cg_open_interest r"
    using range_answer_unique [OF h(9) g(2)] by simp
  with h(1,2,4-8) snap g(1) show ?l
    by (subst h(10)) (simp add: get_candle_range_def validate_requested_range_iff [symmetric] validate_available_range_def)
qed

section \<open>Audit, then read\<close>

lemma stored_nonneg: "service_inv d \<Longrightarrow> stored d s t \<Longrightarrow> 0 \<le> t"
  by (auto simp: service_inv_def canonical_inv_def stored_def get_candle_def bindR_eq_Inr split: option.splits
      dest!: sel_Some db_wf_candles(2))

lemma audit_range_run:
  assumes "service_inv (w_disk w)" "audit_stream_range (Some read_snapshot) s a b w = (Inr x, w')"
  shows "w_disk w' = w_disk w" "a < b" "a mod stream_step s = 0" "b mod stream_step s = 0"
    "ca_is_continuous x \<longleftrightarrow> (\<forall>t. a \<le> t \<longrightarrow> t < b \<longrightarrow> t mod stream_step s = 0 \<longrightarrow> stored (w_disk w) s t)"
    "\<exists>snapshot. (if ca_is_continuous x then read_snapshot (w_disk w) s a b = Inr snapshot else True) \<and>
       ca_market_data_hash x =
         (if ca_is_continuous x then Some (canonical_market_data_hash s a b (cs_candles snapshot)) else None)"
proof -
  let ?rq = "\<lparr>rq_stream = s, rq_start_time_ms = a, rq_end_time_ms = b, rq_max_windows = 1\<rparr>"
  obtain rep w1 st w2 h where r: "repair_audit (candle_repair_ops E 1) ?rq w = (Inr rep, w1)"
    "with_uow (uow_read (\<lambda>d. get_stream_state d s)) w1 = (Inr st, w2)"
    "(if cr_is_continuous rep
      then bindE (readE (\<lambda>w. read_snapshot (w_disk w) s a b)) (\<lambda>snapshot.
             returnE (Some (canonical_market_data_hash s a b (cs_candles snapshot))))
      else returnE None) w2 = (Inr h, w')"
    "x = \<lparr>ca_stream = s, ca_checked_start_ms = cr_checked_start_ms rep, ca_checked_end_ms = cr_checked_end_ms rep,
       ca_candle_count = cr_candle_count rep, ca_is_continuous = cr_is_continuous rep, ca_gaps = cr_gaps rep,
       ca_state = lifecycle_value (ss_state st), ca_market_data_hash = h\<rparr>" for E
    using assms(2) by (auto simp: audit_stream_range_def repair_audit_def candle_repair_ops_def bindE_eq_Inr)
  note a = candle_track.audit_truth [OF assms(1) r(1)]
  have d: "w_disk w2 = w_disk w" "w_disk w' = w_disk w"
    using a(1) r(2,3) by (auto simp: with_uow_read bindE_eq_Inr readE_def split: if_splits sum.splits)
  then show "w_disk w' = w_disk w" by simp
  show "a < b" "a mod stream_step s = 0" "b mod stream_step s = 0"
    using assms(2) by (auto simp: audit_stream_range_def bindE_eq_Inr mk_audit_request_def split: if_splits)
  show "ca_is_continuous x \<longleftrightarrow> (\<forall>t. a \<le> t \<longrightarrow> t < b \<longrightarrow> t mod stream_step s = 0 \<longrightarrow> stored (w_disk w) s t)"
    using a(2) r(4) by simp
  show "\<exists>snapshot. (if ca_is_continuous x then read_snapshot (w_disk w) s a b = Inr snapshot else True) \<and>
       ca_market_data_hash x =
         (if ca_is_continuous x then Some (canonical_market_data_hash s a b (cs_candles snapshot)) else None)"
    using r(3,4) d(1) by (auto simp: bindE_eq_Inr readE_def split: if_splits)
qed

text \<open>
  A planned range can be fetched: an audit leaves the database as it is, gives a hash exactly when the
  range is continuous, and the historical read of the same range with that hash is accepted on the same
  database, whatever the lifecycle of the stream: it returns every bar of the range as it is stored,
  under the audited hash.
\<close>

theorem audited_range_reads_back:
  assumes "service_inv (w_disk w)" "audit_stream_range (Some read_snapshot) s a b w = (Inr x, w')"
    and "configured_stream configured tk tf = Inr s"
  shows "w_disk w' = w_disk w \<and> (ca_market_data_hash x \<noteq> None \<longleftrightarrow> ca_is_continuous x) \<and>
     (ca_is_continuous x \<longleftrightarrow> (\<forall>t. a \<le> t \<longrightarrow> t < b \<longrightarrow> t mod stream_step s = 0 \<longrightarrow> stored (w_disk w) s t)) \<and>
     (\<forall>h. ca_market_data_hash x = Some h \<longrightarrow>
        (\<exists>r. get_historical_candle_range configured (read_snapshot (w_disk w'))
               \<lparr>qr_ticker = tk, qr_timeframe = tf, qr_from_ms = a, qr_to_ms = b, qr_expected_market_data_hash = h\<rparr> = Inr r \<and>
             range_answer (w_disk w') s a b (cg_candles r) (cg_open_interest r) \<and> cg_market_data_hash r = h))"
proof -
  note run = audit_range_run [OF assms(1,2)]
  obtain snap where snap: "ca_is_continuous x \<Longrightarrow> read_snapshot (w_disk w) s a b = Inr snap"
    "ca_market_data_hash x =
       (if ca_is_continuous x then Some (canonical_market_data_hash s a b (cs_candles snap)) else None)"
    using run(6) by (auto split: if_splits)
  have "get_historical_candle_range configured (read_snapshot (w_disk w'))
          \<lparr>qr_ticker = tk, qr_timeframe = tf, qr_from_ms = a, qr_to_ms = b, qr_expected_market_data_hash = h\<rparr> =
        Inr \<lparr>cg_stream = s, cg_from_ms = a, cg_to_ms = b, cg_market_data_hash = h, cg_candles = cs_candles snap,
          cg_open_interest = cs_open_interest snap\<rparr> \<and>
      range_answer (w_disk w') s a b (cs_candles snap) (cs_open_interest snap)"
    if h: "ca_market_data_hash x = Some h" for h
  proof -
    have c: "ca_is_continuous x" "h = canonical_market_data_hash s a b (cs_candles snap)"
      using h snap(2) by (auto split: if_splits)
    note read = snap(1) [OF c(1)]
    have g: "validate_complete_grid (cs_candles snap) a b (stream_step s) = Inr ()"
      "range_answer (w_disk w) s a b (cs_candles snap) (cs_open_interest snap)"
      using sqlite_reader.read_answers [OF assms(1) read run(2-4)] run(5) c(1) by simp_all
    have "stored (w_disk w) s a" using run(2,3,5) c(1) by simp
    then have "validate_requested_range a b (stream_step s) = Inr ()"
      using stored_nonneg [OF assms(1)] run(2-4) by (simp add: validate_requested_range_iff range_valid_def)
    moreover have "hash_format_matches h"
      using sha256_hexdigest_format by (simp add: c(2) hash_format_matches_def canonical_market_data_hash_def)
    ultimately show ?thesis
      using g read run(1) assms(3) c(2) by (simp add: get_historical_candle_range_def)
  qed
  with run(1,5) snap(2) show ?thesis by (auto split: if_splits)
qed

section \<open>Bounds\<close>

lemma committed_bounds_exact:
  assumes "service_inv d" "committed_bounds d s = Inr (e, l)"
  shows "(e = None \<longleftrightarrow> l = None) \<and> (e = None \<longleftrightarrow> (\<forall>t. \<not> stored d s t)) \<and>
     (\<forall>x y. e = Some x \<longrightarrow> l = Some y \<longrightarrow> stored d s x \<and> stored d s y \<and> (\<forall>t. stored d s t \<longrightarrow> x \<le> t \<and> t \<le> y))"
proof -
  have wf: "db_wf d" using assms(1) by (simp add: service_inv_def canonical_inv_def)
  obtain n where n: "stream_id d s = Inr n" using assms(2) by (auto simp: committed_bounds_def bindR_eq_Inr)
  let ?T = "{t. stored d s t}"
  let ?ts = "map cw_open_time_ms (filter (\<lambda>r. cw_stream_id r = n) (db_candles d))"
  have T: "set ?ts = ?T" using stored_iff [OF wf n] by (auto simp: image_iff)
  have b: "(e, l) = (if ?ts = [] then (None, None) else (Some (Min (set ?ts)), Some (Max (set ?ts))))"
    using assms(2) n by (auto simp: committed_bounds_def Let_def)
  show ?thesis
  proof (cases "?ts = []")
    case True
    then have "?T = {}" using T by (metis list.set(1))
    with True b show ?thesis by auto
  next
    case False
    then have ne: "?T \<noteq> {}" "finite ?T" using T by (metis set_empty, metis List.finite_set)
    have "e = Some (Min ?T)" "l = Some (Max ?T)" using b False T by auto
    with ne Min_in [OF ne(2,1)] Max_in [OF ne(2,1)] show ?thesis by auto
  qed
qed

text \<open>
  The bounds of a stream: reading them changes nothing; both are given or none is; they are the open
  times of the first and the last stored candle, and for a stream that carries open interest the
  intersection of these with the bounds of the open interest track, which is never empty.
\<close>

theorem stream_bounds_exact:
  assumes "service_inv (w_disk w)" "get_stream_bounds oi_streams s w = (Inr r, w')"
  shows "w_disk w' = w_disk w \<and>
     (sb_earliest_committed_open_time_ms r = None \<longleftrightarrow> sb_latest_committed_open_time_ms r = None) \<and>
     (\<forall>e l. sb_earliest_committed_open_time_ms r = Some e \<longrightarrow> sb_latest_committed_open_time_ms r = Some l \<longrightarrow>
        (\<exists>lo hi. stored (w_disk w) s lo \<and> stored (w_disk w) s hi \<and> (\<forall>t. stored (w_disk w) s t \<longrightarrow> lo \<le> t \<and> t \<le> hi) \<and> e \<le> l \<and>
          (if s \<in> set oi_streams
           then \<exists>p x y. get_open_interest_progress (w_disk w) s = Inr p \<and> tp_earliest_available_open_time_ms p = Some x \<and>
              tp_latest_committed_open_time_ms p = Some y \<and> e = max lo x \<and> l = min hi y
           else e = lo \<and> l = hi)))"
proof -
  obtain ce cl where c: "committed_bounds (w_disk w) s = Inr (ce, cl)"
    using assms(2) by (auto simp: get_stream_bounds_def run_simps split: if_splits sum.splits)
  note b = committed_bounds_exact [OF assms(1) c]
  show ?thesis
  proof (cases "s \<in> set oi_streams")
    case False
    then have r: "w_disk w' = w_disk w" "sb_earliest_committed_open_time_ms r = ce" "sb_latest_committed_open_time_ms r = cl"
      using assms(2) c by (auto simp: get_stream_bounds_def run_simps returnE_def split: if_splits sum.splits)
    with b False show ?thesis by auto
  next
    case True
    then obtain p where p: "get_open_interest_progress (w_disk w) s = Inr p"
      using assms(2) c by (auto simp: get_stream_bounds_def run_simps returnE_def split: if_splits sum.splits)
    then have r: "w_disk w' = w_disk w" "(sb_earliest_committed_open_time_ms r, sb_latest_committed_open_time_ms r) =
        bounds_intersection (ce, cl) (tp_earliest_available_open_time_ms p, tp_latest_committed_open_time_ms p)"
      using assms(2) c True
      by (auto simp: get_stream_bounds_def run_simps returnE_def split: if_splits sum.splits prod.splits)
    show ?thesis
      using r b True p
      by (cases ce; cases cl; cases "tp_earliest_available_open_time_ms p"; cases "tp_latest_committed_open_time_ms p")
        (auto simp: Let_def split: if_splits)
  qed
qed

section \<open>A concrete range\<close>

definition ready_state :: stream_state where
  "ready_state = auditing_state\<lparr>ss_state := READY, ss_earliest_available_open_time_ms := Some 60000\<rparr>"

definition ready_db :: db where
  "ready_db = auditing_db\<lparr>db_states := [(1, ready_state)]\<rparr>"

lemma ready_state_wf: "state_wf ready_state" "ss_stream ready_state = example_stream"
  by (simp_all add: ready_state_def auditing_state_def initial_stream_state_def state_wf_def)

lemma ready_inv: "service_inv ready_db"
proof -
  have s: "save_stream_state ready_state auditing_db = Inr ready_db" by code_simp
  have "evolves auditing_db ready_db"
    using s ready_state_wf auditing_reads(1) auditing_inv
    by (intro save_state_evolves [of _ example_stream auditing_state ready_state])
      (simp_all add: ready_state_def auditing_state_def)
  with auditing_inv show ?thesis by (simp add: evolvesD(1))
qed

definition ready_world :: world where
  "ready_world = \<lparr>w_disk = ready_db, w_work = ready_db, w_ticks = 0, w_calls = 0\<rparr>"

definition example_query :: candle_range_request where
  "example_query = \<lparr>qr_ticker = ticker (sk_instrument example_stream), qr_timeframe = ''1m'', qr_from_ms = 60000, qr_to_ms = 120000\<rparr>"

lemma example_query_stream: "configured_stream [example_stream] (qr_ticker example_query) ''1m'' = Inr example_stream"
  by code_simp

lemma ready_reads: "get_stream_state ready_db example_stream = Inr ready_state"
proof -
  have "sel fst 1 (db_states ready_db) = Some (1, ready_state)" by (simp add: ready_db_def sel_def)
  moreover have "stream_id ready_db example_stream = Inr 1"
    using auditing_stream_id by (simp add: ready_db_def)
  ultimately show ?thesis using ready_state_wf by (simp add: get_stream_state_eq)
qed

lemma ready_candle: "\<exists>c. get_candle ready_db example_stream 60000 = Inr (Some c) \<and> cc_open_time_ms c = 60000"
proof -
  have "case get_candle ready_db example_stream 60000 of Inr (Some c) \<Rightarrow> cc_open_time_ms c = 60000 | _ \<Rightarrow> False"
    by code_simp
  then show ?thesis by (auto split: sum.splits option.splits)
qed

lemma example_grid: "grid 60000 120000 (stream_step example_stream) = [60000]"
  by code_simp

theorem candle_range_sound_complete_witness:
  "\<exists>r. get_candle_range [example_stream] (read_snapshot ready_db) example_query = Inr r \<and>
     map cc_open_time_ms (cg_candles r) = [60000]"
proof -
  obtain c where c: "get_candle ready_db example_stream 60000 = Inr (Some c)" "cc_open_time_ms c = 60000"
    using ready_candle by blast
  let ?r = "\<lparr>cg_stream = example_stream, cg_from_ms = 60000, cg_to_ms = 120000,
    cg_market_data_hash = canonical_market_data_hash example_stream 60000 120000 [c],
    cg_candles = [c], cg_open_interest = [oi_text ready_db example_stream 60000]\<rparr>"
  have "range_answer ready_db example_stream 60000 120000 (cg_candles ?r) (cg_open_interest ?r)"
    using c by (simp add: range_answer_def example_grid)
  moreover have "range_valid example_stream 60000 120000" by code_simp
  moreover have "ss_state ready_state = READY" "ss_earliest_available_open_time_ms ready_state = Some 60000"
    "ss_latest_committed_open_time_ms ready_state = Some 60000" "(120000 :: int) \<le> 60000 + stream_step example_stream"
    by code_simp+
  ultimately have "get_candle_range [example_stream] (read_snapshot ready_db) example_query = Inr ?r"
    using candle_range_sound_complete [OF ready_inv, of "[example_stream]" example_query ?r] ready_reads
      example_query_stream
    by (simp add: example_query_def)
  then show ?thesis using c(2) by (intro exI [of _ ?r]) simp
qed

lemma example_audit_run:
  obtains x w' where "audit_stream_range (Some read_snapshot) example_stream 60000 120000 ready_world = (Inr x, w')"
    "ca_is_continuous x"
proof -
  let ?rq = "\<lparr>ar_stream = example_stream, ar_start_time_ms = 60000, ar_end_time_ms = 120000\<rparr>"
  have "map_sum id cr_is_continuous (fst (audit_stream_continuity candle_open_times ?rq ready_world)) = Inr True"
    "mk_audit_request ?rq = Inr ?rq"
    by code_simp+
  then obtain rep w1 where rep: "audit_stream_continuity candle_open_times ?rq ready_world = (Inr rep, w1)"
    "cr_is_continuous rep" "mk_audit_request ?rq = Inr ?rq"
    by (cases "audit_stream_continuity candle_open_times ?rq ready_world";
        cases "fst (audit_stream_continuity candle_open_times ?rq ready_world)") auto
  have d: "w_disk w1 = ready_db"
    using rep(1) by (auto simp: audit_stream_continuity_def run_simps ready_world_def split: if_splits sum.splits)
  obtain snap where "read_snapshot ready_db example_stream 60000 120000 = Inr snap"
    using sqlite_reader.read_exact [OF ready_inv ready_reads] by blast
  then show thesis
    using rep d ready_reads
    by (intro that) (auto simp: audit_stream_range_def run_simps readE_def returnE_def)
qed

theorem audited_range_reads_back_witness:
  "\<exists>x w' h r. audit_stream_range (Some read_snapshot) example_stream 60000 120000 ready_world = (Inr x, w') \<and>
     ca_market_data_hash x = Some h \<and>
     get_historical_candle_range [example_stream] (read_snapshot (w_disk w'))
       \<lparr>qr_ticker = qr_ticker example_query, qr_timeframe = ''1m'', qr_from_ms = 60000, qr_to_ms = 120000,
        qr_expected_market_data_hash = h\<rparr> = Inr r"
proof -
  obtain x w' where x: "audit_stream_range (Some read_snapshot) example_stream 60000 120000 ready_world = (Inr x, w')"
    "ca_is_continuous x" by (rule example_audit_run)
  have "service_inv (w_disk ready_world)" by (simp add: ready_world_def ready_inv)
  from audited_range_reads_back [OF this x(1) example_query_stream] x show ?thesis by blast
qed

theorem stream_bounds_exact_witness:
  "\<exists>r w'. get_stream_bounds [] example_stream ready_world = (Inr r, w') \<and> w_disk w' = ready_db \<and>
     sb_earliest_committed_open_time_ms r = Some 60000"
proof -
  have "map_sum id sb_earliest_committed_open_time_ms (fst (get_stream_bounds [] example_stream ready_world)) = Inr (Some 60000)"
    by code_simp
  then obtain r w' where r: "get_stream_bounds [] example_stream ready_world = (Inr r, w')"
    "sb_earliest_committed_open_time_ms r = Some 60000"
    by (cases "get_stream_bounds [] example_stream ready_world";
        cases "fst (get_stream_bounds [] example_stream ready_world)") auto
  have "service_inv (w_disk ready_world)" by (simp add: ready_world_def ready_inv)
  from stream_bounds_exact [OF this r(1)] r show ?thesis by (auto simp: ready_world_def)
qed

end
