(* ===== verification/PyValues.thy ===== *)
theory PyValues
  imports Decimals
begin

text \<open>
  Values that arrive from JSON and TOML documents, and what the adapters do with them: \<open>dict.get\<close>,
  \<open>isinstance\<close> by constructor, \<open>==\<close> with an integer, \<open>int(...)\<close> and \<open>str(...)\<close>. A binary float is
  known by the observations the code can make of it: its text, what \<open>int\<close> makes of it, and the
  integer it is equal to.
\<close>

datatype pyfloat = PyFloat (pf_text: string) (pf_trunc: "int res") (pf_equal: "int option")

datatype pyval =
    PNone
  | PBool bool
  | PInt int
  | PFloat pyfloat
  | PStr string
  | PList "pyval list"
  | PDict "(string \<times> pyval) list"

type_synonym pydict = "(string \<times> pyval) list"

definition dict_get :: "pydict \<Rightarrow> string \<Rightarrow> pyval option" where
  "dict_get d k = map_of d k"

text \<open>\<open>d[k] = v\<close>: a key keeps its place.\<close>

fun dict_set :: "'k \<Rightarrow> 'v \<Rightarrow> ('k \<times> 'v) list \<Rightarrow> ('k \<times> 'v) list" where
  "dict_set k v [] = [(k, v)]"
| "dict_set k v ((k', v') # d) = (if k' = k then (k, v) # d else (k', v') # dict_set k v d)"

lemma map_of_dict_set: "map_of (dict_set k v d) = (map_of d)(k \<mapsto> v)"
  by (induction d) auto

lemma dict_set_fresh: "k \<notin> fst ` set d \<Longrightarrow> dict_set k v d = d @ [(k, v)]"
  by (induction d) auto

lemma keys_dict_set: "fst ` set (dict_set k v d) = insert k (fst ` set d)"
  by (induction k v d rule: dict_set.induct) (simp_all add: insert_commute)

lemma distinct_dict_set: "distinct (map fst d) \<Longrightarrow> distinct (map fst (dict_set k v d))"
  by (induction k v d rule: dict_set.induct) (simp_all add: keys_dict_set, blast)

lemma found_member: "find P xs = Some x \<Longrightarrow> x \<in> set xs \<and> P x"
  by (auto simp: find_Some_iff)

definition py_num_eq :: "pyval \<Rightarrow> int \<Rightarrow> bool" where
  "py_num_eq v i =
     (case v of PInt j \<Rightarrow> j = i | PBool b \<Rightarrow> (if b then 1 else 0) = i | PFloat f \<Rightarrow> pf_equal f = Some i | _ \<Rightarrow> False)"

section \<open>int(...)\<close>

abbreviation TypeError :: exn_class where
  "TypeError \<equiv> OtherError ''TypeError'' False"

fun py_type_name :: "pyval \<Rightarrow> string" where
  "py_type_name PNone = ''NoneType''"
| "py_type_name (PBool b) = ''bool''"
| "py_type_name (PInt i) = ''int''"
| "py_type_name (PFloat f) = ''float''"
| "py_type_name (PStr s) = ''str''"
| "py_type_name (PList xs) = ''list''"
| "py_type_name (PDict d) = ''dict''"

text \<open>Digits with single underscores between them.\<close>

fun int_digits_ok :: "bool \<Rightarrow> string \<Rightarrow> bool" where
  "int_digits_ok after_digit [] \<longleftrightarrow> after_digit"
| "int_digits_ok after_digit (c # cs) \<longleftrightarrow>
     (if py_is_digit c then int_digits_ok True cs
      else c = CHR ''_'' \<and> after_digit \<and> int_digits_ok False cs)"

definition py_int_text :: "string \<Rightarrow> int res" where
  "py_int_text s =
     (let t = py_strip s;
          negative = (t \<noteq> [] \<and> hd t = CHR ''-'');
          body = (if t \<noteq> [] \<and> hd t \<in> {CHR ''-'', CHR ''+''} then tl t else t);
          digits = filter py_is_digit body
      in if \<not> int_digits_ok False body
           then Inl (Exn ValueError (''invalid literal for int() with base 10: '' @ py_repr s))
         else if length digits > 4300
           then Inl (Exn ValueError (''Exceeds the limit (4300 digits) for integer string conversion: value has '' @
                  nat_str (length digits) @ '' digits; use sys.set_int_max_str_digits() to increase the limit''))
         else Inr (if negative then - int (digits_val digits) else int (digits_val digits)))"

definition py_int :: "pyval \<Rightarrow> int res" where
  "py_int v =
     (case v of
        PInt i \<Rightarrow> Inr i
      | PBool b \<Rightarrow> Inr (if b then 1 else 0)
      | PFloat f \<Rightarrow> pf_trunc f
      | PStr s \<Rightarrow> py_int_text s
      | _ \<Rightarrow> Inl (Exn TypeError (''int() argument must be a string, a bytes-like object or a real number, not '' @
               py_repr (py_type_name v))))"

section \<open>str(...)\<close>

fun py_repr_value :: "pyval \<Rightarrow> string" where
  "py_repr_value PNone = ''None''"
| "py_repr_value (PBool b) = (if b then ''True'' else ''False'')"
| "py_repr_value (PInt i) = py_int_str i"
| "py_repr_value (PFloat f) = pf_text f"
| "py_repr_value (PStr s) = py_repr s"
| "py_repr_value (PList xs) = ''['' @ py_join '', '' (map py_repr_value xs) @ '']''"
| "py_repr_value (PDict kvs) =
     ''{'' @ py_join '', '' (map (\<lambda>(k, v). py_repr k @ '': '' @ py_repr_value v) kvs) @ ''}''"

definition py_str :: "pyval \<Rightarrow> string" where
  "py_str v = (case v of PStr s \<Rightarrow> s | _ \<Rightarrow> py_repr_value v)"

text \<open>A value handed to \<open>parse_decimal\<close>.\<close>

definition decimal_input_of :: "pyval \<Rightarrow> decimal_input" where
  "decimal_input_of v =
     (case v of
        PStr s \<Rightarrow> InStr s
      | PInt i \<Rightarrow> InInt i
      | PBool b \<Rightarrow> InBool b
      | PFloat f \<Rightarrow> InFloat (pf_text f)
      | _ \<Rightarrow> InOther (py_repr_value v))"

end
