(* ===== verification/Config.thy ===== *)
theory Config
  imports PyValues Timeframes
begin

text \<open>
  config/markets.py and adapters/bybit/websocket/topics.py: the validated market configuration, and the
  routing of exchange topics to the configured streams. The document that \<open>tomllib\<close> reads is an
  argument, as the value it returns or the \<open>OSError\<close> or \<open>TOMLDecodeError\<close> it raises.
\<close>

section \<open>markets.py\<close>

record market_source_config =
  ms_venue :: string
  ms_category :: string

record validated_market_config =
  mc_schema_version :: int
  mc_source :: market_source_config
  mc_instruments :: "instrument_coverage list"

definition enabled_instruments :: "validated_market_config \<Rightarrow> instrument_coverage list" where
  "enabled_instruments c = filter ic_enabled (mc_instruments c)"

definition enabled_streams :: "validated_market_config \<Rightarrow> stream_key list" where
  "enabled_streams c = concat (map stream_keys (enabled_instruments c))"

definition config_open_interest_streams :: "validated_market_config \<Rightarrow> stream_key list" where
  "config_open_interest_streams c = concat (map coverage_open_interest_streams (enabled_instruments c))"

definition exchange_symbols :: "validated_market_config \<Rightarrow> (string \<times> string) list" where
  "exchange_symbols c =
     fold (\<lambda>i d. dict_set (ticker (ic_instrument i)) (ic_exchange_symbol i) d) (enabled_instruments c) []"

abbreviation config_error :: "string \<Rightarrow> 'a res" where
  "config_error msg \<equiv> Inl (Exn MarketConfigError msg)"

definition required_table :: "pydict \<Rightarrow> string \<Rightarrow> string \<Rightarrow> pydict res" where
  "required_table payload key context =
     (case dict_get payload key of Some (PDict d) \<Rightarrow> Inr d | _ \<Rightarrow> config_error (context @ ''.'' @ key @ '' must be a table''))"

definition required_string :: "pydict \<Rightarrow> string \<Rightarrow> string \<Rightarrow> string res" where
  "required_string payload key context =
     (case dict_get payload key of
        Some (PStr s) \<Rightarrow> if py_strip s = [] then config_error (context @ ''.'' @ key @ '' must be a non-empty string'')
                        else Inr (py_strip s)
      | _ \<Rightarrow> config_error (context @ ''.'' @ key @ '' must be a non-empty string''))"

definition required_bool :: "pydict \<Rightarrow> string \<Rightarrow> string \<Rightarrow> bool res" where
  "required_bool payload key context =
     (case dict_get payload key of Some (PBool b) \<Rightarrow> Inr b | _ \<Rightarrow> config_error (context @ ''.'' @ key @ '' must be a boolean''))"

definition required_int :: "pydict \<Rightarrow> string \<Rightarrow> string \<Rightarrow> int res" where
  "required_int payload key context =
     (case dict_get payload key of Some (PInt i) \<Rightarrow> Inr i | _ \<Rightarrow> config_error (context @ ''.'' @ key @ '' must be an integer''))"

fun string_list :: "pyval list \<Rightarrow> string list option" where
  "string_list [] = Some []"
| "string_list (PStr s # vs) = map_option ((#) s) (string_list vs)"
| "string_list _ = None"

text \<open>The body of the loop over \<open>raw_instruments\<close>, and its \<open>try\<close>.\<close>

definition build_coverage ::
  "string \<Rightarrow> string \<Rightarrow> string \<Rightarrow> bool \<Rightarrow> string list \<Rightarrow> string \<Rightarrow> bool \<Rightarrow> instrument_coverage res" where
  "build_coverage context tk exchange_symbol enabled timeframes history_policy_raw open_interest =
     (case bindR (history_policy_of history_policy_raw) (\<lambda>history_policy.
           bindR (mk_instrument_key tk) (\<lambda>instrument.
           mk_instrument_coverage instrument exchange_symbol enabled timeframes history_policy open_interest)) of
        Inr coverage \<Rightarrow> Inr coverage
      | Inl exc \<Rightarrow>
          if is_value_error (exn_cls exc)
          then config_error (''invalid '' @ context @ '': '' @ exn_str exc)
          else Inl exc)"

definition load_instrument :: "nat \<Rightarrow> pyval \<Rightarrow> instrument_coverage res" where
  "load_instrument index v =
     (let context = ''instruments['' @ nat_str index @ '']''
      in case v of
           PDict raw \<Rightarrow>
             bindR (required_string raw ''ticker'' context) (\<lambda>tk.
             bindR (required_string raw ''exchange_symbol'' context) (\<lambda>exchange_symbol.
             bindR (required_bool raw ''enabled'' context) (\<lambda>enabled.
             bindR (case dict_get raw ''canonical_timeframes'' of
                      Some (PList (x # xs)) \<Rightarrow> Inr (x # xs)
                    | _ \<Rightarrow> config_error (context @ ''.canonical_timeframes must be a non-empty array'')) (\<lambda>raw_timeframes.
             bindR (case string_list raw_timeframes of
                      Some tfs \<Rightarrow> Inr tfs
                    | None \<Rightarrow> config_error (context @ ''.canonical_timeframes must contain strings'')) (\<lambda>timeframes.
             bindR (required_string raw ''history_policy'' context) (\<lambda>history_policy_raw.
             bindR (case dict_get raw ''open_interest'' of
                      None \<Rightarrow> Inr False
                    | Some (PBool b) \<Rightarrow> Inr b
                    | _ \<Rightarrow> config_error (context @ ''.open_interest must be a boolean'')) (\<lambda>open_interest.
             build_coverage context tk exchange_symbol enabled timeframes history_policy_raw open_interest)))))))
         | _ \<Rightarrow> config_error (context @ '' must be a table''))"

fun load_instruments :: "nat \<Rightarrow> pyval list \<Rightarrow> instrument_coverage list res" where
  "load_instruments index [] = Inr []"
| "load_instruments index (v # vs) =
     bindR (load_instrument index v) (\<lambda>c. bindR (load_instruments (Suc index) vs) (\<lambda>cs. Inr (c # cs)))"

fun reject_streams :: "stream_key list \<Rightarrow> stream_key list \<Rightarrow> stream_key list res" where
  "reject_streams streams [] = Inr streams"
| "reject_streams streams (s # ss) =
     (if s \<in> set streams then config_error (''duplicate normalized stream identity: '' @ canonical_id s)
      else reject_streams (s # streams) ss)"

fun reject_duplicates :: "string list \<Rightarrow> string list \<Rightarrow> stream_key list \<Rightarrow> instrument_coverage list \<Rightarrow> unit res" where
  "reject_duplicates tickers symbols streams [] = Inr ()"
| "reject_duplicates tickers symbols streams (c # cs) =
     (let tk = ticker (ic_instrument c)
      in if tk \<in> set tickers then config_error (''duplicate canonical ticker: '' @ tk)
         else if ic_exchange_symbol c \<in> set symbols
           then config_error (''duplicate exact exchange symbol: '' @ ic_exchange_symbol c)
         else bindR (reject_streams streams (stream_keys c)) (\<lambda>streams'.
                reject_duplicates (tk # tickers) (ic_exchange_symbol c # symbols) streams' cs))"

definition load_market_config :: "string \<Rightarrow> pyval res \<Rightarrow> validated_market_config res" where
  "load_market_config path loaded =
     (case loaded of
        Inl exc \<Rightarrow> config_error (''cannot load market config '' @ path @ '': '' @ exn_str exc)
      | Inr (PDict payload) \<Rightarrow>
          bindR (required_int payload ''schema_version'' ''root'') (\<lambda>schema_version.
          if schema_version \<noteq> 1
          then config_error (''unsupported schema_version='' @ py_int_str schema_version @ ''; expected 1'')
          else
            bindR (required_table payload ''source'' ''root'') (\<lambda>source_payload.
            bindR (required_string source_payload ''venue'' ''source'') (\<lambda>raw_venue.
            bindR (required_string source_payload ''category'' ''source'') (\<lambda>raw_category.
            let venue = py_lower raw_venue; category = py_lower raw_category
            in if venue \<noteq> ''bybit'' then config_error (''unsupported source.venue='' @ py_repr venue)
               else if category \<noteq> ''linear'' then config_error (''unsupported source.category='' @ py_repr category)
               else
                 bindR (case dict_get payload ''instruments'' of
                          Some (PList (x # xs)) \<Rightarrow> Inr (x # xs)
                        | _ \<Rightarrow> config_error ''instruments must be a non-empty array of tables'') (\<lambda>raw_instruments.
                 bindR (load_instruments 0 raw_instruments) (\<lambda>coverages.
                 bindR (reject_duplicates [] [] [] coverages) (\<lambda>_.
                 Inr \<lparr>mc_schema_version = schema_version,
                   mc_source = \<lparr>ms_venue = venue, ms_category = category\<rparr>, mc_instruments = coverages\<rparr>)))))))
      | Inr _ \<Rightarrow> config_error ''market config root must be a table'')"

section \<open>topics.py\<close>

type_synonym topic_map = "(string \<times> stream_key) list"

definition kline_topic :: "timeframe \<Rightarrow> string \<Rightarrow> string" where
  "kline_topic tf symbol = ''kline.'' @ ts_bybit_interval (tf_spec tf) @ ''.'' @ symbol"

fun map_topics :: "(string \<times> string) list \<Rightarrow> stream_key list \<Rightarrow> topic_map \<Rightarrow> topic_map res" where
  "map_topics symbol_by_ticker [] mappings = Inr mappings"
| "map_topics symbol_by_ticker (s # ss) mappings =
     (case map_of symbol_by_ticker (ticker (sk_instrument s)) of
        None \<Rightarrow> Inl (Exn KeyError (py_repr (ticker (sk_instrument s))))
      | Some symbol \<Rightarrow>
          let topic = kline_topic (sk_timeframe s) symbol
          in if topic \<in> fst ` set mappings
             then Inl (Exn RealtimeTopicMapError (''duplicate or ambiguous topic mapping: '' @ topic))
             else map_topics symbol_by_ticker ss (dict_set topic s mappings))"

definition topic_map_from_config :: "validated_market_config \<Rightarrow> topic_map res" where
  "topic_map_from_config config =
     bindR (map_topics (exchange_symbols config) (enabled_streams config) []) (\<lambda>mappings.
       if mappings = [] then Inl (Exn RealtimeTopicMapError ''no enabled realtime topics configured'')
       else Inr mappings)"

definition topics :: "topic_map \<Rightarrow> string list" where
  "topics tm = map fst tm"

definition resolve_topic :: "topic_map \<Rightarrow> string \<Rightarrow> stream_key res" where
  "resolve_topic tm topic =
     (case map_of tm topic of
        None \<Rightarrow> Inl (Exn RealtimeTopicMapError (''unknown realtime topic: '' @ topic))
      | Some s \<Rightarrow> Inr s)"

section \<open>A loaded configuration\<close>

lemma reject_streams_distinct:
  "reject_streams streams ss = Inr streams' \<Longrightarrow> distinct ss \<and> set ss \<inter> set streams = {} \<and> set streams' = set ss \<union> set streams"
proof (induction ss arbitrary: streams)
  case (Cons s ss)
  then have "s \<notin> set streams" "reject_streams (s # streams) ss = Inr streams'" by (auto split: if_splits)
  with Cons.IH [OF this(2)] show ?case by auto
qed simp

lemma reject_duplicates_distinct:
  "reject_duplicates tickers symbols streams cs = Inr () \<Longrightarrow>
   distinct (map (ticker \<circ> ic_instrument) cs) \<and> (ticker \<circ> ic_instrument) ` set cs \<inter> set tickers = {} \<and>
   distinct (map ic_exchange_symbol cs) \<and> ic_exchange_symbol ` set cs \<inter> set symbols = {} \<and>
   distinct (concat (map stream_keys cs)) \<and> set (concat (map stream_keys cs)) \<inter> set streams = {}"
proof (induction cs arbitrary: tickers symbols streams)
  case (Cons c cs)
  then obtain streams' where r: "ticker (ic_instrument c) \<notin> set tickers" "ic_exchange_symbol c \<notin> set symbols"
    "reject_streams streams (stream_keys c) = Inr streams'"
    "reject_duplicates (ticker (ic_instrument c) # tickers) (ic_exchange_symbol c # symbols) streams' cs = Inr ()"
    by (auto simp: Let_def bindR_eq_Inr split: if_splits)
  from Cons.IH [OF r(4)] reject_streams_distinct [OF r(3)] r(1,2) show ?case by auto
qed simp

text \<open>What the constructors guarantee of one coverage.\<close>

definition coverage_wf :: "instrument_coverage \<Rightarrow> bool" where
  "coverage_wf c \<longleftrightarrow> stream_keys c \<noteq> [] \<and> distinct (stream_keys c) \<and>
     set (coverage_open_interest_streams c) \<subseteq> set (stream_keys c) \<and> py_isalnum (ic_exchange_symbol c)"

lemma mk_instrument_coverage_symbol:
  "mk_instrument_coverage i xs en tfs pol oi = Inr c \<Longrightarrow> py_isalnum (ic_exchange_symbol c)"
  by (auto simp: mk_instrument_coverage_def mk_instrument_metadata_def Let_def bindR_eq_Inr split: if_splits)

lemma build_coverage_wf:
  assumes "build_coverage context tk xs en tfs pol oi = Inr c"
  shows "coverage_wf c"
proof -
  obtain i p where "mk_instrument_coverage i xs en tfs p oi = Inr c"
    using assms unfolding build_coverage_def
    by (cases "history_policy_of pol"; cases "mk_instrument_key tk") (auto split: sum.splits if_splits)
  then show ?thesis
    using mk_instrument_coverage_wf mk_instrument_coverage_symbol by (simp add: coverage_wf_def)
qed

lemma load_instrument_wf:
  assumes "load_instrument index v = Inr c"
  shows "coverage_wf c"
proof -
  have "\<exists>context tk xs en tfs pol oi. build_coverage context tk xs en tfs pol oi = Inr c"
    using assms unfolding load_instrument_def Let_def by (cases v) (simp_all add: bindR_eq_Inr, blast)
  then show ?thesis using build_coverage_wf by blast
qed

lemma load_instruments_wf: "load_instruments index vs = Inr cs \<Longrightarrow> list_all coverage_wf cs \<and> length cs = length vs"
  by (induction vs arbitrary: index cs) (auto simp: bindR_eq_Inr load_instrument_wf)

lemma load_market_config_valid:
  assumes "load_market_config path loaded = Inr c"
  shows "mc_schema_version c = 1" "mc_source c = \<lparr>ms_venue = ''bybit'', ms_category = ''linear''\<rparr>"
    "mc_instruments c \<noteq> []" "list_all coverage_wf (mc_instruments c)" "reject_duplicates [] [] [] (mc_instruments c) = Inr ()"
proof -
  obtain raw cs where r: "load_instruments 0 raw = Inr cs" "raw \<noteq> []" "reject_duplicates [] [] [] cs = Inr ()"
    "c = \<lparr>mc_schema_version = 1, mc_source = \<lparr>ms_venue = ''bybit'', ms_category = ''linear''\<rparr>, mc_instruments = cs\<rparr>"
    using assms
    by (auto simp: load_market_config_def Let_def bindR_eq_Inr simp del: load_instruments.simps reject_duplicates.simps
        split: sum.splits pyval.splits option.splits list.splits if_splits)
  then show "mc_schema_version c = 1" "mc_source c = \<lparr>ms_venue = ''bybit'', ms_category = ''linear''\<rparr>"
    "mc_instruments c \<noteq> []" "list_all coverage_wf (mc_instruments c)" "reject_duplicates [] [] [] (mc_instruments c) = Inr ()"
    using load_instruments_wf [OF r(1)] by auto
qed

lemma distinct_concat_filter: "distinct (concat (map f xs)) \<Longrightarrow> distinct (concat (map f (filter P xs)))"
  by (induction xs) auto

text \<open>
  C31. A configuration that loads can be relied on: version, venue and category are the supported ones, at
  least one instrument is declared, no ticker, no exchange symbol and no stream is declared twice, and
  open interest is carried only by enabled 5m streams. Everything else was refused on loading.
\<close>

theorem loaded_config_valid:
  assumes "load_market_config path loaded = Inr c"
  shows "mc_schema_version c = 1 \<and> ms_venue (mc_source c) = ''bybit'' \<and> ms_category (mc_source c) = ''linear'' \<and>
     mc_instruments c \<noteq> [] \<and> list_all coverage_wf (mc_instruments c) \<and>
     distinct (map (ticker \<circ> ic_instrument) (mc_instruments c)) \<and> distinct (map ic_exchange_symbol (mc_instruments c)) \<and>
     distinct (enabled_streams c) \<and>
     set (config_open_interest_streams c) \<subseteq> {s \<in> set (enabled_streams c). sk_timeframe s = TF_5m}"
proof -
  note v = load_market_config_valid [OF assms] and d = reject_duplicates_distinct [OF load_market_config_valid(5) [OF assms]]
  have "set (config_open_interest_streams c) \<subseteq> {s \<in> set (enabled_streams c). sk_timeframe s = TF_5m}"
    using v(4) unfolding config_open_interest_streams_def enabled_streams_def enabled_instruments_def
    by (fastforce simp: list_all_iff coverage_wf_def coverage_open_interest_streams_def split: if_splits)
  moreover have "distinct (enabled_streams c)"
    unfolding enabled_streams_def enabled_instruments_def using d by (intro distinct_concat_filter) blast
  ultimately show ?thesis using v d by simp
qed

section \<open>The topic map\<close>

lemma kline_topic_inj: "kline_topic tf s = kline_topic tf' s' \<longleftrightarrow> tf = tf' \<and> s = s'"
  by (cases tf; cases tf') (simp_all add: kline_topic_def)

lemma fold_symbols_other:
  "t \<notin> (ticker \<circ> ic_instrument) ` set xs \<Longrightarrow>
   map_of (fold (\<lambda>i d. dict_set (ticker (ic_instrument i)) (ic_exchange_symbol i) d) xs d) t = map_of d t"
  by (induction xs arbitrary: d) (auto simp: map_of_dict_set)

lemma fold_symbols:
  "distinct (map (ticker \<circ> ic_instrument) xs) \<Longrightarrow> i \<in> set xs \<Longrightarrow>
   map_of (fold (\<lambda>i d. dict_set (ticker (ic_instrument i)) (ic_exchange_symbol i) d) xs d) (ticker (ic_instrument i)) =
     Some (ic_exchange_symbol i)"
proof (induction xs arbitrary: d)
  case (Cons x xs)
  show ?case
  proof (cases "i \<in> set xs")
    case False
    then have "i = x" "ticker (ic_instrument i) \<notin> (ticker \<circ> ic_instrument) ` set xs" using Cons.prems by auto
    then show ?thesis by (simp add: fold_symbols_other map_of_dict_set)
  qed (use Cons in simp)
qed simp

definition topic_of :: "(string \<times> string) list \<Rightarrow> stream_key \<Rightarrow> string" where
  "topic_of symbols s = kline_topic (sk_timeframe s) (the (map_of symbols (ticker (sk_instrument s))))"

lemma map_topics_run:
  assumes "\<forall>s \<in> set ss. map_of symbols (ticker (sk_instrument s)) \<noteq> None"
    and "distinct (map (topic_of symbols) ss)" "topic_of symbols ` set ss \<inter> fst ` set mappings = {}"
  shows "map_topics symbols ss mappings = Inr (mappings @ map (\<lambda>s. (topic_of symbols s, s)) ss)"
  using assms
proof (induction ss arbitrary: mappings)
  case (Cons s ss)
  then have "dict_set (topic_of symbols s) s mappings = mappings @ [(topic_of symbols s, s)]"
    by (intro dict_set_fresh) auto
  with Cons show ?case by (auto simp: topic_of_def Let_def)
qed simp

lemma enabled_stream_instrument:
  assumes "s \<in> set (enabled_streams c)"
  obtains i where "i \<in> set (enabled_instruments c)" "sk_instrument s = ic_instrument i"
  using assms by (auto simp: enabled_streams_def stream_keys_def)

lemma topics_distinct:
  assumes "load_market_config path loaded = Inr c"
  shows "\<forall>s \<in> set (enabled_streams c). map_of (exchange_symbols c) (ticker (sk_instrument s)) \<noteq> None"
    and "distinct (map (topic_of (exchange_symbols c)) (enabled_streams c))"
proof -
  note d = reject_duplicates_distinct [OF load_market_config_valid(5) [OF assms]]
  have tickers: "distinct (map (ticker \<circ> ic_instrument) (enabled_instruments c))"
    using d by (simp add: enabled_instruments_def distinct_map_filter)
  have sub: "set (enabled_instruments c) \<subseteq> set (mc_instruments c)" by (auto simp: enabled_instruments_def)
  have lookup: "map_of (exchange_symbols c) (ticker (ic_instrument i)) = Some (ic_exchange_symbol i)"
    if "i \<in> set (enabled_instruments c)" for i
    unfolding exchange_symbols_def by (rule fold_symbols [OF tickers that])
  show "\<forall>s \<in> set (enabled_streams c). map_of (exchange_symbols c) (ticker (sk_instrument s)) \<noteq> None"
    using lookup by (metis enabled_stream_instrument option.distinct(1))
  have "inj_on (topic_of (exchange_symbols c)) (set (enabled_streams c))"
  proof (rule inj_onI)
    fix s s' assume s: "s \<in> set (enabled_streams c)" "s' \<in> set (enabled_streams c)"
      and eq: "topic_of (exchange_symbols c) s = topic_of (exchange_symbols c) s'"
    obtain i i' where i: "i \<in> set (enabled_instruments c)" "sk_instrument s = ic_instrument i"
      "i' \<in> set (enabled_instruments c)" "sk_instrument s' = ic_instrument i'"
      using s by (metis enabled_stream_instrument)
    have "sk_timeframe s = sk_timeframe s'" "ic_exchange_symbol i = ic_exchange_symbol i'"
      using eq i lookup by (simp_all add: topic_of_def kline_topic_inj)
    moreover have "inj_on ic_exchange_symbol (set (mc_instruments c))" using d by (simp add: distinct_map)
    then have "i = i'" using inj_onD [of ic_exchange_symbol _ i i'] sub i calculation(2) by blast
    ultimately show "s = s'" using i by (cases s; cases s') simp
  qed
  then show "distinct (map (topic_of (exchange_symbols c)) (enabled_streams c))"
    using d by (simp add: distinct_map enabled_streams_def enabled_instruments_def distinct_concat_filter)
qed

text \<open>
  C32. Routing is total and unambiguous: for a configuration that loaded, the topic map can be built as
  soon as one stream is enabled; it has one topic per enabled stream, in order, and every enabled
  stream is reached by exactly one topic. The error for ambiguous topics cannot occur.
\<close>

theorem topics_route_every_stream:
  assumes "load_market_config path loaded = Inr c"
  shows "(case topic_map_from_config c of
      Inl e \<Rightarrow> enabled_streams c = [] \<and> e = Exn RealtimeTopicMapError ''no enabled realtime topics configured''
    | Inr tm \<Rightarrow> map snd tm = enabled_streams c \<and> distinct (topics tm) \<and> enabled_streams c \<noteq> [] \<and>
        (\<forall>s \<in> set (enabled_streams c). \<exists>!topic. resolve_topic tm topic = Inr s))"
proof -
  let ?f = "topic_of (exchange_symbols c)" and ?ss = "enabled_streams c"
  let ?tm = "map (\<lambda>s. (?f s, s)) ?ss"
  note t = topics_distinct [OF assms]
  have run: "map_topics (exchange_symbols c) ?ss [] = Inr ?tm"
    using map_topics_run [OF t(1,2), of "[]"] by simp
  have look: "map_of ?tm x = Some s \<longleftrightarrow> s \<in> set ?ss \<and> x = ?f s" for x s
    using t(2) by (subst map_of_eq_Some_iff) (auto simp: comp_def)
  have res: "resolve_topic ?tm x = Inr s \<longleftrightarrow> map_of ?tm x = Some s" for x s
    by (simp add: resolve_topic_def split: option.splits)
  have "\<exists>!topic. resolve_topic ?tm topic = Inr s" if "s \<in> set ?ss" for s
    unfolding res look using that by blast
  then show ?thesis
    using run t(2) by (auto simp: topic_map_from_config_def topics_def comp_def)
qed

section \<open>An example\<close>

definition example_document :: pyval where
  "example_document = PDict [(''schema_version'', PInt 1),
     (''source'', PDict [(''venue'', PStr ''Bybit''), (''category'', PStr ''linear'')]),
     (''instruments'', PList [PDict [(''ticker'', PStr ''btcusdt.p''), (''exchange_symbol'', PStr ''btcusdt''),
        (''enabled'', PBool True), (''canonical_timeframes'', PList [PStr ''1m'', PStr ''5m'']),
        (''history_policy'', PStr ''full_available''), (''open_interest'', PBool True)]])]"

lemma example_document_loads:
  obtains c where "load_market_config ''markets.toml'' (Inr example_document) = Inr c"
    "map canonical_id (enabled_streams c) = [''BTCUSDT.P:1m'', ''BTCUSDT.P:5m'']"
proof -
  have "map_sum id (\<lambda>c. map canonical_id (enabled_streams c)) (load_market_config ''markets.toml'' (Inr example_document)) =
      Inr [''BTCUSDT.P:1m'', ''BTCUSDT.P:5m'']"
    by code_simp
  then show thesis using that by (cases "load_market_config ''markets.toml'' (Inr example_document)") auto
qed

theorem loaded_config_valid_witness:
  "\<exists>c. load_market_config ''markets.toml'' (Inr example_document) = Inr c \<and> distinct (enabled_streams c) \<and>
     length (enabled_streams c) = 2"
proof -
  obtain c where c: "load_market_config ''markets.toml'' (Inr example_document) = Inr c"
    "map canonical_id (enabled_streams c) = [''BTCUSDT.P:1m'', ''BTCUSDT.P:5m'']" by (rule example_document_loads)
  have "length (enabled_streams c) = 2" using arg_cong [OF c(2), of length] by simp
  with c(1) loaded_config_valid [OF c(1)] show ?thesis by blast
qed

theorem topics_route_every_stream_witness:
  "\<exists>c tm. load_market_config ''markets.toml'' (Inr example_document) = Inr c \<and> topic_map_from_config c = Inr tm \<and>
     distinct (topics tm)"
proof -
  obtain c where c: "load_market_config ''markets.toml'' (Inr example_document) = Inr c"
    "map canonical_id (enabled_streams c) = [''BTCUSDT.P:1m'', ''BTCUSDT.P:5m'']" by (rule example_document_loads)
  then have "enabled_streams c \<noteq> []" by auto
  with c(1) topics_route_every_stream [OF c(1)] show ?thesis by (auto split: sum.splits)
qed

end
