(* ===== verification/Bybit.thy ===== *)
theory Bybit
  imports PyValues Candles
begin

text \<open>
  adapters/bybit/kline\_parser.py, adapters/bybit/open\_interest\_source.py and
  adapters/bybit/rest\_client.py. The HTTP transport and the random numbers are parameters, functions of
  the call number; sleeping is recorded. Seconds are exact numbers here and binary floats in the code.
\<close>

section \<open>kline\_parser.py\<close>

definition type_or_value_error :: "exn \<Rightarrow> bool" where
  "type_or_value_error e \<longleftrightarrow> is_value_error (exn_cls e) \<or> exn_cls e = TypeError"

definition payload_int :: "string \<Rightarrow> pyval \<Rightarrow> int res" where
  "payload_int message v =
     (case py_int v of
        Inl e \<Rightarrow> if type_or_value_error e then Inl (Exn BybitPayloadError message) else Inl e
      | Inr i \<Rightarrow> Inr i)"

definition parse_kline_row :: "stream_key \<Rightarrow> int \<Rightarrow> pyval \<Rightarrow> observed_candle res" where
  "parse_kline_row stream observed_at_ms v =
     (case v of
        PList (t # op # hi # lo # cl # vol # rest) \<Rightarrow>
          bindR (payload_int ''Bybit kline start time must be an integer'' t) (\<lambda>open_time_ms.
          let close_time_ms = open_time_ms + stream_step stream - 1
          in mk_observed_candle stream open_time_ms close_time_ms (decimal_input_of op) (decimal_input_of hi)
               (decimal_input_of lo) (decimal_input_of cl) (decimal_input_of vol)
               (close_time_ms < observed_at_ms) observed_at_ms BYBIT_REST)
      | _ \<Rightarrow> Inl (Exn BybitPayloadError ''Bybit kline row must be a list with at least 6 fields''))"

text \<open>The dictionary \<open>by_open_time\<close> and the tuple made of it, for both parsers.\<close>

definition in_key_order :: "(int \<times> 'a) list \<Rightarrow> 'a list" where
  "in_key_order d = map (\<lambda>k. the (map_of d k)) (sort (map fst d))"

fun collect_rows :: "('r \<Rightarrow> 'p res) \<Rightarrow> ('p \<Rightarrow> int) \<Rightarrow> ('p \<Rightarrow> bool) \<Rightarrow> 'r list \<Rightarrow> (int \<times> 'p) list \<Rightarrow> (int \<times> 'p) list res" where
  "collect_rows parse key admissible [] d = Inr d"
| "collect_rows parse key admissible (row # rows) d =
     bindR (parse row) (\<lambda>p. collect_rows parse key admissible rows
       (if admissible p then dict_set (key p) p d else d))"

definition parse_kline_rows :: "stream_key \<Rightarrow> time_window \<Rightarrow> int \<Rightarrow> pyval list \<Rightarrow> observed_candle list res" where
  "parse_kline_rows stream requested_window observed_at_ms rows =
     bindR (collect_rows (parse_kline_row stream observed_at_ms) oc_open_time_ms
         (\<lambda>c. window_contains requested_window (oc_open_time_ms c)) rows []) (\<lambda>by_open_time.
       Inr (in_key_order by_open_time))"

section \<open>rest\_client.py\<close>

text \<open>An error of the transport with the attributes the retry policy reads.\<close>

datatype rest_error =
  RestError (re_exn: exn) (re_status_code: "int option") (re_retry_after_seconds: "rat option") (re_ret_code: "int option")

record rest_client =
  rl_exchange_symbols :: "(string \<times> string) list"
  rl_base_url :: string
  rl_category :: string
  rl_retry_attempts :: int
  rl_retry_base_delay_seconds :: rat
  rl_retry_rate_limit_delay_seconds :: rat
  rl_retry_max_delay_seconds :: rat
  rl_retry_jitter_ratio :: rat

record rest_state =
  rs_instrument_cache :: "(string \<times> exchange_spec) list"
  rs_calls :: nat
  rs_draws :: nat
  rs_slept :: "rat list"

record rest_env =
  rv_get_json :: "nat \<Rightarrow> string \<Rightarrow> (string \<times> pyval) list \<Rightarrow> rest_error + pydict"
  rv_random :: "nat \<Rightarrow> rat"

type_synonym 'a rest = "(rest_state, 'a) prog"

definition is_rate_limit_error :: "rest_error \<Rightarrow> bool" where
  "is_rate_limit_error e =
     (if exn_cls (re_exn e) = BybitTransientApiError then re_ret_code e = Some 10006 else re_status_code e = Some 429)"

definition retry_delay_seconds :: "rest_client \<Rightarrow> rest_env \<Rightarrow> rest_error \<Rightarrow> int \<Rightarrow> rat rest" where
  "retry_delay_seconds c V e attempt =
     (if exn_cls (re_exn e) = BybitHttpError \<and> re_retry_after_seconds e \<noteq> None
      then returnE (max 0 (min (rl_retry_max_delay_seconds c) (the (re_retry_after_seconds e))))
      else
        let base_delay = (if is_rate_limit_error e then rl_retry_rate_limit_delay_seconds c
                          else rl_retry_base_delay_seconds c);
            delay = min (rl_retry_max_delay_seconds c) (base_delay * 2 ^ nat (max 0 (attempt - 1)))
        in (\<lambda>s. (Inr (min (rl_retry_max_delay_seconds c)
                   (delay + delay * rl_retry_jitter_ratio c * rv_random V (rs_draws s))),
                 s\<lparr>rs_draws := Suc (rs_draws s)\<rparr>)))"

definition sleeper :: "rat \<Rightarrow> unit rest" where
  "sleeper seconds s = (Inr (), s\<lparr>rs_slept := rs_slept s @ [seconds]\<rparr>)"

definition retryable :: "rest_error \<Rightarrow> bool" where
  "retryable e \<longleftrightarrow> exn_cls (re_exn e) \<in> {BybitHttpError, BybitTransientApiError}"

text \<open>\<open>left\<close> is how many attempts remain, so the current one is the last when it is one.\<close>

fun retry_loop :: "rest_client \<Rightarrow> rest_env \<Rightarrow> string \<Rightarrow> (string \<times> pyval) list \<Rightarrow> int \<Rightarrow> nat \<Rightarrow> pydict rest" where
  "retry_loop c V url params attempt 0 = raiseE (Exn AssertionError ''retry loop exhausted without raising'')"
| "retry_loop c V url params attempt (Suc left) = (\<lambda>s.
     let s' = s\<lparr>rs_calls := Suc (rs_calls s)\<rparr>
     in case rv_get_json V (rs_calls s) url params of
          Inr payload \<Rightarrow> (Inr payload, s')
        | Inl e \<Rightarrow>
            if \<not> retryable e \<or> left = 0 then (Inl (re_exn e), s')
            else bindE (retry_delay_seconds c V e attempt) (\<lambda>delay.
                 bindE (sleeper delay) (\<lambda>_. retry_loop c V url params (attempt + 1) left)) s')"

definition get_json_with_retry :: "rest_client \<Rightarrow> rest_env \<Rightarrow> string \<Rightarrow> (string \<times> pyval) list \<Rightarrow> pydict rest" where
  "get_json_with_retry c V url params = retry_loop c V url params 1 (nat (max 1 (rl_retry_attempts c)))"

definition TRANSIENT_RET_CODES :: "int list" where
  "TRANSIENT_RET_CODES = [10000, 10006, 10016]"

definition extract_rows :: "pydict \<Rightarrow> pyval list res" where
  "extract_rows payload =
     (let ret_code = (case dict_get payload ''retCode'' of None \<Rightarrow> PNone | Some v \<Rightarrow> v)
      in if \<not> py_num_eq ret_code 0
         then
           let message = (case dict_get payload ''retMsg'' of None \<Rightarrow> ''unknown Bybit API error'' | Some v \<Rightarrow> py_str v);
               text = ''Bybit retCode='' @ py_str ret_code @ '': '' @ message
           in case ret_code of
                PList xs \<Rightarrow> Inl (Exn TypeError (''unhashable type: '' @ py_repr (py_type_name ret_code)))
              | PDict d \<Rightarrow> Inl (Exn TypeError (''unhashable type: '' @ py_repr (py_type_name ret_code)))
              | _ \<Rightarrow> if \<exists>i \<in> set TRANSIENT_RET_CODES. py_num_eq ret_code i
                     then Inl (Exn BybitTransientApiError text) else Inl (Exn BybitApiError text)
         else case dict_get payload ''result'' of
             Some (PDict result) \<Rightarrow>
               (case dict_get result ''list'' of
                  Some (PList rows) \<Rightarrow> Inr rows
                | _ \<Rightarrow> Inl (Exn BybitPayloadError ''Bybit result.list must be an array''))
           | _ \<Rightarrow> Inl (Exn BybitPayloadError ''Bybit result must be an object''))"

definition rest_required_string :: "pydict \<Rightarrow> string \<Rightarrow> string \<Rightarrow> string res" where
  "rest_required_string row key context =
     (case dict_get row key of
        Some (PStr s) \<Rightarrow> if py_strip s = []
                        then Inl (Exn BybitPayloadError (''Bybit '' @ context @ ''.'' @ key @ '' must be a non-empty string''))
                        else Inr (py_strip s)
      | _ \<Rightarrow> Inl (Exn BybitPayloadError (''Bybit '' @ context @ ''.'' @ key @ '' must be a non-empty string'')))"

text \<open>A boolean is an \<open>int\<close> for \<open>isinstance\<close>.\<close>

definition required_non_negative_int :: "pydict \<Rightarrow> string \<Rightarrow> string \<Rightarrow> int res" where
  "required_non_negative_int row key context =
     (let wrong = Exn BybitPayloadError (''Bybit '' @ context @ ''.'' @ key @ '' must be an integer'');
          check = (\<lambda>parsed. if parsed < 0
             then Inl (Exn BybitPayloadError (''Bybit '' @ context @ ''.'' @ key @ '' must be non-negative''))
             else Inr parsed)
      in case dict_get row key of
           Some (PStr s) \<Rightarrow> (case py_int_text s of Inl e \<Rightarrow> Inl wrong | Inr i \<Rightarrow> check i)
         | Some (PInt i) \<Rightarrow> check i
         | Some (PBool b) \<Rightarrow> check (if b then 1 else 0)
         | _ \<Rightarrow> Inl wrong)"

definition exchange_symbol_for_instrument :: "rest_client \<Rightarrow> instrument_key \<Rightarrow> string res" where
  "exchange_symbol_for_instrument c i =
     (case map_of (rl_exchange_symbols c) (ticker i) of
        None \<Rightarrow> Inl (Exn ValueError (''no Bybit symbol configured for '' @ ticker i))
      | Some symbol \<Rightarrow> Inr symbol)"

definition market_url :: "rest_client \<Rightarrow> string \<Rightarrow> string" where
  "market_url c path = py_rstrip_char (CHR ''/'') (rl_base_url c) @ path"

definition get_market_rows :: "rest_client \<Rightarrow> rest_env \<Rightarrow> string \<Rightarrow> (string \<times> pyval) list \<Rightarrow> pyval list rest" where
  "get_market_rows c V path params =
     bindE (get_json_with_retry c V (market_url c path) params) (\<lambda>payload. liftR (extract_rows payload))"

text \<open>The two loops over the instrument rows: the first row of the symbol decides.\<close>

fun instrument_row :: "string \<Rightarrow> pyval list \<Rightarrow> pydict res" where
  "instrument_row symbol [] = Inl (Exn BybitPayloadError (''Bybit instrument metadata missing for symbol '' @ symbol))"
| "instrument_row symbol (v # vs) =
     (case v of
        PDict row \<Rightarrow> if dict_get row ''symbol'' = Some (PStr symbol) then Inr row else instrument_row symbol vs
      | _ \<Rightarrow> Inl (Exn BybitPayloadError ''Bybit instrument row must be an object''))"

definition instrument_params :: "rest_client \<Rightarrow> string \<Rightarrow> (string \<times> pyval) list" where
  "instrument_params c symbol = [(''category'', PStr (rl_category c)), (''symbol'', PStr symbol)]"

definition rest_instrument_specification :: "rest_client \<Rightarrow> rest_env \<Rightarrow> instrument_key \<Rightarrow> exchange_spec rest" where
  "rest_instrument_specification c V i =
     bindE (readE (\<lambda>s. Inr (map_of (rs_instrument_cache s) (ticker i)))) (\<lambda>cached.
     case cached of
       Some spec \<Rightarrow> returnE spec
     | None \<Rightarrow>
         bindE (liftR (exchange_symbol_for_instrument c i)) (\<lambda>symbol.
         bindE (get_market_rows c V ''/v5/market/instruments-info'' (instrument_params c symbol)) (\<lambda>rows.
         bindE (liftR (bindR (instrument_row symbol rows) (\<lambda>row.
            bindR (rest_required_string row ''symbol'' ''instrument'') (\<lambda>sym.
            bindR (rest_required_string row ''contractType'' ''instrument'') (\<lambda>contract_type.
            bindR (rest_required_string row ''status'' ''instrument'') (\<lambda>status.
            bindR (rest_required_string row ''settleCoin'' ''instrument'') (\<lambda>settle_coin.
            bindR (required_non_negative_int row ''launchTime'' ''instrument'') (\<lambda>launch.
            mk_exchange_spec \<lparr>es_instrument = i, es_exchange_symbol = sym, es_category = rl_category c,
              es_contract_type = contract_type, es_status = status, es_settle_coin = settle_coin,
              es_launch_time_ms = launch\<rparr>)))))))) (\<lambda>spec.
         bindE (updateE (\<lambda>s. Inr (s\<lparr>rs_instrument_cache := dict_set (ticker i) spec (rs_instrument_cache s)\<rparr>))) (\<lambda>_.
         returnE spec)))))"

definition rest_launch_time_ms :: "rest_client \<Rightarrow> rest_env \<Rightarrow> instrument_key \<Rightarrow> int rest" where
  "rest_launch_time_ms c V i =
     bindE (readE (\<lambda>s. Inr (map_of (rs_instrument_cache s) (ticker i)))) (\<lambda>cached.
     case cached of
       Some spec \<Rightarrow> returnE (es_launch_time_ms spec)
     | None \<Rightarrow>
         bindE (liftR (exchange_symbol_for_instrument c i)) (\<lambda>symbol.
         bindE (get_market_rows c V ''/v5/market/instruments-info'' (instrument_params c symbol)) (\<lambda>rows.
         liftR (bindR (instrument_row symbol rows) (\<lambda>row.
           required_non_negative_int row ''launchTime'' ''instrument'')))))"

definition rest_closed_candles ::
  "rest_client \<Rightarrow> rest_env \<Rightarrow> stream_key \<Rightarrow> time_window \<Rightarrow> int \<Rightarrow> observed_candle list rest" where
  "rest_closed_candles c V stream window observed_at_ms =
     bindE (liftR (exchange_symbol_for_instrument c (sk_instrument stream))) (\<lambda>symbol.
     let max_rows = max 1 (window_duration_ms window div stream_step stream)
     in if max_rows > 1000
        then raiseE (Exn ValueError ''Bybit kline window must contain no more than 1000 candles'')
        else bindE (get_market_rows c V ''/v5/market/kline''
               [(''category'', PStr (rl_category c)), (''symbol'', PStr symbol),
                (''interval'', PStr (ts_bybit_interval (tf_spec (sk_timeframe stream)))),
                (''start'', PInt (start_ms window)), (''end'', PInt (end_ms window - 1)), (''limit'', PInt max_rows)]) (\<lambda>rows.
             liftR (parse_kline_rows stream window observed_at_ms rows)))"

section \<open>open\_interest\_source.py\<close>

definition parse_open_interest_row :: "stream_key \<Rightarrow> int \<Rightarrow> pyval \<Rightarrow> observed_open_interest res" where
  "parse_open_interest_row stream observed_at_ms v =
     (case v of
        PDict row \<Rightarrow>
          (case dict_get row ''openInterest'' of
             Some (PStr text) \<Rightarrow>
               if py_strip text = []
               then Inl (Exn BybitPayloadError ''Bybit open interest value must be a non-empty string'')
               else bindR (payload_int ''Bybit open interest timestamp must be an integer''
                      (case dict_get row ''timestamp'' of None \<Rightarrow> PNone | Some t \<Rightarrow> t)) (\<lambda>open_time_ms.
                    Inr \<lparr>oi_stream = stream, oi_open_time_ms = open_time_ms,
                      oi_open_interest = InStr (py_strip text), oi_observed_at_ms = observed_at_ms\<rparr>)
           | _ \<Rightarrow> Inl (Exn BybitPayloadError ''Bybit open interest value must be a non-empty string''))
      | _ \<Rightarrow> Inl (Exn BybitPayloadError ''Bybit open interest row must be an object''))"

definition parse_open_interest_rows ::
  "stream_key \<Rightarrow> time_window \<Rightarrow> int \<Rightarrow> bool \<Rightarrow> pyval list \<Rightarrow> observed_open_interest list res" where
  "parse_open_interest_rows stream requested_window observed_at_ms include_current rows =
     bindR (last_closed_open_time_ms observed_at_ms (stream_step stream)) (\<lambda>last_closed.
     let newest = (if include_current then last_closed + stream_step stream else last_closed)
     in bindR (collect_rows (parse_open_interest_row stream observed_at_ms) oi_open_time_ms
            (\<lambda>p. window_contains requested_window (oi_open_time_ms p) \<and> oi_open_time_ms p \<le> newest) rows []) (\<lambda>by_open_time.
          Inr (in_key_order by_open_time)))"

definition rest_open_interest ::
  "rest_client \<Rightarrow> rest_env \<Rightarrow> bool \<Rightarrow> stream_key \<Rightarrow> time_window \<Rightarrow> int \<Rightarrow> observed_open_interest list rest" where
  "rest_open_interest c V include_current stream window observed_at_ms =
     (let step_ms = stream_step stream; points = window_duration_ms window div step_ms
      in if sk_timeframe stream \<noteq> TF_5m
         then raiseE (Exn ValueError ''open interest is supported only for 5m streams'')
         else if points > 200
         then raiseE (Exn ValueError ''Bybit open interest window must contain no more than 200 points'')
         else bindE (liftR (exchange_symbol_for_instrument c (sk_instrument stream))) (\<lambda>symbol.
              bindE (get_market_rows c V ''/v5/market/open-interest''
                [(''category'', PStr (rl_category c)), (''symbol'', PStr symbol), (''intervalTime'', PStr ''5min''),
                 (''startTime'', PInt (start_ms window)), (''endTime'', PInt (end_ms window - step_ms)),
                 (''limit'', PInt (max 1 points))]) (\<lambda>rows.
              liftR (parse_open_interest_rows stream window observed_at_ms include_current rows))))"

section \<open>The retry loop\<close>

text \<open>
  A run of the loop over \<open>left\<close> attempts: it makes \<open>k\<close> calls, all but the last of which fail in a
  retryable way, and ends with the outcome of the last.
\<close>

definition attempt_outcome :: "rest_env \<Rightarrow> string \<Rightarrow> (string \<times> pyval) list \<Rightarrow> nat \<Rightarrow> rest_error + pydict" where
  "attempt_outcome V url params n = rv_get_json V n url params"

definition sane_policy :: "rest_client \<Rightarrow> rest_env \<Rightarrow> bool" where
  "sane_policy c V \<longleftrightarrow> 0 \<le> rl_retry_base_delay_seconds c \<and> 0 \<le> rl_retry_rate_limit_delay_seconds c \<and>
     0 \<le> rl_retry_max_delay_seconds c \<and> 0 \<le> rl_retry_jitter_ratio c \<and> (\<forall>n. 0 \<le> rv_random V n)"

lemma retry_delay_run:
  assumes "sane_policy c V"
  shows "\<exists>d m. retry_delay_seconds c V e attempt s = (Inr d, s\<lparr>rs_draws := m\<rparr>) \<and> 0 \<le> d \<and> d \<le> rl_retry_max_delay_seconds c"
proof (cases "exn_cls (re_exn e) = BybitHttpError \<and> re_retry_after_seconds e \<noteq> None")
  case True
  with assms show ?thesis
    by (intro exI [of _ "max 0 (min (rl_retry_max_delay_seconds c) (the (re_retry_after_seconds e)))"]
        exI [of _ "rs_draws s"]) (auto simp: retry_delay_seconds_def returnE_def sane_policy_def)
next
  case False
  let ?base = "if is_rate_limit_error e then rl_retry_rate_limit_delay_seconds c else rl_retry_base_delay_seconds c"
  let ?delay = "min (rl_retry_max_delay_seconds c) (?base * 2 ^ nat (max 0 (attempt - 1)))"
  let ?d = "min (rl_retry_max_delay_seconds c) (?delay + ?delay * rl_retry_jitter_ratio c * rv_random V (rs_draws s))"
  have "0 \<le> ?delay" using assms by (simp add: sane_policy_def)
  then have "0 \<le> ?d" using assms by (simp add: sane_policy_def)
  moreover have "retry_delay_seconds c V e attempt s = (Inr ?d, s\<lparr>rs_draws := Suc (rs_draws s)\<rparr>)"
    unfolding retry_delay_seconds_def if_not_P [OF False] Let_def by simp
  ultimately show ?thesis by (intro exI [of _ ?d] exI [of _ "Suc (rs_draws s)"]) simp
qed

lemma retry_loop_run:
  assumes "sane_policy c V"
  shows "\<exists>k ds m. k \<le> left \<and> retry_loop c V url params attempt (Suc left) s =
       ((case attempt_outcome V url params (rs_calls s + k) of Inl e \<Rightarrow> Inl (re_exn e) | Inr payload \<Rightarrow> Inr payload),
        s\<lparr>rs_calls := rs_calls s + Suc k, rs_draws := m, rs_slept := rs_slept s @ ds\<rparr>) \<and>
     length ds = k \<and> (\<forall>d \<in> set ds. 0 \<le> d \<and> d \<le> rl_retry_max_delay_seconds c) \<and>
     (\<forall>i < k. \<exists>e. attempt_outcome V url params (rs_calls s + i) = Inl e \<and> retryable e) \<and>
     (k < left \<longrightarrow> (\<forall>e. attempt_outcome V url params (rs_calls s + k) = Inl e \<longrightarrow> \<not> retryable e))"
proof (induction left arbitrary: attempt s)
  case 0
  then show ?case
    by (intro exI [of _ 0] exI [of _ "[]"] exI [of _ "rs_draws s"])
      (auto simp: attempt_outcome_def Let_def split: sum.splits)
next
  case (Suc left)
  let ?o = "attempt_outcome V url params (rs_calls s)"
  show ?case
  proof (cases "\<exists>e. ?o = Inl e \<and> retryable e")
    case False
    then show ?thesis
      by (intro exI [of _ 0] exI [of _ "[]"] exI [of _ "rs_draws s"])
        (auto simp: attempt_outcome_def Let_def split: sum.splits)
  next
    case True
    then obtain e where e: "?o = Inl e" "retryable e" by blast
    let ?s = "s\<lparr>rs_calls := Suc (rs_calls s)\<rparr>"
    obtain d m where d: "retry_delay_seconds c V e attempt ?s = (Inr d, ?s\<lparr>rs_draws := m\<rparr>)"
      "0 \<le> d" "d \<le> rl_retry_max_delay_seconds c"
      using retry_delay_run [OF assms] by blast
    let ?s' = "?s\<lparr>rs_draws := m, rs_slept := rs_slept s @ [d]\<rparr>"
    have step: "retry_loop c V url params attempt (Suc (Suc left)) s = retry_loop c V url params (attempt + 1) (Suc left) ?s'"
      unfolding retry_loop.simps(2) [of c V url params attempt "Suc left"] using e d(1)
      by (simp add: attempt_outcome_def Let_def bindE_def sleeper_def del: retry_loop.simps)
    obtain k ds m' where k: "k \<le> left" "retry_loop c V url params (attempt + 1) (Suc left) ?s' =
       ((case attempt_outcome V url params (rs_calls ?s' + k) of Inl e \<Rightarrow> Inl (re_exn e) | Inr payload \<Rightarrow> Inr payload),
        ?s'\<lparr>rs_calls := rs_calls ?s' + Suc k, rs_draws := m', rs_slept := rs_slept ?s' @ ds\<rparr>)"
       "length ds = k" "\<forall>d \<in> set ds. 0 \<le> d \<and> d \<le> rl_retry_max_delay_seconds c"
       "\<forall>i < k. \<exists>e. attempt_outcome V url params (rs_calls ?s' + i) = Inl e \<and> retryable e"
       "k < left \<longrightarrow> (\<forall>e. attempt_outcome V url params (rs_calls ?s' + k) = Inl e \<longrightarrow> \<not> retryable e)"
      using Suc.IH [of "attempt + 1" ?s'] by blast
    have "\<exists>e. attempt_outcome V url params (rs_calls s + i) = Inl e \<and> retryable e" if "i < Suc k" for i
      using that e k(5) by (cases i) auto
    then show ?thesis
      using step k d by (intro exI [of _ "Suc k"] exI [of _ "d # ds"] exI [of _ m']) simp
  qed
qed

text \<open>
  C39. The retry policy of the REST client, for every behaviour of the exchange: a request is sent at least
  once and at most \<open>max(1, retry_attempts)\<close> times; it is sent again only after a retryable failure,
  with one pause between two attempts, each between zero and \<open>retry_max_delay_seconds\<close>; and its
  outcome is that of the last attempt, which is a success, a failure that is not retryable, or the
  failure of the last attempt allowed.
\<close>

theorem retry_is_bounded:
  assumes "sane_policy c V"
  shows "\<exists>k ds m. k < nat (max 1 (rl_retry_attempts c)) \<and> get_json_with_retry c V url params s =
       ((case attempt_outcome V url params (rs_calls s + k) of Inl e \<Rightarrow> Inl (re_exn e) | Inr payload \<Rightarrow> Inr payload),
        s\<lparr>rs_calls := rs_calls s + Suc k, rs_draws := m, rs_slept := rs_slept s @ ds\<rparr>) \<and>
     length ds = k \<and> (\<forall>d \<in> set ds. 0 \<le> d \<and> d \<le> rl_retry_max_delay_seconds c) \<and>
     (\<forall>i < k. \<exists>e. attempt_outcome V url params (rs_calls s + i) = Inl e \<and> retryable e) \<and>
     (Suc k < nat (max 1 (rl_retry_attempts c)) \<longrightarrow>
        (\<forall>e. attempt_outcome V url params (rs_calls s + k) = Inl e \<longrightarrow> \<not> retryable e))"
proof -
  obtain n where n: "nat (max 1 (rl_retry_attempts c)) = Suc n"
    by (cases "nat (max 1 (rl_retry_attempts c))") auto
  show ?thesis
    using retry_loop_run [OF assms, of n url params 1 s] unfolding get_json_with_retry_def n
    by (simp add: less_Suc_eq_le Suc_le_eq del: retry_loop.simps)
qed

text \<open>
  C40. A transient answer of the exchange is not retried: the result code is looked at only after the retry
  loop has returned, so a response with one of the transient codes ends the request after the first
  transport call, without a pause, as \<open>BybitTransientApiError\<close>, whatever the number of attempts.
\<close>

theorem transient_code_is_not_retried:
  assumes "rv_get_json V (rs_calls s) (market_url c path) params = Inr payload"
    and "dict_get payload ''retCode'' = Some (PInt i)" "i \<in> set TRANSIENT_RET_CODES"
  shows "\<exists>message. get_market_rows c V path params s =
     (Inl (Exn BybitTransientApiError message), s\<lparr>rs_calls := Suc (rs_calls s)\<rparr>)"
proof -
  obtain n where n: "nat (max 1 (rl_retry_attempts c)) = Suc n"
    by (cases "nat (max 1 (rl_retry_attempts c))") auto
  have "i \<noteq> 0" using assms(3) by (auto simp: TRANSIENT_RET_CODES_def)
  then obtain message where "extract_rows payload = Inl (Exn BybitTransientApiError message)"
    using assms(2,3) by (auto simp: extract_rows_def Let_def py_num_eq_def)
  with assms(1) show ?thesis
    by (simp add: get_market_rows_def get_json_with_retry_def n bindE_def Let_def)
qed

section \<open>Parsed rows\<close>

lemma collect_rows_run:
  assumes "collect_rows parse key admissible rows d = Inr d'"
  obtains ps where "list_all2 (\<lambda>r p. parse r = Inr p) rows ps"
    "d' = fold (\<lambda>p d. dict_set (key p) p d) (filter admissible ps) d"
  using assms
proof (induction rows arbitrary: d thesis)
  case (Cons r rows)
  then obtain p where p: "parse r = Inr p"
    "collect_rows parse key admissible rows (if admissible p then dict_set (key p) p d else d) = Inr d'"
    by (auto simp: bindR_eq_Inr)
  obtain ps where "list_all2 (\<lambda>r p. parse r = Inr p) rows ps"
    "d' = fold (\<lambda>p d. dict_set (key p) p d) (filter admissible ps) (if admissible p then dict_set (key p) p d else d)"
    by (rule Cons.IH [OF _ p(2)])
  with p(1) show ?case by (intro Cons.prems(1) [of "p # ps"]) auto
qed simp

text \<open>What a dictionary filled by key holds: under each key the last value that has it.\<close>

lemma fold_dict_set:
  assumes "distinct (map fst d)"
  shows "distinct (map fst (fold (\<lambda>p d. dict_set (key p) p d) ps d))"
    "map_of (fold (\<lambda>p d. dict_set (key p) p d) ps d) k =
       (case find (\<lambda>p. key p = k) (rev ps) of Some p \<Rightarrow> Some p | None \<Rightarrow> map_of d k)"
    "fst ` set (fold (\<lambda>p d. dict_set (key p) p d) ps d) = key ` set ps \<union> fst ` set d"
proof (induction ps rule: rev_induct)
  case (snoc p ps)
  case 1 then show ?case using snoc(1) by (simp add: distinct_dict_set)
  case 2 then show ?case using snoc(2) by (simp add: map_of_dict_set)
  case 3 then show ?case using snoc(3) by (simp add: keys_dict_set)
qed (use assms in simp_all)

lemma in_key_order_props:
  assumes "distinct (map fst d)" "\<And>k p. map_of d k = Some p \<Longrightarrow> key p = k"
  shows "map key (in_key_order d) = sort (map fst d)" "sorted_wrt (<) (map key (in_key_order d))"
    "set (in_key_order d) = ran (map_of d)"
proof -
  have "key (the (map_of d k)) = k" if k: "k \<in> set (map fst d)" for k
  proof -
    obtain p where "map_of d k = Some p" using k by (cases "map_of d k") (auto simp: map_of_eq_None_iff)
    then show ?thesis using assms(2) by simp
  qed
  then show m: "map key (in_key_order d) = sort (map fst d)"
    unfolding in_key_order_def map_map comp_def by (intro map_idI) simp
  show "sorted_wrt (<) (map key (in_key_order d))"
    unfolding m strict_sorted_iff using assms(1) by simp
  have "set (in_key_order d) = (\<lambda>k. the (map_of d k)) ` dom (map_of d)"
    by (simp add: in_key_order_def dom_map_of_conv_image_fst)
  also have "\<dots> = ran (map_of d)" by (auto simp: ran_def dom_def image_iff) (metis option.sel)
  finally show "set (in_key_order d) = ran (map_of d)" .
qed

text \<open>Both parsers: ascending, only admissible rows, every admissible key once, the last row of a key wins.\<close>

lemma collect_rows_exact:
  assumes "collect_rows parse key admissible rows [] = Inr d"
  obtains ps where "list_all2 (\<lambda>r p. parse r = Inr p) rows ps"
    "sorted_wrt (<) (map key (in_key_order d))"
    "\<forall>c. c \<in> set (in_key_order d) \<longleftrightarrow>
       c \<in> set ps \<and> admissible c \<and> find (\<lambda>p. key p = key c) (rev (filter admissible ps)) = Some c"
    "key ` set (in_key_order d) = key ` set (filter admissible ps)"
proof -
  obtain ps where ps: "list_all2 (\<lambda>r p. parse r = Inr p) rows ps"
    "d = fold (\<lambda>p d. dict_set (key p) p d) (filter admissible ps) []"
    by (rule collect_rows_run [OF assms])
  note f = fold_dict_set [of "[]" key "filter admissible ps", folded ps(2), simplified]
  have look: "map_of d k = Some p \<longleftrightarrow> find (\<lambda>p. key p = k) (rev (filter admissible ps)) = Some p" for k p
    using f(2) by (simp split: option.splits)
  have key: "key p = k" "p \<in> set ps" "admissible p" if "map_of d k = Some p" for k p
  proof -
    have "find (\<lambda>p. key p = k) (rev (filter admissible ps)) = Some p" using that look by simp
    then show "key p = k" "p \<in> set ps" "admissible p" by (auto dest!: found_member)
  qed
  have o: "map key (in_key_order d) = sort (map fst d)" "sorted_wrt (<) (map key (in_key_order d))"
    "set (in_key_order d) = ran (map_of d)"
    using in_key_order_props [of d key] f(1) key(1) by simp_all
  have mem: "c \<in> set (in_key_order d) \<longleftrightarrow> map_of d (key c) = Some c" for c
    unfolding o(3) using key(1) by (auto simp: ran_def)
  have "key ` set (in_key_order d) = set (map key (in_key_order d))" by simp
  also have "\<dots> = key ` set (filter admissible ps)" unfolding o(1) set_sort set_map f(3) by simp
  finally have keys: "key ` set (in_key_order d) = key ` set (filter admissible ps)" .
  show thesis
    by (rule that [OF ps(1) o(2) _ keys]) (auto simp: mem look [symmetric] dest: key)
qed

lemma list_all2_member: "list_all2 P xs ys \<Longrightarrow> y \<in> set ys \<Longrightarrow> \<exists>x. P x y"
  by (induction rule: list_all2_induct) auto

text \<open>
  What the candle source hands to ingestion: whatever rows the exchange sends, in any order and with
  repetitions, a parse that succeeds gives candles of the requested stream in strictly ascending open
  time, all inside the requested window, with the close time of the grid, from REST, confirmed exactly
  when they had closed at the time of the request; every row inside the window is represented once,
  by the last row with its open time.
\<close>

theorem kline_rows_exact:
  assumes "parse_kline_rows stream window observed_at_ms rows = Inr cs"
  shows "sorted_wrt (<) (map oc_open_time_ms cs) \<and>
     (\<forall>c \<in> set cs. oc_stream c = stream \<and> window_contains window (oc_open_time_ms c) \<and>
        oc_close_time_ms c = oc_open_time_ms c + stream_step stream - 1 \<and> oc_source c = BYBIT_REST \<and>
        (oc_confirmed c \<longleftrightarrow> oc_close_time_ms c < observed_at_ms)) \<and>
     (\<exists>ps. list_all2 (\<lambda>r p. parse_kline_row stream observed_at_ms r = Inr p) rows ps \<and>
        (\<forall>p \<in> set ps. window_contains window (oc_open_time_ms p) \<longrightarrow>
           (\<exists>c \<in> set cs. oc_open_time_ms c = oc_open_time_ms p)) \<and>
        (\<forall>c \<in> set cs. find (\<lambda>p. oc_open_time_ms p = oc_open_time_ms c)
           (rev (filter (\<lambda>p. window_contains window (oc_open_time_ms p)) ps)) = Some c))"
proof -
  let ?in = "\<lambda>c. window_contains window (oc_open_time_ms c)"
  obtain d where d: "collect_rows (parse_kline_row stream observed_at_ms) oc_open_time_ms ?in rows [] = Inr d"
    "cs = in_key_order d"
    using assms by (auto simp: parse_kline_rows_def bindR_eq_Inr)
  obtain ps where ps: "list_all2 (\<lambda>r p. parse_kline_row stream observed_at_ms r = Inr p) rows ps"
    "sorted_wrt (<) (map oc_open_time_ms cs)"
    "\<forall>c. c \<in> set cs \<longleftrightarrow> c \<in> set ps \<and> ?in c \<and>
       find (\<lambda>p. oc_open_time_ms p = oc_open_time_ms c) (rev (filter ?in ps)) = Some c"
    "oc_open_time_ms ` set cs = oc_open_time_ms ` set (filter ?in ps)"
    by (rule collect_rows_exact [OF d(1), folded d(2)]) (rule that, assumption+)
  have row: "oc_stream p = stream \<and> oc_close_time_ms p = oc_open_time_ms p + stream_step stream - 1 \<and>
      oc_source p = BYBIT_REST \<and> (oc_confirmed p \<longleftrightarrow> oc_close_time_ms p < observed_at_ms)"
    if "parse_kline_row stream observed_at_ms r = Inr p" for r p
    using that by (auto simp: parse_kline_row_def mk_observed_candle_def bindR_eq_Inr Let_def split: pyval.splits list.splits)
  have "\<exists>r. parse_kline_row stream observed_at_ms r = Inr p" if "p \<in> set ps" for p
    using ps(1) that by (rule list_all2_member)
  then have fields: "\<forall>c \<in> set cs. oc_stream c = stream \<and> ?in c \<and> oc_close_time_ms c = oc_open_time_ms c + stream_step stream - 1 \<and>
      oc_source c = BYBIT_REST \<and> (oc_confirmed c \<longleftrightarrow> oc_close_time_ms c < observed_at_ms)"
    using row ps(3) by blast
  have repr: "\<exists>c \<in> set cs. oc_open_time_ms c = oc_open_time_ms p" if "p \<in> set ps" "?in p" for p
  proof -
    have "oc_open_time_ms p \<in> oc_open_time_ms ` set cs" unfolding ps(4) using that by simp
    then show ?thesis by auto
  qed
  show ?thesis
  proof (intro conjI exI [of _ ps])
    show "\<forall>c \<in> set cs. find (\<lambda>p. oc_open_time_ms p = oc_open_time_ms c) (rev (filter ?in ps)) = Some c"
      using ps(3) by meson
    show "\<forall>p \<in> set ps. ?in p \<longrightarrow> (\<exists>c \<in> set cs. oc_open_time_ms c = oc_open_time_ms p)" using repr by simp
  qed (rule ps(2) fields ps(1))+
qed

section \<open>Examples\<close>

definition example_client :: rest_client where
  "example_client = \<lparr>rl_exchange_symbols = [(''BTCUSDT.P'', ''BTCUSDT'')], rl_base_url = ''https://api.bybit.com/'',
     rl_category = ''linear'', rl_retry_attempts = 4, rl_retry_base_delay_seconds = 1,
     rl_retry_rate_limit_delay_seconds = 5, rl_retry_max_delay_seconds = 8, rl_retry_jitter_ratio = 1 / 4\<rparr>"

definition flaky_exchange :: rest_env where
  "flaky_exchange = \<lparr>rv_get_json = (\<lambda>n url params. if n = 0 then Inl (RestError (Exn BybitHttpError ''down'') None None None)
       else Inr [(''retCode'', PInt 10006), (''retMsg'', PStr ''Too many visits'')]),
     rv_random = (\<lambda>_. 1 / 2)\<rparr>"

definition fresh_rest :: rest_state where
  "fresh_rest = \<lparr>rs_instrument_cache = [], rs_calls = 0, rs_draws = 0, rs_slept = []\<rparr>"

theorem retry_is_bounded_witness:
  "sane_policy example_client flaky_exchange \<and>
   (\<exists>r s'. get_json_with_retry example_client flaky_exchange ''url'' [] fresh_rest = (r, s') \<and> rs_calls s' \<le> 4)"
proof -
  have p: "sane_policy example_client flaky_exchange"
    by (simp add: sane_policy_def example_client_def flaky_exchange_def)
  obtain k m ds r where "k < 4" "get_json_with_retry example_client flaky_exchange ''url'' [] fresh_rest =
      (r, fresh_rest\<lparr>rs_calls := rs_calls fresh_rest + Suc k, rs_draws := m, rs_slept := rs_slept fresh_rest @ ds\<rparr>)"
    using retry_is_bounded [OF p, of "''url''" "[]" fresh_rest] by (auto simp: example_client_def)
  with p show ?thesis by (auto simp: fresh_rest_def)
qed

theorem transient_code_is_not_retried_witness:
  "\<exists>message. get_market_rows example_client flaky_exchange ''/v5/market/kline'' [] (fresh_rest\<lparr>rs_calls := 1\<rparr>) =
     (Inl (Exn BybitTransientApiError message), fresh_rest\<lparr>rs_calls := 2\<rparr>)"
  using transient_code_is_not_retried [of flaky_exchange "fresh_rest\<lparr>rs_calls := 1\<rparr>" example_client "''/v5/market/kline''" "[]"
      "[(''retCode'', PInt 10006), (''retMsg'', PStr ''Too many visits'')]" 10006]
  by (simp add: flaky_exchange_def TRANSIENT_RET_CODES_def dict_get_def fresh_rest_def numeral_2_eq_2)

definition example_row :: "int \<Rightarrow> string \<Rightarrow> pyval" where
  "example_row t close = PList [PInt t, PStr ''10'', PStr ''12'', PStr ''9'', PStr close, PStr ''1'', PStr ''10'']"

theorem kline_rows_exact_witness:
  "\<exists>cs. parse_kline_rows (StreamKey (InstrumentKey ''BTCUSDT.P'') TF_1m) (TimeWindow 0 120000) 130000
       [example_row 60000 ''11'', example_row 0 ''10'', example_row 60000 ''10.5''] = Inr cs \<and>
     sorted_wrt (<) (map oc_open_time_ms cs)"
proof -
  define parse where "parse = parse_kline_rows (StreamKey (InstrumentKey ''BTCUSDT.P'') TF_1m) (TimeWindow 0 120000) 130000
       [example_row 60000 ''11'', example_row 0 ''10'', example_row 60000 ''10.5'']"
  have "map_sum id (map oc_open_time_ms) parse = Inr [0, 60000]" unfolding parse_def by code_simp
  then obtain cs where cs: "parse = Inr cs" by (cases parse) auto
  from cs conjunct1 [OF kline_rows_exact [OF cs [unfolded parse_def]]] show ?thesis
    unfolding parse_def by (intro exI [of _ cs] conjI)
qed

end
