(* ===== verification/WebSocket.thy ===== *)
theory WebSocket
  imports Config Bybit Realtime Digest
begin

text \<open>
  adapters/bybit/websocket/protocol.py and adapters/bybit/websocket/adapter.py: the messages sent to the
  exchange and the events made of the messages it sends. What \<open>json.loads\<close> makes of a text is a
  parameter, \<open>None\<close> where it raises \<open>JSONDecodeError\<close>.
\<close>

section \<open>protocol.py\<close>

text \<open>\<open>json.dumps\<close> with its defaults: keys as they come, spaces after separators, ASCII only.\<close>

definition json_ascii_char :: "char \<Rightarrow> string" where
  "json_ascii_char c =
     (let n = of_char c :: nat
      in if n > 126 then [CHR 0x5C, CHR ''u'', CHR ''0'', CHR ''0'', hex_char (n div 16), hex_char (n mod 16)]
         else json_char c)"

definition json_ascii_string :: "string \<Rightarrow> string" where
  "json_ascii_string s = CHR 0x22 # concat (map json_ascii_char s) @ [CHR 0x22]"

definition topics_message :: "string \<Rightarrow> string list \<Rightarrow> string \<Rightarrow> string" where
  "topics_message op args request_id =
     ''{'' @ json_ascii_string ''req_id'' @ '': '' @ json_ascii_string request_id @ '', '' @
       json_ascii_string ''op'' @ '': '' @ json_ascii_string op @ '', '' @
       json_ascii_string ''args'' @ '': ['' @ py_join '', '' (map json_ascii_string args) @ '']}''"

definition subscription_message :: "string list \<Rightarrow> string \<Rightarrow> string" where
  "subscription_message args request_id = topics_message ''subscribe'' args request_id"

definition unsubscription_message :: "string list \<Rightarrow> string \<Rightarrow> string" where
  "unsubscription_message args request_id = topics_message ''unsubscribe'' args request_id"

definition ping_message :: string where
  "ping_message = ''{'' @ json_ascii_string ''op'' @ '': '' @ json_ascii_string ''ping'' @ ''}''"

abbreviation ws_error :: "string \<Rightarrow> 'a res" where
  "ws_error msg \<equiv> Inl (Exn BybitWebSocketPayloadError msg)"

text \<open>\<open>row[key]\<close>, and \<open>topic.split(".")[1]\<close>.\<close>

definition row_item :: "pydict \<Rightarrow> string \<Rightarrow> pyval res" where
  "row_item row key = (case dict_get row key of None \<Rightarrow> Inl (Exn KeyError (py_repr key)) | Some v \<Rightarrow> Inr v)"

fun split_dots :: "string \<Rightarrow> string \<Rightarrow> string list" where
  "split_dots part [] = [part]"
| "split_dots part (c # cs) = (if c = CHR ''.'' then part # split_dots [] cs else split_dots (part @ [c]) cs)"

definition topic_interval :: "string \<Rightarrow> string res" where
  "topic_interval topic =
     (case split_dots [] topic of
        _ # interval # _ \<Rightarrow> Inr interval
      | _ \<Rightarrow> Inl (Exn (OtherError ''IndexError'' False) ''list index out of range''))"

text \<open>The body of the \<open>try\<close>; the constructor's arguments are evaluated in their order.\<close>

definition candle_of_ws_row :: "stream_key \<Rightarrow> string \<Rightarrow> int \<Rightarrow> pydict \<Rightarrow> observed_candle res" where
  "candle_of_ws_row stream topic observed_at_ms row =
     bindR (topic_interval topic) (\<lambda>expected_interval.
     bindR (row_item row ''interval'') (\<lambda>interval.
     if py_str interval \<noteq> expected_interval
     then ws_error (''kline interval mismatch: topic='' @ expected_interval @ '' row='' @ py_str interval)
     else
       bindR (row_item row ''confirm'') (\<lambda>confirmed.
       case confirmed of
         PBool confirm \<Rightarrow>
           bindR (bindR (row_item row ''start'') py_int) (\<lambda>open_time_ms.
           bindR (bindR (row_item row ''end'') py_int) (\<lambda>close_time_ms.
           bindR (row_item row ''open'') (\<lambda>op.
           bindR (row_item row ''high'') (\<lambda>hi.
           bindR (row_item row ''low'') (\<lambda>lo.
           bindR (row_item row ''close'') (\<lambda>cl.
           bindR (row_item row ''volume'') (\<lambda>vol.
           mk_observed_candle stream open_time_ms close_time_ms (InStr (py_str op)) (InStr (py_str hi))
             (InStr (py_str lo)) (InStr (py_str cl)) (InStr (py_str vol)) confirm observed_at_ms BYBIT_WEBSOCKET)))))))
       | _ \<Rightarrow> ws_error ''kline confirm must be a boolean'')))"

definition parse_ws_candle :: "stream_key \<Rightarrow> string \<Rightarrow> int \<Rightarrow> pydict \<Rightarrow> observed_candle res" where
  "parse_ws_candle stream topic observed_at_ms row =
     (case candle_of_ws_row stream topic observed_at_ms row of
        Inr candle \<Rightarrow> Inr candle
      | Inl exc \<Rightarrow>
          if exn_cls exc = BybitWebSocketPayloadError then Inl exc
          else if exn_cls exc = KeyError \<or> type_or_value_error exc
            then ws_error (''invalid kline row: '' @ exn_str exc)
          else Inl exc)"

definition parse_subscription :: "topic_map \<Rightarrow> int \<Rightarrow> pydict \<Rightarrow> realtime_event" where
  "parse_subscription tm observed_at_ms payload =
     (if dict_get payload ''success'' \<noteq> Some (PBool True)
      then TransportFailed ''subscription_failed''
             (case dict_get payload ''ret_msg'' of None \<Rightarrow> ''unknown subscription failure'' | Some v \<Rightarrow> py_str v)
             observed_at_ms
      else
        let confirmed = (case dict_get payload ''data'' of
              Some (PDict data) \<Rightarrow>
                (case dict_get data ''successTopics'' of Some (PList args) \<Rightarrow> string_list args | _ \<Rightarrow> None)
            | _ \<Rightarrow> None)
        in SubscriptionConfirmed (case confirmed of Some ts \<Rightarrow> ts | None \<Rightarrow> topics tm) observed_at_ms)"

definition parse_kline_events :: "topic_map \<Rightarrow> int \<Rightarrow> pydict \<Rightarrow> realtime_event list res" where
  "parse_kline_events tm observed_at_ms payload =
     (case dict_get payload ''topic'' of
        Some (PStr topic) \<Rightarrow>
          bindR (resolve_topic tm topic) (\<lambda>stream.
          case dict_get payload ''data'' of
            Some (PList (r # rs)) \<Rightarrow>
              mapR (\<lambda>row. case row of
                  PDict d \<Rightarrow> bindR (parse_ws_candle stream topic observed_at_ms d) (\<lambda>c. Inr (CandleObserved stream c))
                | _ \<Rightarrow> ws_error ''kline row must be an object'') (r # rs)
          | _ \<Rightarrow> ws_error ''kline payload data must be a non-empty array'')
      | _ \<Rightarrow> ws_error ''websocket payload has no topic'')"

definition parse_message :: "(string \<Rightarrow> pyval option) \<Rightarrow> topic_map \<Rightarrow> string \<Rightarrow> int \<Rightarrow> realtime_event list res" where
  "parse_message json_loads tm raw observed_at_ms =
     (case json_loads raw of
        None \<Rightarrow> ws_error ''websocket message is not valid JSON''
      | Some (PDict payload) \<Rightarrow>
          let op = dict_get payload ''op''
          in if op = Some (PStr ''pong'') \<or> dict_get payload ''ret_msg'' = Some (PStr ''pong'')
             then Inr [HeartbeatObserved observed_at_ms]
             else (case op of
                 Some (PList xs) \<Rightarrow> Inl (Exn TypeError (''unhashable type: '' @ py_repr ''list''))
               | Some (PDict d) \<Rightarrow> Inl (Exn TypeError (''unhashable type: '' @ py_repr ''dict''))
               | _ \<Rightarrow>
                   if op \<in> {Some (PStr ''subscribe''), Some (PStr ''unsubscribe'')}
                   then Inr [parse_subscription tm observed_at_ms payload]
                   else parse_kline_events tm observed_at_ms payload)
      | Some _ \<Rightarrow> ws_error ''websocket payload must be an object'')"

section \<open>adapter.py\<close>

definition bybit_adapter :: "(string \<Rightarrow> pyval option) \<Rightarrow> topic_map \<Rightarrow> protocol_adapter" where
  "bybit_adapter json_loads tm =
     \<lparr>ad_subscription_payload = (\<lambda>request_id. subscription_message (topics tm) request_id),
      ad_unsubscription_payload = (\<lambda>request_id. unsubscription_message (topics tm) request_id),
      ad_parse = (\<lambda>raw observed_at_ms. parse_message json_loads tm raw observed_at_ms)\<rparr>"

section \<open>Only configured candles\<close>

definition ws_candle_of :: "topic_map \<Rightarrow> realtime_event \<Rightarrow> bool" where
  "ws_candle_of tm e = (case e of
     CandleObserved stream candle \<Rightarrow> stream \<in> snd ` set tm \<and> oc_stream candle = stream \<and> oc_source candle = BYBIT_WEBSOCKET
   | _ \<Rightarrow> True)"

text \<open>A property of the value, if there is one, pushed through the steps that compute it.\<close>

definition gives :: "'a res \<Rightarrow> ('a \<Rightarrow> bool) \<Rightarrow> bool" where
  "gives r P \<longleftrightarrow> (\<forall>x. r = Inr x \<longrightarrow> P x)"

lemma gives_intros:
  "gives (Inl e) P" "P x \<Longrightarrow> gives (Inr x) P" "(\<And>x. m = Inr x \<Longrightarrow> gives (f x) P) \<Longrightarrow> gives (bindR m f) P"
  "gives a P \<Longrightarrow> gives b P \<Longrightarrow> gives (if c then a else b) P"
  by (auto simp: gives_def bindR_eq_Inr)

lemma gives_mapR: "(\<And>r. gives (f r) Q) \<Longrightarrow> gives (mapR f rs) (\<lambda>ys. \<forall>y \<in> set ys. Q y)"
  by (induction rs) (auto simp: gives_def bindR_eq_Inr)

lemma candle_of_ws_row_gives:
  "gives (candle_of_ws_row stream topic t row) (\<lambda>c. oc_stream c = stream \<and> oc_source c = BYBIT_WEBSOCKET)"
proof -
  have "gives (mk_observed_candle stream ot ct op hi lo cl vol b t BYBIT_WEBSOCKET)
      (\<lambda>c. oc_stream c = stream \<and> oc_source c = BYBIT_WEBSOCKET)" for ot ct op hi lo cl vol b
    unfolding mk_observed_candle_def by (intro gives_intros) simp
  then show ?thesis
    unfolding candle_of_ws_row_def by (intro gives_intros) (auto intro!: gives_intros split: pyval.splits)
qed

lemma parse_ws_candle_fields:
  assumes "parse_ws_candle stream topic t row = Inr c"
  shows "oc_stream c = stream \<and> oc_source c = BYBIT_WEBSOCKET"
proof -
  have "candle_of_ws_row stream topic t row = Inr c"
    using assms by (auto simp: parse_ws_candle_def split: sum.splits if_splits)
  then show ?thesis using candle_of_ws_row_gives by (auto simp: gives_def)
qed

lemma kline_events_route: "gives (parse_kline_events tm t payload) (\<lambda>es. \<forall>e \<in> set es. ws_candle_of tm e)"
proof -
  have rows: "gives (mapR (\<lambda>row. case row of
          PDict d \<Rightarrow> bindR (parse_ws_candle stream topic t d) (\<lambda>c. Inr (CandleObserved stream c))
        | _ \<Rightarrow> ws_error ''kline row must be an object'') rows) (\<lambda>es. \<forall>e \<in> set es. ws_candle_of tm e)"
    if "resolve_topic tm topic = Inr stream" for topic stream rows
  proof (rule gives_mapR)
    have "stream \<in> snd ` set tm"
      using that by (force simp: resolve_topic_def split: option.splits dest!: map_of_SomeD)
    then show "gives (case row of
          PDict d \<Rightarrow> bindR (parse_ws_candle stream topic t d) (\<lambda>c. Inr (CandleObserved stream c))
        | _ \<Rightarrow> ws_error ''kline row must be an object'') (ws_candle_of tm)" for row
      using parse_ws_candle_fields [of stream topic t]
      by (cases row) (simp_all add: gives_def bindR_eq_Inr ws_candle_of_def, force)
  qed
  show ?thesis
    unfolding parse_kline_events_def using rows
    by (auto intro!: gives_intros simp del: mapR.simps split: option.splits pyval.splits list.splits)
qed

lemma parse_message_routes:
  "gives (parse_message json_loads tm raw t) (\<lambda>es. \<forall>e \<in> set es. ws_candle_of tm e)"
proof -
  have "ws_candle_of tm (parse_subscription tm t payload)" "ws_candle_of tm (HeartbeatObserved t)" for payload
    by (simp_all add: parse_subscription_def ws_candle_of_def Let_def)
  then show ?thesis
    unfolding parse_message_def Let_def
    by (auto intro!: gives_intros kline_events_route split: option.splits pyval.splits)
qed

text \<open>Through the connector: every event it delivers was parsed or is its own.\<close>

definition ws_action :: "topic_map \<Rightarrow> action \<Rightarrow> bool" where
  "ws_action tm a = (case a of OnEvent e \<Rightarrow> ws_candle_of tm e | _ \<Rightarrow> True)"

definition yields :: "'a app \<Rightarrow> ('a \<Rightarrow> bool) \<Rightarrow> bool" where
  "yields m P \<longleftrightarrow> (\<forall>w x w'. m w = (Inr x, w') \<longrightarrow> P x)"

lemma yieldsD: "yields m P \<Longrightarrow> m w = (Inr x, w') \<Longrightarrow> P x"
  unfolding yields_def by blast

lemma yields_bindE: "yields m Q \<Longrightarrow> (\<And>x. Q x \<Longrightarrow> yields (f x) P) \<Longrightarrow> yields (bindE m f) P"
  unfolding yields_def bindE_eq_Inr by blast

lemma yields_returnE: "P x \<Longrightarrow> yields (returnE x) P"
  by (simp add: yields_def returnE_def)

lemma yields_any: "yields m (\<lambda>_. True)"
  by (simp add: yields_def)

abbreviation ws_actions :: "topic_map \<Rightarrow> action list \<Rightarrow> bool" where
  "ws_actions tm \<equiv> list_all (ws_action tm)"

lemma deliver_event_actions: "ws_candle_of tm e \<Longrightarrow> yields (deliver_event E e) (ws_actions tm)"
  by (cases e) (auto simp: ws_action_def split: option.splits intro!: yields_returnE yields_bindE [OF yields_any] simp del: prog_simps)

lemma deliver_events_actions:
  "\<forall>e \<in> set es. ws_candle_of tm e \<Longrightarrow> yields (deliver_events E es) (ws_actions tm)"
proof (induction es)
  case (Cons e es)
  then have "yields (deliver_event E e) (ws_actions tm)" "yields (deliver_events E es) (ws_actions tm)"
    using deliver_event_actions by simp_all
  then show ?case
    unfolding deliver_events.simps by (elim yields_bindE) (intro yields_returnE, simp)
qed (simp only: deliver_events.simps, rule yields_returnE, simp)

lemma receive_actions:
  "yields (receive_loop E (bybit_adapter json_loads tm) raws ending) (\<lambda>(acts, ending'). ws_actions tm acts)"
proof (induction raws)
  case Nil
  show ?case
    unfolding receive_loop.simps by (rule yields_returnE) (simp add: ws_action_def split: session_end.splits)
next
  case (Cons raw raws)
  have "yields (case ad_parse (bybit_adapter json_loads tm) raw t of
       Inl exc \<Rightarrow> returnE ([], Broken exc)
     | Inr events \<Rightarrow>
         bindE (deliver_events E events) (\<lambda>done.
         bindE (receive_loop E (bybit_adapter json_loads tm) raws ending) (\<lambda>(rest, end').
         returnE (done @ rest, end')))) (\<lambda>(acts, ending'). ws_actions tm acts)" for t
  proof (cases "ad_parse (bybit_adapter json_loads tm) raw t")
    case (Inl e)
    then show ?thesis by (simp only: sum.case) (rule yields_returnE, simp)
  next
    case (Inr events)
    then have "\<forall>e \<in> set events. ws_candle_of tm e"
      using parse_message_routes [of json_loads tm raw t] by (simp add: bybit_adapter_def gives_def)
    from deliver_events_actions [OF this] show ?thesis
      unfolding Inr sum.case
      by (rule yields_bindE, intro yields_bindE [OF Cons.IH]) (auto intro!: yields_returnE simp del: prog_simps)
  qed
  then show ?case unfolding receive_loop.simps by (rule yields_bindE [OF yields_any])
qed

lemma session_actions:
  "yields (run_session E (bybit_adapter json_loads tm) s) (\<lambda>(acts, ending). ws_actions tm acts)"
proof (cases "se_connected_at s")
  case None
  show ?thesis unfolding run_session_def None option.case by (rule yields_returnE) simp
next
  case (Some c)
  show ?thesis
    unfolding run_session_def Some option.case
    by (rule yields_bindE [OF yields_any], rule yields_bindE [OF receive_actions])
      (auto intro!: yields_returnE simp: ws_action_def ws_candle_of_def simp del: prog_simps)
qed

lemma report_actions: "yields (report_end E ending) (ws_actions tm)"
  by (cases ending) (auto simp: report_end_def ws_action_def ws_candle_of_def simp del: prog_simps
      intro!: yields_returnE yields_bindE [OF yields_any])

lemma reconnect_actions:
  "yields (reconnect_loop E policy (bybit_adapter json_loads tm) sessions failures) (\<lambda>(x, hs, acts). ws_actions tm acts)"
proof (induction sessions arbitrary: failures)
  case Nil
  show ?case unfolding reconnect_loop.simps by (rule yields_returnE) simp
next
  case (Cons s sessions)
  show ?case
    unfolding reconnect_loop.simps Let_def
    by (rule yields_bindE [OF session_actions])
      (auto intro!: yields_returnE yields_bindE [OF report_actions] yields_bindE [OF Cons.IH] simp del: prog_simps)
qed

lemma exhausted_actions:
  "yields (if exhausted then bindE (now_ms E) (\<lambda>t. returnE [OnEvent (ReconnectExhausted n t)]) else returnE []) (ws_actions tm)"
  by (cases exhausted) (auto simp: ws_action_def ws_candle_of_def simp del: prog_simps
      intro!: yields_returnE yields_bindE [OF yields_any])

lemma map_topics_of_config:
  assumes "load_market_config path loaded = Inr c" "topic_map_from_config c = Inr tm"
  shows "map snd tm = enabled_streams c"
  using map_topics_run [OF topics_distinct [OF assms(1)], of "[]"] assms(2)
  by (auto simp: topic_map_from_config_def comp_def split: if_splits)

text \<open>
  C30. Whatever the exchange sends, only configured candles reach ingestion. Take a configuration that
  loaded and the topic map built from it: in every run of the connector, over any sessions and
  messages and any decoding of them, each candle event delivered is for an enabled stream, and its
  candle carries that stream and is marked as coming from the WebSocket.
\<close>

theorem only_configured_candles:
  assumes "load_market_config path loaded = Inr config" "topic_map_from_config config = Inr tm"
    and "connector_run E policy (bybit_adapter json_loads tm) sessions w = (Inr (exhausted, healths, actions), w')"
    and "OnEvent (CandleObserved stream candle) \<in> set actions"
  shows "stream \<in> set (enabled_streams config) \<and> oc_stream candle = stream \<and> oc_source candle = BYBIT_WEBSOCKET"
proof -
  have "yields (connector_run E policy (bybit_adapter json_loads tm) sessions) (\<lambda>(x, hs, acts). ws_actions tm acts)"
    unfolding connector_run_def
    by (rule yields_bindE [OF reconnect_actions], clarify, rule yields_bindE [OF exhausted_actions],
        rule yields_bindE [OF yields_any], rule yields_returnE) (simp add: ws_action_def ws_candle_of_def)
  from yieldsD [OF this assms(3)] have "ws_actions tm actions" by simp
  then have "ws_candle_of tm (CandleObserved stream candle)"
    using assms(4) by (auto simp: list_all_iff ws_action_def)
  moreover have "snd ` set tm = set (enabled_streams config)"
    using map_topics_of_config [OF assms(1,2)] by (metis set_map)
  ultimately show ?thesis by (simp add: ws_candle_of_def)
qed

section \<open>An example\<close>

definition example_decoder :: "string \<Rightarrow> pyval option" where
  "example_decoder raw = Some (PDict [(''topic'', PStr ''kline.1.BTCUSDT''), (''data'', PList [PDict
     [(''start'', PInt 60000), (''end'', PInt 119999), (''interval'', PStr ''1''), (''open'', PStr ''10''),
      (''high'', PStr ''12''), (''low'', PStr ''9''), (''close'', PStr ''11''), (''volume'', PStr ''1''),
      (''confirm'', PBool False)]])])"

definition example_sessions :: "session list" where
  "example_sessions = [\<lparr>se_connected_at = Some 0, se_messages = [''x''], se_end = StopRequested, se_end_at = 1\<rparr>]"

fun candle_streams :: "action list \<Rightarrow> string list" where
  "candle_streams [] = []"
| "candle_streams (OnEvent (CandleObserved s c) # acts) = canonical_id s # candle_streams acts"
| "candle_streams (_ # acts) = candle_streams acts"

lemma candle_streams_event: "x \<in> set (candle_streams acts) \<Longrightarrow> \<exists>s c. OnEvent (CandleObserved s c) \<in> set acts"
  by (induction acts rule: candle_streams.induct) auto

lemma example_connector_run:
  "(case load_market_config ''markets.toml'' (Inr example_document) of Inl e \<Rightarrow> [] | Inr config \<Rightarrow>
     case topic_map_from_config config of Inl e \<Rightarrow> [] | Inr tm \<Rightarrow>
       (case fst (connector_run example_env example_policy (bybit_adapter example_decoder tm) example_sessions auditing_world) of
          Inl e \<Rightarrow> [] | Inr (x, hs, acts) \<Rightarrow> candle_streams acts)) = [''BTCUSDT.P:1m'']"
  by code_simp

theorem only_configured_candles_witness:
  "\<exists>config tm exhausted healths actions w' stream candle.
     topic_map_from_config config = Inr tm \<and>
     connector_run example_env example_policy (bybit_adapter example_decoder tm) example_sessions auditing_world =
       (Inr (exhausted, healths, actions), w') \<and>
     OnEvent (CandleObserved stream candle) \<in> set actions \<and> stream \<in> set (enabled_streams config)"
proof -
  obtain config tm where c: "load_market_config ''markets.toml'' (Inr example_document) = Inr config"
    "topic_map_from_config config = Inr tm"
    using example_connector_run by (auto split: sum.splits)
  let ?run = "connector_run example_env example_policy (bybit_adapter example_decoder tm) example_sessions auditing_world"
  obtain x hs acts where a: "fst ?run = Inr (x, hs, acts)" "candle_streams acts = [''BTCUSDT.P:1m'']"
    using example_connector_run c by (auto split: sum.splits)
  have run: "?run = (Inr (x, hs, acts), snd ?run)" using a(1) by (metis prod.collapse)
  obtain s k where k: "OnEvent (CandleObserved s k) \<in> set acts"
    using candle_streams_event [of _ acts] a(2) by fastforce
  show ?thesis using only_configured_candles [OF c run k] c(2) run k by blast
qed

end
