(* ===== verification/Reconcile.thy ===== *)
theory Reconcile
  imports Recovery ConsumerRead
begin

text \<open>
  runtime/startup\_types.py, runtime/lifecycle.py, runtime/reconciliation.py,
  runtime/open\_interest\_reconciliation.py and runtime/startup.py: one bounded pass of the historical
  reconciliation of a stream, for its candles and for its open interest, and the lifecycle it records.
  What the reconcilers are constructed with (discovery, repair, the pass of the other track) are
  fields of a record, as in the code; the locale \<open>pass_parts\<close> states what they promise.
  Logging and timing are left out.
\<close>

section \<open>startup\_types.py\<close>

datatype startup_classification = SC_CONNECTING | SC_INCOMPLETE | SC_RECOVERABLE_FAILURE | SC_FATAL_FAILURE

record reconciliation_window =
  rw_start_time_ms :: int
  rw_end_time_ms :: int

definition mk_reconciliation_window :: "int \<Rightarrow> int \<Rightarrow> reconciliation_window res" where
  "mk_reconciliation_window a b =
     (if a < 0 \<or> b \<le> a then Inl (Exn ValueError ''invalid reconciliation window'')
      else Inr \<lparr>rw_start_time_ms = a, rw_end_time_ms = b\<rparr>)"

datatype historical_progress_marker =
    LowerBoundMarker int
  | RepairMarker repair_progress_marker

record bounded_work_counts =
  bc_attempted_windows :: nat
  bc_completed_windows :: nat
  bc_committed :: int
  bc_duplicates :: int
  bc_corrected :: int
  bc_rejected :: int
  bc_unexpected :: int

definition no_counts :: bounded_work_counts where
  "no_counts = \<lparr>bc_attempted_windows = 0, bc_completed_windows = 0, bc_committed = 0, bc_duplicates = 0,
     bc_corrected = 0, bc_rejected = 0, bc_unexpected = 0\<rparr>"

record startup_outcome =
  so_stream :: stream_key
  so_classification :: startup_classification
  so_audit :: "continuity_report option"
  so_window :: "reconciliation_window option"
  so_error_code :: "string option"
  so_error_detail :: "string option"
  so_progress_marker :: "historical_progress_marker option"
  so_counts :: bounded_work_counts

text \<open>\<open>StartupStreamOutcome(stream, classification)\<close> with the defaults of the other fields.\<close>

definition startup_outcome_of :: "stream_key \<Rightarrow> startup_classification \<Rightarrow> startup_outcome" where
  "startup_outcome_of stream classification =
     \<lparr>so_stream = stream, so_classification = classification, so_audit = None, so_window = None,
      so_error_code = None, so_error_detail = None, so_progress_marker = None, so_counts = no_counts\<rparr>"

section \<open>lifecycle.py\<close>

text \<open>The reader has a connection of its own and sees what is committed.\<close>

definition lifecycle_snapshot :: "stream_key \<Rightarrow> stream_state app" where
  "lifecycle_snapshot stream = readE (\<lambda>w. read_stream_state (w_disk w) stream)"

definition lifecycle_transition ::
  "env \<Rightarrow> stream_key \<Rightarrow> stream_lifecycle_state \<Rightarrow> string option \<Rightarrow> string option \<Rightarrow> stream_state app" where
  "lifecycle_transition E stream target error_code error_detail = with_uow
     (bindE (uow_read (\<lambda>d. get_stream_state d stream)) (\<lambda>snapshot.
      bindE (now_ms E) (\<lambda>now.
      bindE (liftR (transition_stream_state snapshot target (max now (ss_updated_at_ms snapshot))
               error_code error_detail)) (\<lambda>changed.
      bindE (uow_write (save_stream_state changed)) (\<lambda>_.
      bindE commit (\<lambda>_. returnE changed))))))"

definition prepare_for_bootstrap :: "env \<Rightarrow> stream_key \<Rightarrow> stream_state app" where
  "prepare_for_bootstrap E stream =
     bindE (lifecycle_snapshot stream) (\<lambda>snapshot.
       if ss_state snapshot = BOOTSTRAPPING then returnE snapshot
       else
         bindE (if ss_state snapshot = FAILED then lifecycle_transition E stream UNINITIALIZED None None
                else if ss_state snapshot \<notin> {UNINITIALIZED, DEGRADED}
                then lifecycle_transition E stream DEGRADED (Some ''startup_reconciliation_required'')
                       (Some ''persisted state must be reconciled after process start'')
                else returnE snapshot) (\<lambda>snapshot.
         if ss_state snapshot \<noteq> BOOTSTRAPPING then lifecycle_transition E stream BOOTSTRAPPING None None
         else returnE snapshot))"

definition mark_auditing :: "env \<Rightarrow> stream_key \<Rightarrow> stream_state app" where
  "mark_auditing E stream =
     bindE (lifecycle_snapshot stream) (\<lambda>snapshot.
       if ss_state snapshot = AUDITING then returnE snapshot
       else if ss_state snapshot \<in> {REPAIRING, FAILED, DEGRADED, BOOTSTRAPPING}
         then lifecycle_transition E stream AUDITING None None
       else raiseE (Exn ValueError (''cannot enter auditing from '' @ lifecycle_value (ss_state snapshot))))"

text \<open>\<open>mark_connecting\<close>, \<open>mark_ready\<close>, \<open>mark_degraded\<close> and \<open>mark_failed\<close> share their shape.\<close>

definition mark_state ::
  "env \<Rightarrow> stream_key \<Rightarrow> stream_lifecycle_state \<Rightarrow> string option \<Rightarrow> string option \<Rightarrow> stream_state app" where
  "mark_state E stream target error_code error_detail =
     bindE (lifecycle_snapshot stream) (\<lambda>snapshot.
       if ss_state snapshot = target then returnE snapshot
       else lifecycle_transition E stream target error_code error_detail)"

definition mark_connecting :: "env \<Rightarrow> stream_key \<Rightarrow> stream_state app" where
  "mark_connecting E stream = mark_state E stream CONNECTING None None"

definition mark_ready :: "env \<Rightarrow> stream_key \<Rightarrow> stream_state app" where
  "mark_ready E stream = mark_state E stream READY None None"

definition mark_degraded :: "env \<Rightarrow> stream_key \<Rightarrow> string \<Rightarrow> stream_state app" where
  "mark_degraded E stream reason = mark_state E stream DEGRADED (Some ''runtime_degraded'') (Some reason)"

definition mark_failed :: "env \<Rightarrow> stream_key \<Rightarrow> string \<Rightarrow> stream_state app" where
  "mark_failed E stream reason = mark_state E stream FAILED (Some ''runtime_failed'') (Some reason)"

section \<open>reconciliation.py\<close>

type_synonym stream_pass = "stream_key \<Rightarrow> reconciliation_window option \<Rightarrow> startup_outcome app"

text \<open>The fields both reconcilers have; the one of the candles has two more.\<close>

record track_reconciler =
  rn_lower_bound :: "stream_key \<Rightarrow> int \<Rightarrow> lower_bound_result app"
  rn_repair :: "repair_request \<Rightarrow> repair_result app"
  rn_discovery_windows_per_pass :: int
  rn_repair_windows_per_pass :: int

record reconciler = track_reconciler +
  rn_open_interest :: "stream_pass option"
  rn_open_interest_streams :: "stream_key list"

definition repair_counts :: "repair_result \<Rightarrow> bounded_work_counts" where
  "repair_counts result =
     (let items = map wr_imported (rr_window_results result)
      in \<lparr>bc_attempted_windows = rr_attempted_windows result, bc_completed_windows = rr_completed_windows result,
          bc_committed = sum_list (map iw_committed items), bc_duplicates = sum_list (map iw_duplicates items),
          bc_corrected = sum_list (map iw_corrected items), bc_rejected = sum_list (map iw_rejected items),
          bc_unexpected = sum_list (map iw_unexpected items)\<rparr>)"

definition window_from_lower_bound :: "env \<Rightarrow> stream_key \<Rightarrow> int \<Rightarrow> reconciliation_window option app" where
  "window_from_lower_bound E stream start =
     bindE (now_ms E) (\<lambda>now.
     bindE (liftR (last_closed_open_time_ms now (stream_step stream))) (\<lambda>target_open.
     let stop = target_open + stream_step stream
     in if start \<ge> stop then returnE None
        else bindE (liftR (mk_reconciliation_window start stop)) (\<lambda>w. returnE (Some w))))"

text \<open>
  The branch of both reconcilers for a pass without a window: an early return is \<open>Inl\<close>. The two differ
  in the classification of a stream whose lower bound has not been reached by the clock.
\<close>

definition pass_window ::
  "env \<Rightarrow> (stream_key \<Rightarrow> int \<Rightarrow> lower_bound_result app) \<Rightarrow> int \<Rightarrow> startup_classification \<Rightarrow> stream_key \<Rightarrow>
   reconciliation_window option \<Rightarrow> (startup_outcome + reconciliation_window) app" where
  "pass_window E lower_bound budget empty_classification stream window =
     (case window of
        Some w \<Rightarrow> returnE (Inr w)
      | None \<Rightarrow>
          bindE (lower_bound stream budget) (\<lambda>lower.
          case (lr_resolved lower, lr_earliest_available_open_time_ms lower) of
            (True, Some start) \<Rightarrow>
              bindE (window_from_lower_bound E stream start) (\<lambda>resolved.
              returnE (case resolved of
                  None \<Rightarrow> Inl (startup_outcome_of stream empty_classification)
                | Some w \<Rightarrow> Inr w))
          | _ \<Rightarrow> returnE (Inl ((startup_outcome_of stream SC_INCOMPLETE)
                    \<lparr>so_progress_marker := map_option LowerBoundMarker (lr_next_search_start_time_ms lower)\<rparr>))))"

definition repair_pass ::
  "(repair_request \<Rightarrow> repair_result app) \<Rightarrow> int \<Rightarrow> stream_key \<Rightarrow> reconciliation_window \<Rightarrow> repair_result app" where
  "repair_pass repair budget stream w =
     bindE (liftR (mk_repair_request \<lparr>rq_stream = stream, rq_start_time_ms = rw_start_time_ms w,
       rq_end_time_ms = rw_end_time_ms w, rq_max_windows = budget\<rparr>)) repair"

definition startup_failure :: "source_failure_disposition option \<Rightarrow> startup_classification" where
  "startup_failure disposition = (if disposition = Some RECOVERABLE then SC_RECOVERABLE_FAILURE else SC_FATAL_FAILURE)"

definition record_failure_state :: "env \<Rightarrow> stream_key \<Rightarrow> startup_classification \<Rightarrow> string \<Rightarrow> unit app" where
  "record_failure_state E stream classification reason =
     bindE (if classification = SC_RECOVERABLE_FAILURE then mark_degraded E stream reason
            else mark_failed E stream reason) (\<lambda>_. returnE ())"

definition open_interest_not_proven ::
  "reconciler \<Rightarrow> stream_key \<Rightarrow> reconciliation_window \<Rightarrow> startup_outcome option app" where
  "open_interest_not_proven rc stream candle_window =
     (case rn_open_interest rc of
        None \<Rightarrow> returnE None
      | Some pass \<Rightarrow>
          if stream \<notin> set (rn_open_interest_streams rc) then returnE None
          else bindE (pass stream None) (\<lambda>outcome.
            returnE (if so_classification outcome = SC_CONNECTING then None
                     else Some (outcome\<lparr>so_window := Some candle_window\<rparr>))))"

definition candle_pass_outcome ::
  "env \<Rightarrow> reconciler \<Rightarrow> stream_key \<Rightarrow> reconciliation_window \<Rightarrow> repair_result \<Rightarrow> startup_outcome app" where
  "candle_pass_outcome E rc stream w result =
     (case rr_status result of
        REPAIR_COMPLETE \<Rightarrow>
          bindE (open_interest_not_proven rc stream w) (\<lambda>held.
          case held of
            Some outcome \<Rightarrow> returnE outcome
          | None \<Rightarrow> bindE (mark_connecting E stream) (\<lambda>_.
              returnE ((startup_outcome_of stream SC_CONNECTING)\<lparr>so_audit := rr_post_repair_audit result,
                so_window := Some w, so_counts := repair_counts result\<rparr>)))
      | REPAIR_INCOMPLETE \<Rightarrow>
          returnE ((startup_outcome_of stream SC_INCOMPLETE)\<lparr>so_audit := rr_post_repair_audit result,
            so_window := Some w, so_error_code := Some ''historical_reconciliation_incomplete'',
            so_progress_marker := Some (RepairMarker (progress_marker result)), so_counts := repair_counts result\<rparr>)
      | REPAIR_FAILED \<Rightarrow>
          (let classification = startup_failure (rr_failure_disposition result)
           in bindE (record_failure_state E stream classification
                (case rr_error_code result of
                   Some code \<Rightarrow> if code = [] then ''repair_failed'' else code
                 | None \<Rightarrow> ''repair_failed'')) (\<lambda>_.
              returnE ((startup_outcome_of stream classification)\<lparr>so_audit := Some (rr_pre_repair_audit result),
                so_window := Some w, so_error_code := rr_error_code result, so_error_detail := rr_error_detail result,
                so_counts := repair_counts result\<rparr>))))"

definition candle_pass :: "env \<Rightarrow> reconciler \<Rightarrow> stream_pass" where
  "candle_pass E rc stream window =
     bindE (prepare_for_bootstrap E stream) (\<lambda>_.
     bindE (pass_window E (rn_lower_bound rc) (rn_discovery_windows_per_pass rc) SC_INCOMPLETE stream window) (\<lambda>resolved.
     case resolved of
       Inl outcome \<Rightarrow> returnE outcome
     | Inr w \<Rightarrow>
         bindE (mark_auditing E stream) (\<lambda>_.
         bindE (repair_pass (rn_repair rc) (rn_repair_windows_per_pass rc) stream w) (\<lambda>result.
         candle_pass_outcome E rc stream w result))))"

text \<open>\<open>HistoricalStreamReconciler.execute\<close>, and \<open>StartupCoordinator\<close> around it.\<close>

definition reconcile_stream :: "env \<Rightarrow> reconciler \<Rightarrow> stream_pass" where
  "reconcile_stream E rc stream window =
     bindE (tryE (candle_pass E rc stream window)) (\<lambda>outcome.
       case outcome of
         Inr r \<Rightarrow> returnE r
       | Inl exc \<Rightarrow>
           let decision = classify_source_failure exc;
               classification = startup_failure (Some (sf_disposition decision))
           in bindE (record_failure_state E stream classification (sf_code decision)) (\<lambda>_.
              returnE ((startup_outcome_of stream classification)\<lparr>so_window := window,
                so_error_code := Some (class_name (exn_cls exc)), so_error_detail := Some (exn_str exc)\<rparr>)))"

fun startup_execute :: "env \<Rightarrow> reconciler \<Rightarrow> stream_key list \<Rightarrow> startup_outcome list app" where
  "startup_execute E rc [] = returnE []"
| "startup_execute E rc (stream # streams) =
     bindE (reconcile_stream E rc stream None) (\<lambda>outcome.
     bindE (startup_execute E rc streams) (\<lambda>outcomes. returnE (outcome # outcomes)))"

section \<open>open\_interest\_reconciliation.py\<close>

definition oi_pass_outcome :: "env \<Rightarrow> stream_key \<Rightarrow> reconciliation_window \<Rightarrow> repair_result \<Rightarrow> startup_outcome app" where
  "oi_pass_outcome E stream w result =
     (case rr_status result of
        REPAIR_COMPLETE \<Rightarrow>
          (let gaps = (case rr_post_repair_audit result of None \<Rightarrow> 0 | Some audit \<Rightarrow> int (length (cr_gaps audit)))
           in bindE (oi_record_audit_result E stream gaps) (\<lambda>_.
              bindE (track_progress_of stream) (\<lambda>_.
              returnE ((startup_outcome_of stream SC_CONNECTING)\<lparr>so_audit := rr_post_repair_audit result,
                so_window := Some w, so_counts := repair_counts result\<rparr>))))
      | REPAIR_INCOMPLETE \<Rightarrow>
          returnE ((startup_outcome_of stream SC_INCOMPLETE)\<lparr>so_audit := rr_post_repair_audit result,
            so_window := Some w, so_error_code := Some ''oi_track_incomplete'',
            so_progress_marker := Some (RepairMarker (progress_marker result)), so_counts := repair_counts result\<rparr>)
      | REPAIR_FAILED \<Rightarrow>
          returnE ((startup_outcome_of stream (startup_failure (rr_failure_disposition result)))
            \<lparr>so_audit := Some (rr_pre_repair_audit result), so_window := Some w, so_error_code := rr_error_code result,
             so_error_detail := rr_error_detail result, so_counts := repair_counts result\<rparr>))"

definition oi_pass :: "env \<Rightarrow> track_reconciler \<Rightarrow> stream_pass" where
  "oi_pass E rc stream window =
     bindE (pass_window E (rn_lower_bound rc) (rn_discovery_windows_per_pass rc) SC_CONNECTING stream window) (\<lambda>resolved.
     case resolved of
       Inl outcome \<Rightarrow> returnE outcome
     | Inr w \<Rightarrow> bindE (repair_pass (rn_repair rc) (rn_repair_windows_per_pass rc) stream w) (oi_pass_outcome E stream w))"

definition reconcile_open_interest :: "env \<Rightarrow> track_reconciler \<Rightarrow> stream_pass" where
  "reconcile_open_interest E rc stream window =
     bindE (tryE (oi_pass E rc stream window))
       (\<lambda>outcome. case outcome of
          Inr r \<Rightarrow> returnE r
        | Inl exc \<Rightarrow>
            bindE (tryE (oi_record_failure E stream exc)) (\<lambda>_.
            returnE ((startup_outcome_of stream (startup_failure (Some (sf_disposition (classify_source_failure exc)))))
              \<lparr>so_window := window, so_error_code := Some (class_name (exn_cls exc)),
               so_error_detail := Some (exn_str exc)\<rparr>)))"


section \<open>wiring.py and open\_interest\_composition.py\<close>

text \<open>How the service builds the two reconcilers: \<open>RuntimeWiring\<close> and \<open>open_interest_startup\<close>.\<close>

definition wiring_lower_bound :: "env \<Rightarrow> stream_key \<Rightarrow> int \<Rightarrow> lower_bound_result app" where
  "wiring_lower_bound E = resolve_historical_lower_bound (candle_lb_ops E 1000) E"

definition wiring_repair :: "env \<Rightarrow> repair_request \<Rightarrow> repair_result app" where
  "wiring_repair E = repair_stream_gaps (candle_repair_ops E 1000)"

definition open_interest_lower_bound :: "env \<Rightarrow> stream_key \<Rightarrow> int \<Rightarrow> lower_bound_result app" where
  "open_interest_lower_bound E = resolve_historical_lower_bound (open_interest_lb_ops E 200) E"

definition open_interest_repair :: "env \<Rightarrow> repair_request \<Rightarrow> repair_result app" where
  "open_interest_repair E = repair_stream_gaps (open_interest_repair_ops E 200)"

definition open_interest_reconciler :: "env \<Rightarrow> int \<Rightarrow> track_reconciler" where
  "open_interest_reconciler E windows_per_pass =
     \<lparr>rn_lower_bound = open_interest_lower_bound E, rn_repair = open_interest_repair E,
      rn_discovery_windows_per_pass = windows_per_pass, rn_repair_windows_per_pass = windows_per_pass\<rparr>"

definition service_reconciler :: "env \<Rightarrow> int \<Rightarrow> int \<Rightarrow> int \<Rightarrow> stream_key list \<Rightarrow> reconciler" where
  "service_reconciler E discovery_windows repair_windows oi_windows oi_streams =
     \<lparr>rn_lower_bound = wiring_lower_bound E, rn_repair = wiring_repair E,
      rn_discovery_windows_per_pass = discovery_windows, rn_repair_windows_per_pass = repair_windows,
      rn_open_interest = Some (reconcile_open_interest E (open_interest_reconciler E oi_windows)),
      rn_open_interest_streams = oi_streams\<rparr>"

section \<open>What a lifecycle operation leaves\<close>

lemma keeps_read_disk [keeps_intro]: "keeps (disk_ok I) (lifecycle_snapshot stream)"
  unfolding lifecycle_snapshot_def by (rule keeps_basic)

lemma keeps_lifecycle_transition [keeps_intro]:
  "keeps (disk_ok (evolves d0)) (lifecycle_transition E stream target code detail)"
proof (rule validI)
  fix w w' :: world and x e
  assume i: "disk_ok (evolves d0) w"
  show "disk_ok (evolves d0) w'" if r: "lifecycle_transition E stream target code detail w = (Inr x, w')"
  proof -
    obtain s d where t: "get_stream_state (w_disk w) stream = Inr s"
      "transition_stream_state s target (max (e_now E (w_ticks w)) (ss_updated_at_ms s)) code detail = Inr x"
      "save_stream_state x (w_disk w) = Inr d" "w_disk w' = d"
      using r by (auto simp: lifecycle_transition_def run_simps returnE_def split: sum.splits)
    have "keeps (work_ok (evolves d0)) (modify_state stream (\<lambda>s. someR (transition_stream_state s target
        (max (e_now E (w_ticks w)) (ss_updated_at_ms s)) code detail)))"
      by (intro keeps_intro latest_kept_intro)
    from keeps_snd [OF this, of "w\<lparr>w_work := w_disk w\<rparr>"] i t show ?thesis
      by (simp add: modify_state_def run_simps someR_def work_ok_def disk_ok_def)
  qed
  show "disk_ok (evolves d0) w'" if r: "lifecycle_transition E stream target code detail w = (Inl e, w')"
    using r i by (auto simp: lifecycle_transition_def run_simps returnE_def disk_ok_def split: sum.splits)
qed

lemma keeps_lifecycle_ops [keeps_intro]:
  "keeps (disk_ok (evolves d0)) (prepare_for_bootstrap E stream)"
  "keeps (disk_ok (evolves d0)) (mark_auditing E stream)"
  "keeps (disk_ok (evolves d0)) (mark_state E stream target code detail)"
  "keeps (disk_ok (evolves d0)) (mark_connecting E stream)"
  "keeps (disk_ok (evolves d0)) (mark_degraded E stream reason)"
  "keeps (disk_ok (evolves d0)) (mark_failed E stream reason)"
  "keeps (disk_ok (evolves d0)) (record_failure_state E stream classification reason)"
  unfolding prepare_for_bootstrap_def mark_auditing_def mark_state_def mark_connecting_def mark_degraded_def
    mark_failed_def record_failure_state_def
  by (intro keeps_intro)+

text \<open>\<open>in_state d k l\<close>: the committed lifecycle snapshot of \<open>k\<close> is in state \<open>l\<close>.\<close>

definition in_state :: "db \<Rightarrow> stream_key \<Rightarrow> stream_lifecycle_state \<Rightarrow> bool" where
  "in_state d k l \<longleftrightarrow> (case get_stream_state d k of Inl e \<Rightarrow> False | Inr s \<Rightarrow> ss_state s = l)"

lemma transition_leaves:
  assumes "service_inv (w_disk w)" "lifecycle_transition E stream target code detail w = (Inr x, w')"
  shows "in_state (w_disk w') stream target"
proof -
  obtain s d where t: "get_stream_state (w_disk w) stream = Inr s"
    "transition_stream_state s target (max (e_now E (w_ticks w)) (ss_updated_at_ms s)) code detail = Inr x"
    "save_stream_state x (w_disk w) = Inr d" "w_disk w' = d"
    using assms(2) by (auto simp: lifecycle_transition_def run_simps returnE_def split: sum.splits)
  have "ss_stream s = stream"
    using sqlite_states.get_good [OF _ t(1)] assms(1) by (simp add: service_inv_def canonical_inv_def)
  with save_read [OF assms(1) t(1,3)] transition_result [OF t(2)] t(4) show ?thesis by (simp add: in_state_def)
qed

lemma mark_state_leaves:
  assumes "service_inv (w_disk w)" "mark_state E stream target code detail w = (Inr x, w')"
  shows "in_state (w_disk w') stream target"
proof -
  obtain s where s: "get_stream_state (w_disk w) stream = Inr s"
    "(if ss_state s = target then returnE s else lifecycle_transition E stream target code detail) w = (Inr x, w')"
    using assms(2) by (auto simp: mark_state_def lifecycle_snapshot_def read_stream_state_def bindE_eq_Inr)
  then show ?thesis
    using transition_leaves [OF assms(1), of E stream target code detail x w'] by (auto simp: in_state_def split: if_splits)
qed

text \<open>From a valid database a lifecycle operation succeeds where the transition table allows it.\<close>

lemma lifecycle_transition_runs:
  assumes "service_inv (w_disk w)" "in_state (w_disk w) stream l" "can_transition l target"
  shows "\<exists>x w'. lifecycle_transition E stream target code detail w = (Inr x, w') \<and> ss_state x = target"
proof -
  have wf: "db_wf (w_disk w)" using assms(1) by (simp add: service_inv_def canonical_inv_def)
  obtain s where s: "get_stream_state (w_disk w) stream = Inr s" "ss_state s = l"
    using assms(2) by (auto simp: in_state_def split: sum.splits)
  have g: "ss_stream s = stream" "state_wf s" using sqlite_states.get_good [OF wf s(1)] by simp_all
  obtain x where t: "transition_stream_state s target (max (e_now E (w_ticks w)) (ss_updated_at_ms s)) code detail = Inr x"
    using transition_succeeds [OF g(2)] assms(3) s(2) by auto
  note r = transition_result [OF t]
  obtain d where d: "save_stream_state x (w_disk w) = Inr d"
    using sqlite_states.save_defined [OF wf, of x] s(1) r(3,4) g(1) by auto
  have "ss_state x = target" using r(4) by simp
  then show ?thesis using s(1) t d by (auto simp: lifecycle_transition_def run_simps returnE_def)
qed


section \<open>A pass over any track\<close>

text \<open>
  The range a pass has to prove: the window it was given or, without one, the range from the lower
  bound its discovery resolved to the last boundary of the grid at a reading of the clock.
\<close>

definition pass_range ::
  "env \<Rightarrow> (stream_key \<Rightarrow> int \<Rightarrow> lower_bound_result app) \<Rightarrow> int \<Rightarrow> stream_key \<Rightarrow> reconciliation_window option \<Rightarrow> time_window \<Rightarrow> bool" where
  "pass_range E lower_bound budget stream window tw \<longleftrightarrow>
     (case window of
        Some w \<Rightarrow> tw = TimeWindow (rw_start_time_ms w) (rw_end_time_ms w)
      | None \<Rightarrow> (\<exists>lower w1 w2 n. lower_bound stream budget w1 = (Inr lower, w2) \<and> lr_resolved lower \<and>
          lr_earliest_available_open_time_ms lower = Some (start_ms tw) \<and>
          end_ms tw = e_now E n - e_now E n mod stream_step stream))"

lemma startup_outcome_of_fields [simp]:
  "so_stream (startup_outcome_of stream c) = stream" "so_classification (startup_outcome_of stream c) = c"
  "so_window (startup_outcome_of stream c) = None"
  by (simp_all add: startup_outcome_of_def)

lemma startup_failure_cases [simp]:
  "startup_failure d \<noteq> SC_CONNECTING" "startup_failure d \<noteq> SC_INCOMPLETE"
  by (simp_all add: startup_failure_def)

lemma window_from_lower_bound_run:
  assumes "window_from_lower_bound E stream a w = (Inr resolved, w')"
  shows "w_disk w' = w_disk w"
    "\<exists>n. let b = e_now E n - e_now E n mod stream_step stream in
       (resolved = None \<and> b \<le> a \<or> resolved = Some \<lparr>rw_start_time_ms = a, rw_end_time_ms = b\<rparr> \<and> a < b)"
  using assms
  by (auto simp: window_from_lower_bound_def run_simps returnE_def mk_reconciliation_window_def Let_def
      last_closed_pos [OF stream_step_pos] split: if_splits sum.splits intro!: exI [of _ "w_ticks w"])

locale pass_parts = stream_repair repair_of present
  for repair_of :: "repair_request \<Rightarrow> repair_result app" and present :: "db \<Rightarrow> stream_key \<Rightarrow> int \<Rightarrow> bool" +
  fixes lower_bound :: "stream_key \<Rightarrow> int \<Rightarrow> lower_bound_result app"
  assumes lower_bound_evolves: "keeps (disk_ok (evolves d0)) (lower_bound s budget)"
begin

lemma keeps_pass_window: "keeps (disk_ok (evolves d0)) (pass_window E lower_bound budget c stream window)"
proof -
  have "keeps (disk_ok (evolves d0)) (window_from_lower_bound E stream a)" for a
    unfolding window_from_lower_bound_def Let_def by (intro keeps_intro)
  then show ?thesis
    unfolding pass_window_def case_prod_unfold
    by (intro keeps_intro lower_bound_evolves) (auto split: bool.splits option.splits intro!: keeps_intro)
qed

lemma keeps_repair_pass: "keeps (disk_ok (evolves d0)) (repair_pass repair_of budget stream w)"
  unfolding repair_pass_def by (intro keeps_intro repair_evolves)

text \<open>The three ways the window of a pass is settled.\<close>

lemma pass_window_settled:
  assumes "pass_window E lower_bound budget c stream window w = (Inr resolved, w')"
  obtains (unresolved) marker where "resolved = Inl ((startup_outcome_of stream SC_INCOMPLETE)\<lparr>so_progress_marker := marker\<rparr>)"
  | (empty) tw where "resolved = Inl (startup_outcome_of stream c)" "window = None"
      "pass_range E lower_bound budget stream window tw" "end_ms tw \<le> start_ms tw"
  | (settled) x where "resolved = Inr x"
      "pass_range E lower_bound budget stream window (TimeWindow (rw_start_time_ms x) (rw_end_time_ms x))"
proof (cases window)
  case (Some x)
  then show thesis using assms settled by (auto simp: pass_window_def pass_range_def)
next
  case None
  then obtain lower w1 where l: "lower_bound stream budget w = (Inr lower, w1)"
    using assms by (auto simp: pass_window_def bindE_eq_Inr)
  show thesis
  proof (cases "lr_resolved lower \<and> lr_earliest_available_open_time_ms lower \<noteq> None")
    case False
    then show thesis using assms l None unresolved
      by (auto simp: pass_window_def bindE_def returnE_def split: bool.splits option.splits)
  next
    case True
    then obtain a where a: "lr_resolved lower" "lr_earliest_available_open_time_ms lower = Some a" by auto
    obtain x where x: "window_from_lower_bound E stream a w1 = (Inr x, w')"
      "resolved = (case x of None \<Rightarrow> Inl (startup_outcome_of stream c) | Some y \<Rightarrow> Inr y)"
      using assms l None a by (auto simp: pass_window_def bindE_def returnE_def split: prod.splits sum.splits)
    obtain n where n: "x = None \<and> e_now E n - e_now E n mod stream_step stream \<le> a \<or>
        x = Some \<lparr>rw_start_time_ms = a, rw_end_time_ms = e_now E n - e_now E n mod stream_step stream\<rparr>"
      using window_from_lower_bound_run(2) [OF x(1)] unfolding Let_def by blast
    have p: "pass_range E lower_bound budget stream window (TimeWindow a (e_now E n - e_now E n mod stream_step stream))"
      unfolding pass_range_def None option.case using l a by (intro exI [of _ lower] exI [of _ w] exI [of _ w1] exI [of _ n]) simp
    from n show thesis
    proof
      assume "x = None \<and> e_now E n - e_now E n mod stream_step stream \<le> a"
      then show thesis using p x(2) None by (intro empty [of "TimeWindow a (e_now E n - e_now E n mod stream_step stream)"]) simp_all
    next
      assume "x = Some \<lparr>rw_start_time_ms = a, rw_end_time_ms = e_now E n - e_now E n mod stream_step stream\<rparr>"
      then have "resolved = Inr \<lparr>rw_start_time_ms = a, rw_end_time_ms = e_now E n - e_now E n mod stream_step stream\<rparr>"
        using x(2) by simp
      then show thesis by (rule settled) (use p in simp)
    qed
  qed
qed

lemma repair_pass_complete:
  assumes "service_inv (w_disk w)" "repair_pass repair_of budget stream x w = (Inr r, w')" "rr_status r = REPAIR_COMPLETE"
  shows "window_filled (present (w_disk w') stream) stream (TimeWindow (rw_start_time_ms x) (rw_end_time_ms x))"
  using assms(2) repair_window_complete(1) [OF assms(1) _ assms(3), of stream "TimeWindow (rw_start_time_ms x) (rw_end_time_ms x)" budget w']
  by (simp add: repair_window_def repair_pass_def)

end

lemma empty_filled: "b \<le> a \<Longrightarrow> window_filled present stream (TimeWindow a b)"
  by (simp add: window_filled_def)


section \<open>The open interest track\<close>

lemma keeps_oi_pass_outcome [keeps_intro]: "keeps (disk_ok (evolves d0)) (oi_pass_outcome E stream x result)"
  unfolding oi_pass_outcome_def Let_def by (cases "rr_status result") (auto intro!: keeps_intro)

context pass_parts
begin

lemma keeps_oi_body:
  assumes "rn_lower_bound rc = lower_bound" "rn_repair rc = repair_of"
  shows "keeps (disk_ok (evolves d0)) (oi_pass E rc stream window)"
  unfolding oi_pass_def assms by (intro keeps_intro keeps_pass_window keeps_repair_pass keeps_oi_pass_outcome)

lemma keeps_oi_pass:
  assumes "rn_lower_bound rc = lower_bound" "rn_repair rc = repair_of"
  shows "keeps (disk_ok (evolves d0)) (reconcile_open_interest E rc stream window)"
  unfolding reconcile_open_interest_def by (intro keeps_intro keeps_oi_body [OF assms])

lemma oi_pass_runs:
  assumes "service_inv (w_disk w)" "rn_lower_bound rc = lower_bound" "rn_repair rc = repair_of"
  shows "\<exists>r w'. reconcile_open_interest E rc stream window w = (Inr r, w') \<and> so_stream r = stream \<and>
     evolves (w_disk w) (w_disk w') \<and>
     (so_classification r = SC_CONNECTING \<longrightarrow>
       (\<exists>tw. pass_range E lower_bound (rn_discovery_windows_per_pass rc) stream window tw \<and>
          window_filled (present (w_disk w') stream) stream tw))"
proof -
  let ?body = "oi_pass E rc stream window"
  note keep = keeps_oi_pass_outcome and ev = keeps_oi_body [OF assms(2,3)]
  obtain res w1 where b: "?body w = (res, w1)" by (cases "?body w")
  note e1 = run_evolves [OF ev b]
  show ?thesis
  proof (cases res)
    case (Inl exc)
    obtain y w2 where y: "oi_record_failure E stream exc w1 = (y, w2)" by (cases "oi_record_failure E stream exc w1")
    have "evolves (w_disk w) (w_disk w2)" using e1 run_evolves [OF keeps_track_ops(9) y] evolves_trans by blast
    then show ?thesis using b Inl y by (auto simp: reconcile_open_interest_def bindE_def)
  next
    case (Inr r)
    have run: "reconcile_open_interest E rc stream window w = (Inr r, w1)"
      using b Inr by (simp add: reconcile_open_interest_def bindE_def)
    obtain resolved w2 where p: "pass_window E lower_bound (rn_discovery_windows_per_pass rc) SC_CONNECTING stream window w = (Inr resolved, w2)"
      "(case resolved of Inl outcome \<Rightarrow> returnE outcome
        | Inr x \<Rightarrow> bindE (repair_pass repair_of (rn_repair_windows_per_pass rc) stream x) (oi_pass_outcome E stream x)) w2 = (Inr r, w1)"
      using b Inr unfolding oi_pass_def assms(2,3) by (auto simp: bindE_eq_Inr)
    from p(1) show ?thesis
    proof (cases rule: pass_window_settled)
      case (unresolved marker)
      then show ?thesis using p(2) run e1 by auto
    next
      case (empty tw)
      have "window_filled (present (w_disk w1) stream) stream tw"
        using empty_filled [of "end_ms tw" "start_ms tw"] empty(4) by (cases tw) simp
      then show ?thesis using p(2) run e1 empty by auto
    next
      case (settled x)
      have i2: "service_inv (w_disk w2)" using run_evolves [OF keeps_pass_window p(1)] assms(1) evolvesD(1) by blast
      obtain result w3 where q: "repair_pass repair_of (rn_repair_windows_per_pass rc) stream x w2 = (Inr result, w3)"
        "oi_pass_outcome E stream x result w3 = (Inr r, w1)"
        using p(2) settled(1) by (auto simp: bindE_eq_Inr)
      have r: "so_stream r = stream" "so_classification r = SC_CONNECTING \<Longrightarrow> rr_status result = REPAIR_COMPLETE"
        using q(2) by (auto simp: oi_pass_outcome_def bindE_eq_Inr split: repair_status.splits)
      have i3: "service_inv (w_disk w3)" using run_evolves [OF keeps_repair_pass q(1)] i2 evolvesD(1) by blast
      have "window_filled (present (w_disk w1) stream) stream (TimeWindow (rw_start_time_ms x) (rw_end_time_ms x))"
        if "so_classification r = SC_CONNECTING"
        using window_filled_kept [OF run_evolves [OF keep q(2)] i3] repair_pass_complete [OF i2 q(1)] r(2) that by blast
      then show ?thesis using run e1 settled(2) r(1) by blast
    qed
  qed
qed

end


section \<open>The candle track, gated by the other\<close>

text \<open>What the outcome of the pass says about the database it leaves.\<close>

definition outcome_sound ::
  "env \<Rightarrow> (stream_key \<Rightarrow> int \<Rightarrow> lower_bound_result app) \<Rightarrow> reconciler \<Rightarrow> (db \<Rightarrow> stream_key \<Rightarrow> bool) \<Rightarrow> stream_key \<Rightarrow> reconciliation_window option \<Rightarrow> db \<Rightarrow> startup_outcome \<Rightarrow> bool" where
  "outcome_sound E lower_bound rc proven_by stream window d r \<longleftrightarrow>
     (so_classification r = SC_CONNECTING \<longrightarrow>
        in_state d stream CONNECTING \<and>
        (\<exists>tw. pass_range E lower_bound (rn_discovery_windows_per_pass rc) stream window tw \<and>
           window_filled (stored d stream) stream tw) \<and>
        (stream \<in> set (rn_open_interest_streams rc) \<longrightarrow> proven_by d stream)) \<and>
     (stream \<notin> set (rn_open_interest_streams rc) \<longrightarrow>
        (so_classification r = SC_RECOVERABLE_FAILURE \<longrightarrow> in_state d stream DEGRADED) \<and>
        (so_classification r = SC_FATAL_FAILURE \<longrightarrow> in_state d stream FAILED))"

text \<open>What the candle pass relies on of the pass of the other track.\<close>

locale gate_pass =
  fixes pass :: stream_pass
    and proven_by :: "db \<Rightarrow> stream_key \<Rightarrow> bool"
  assumes pass_evolves: "keeps (disk_ok (evolves d0)) (pass s None)"
    and pass_proven: "service_inv (w_disk w) \<Longrightarrow> pass s None w = (Inr r, w') \<Longrightarrow> so_classification r = SC_CONNECTING \<Longrightarrow>
      proven_by (w_disk w') s"
    and proven_kept: "evolves d d' \<Longrightarrow> service_inv d \<Longrightarrow> proven_by d s \<Longrightarrow> proven_by d' s"

locale gated_pass = pass_parts repair_of stored lower_bound + gate_pass pass proven_by
  for repair_of lower_bound pass proven_by +
  fixes rc :: reconciler
  assumes rc_lower_bound: "rn_lower_bound rc = lower_bound"
    and rc_repair: "rn_repair rc = repair_of"
    and rc_open_interest: "rn_open_interest rc = Some pass"
begin

lemma keeps_gate: "keeps (disk_ok (evolves d0)) (open_interest_not_proven rc stream x)"
  unfolding open_interest_not_proven_def rc_open_interest option.case by (intro keeps_intro pass_evolves)

lemma keeps_outcome: "keeps (disk_ok (evolves d0)) (candle_pass_outcome E rc stream x result)"
  unfolding candle_pass_outcome_def Let_def
  by (cases "rr_status result") (auto intro!: keeps_intro keeps_gate)

lemma keeps_candle_pass: "keeps (disk_ok (evolves d0)) (candle_pass E rc stream window)"
  unfolding candle_pass_def rc_lower_bound rc_repair
  by (intro keeps_intro keeps_pass_window keeps_repair_pass keeps_outcome)

lemma keeps_reconcile: "keeps (disk_ok (evolves d0)) (reconcile_stream E rc stream window)"
  unfolding reconcile_stream_def Let_def by (intro keeps_intro keeps_candle_pass)

lemma gate_opened:
  assumes "service_inv (w_disk w)" "open_interest_not_proven rc stream x w = (Inr None, w')"
    and "stream \<in> set (rn_open_interest_streams rc)"
  shows "proven_by (w_disk w') stream"
proof -
  obtain r where "pass stream None w = (Inr r, w')" "so_classification r = SC_CONNECTING"
    using assms(2,3) by (auto simp: open_interest_not_proven_def rc_open_interest bindE_eq_Inr split: if_splits)
  then show ?thesis by (rule pass_proven [OF assms(1)])
qed

lemma gate_held:
  assumes "open_interest_not_proven rc stream x w = (Inr (Some r), w')"
  shows "stream \<in> set (rn_open_interest_streams rc)" "so_classification r \<noteq> SC_CONNECTING"
  using assms by (auto simp: open_interest_not_proven_def rc_open_interest bindE_eq_Inr split: if_splits)

lemma failure_recorded:
  assumes "service_inv (w_disk w)" "record_failure_state E stream (startup_failure disposition) reason w = (Inr u, w')"
  shows "in_state (w_disk w') stream (if startup_failure disposition = SC_RECOVERABLE_FAILURE then DEGRADED else FAILED)"
  using assms(2) mark_state_leaves [OF assms(1)]
  by (auto simp: record_failure_state_def mark_degraded_def mark_failed_def bindE_eq_Inr split: if_splits)

lemma candle_outcome_sound:
  assumes "service_inv (w_disk w)" "candle_pass_outcome E rc stream x result w = (Inr r, w')"
    and "rr_status result = REPAIR_COMPLETE \<Longrightarrow> window_filled (stored (w_disk w) stream) stream tw"
    and "pass_range E lower_bound (rn_discovery_windows_per_pass rc) stream window tw"
  shows "outcome_sound E lower_bound rc proven_by stream window (w_disk w') r"
proof (cases "rr_status result")
  case REPAIR_COMPLETE
  obtain held w1 where h: "open_interest_not_proven rc stream x w = (Inr held, w1)"
    "(case held of Some outcome \<Rightarrow> returnE outcome
      | None \<Rightarrow> bindE (mark_connecting E stream) (\<lambda>_.
          returnE ((startup_outcome_of stream SC_CONNECTING)\<lparr>so_audit := rr_post_repair_audit result,
                so_window := Some x, so_counts := repair_counts result\<rparr>))) w1 = (Inr r, w')"
    using assms(2) REPAIR_COMPLETE by (auto simp: candle_pass_outcome_def bindE_eq_Inr)
  show ?thesis
  proof (cases held)
    case (Some outcome)
    then show ?thesis using h gate_held [of stream x w outcome w1] by (simp add: outcome_sound_def)
  next
    case None
    obtain st where m: "mark_connecting E stream w1 = (Inr st, w')" "so_classification r = SC_CONNECTING"
      using h(2) None by (auto simp: bindE_eq_Inr)
    have e: "evolves (w_disk w) (w_disk w1)" "evolves (w_disk w1) (w_disk w')"
      using run_evolves [OF keeps_gate h(1)] run_evolves [OF keeps_lifecycle_ops(4) m(1)] by blast+
    have i1: "service_inv (w_disk w1)" using e(1) assms(1) evolvesD(1) by blast
    have "in_state (w_disk w') stream CONNECTING"
      using mark_state_leaves [OF i1] m(1) by (simp add: mark_connecting_def)
    moreover have "window_filled (stored (w_disk w') stream) stream tw"
      using window_filled_kept [OF evolves_trans [OF e] assms(1)] assms(3) REPAIR_COMPLETE by blast
    moreover have "proven_by (w_disk w') stream" if "stream \<in> set (rn_open_interest_streams rc)"
      using proven_kept [OF e(2) i1] gate_opened [OF assms(1) _ that] h(1) None by blast
    ultimately show ?thesis using m(2) assms(4) by (auto simp: outcome_sound_def)
  qed
next
  case REPAIR_INCOMPLETE
  then show ?thesis using assms(2) by (auto simp: candle_pass_outcome_def outcome_sound_def)
next
  case REPAIR_FAILED
  then obtain u reason where f: "record_failure_state E stream (startup_failure (rr_failure_disposition result)) reason w = (Inr u, w')"
    "so_classification r = startup_failure (rr_failure_disposition result)"
    using assms(2) by (auto simp: candle_pass_outcome_def Let_def bindE_eq_Inr)
  then show ?thesis using failure_recorded [OF assms(1) f(1)] by (auto simp: outcome_sound_def)
qed

lemma reconcile_sound:
  assumes "service_inv (w_disk w)" "reconcile_stream E rc stream window w = (Inr r, w')"
  shows "outcome_sound E lower_bound rc proven_by stream window (w_disk w') r"
proof -
  obtain res w1 where b: "candle_pass E rc stream window w = (res, w1)" by (cases "candle_pass E rc stream window w")
  have i1: "service_inv (w_disk w1)" using run_evolves [OF keeps_candle_pass b] assms(1) evolvesD(1) by blast
  show ?thesis
  proof (cases res)
    case (Inl exc)
    let ?c = "startup_failure (Some (sf_disposition (classify_source_failure exc)))"
    obtain u where f: "record_failure_state E stream ?c (sf_code (classify_source_failure exc)) w1 = (Inr u, w')"
      "so_classification r = ?c"
      using assms(2) b Inl by (auto simp: reconcile_stream_def Let_def bindE_eq_Inr tryE_run)
    then show ?thesis using failure_recorded [OF i1 f(1)] by (auto simp: outcome_sound_def)
  next
    case (Inr r')
    then have "r' = r" "w1 = w'" using assms(2) b by (auto simp: reconcile_stream_def bindE_def)
    then obtain st resolved w2 w3 where p: "prepare_for_bootstrap E stream w = (Inr st, w2)"
      "pass_window E lower_bound (rn_discovery_windows_per_pass rc) SC_INCOMPLETE stream window w2 = (Inr resolved, w3)"
      "(case resolved of Inl outcome \<Rightarrow> returnE outcome
        | Inr x \<Rightarrow> bindE (mark_auditing E stream) (\<lambda>_. bindE (repair_pass repair_of (rn_repair_windows_per_pass rc) stream x)
            (\<lambda>result. candle_pass_outcome E rc stream x result))) w3 = (Inr r, w')"
      using b Inr unfolding candle_pass_def rc_lower_bound rc_repair by (auto simp: bindE_eq_Inr)
    have i3: "service_inv (w_disk w3)"
      using run_evolves [OF keeps_lifecycle_ops(1) p(1)] run_evolves [OF keeps_pass_window p(2)] assms(1) evolvesD(1) by blast
    from p(2) show ?thesis
    proof (cases rule: pass_window_settled)
      case (unresolved marker)
      then show ?thesis using p(3) by (auto simp: outcome_sound_def)
    next
      case (empty tw)
      then show ?thesis using p(3) by (auto simp: outcome_sound_def)
    next
      case (settled x)
      obtain st' result w4 w5 where q: "mark_auditing E stream w3 = (Inr st', w4)"
        "repair_pass repair_of (rn_repair_windows_per_pass rc) stream x w4 = (Inr result, w5)"
        "candle_pass_outcome E rc stream x result w5 = (Inr r, w')"
        using p(3) settled(1) by (auto simp: bindE_eq_Inr)
      have i4: "service_inv (w_disk w4)" using run_evolves [OF keeps_lifecycle_ops(2) q(1)] i3 evolvesD(1) by blast
      have i5: "service_inv (w_disk w5)" using run_evolves [OF keeps_repair_pass q(2)] i4 evolvesD(1) by blast
      show ?thesis by (rule candle_outcome_sound [OF i5 q(3) repair_pass_complete [OF i4 q(2)] settled(2)])
    qed
  qed
qed

end


section \<open>The service's passes\<close>

interpretation candle_parts: pass_parts "wiring_repair E" stored "wiring_lower_bound E" for E
proof
  fix d0 rq w r w' d d' s t budget
  show "keeps (disk_ok (evolves d0)) (wiring_repair E rq)"
    unfolding wiring_repair_def by (rule candle_track.keeps_repair)
  show "stored d' s t" if "evolves d d'" "service_inv d" "stored d s t" using evolvesD(3) [OF that] .
  show "keeps (disk_ok (evolves d0)) (wiring_lower_bound E s budget)"
    unfolding wiring_lower_bound_def by (rule candle_lb.keeps_lower_bound)
qed (simp add: window_filled_def wiring_repair_def candle_track.complete_sound(1))

interpretation open_interest_parts: pass_parts "open_interest_repair E" oi_stored "open_interest_lower_bound E" for E
proof
  fix d0 rq w r w' d d' s t budget
  show "keeps (disk_ok (evolves d0)) (open_interest_repair E rq)"
    unfolding open_interest_repair_def by (rule open_interest_track.keeps_repair)
  show "oi_stored d' s t" if "evolves d d'" "service_inv d" "oi_stored d s t" using evolvesD(4) [OF that] .
  show "keeps (disk_ok (evolves d0)) (open_interest_lower_bound E s budget)"
    unfolding open_interest_lower_bound_def by (rule open_interest_lb.keeps_lower_bound)
qed (simp add: window_filled_def open_interest_repair_def open_interest_track.complete_sound(1))

text \<open>The open interest of a stream is proven: from its lower bound to a boundary the clock had reached.\<close>

definition oi_proven :: "env \<Rightarrow> int \<Rightarrow> db \<Rightarrow> stream_key \<Rightarrow> bool" where
  "oi_proven E budget d stream \<longleftrightarrow>
     (\<exists>tw. pass_range E (open_interest_lower_bound E) budget stream None tw \<and> window_filled (oi_stored d stream) stream tw)"

interpretation service_pass: gated_pass "wiring_repair E" "wiring_lower_bound E"
  "reconcile_open_interest E (open_interest_reconciler E oi_windows)" "oi_proven E oi_windows"
  "service_reconciler E discovery_windows repair_windows oi_windows oi_streams"
  for E discovery_windows repair_windows oi_windows oi_streams
proof
  have run: "\<exists>r w'. reconcile_open_interest E (open_interest_reconciler E oi_windows) s None w = (Inr r, w') \<and>
      evolves (w_disk w) (w_disk w') \<and> (so_classification r = SC_CONNECTING \<longrightarrow> oi_proven E oi_windows (w_disk w') s)"
    if "service_inv (w_disk w)" for s w
    using open_interest_parts.oi_pass_runs [OF that, of "open_interest_reconciler E oi_windows" E E s None]
    by (auto simp: open_interest_reconciler_def oi_proven_def)
  show "oi_proven E oi_windows (w_disk w') s"
    if "service_inv (w_disk w)" "reconcile_open_interest E (open_interest_reconciler E oi_windows) s None w = (Inr r, w')"
      "so_classification r = SC_CONNECTING" for w w' s r
    using run [OF that(1), of s] that(2,3) by auto
  show "oi_proven E oi_windows d' s" if "evolves d d'" "service_inv d" "oi_proven E oi_windows d s" for d d' s
    using that open_interest_parts.window_filled_kept [OF that(1,2)] by (auto simp: oi_proven_def)
  show "keeps (disk_ok (evolves d0)) (reconcile_open_interest E (open_interest_reconciler E oi_windows) s None)" for d0 s
    by (rule open_interest_parts.keeps_oi_pass) (simp_all add: open_interest_reconciler_def)
qed (simp_all add: service_reconciler_def)


definition example_window :: reconciliation_window where
  "example_window = \<lparr>rw_start_time_ms = 60000, rw_end_time_ms = 120000\<rparr>"

lemma example_reconcile_run:
  "map_sum id so_classification (fst (reconcile_stream recovery_env
      (service_reconciler recovery_env 3 3 3 []) example_stream (Some example_window) auditing_world)) = Inr SC_CONNECTING"
  by code_simp


end
