(* ===== verification/Status.thy ===== *)
theory Status
  imports Reconcile Realtime PyValues
begin

text \<open>
  runtime/status.py and runtime/admission.py: the projection of health and readiness the service shows, and
  the gate in front of live ingestion. The lock of the store makes each of its methods one step.
  Logging is left out.
\<close>

section \<open>status.py\<close>

fun realtime_status_value :: "realtime_stream_status \<Rightarrow> string" where
  "realtime_status_value RS_EXPECTED = ''expected''"
| "realtime_status_value RS_SUBSCRIBED = ''subscribed''"
| "realtime_status_value RS_LIVE = ''live''"
| "realtime_status_value RS_STALE = ''stale''"
| "realtime_status_value RS_DISCONNECTED = ''disconnected''"
| "realtime_status_value RS_RECOVERY_REQUIRED = ''recovery_required''"
| "realtime_status_value RS_FAILED = ''failed''"
| "realtime_status_value RS_STOPPED = ''stopped''"

record runtime_stream_status =
  rr_stream_id :: string
  rr_durable_state :: string
  rr_realtime_status :: string
  rr_data_ready :: bool
  rr_realtime_live :: bool
  rr_ready :: bool
  rr_reason :: "string option"

record status_store =
  sx_healthy :: bool
  sx_fatal_error :: "string option"
  sx_aggregate_ready :: bool
  sx_blocking_reasons :: "(stream_key \<times> string) list"
  sx_streams :: "(stream_key \<times> runtime_stream_status) list"

type_synonym 'a stat = "(status_store, 'a) prog"

definition startup_pending :: "stream_key \<Rightarrow> runtime_stream_status" where
  "startup_pending stream =
     \<lparr>rr_stream_id = canonical_id stream, rr_durable_state = ''uninitialized'', rr_realtime_status = ''expected'',
      rr_data_ready = False, rr_realtime_live = False, rr_ready = False, rr_reason = Some ''startup_pending''\<rparr>"

definition mk_status_store :: "stream_key list \<Rightarrow> status_store" where
  "mk_status_store streams =
     \<lparr>sx_healthy = False, sx_fatal_error = None, sx_aggregate_ready = False, sx_blocking_reasons = [],
      sx_streams = map (\<lambda>stream. (stream, startup_pending stream)) (dict_fromkeys streams)\<rparr>"

definition mark_healthy :: "unit stat" where
  "mark_healthy s = (Inr (), s\<lparr>sx_healthy := True, sx_fatal_error := None\<rparr>)"

definition mark_fatal :: "string \<Rightarrow> unit stat" where
  "mark_fatal detail s = (Inr (), s\<lparr>sx_healthy := False, sx_fatal_error := Some detail\<rparr>)"

text \<open>A field that holds an error code counts only when the text is not empty.\<close>

definition truthy :: "string option \<Rightarrow> bool" where
  "truthy v \<longleftrightarrow> v \<noteq> None \<and> v \<noteq> Some []"

definition status_reason :: "stream_state \<Rightarrow> realtime_stream_facts option \<Rightarrow> string" where
  "status_reason durable realtime =
     (if truthy (ss_last_error_code durable) then the (ss_last_error_code durable)
      else if \<not> is_ready durable then lifecycle_value (ss_state durable)
      else case realtime of
          None \<Rightarrow> ''realtime_not_started''
        | Some f \<Rightarrow>
            if truthy (rf_fatal_error_code f) then the (rf_fatal_error_code f)
            else if rf_recovery_pending f then ''recovery_pending''
            else if \<not> rf_subscription_active f then ''subscription_inactive''
            else if \<not> rf_recovery_restored f then ''recovery_not_restored''
            else realtime_status_value (rf_status f))"

definition replace_stream :: "stream_key \<Rightarrow> runtime_stream_status \<Rightarrow> unit stat" where
  "replace_stream stream status s =
     (if map_of (sx_streams s) stream = None then (Inl (Exn KeyError (stream_key_str stream)), s)
      else let streams = dict_set stream status (sx_streams s)
           in (Inr (), s\<lparr>sx_streams := streams,
                 sx_aggregate_ready := streams \<noteq> [] \<and> list_all (\<lambda>(k, item). rr_ready item) streams\<rparr>))"

definition projected_status :: "string option \<Rightarrow> stream_state \<Rightarrow> realtime_stream_facts option \<Rightarrow> runtime_stream_status" where
  "projected_status override durable realtime =
     (let ready = (is_ready durable \<and> (case realtime of None \<Rightarrow> False | Some f \<Rightarrow> data_ready f))
      in \<lparr>rr_stream_id = canonical_id (ss_stream durable), rr_durable_state = lifecycle_value (ss_state durable),
          rr_realtime_status = (case realtime of None \<Rightarrow> ''not_started'' | Some f \<Rightarrow> realtime_status_value (rf_status f)),
          rr_data_ready = ready, rr_realtime_live = (case realtime of None \<Rightarrow> False | Some f \<Rightarrow> realtime_live f),
          rr_ready = ready,
          rr_reason = (if ready then None
                       else if truthy override then override else Some (status_reason durable realtime))\<rparr>)"

definition update_stream :: "stream_state \<Rightarrow> realtime_stream_facts option \<Rightarrow> unit stat" where
  "update_stream durable realtime =
     bindE (readE (\<lambda>s. Inr (map_of (sx_blocking_reasons s) (ss_stream durable)))) (\<lambda>override.
       replace_stream (ss_stream durable) (projected_status override durable realtime))"

definition set_blocking_reason :: "stream_key \<Rightarrow> string \<Rightarrow> unit stat" where
  "set_blocking_reason stream reason =
     bindE (updateE (\<lambda>s. Inr (s\<lparr>sx_blocking_reasons := dict_set stream reason (sx_blocking_reasons s)\<rparr>))) (\<lambda>_.
     bindE (readE (\<lambda>s. case map_of (sx_streams s) stream of
         None \<Rightarrow> Inl (Exn KeyError (stream_key_str stream)) | Some current \<Rightarrow> Inr current)) (\<lambda>current.
     replace_stream stream (current\<lparr>rr_data_ready := False, rr_ready := False, rr_reason := Some reason\<rparr>)))"

definition clear_blocking_reason :: "stream_key \<Rightarrow> unit stat" where
  "clear_blocking_reason stream s =
     (Inr (), s\<lparr>sx_blocking_reasons := filter (\<lambda>(k, r). k \<noteq> stream) (sx_blocking_reasons s)\<rparr>)"

definition opt_str :: "string option \<Rightarrow> pyval" where
  "opt_str v = (case v of None \<Rightarrow> PNone | Some t \<Rightarrow> PStr t)"

definition health_document :: "status_store \<Rightarrow> pydict" where
  "health_document s =
     [(''status'', PStr (if sx_healthy s then ''healthy'' else ''unhealthy'')),
      (''fatal_error'', opt_str (sx_fatal_error s))]"

definition status_asdict :: "runtime_stream_status \<Rightarrow> pyval" where
  "status_asdict r = PDict
     [(''stream'', PStr (rr_stream_id r)), (''durable_state'', PStr (rr_durable_state r)),
      (''realtime_status'', PStr (rr_realtime_status r)), (''data_ready'', PBool (rr_data_ready r)),
      (''realtime_live'', PBool (rr_realtime_live r)), (''ready'', PBool (rr_ready r)),
      (''reason'', opt_str (rr_reason r))]"

definition readiness_document :: "status_store \<Rightarrow> pydict" where
  "readiness_document s =
     [(''ready'', PBool (sx_aggregate_ready s)), (''streams'', PList (map (status_asdict \<circ> snd) (sx_streams s)))]"

section \<open>admission.py\<close>

type_synonym admission_gate = "stream_key list"

definition gate_admit :: "stream_key \<Rightarrow> admission_gate \<Rightarrow> admission_gate" where
  "gate_admit stream g = (if stream \<in> set g then g else g @ [stream])"

definition gate_allows :: "admission_gate \<Rightarrow> stream_key \<Rightarrow> bool" where
  "gate_allows g stream \<longleftrightarrow> stream \<in> set g"

definition gated_handle :: "env \<Rightarrow> admission_gate \<Rightarrow> stream_key \<Rightarrow> observed_candle \<Rightarrow> realtime_outcome option app" where
  "gated_handle E g stream candle =
     (if \<not> gate_allows g stream then returnE None else handle_candle E stream candle)"

section \<open>Readiness is truthful\<close>

datatype status_op =
    UpdateStream stream_state "realtime_stream_facts option"
  | SetBlockingReason stream_key string
  | ClearBlockingReason stream_key
  | MarkHealthy
  | MarkFatal string

primrec status_apply :: "status_op \<Rightarrow> status_store \<Rightarrow> status_store" where
  "status_apply (UpdateStream durable realtime) s = snd (update_stream durable realtime s)"
| "status_apply (SetBlockingReason stream reason) s = snd (set_blocking_reason stream reason s)"
| "status_apply (ClearBlockingReason stream) s = snd (clear_blocking_reason stream s)"
| "status_apply MarkHealthy s = snd (mark_healthy s)"
| "status_apply (MarkFatal detail) s = snd (mark_fatal detail s)"

definition status_run :: "status_op list \<Rightarrow> status_store \<Rightarrow> status_store" where
  "status_run ops s = fold status_apply ops s"

text \<open>What the calls so far say about a stream: the last one that projects it decides.\<close>

fun says_ready :: "status_op \<Rightarrow> stream_key \<Rightarrow> bool option" where
  "says_ready (UpdateStream durable realtime) stream =
     (if ss_stream durable = stream
      then Some (is_ready durable \<and> (case realtime of None \<Rightarrow> False | Some f \<Rightarrow> data_ready f)) else None)"
| "says_ready (SetBlockingReason k reason) stream = (if k = stream then Some False else None)"
| "says_ready op stream = None"

definition last_ready :: "status_op list \<Rightarrow> stream_key \<Rightarrow> bool" where
  "last_ready ops stream = fold (\<lambda>op b. case says_ready op stream of None \<Rightarrow> b | Some r \<Rightarrow> r) ops False"

lemma last_ready_snoc:
  "last_ready [] k = False"
  "last_ready (ops @ [op]) k = (case says_ready op k of None \<Rightarrow> last_ready ops k | Some r \<Rightarrow> r)"
  by (simp_all add: last_ready_def split: option.splits)

lemma dict_set_keys: "k \<in> fst ` set d \<Longrightarrow> map fst (dict_set k v d) = map fst d"
  by (induction k v d rule: dict_set.induct) auto

lemma map_of_keys: "map fst d = keys \<Longrightarrow> map_of d k = None \<longleftrightarrow> k \<notin> set keys"
  by (metis map_of_eq_None_iff set_map)

lemma list_all_map_of:
  "distinct (map fst d) \<Longrightarrow> list_all (\<lambda>(k, x). P x) d \<longleftrightarrow> (\<forall>k x. map_of d k = Some x \<longrightarrow> P x)"
  by (auto simp: list_all_iff dest: map_of_SomeD intro: map_of_is_SomeI)

text \<open>
  The store shows what the calls say: its keys stay those of the configured streams, a row is ready
  exactly when the calls say so and gives a reason exactly when it is not, and the aggregate is theirs.
\<close>

definition store_shows :: "stream_key list \<Rightarrow> (stream_key \<Rightarrow> bool) \<Rightarrow> status_store \<Rightarrow> bool" where
  "store_shows keys shown s \<longleftrightarrow> map fst (sx_streams s) = keys \<and>
     (\<forall>k row. map_of (sx_streams s) k = Some row \<longrightarrow>
        rr_ready row = shown k \<and> rr_data_ready row = shown k \<and> (rr_reason row = None \<longleftrightarrow> shown k)) \<and>
     (sx_aggregate_ready s \<longleftrightarrow> keys \<noteq> [] \<and> (\<forall>k \<in> set keys. shown k))"

lemma store_shows_cong:
  assumes "store_shows keys f s" "\<And>k. k \<in> set keys \<Longrightarrow> g k = f k"
  shows "store_shows keys g s"
proof -
  have "g k = f k" if "map_of (sx_streams s) k = Some row" for k row
    using that assms map_of_keys [of "sx_streams s" keys k] by (simp add: store_shows_def)
  with assms show ?thesis by (simp add: store_shows_def)
qed

lemma replace_stream_shows:
  assumes "store_shows keys shown s" "distinct keys" "k \<in> set keys"
    and "rr_data_ready row = rr_ready row" "(rr_reason row = None) = rr_ready row"
  shows "store_shows keys (shown(k := rr_ready row)) (snd (replace_stream k row s))"
proof -
  let ?rows = "dict_set k row (sx_streams s)" and ?shown = "shown(k := rr_ready row)"
  have k: "map fst (sx_streams s) = keys" using assms(1) by (simp add: store_shows_def)
  then have keys: "map fst ?rows = keys" using assms(3) dict_set_keys [of k "sx_streams s" row] by (metis list.set_map)
  have rows: "rr_ready x = ?shown j \<and> rr_data_ready x = ?shown j \<and> (rr_reason x = None \<longleftrightarrow> ?shown j)"
    if "map_of ?rows j = Some x" for j x
    using that assms by (auto simp: map_of_dict_set store_shows_def split: if_splits)
  have "list_all (\<lambda>(k, item). rr_ready item) ?rows \<longleftrightarrow> (\<forall>j \<in> set keys. ?shown j)"
    unfolding list_all_map_of [of ?rows rr_ready, unfolded keys, OF assms(2)]
    using rows map_of_keys [OF keys] by (metis not_None_eq)
  moreover have "?rows \<noteq> [] \<longleftrightarrow> keys \<noteq> []" using keys by auto
  moreover obtain row0 where "map_of (sx_streams s) k = Some row0" using map_of_keys [OF k] assms(3) by (metis not_None_eq)
  ultimately show ?thesis using keys rows by (simp add: replace_stream_def Let_def store_shows_def)
qed

lemma replace_stream_unknown: "store_shows keys shown s \<Longrightarrow> k \<notin> set keys \<Longrightarrow> snd (replace_stream k row s) = s"
  using map_of_keys [of "sx_streams s" keys k] by (simp add: replace_stream_def store_shows_def)

lemma update_stream_shows:
  assumes "store_shows keys shown s" "distinct keys"
  shows "store_shows keys (shown(ss_stream durable := is_ready durable \<and>
      (case realtime of None \<Rightarrow> False | Some f \<Rightarrow> data_ready f))) (snd (update_stream durable realtime s))"
proof (cases "ss_stream durable \<in> set keys")
  case True
  let ?row = "projected_status (map_of (sx_blocking_reasons s) (ss_stream durable)) durable realtime"
  have row: "rr_data_ready ?row = rr_ready ?row" "(rr_reason ?row = None) = rr_ready ?row"
    "rr_ready ?row = (is_ready durable \<and> (case realtime of None \<Rightarrow> False | Some f \<Rightarrow> data_ready f))"
    by (auto simp: projected_status_def Let_def truthy_def)
  from replace_stream_shows [OF assms True row(1,2)] show ?thesis by (simp add: update_stream_def bindE_def row(3))
next
  case False
  then have "store_shows keys (shown(ss_stream durable := is_ready durable \<and>
      (case realtime of None \<Rightarrow> False | Some f \<Rightarrow> data_ready f))) s"
    by (intro store_shows_cong [OF assms(1)]) auto
  with False replace_stream_unknown [OF assms(1)] show ?thesis by (simp add: update_stream_def bindE_def)
qed

lemma set_blocking_shows:
  assumes "store_shows keys shown s" "distinct keys"
  shows "store_shows keys (shown(k := False)) (snd (set_blocking_reason k reason s))"
proof -
  let ?s = "s\<lparr>sx_blocking_reasons := dict_set k reason (sx_blocking_reasons s)\<rparr>"
  have s: "store_shows keys shown ?s" using assms(1) by (simp add: store_shows_def)
  show ?thesis
  proof (cases "map_of (sx_streams s) k")
    case None
    then have "k \<notin> set keys" using map_of_keys [of "sx_streams s" keys k] assms(1) by (simp add: store_shows_def)
    then have "store_shows keys (shown(k := False)) ?s" by (intro store_shows_cong [OF s]) auto
    then show ?thesis using None by (simp add: set_blocking_reason_def bindE_def updateE_def)
  next
    case (Some row)
    then have "k \<in> set keys" using map_of_keys [of "sx_streams s" keys k] assms(1) by (auto simp: store_shows_def)
    from replace_stream_shows [OF s assms(2) this, of "row\<lparr>rr_data_ready := False, rr_ready := False, rr_reason := Some reason\<rparr>"]
    show ?thesis using Some by (simp add: set_blocking_reason_def bindE_def updateE_def)
  qed
qed

lemma status_apply_shows:
  assumes "store_shows keys (last_ready ops) s" "distinct keys"
  shows "store_shows keys (last_ready (ops @ [op])) (status_apply op s)"
proof (cases op)
  case (UpdateStream durable realtime)
  have "store_shows keys (\<lambda>k. if k = ss_stream durable then is_ready durable \<and> (case realtime of None \<Rightarrow> False | Some f \<Rightarrow> data_ready f)
      else last_ready ops k) (snd (update_stream durable realtime s))"
    using update_stream_shows [OF assms, of durable realtime] by (simp add: fun_upd_def)
  from store_shows_cong [OF this, of "last_ready (ops @ [op])"] show ?thesis by (simp add: UpdateStream last_ready_snoc)
next
  case (SetBlockingReason k reason)
  have "store_shows keys (\<lambda>j. if j = k then False else last_ready ops j) (snd (set_blocking_reason k reason s))"
    using set_blocking_shows [OF assms, of k reason] by (simp add: fun_upd_def)
  from store_shows_cong [OF this, of "last_ready (ops @ [op])"] show ?thesis by (simp add: SetBlockingReason last_ready_snoc)
next
  case (ClearBlockingReason k)
  then show ?thesis using assms by (simp add: last_ready_snoc store_shows_def clear_blocking_reason_def)
next
  case MarkHealthy
  then show ?thesis using assms by (simp add: last_ready_snoc store_shows_def mark_healthy_def)
next
  case (MarkFatal d)
  then show ?thesis using assms by (simp add: last_ready_snoc store_shows_def mark_fatal_def)
qed

lemma status_run_shows: "store_shows (dict_fromkeys streams) (last_ready ops) (status_run ops (mk_status_store streams))"
proof (induction ops rule: rev_induct)
  case Nil
  have init: "map_of (map (\<lambda>stream. (stream, startup_pending stream)) ks) k = Some row \<Longrightarrow> row = startup_pending k" for ks k row
    by (induction ks) (auto split: if_splits)
  have "rr_ready row = False \<and> rr_data_ready row = False \<and> rr_reason row \<noteq> None"
    if "map_of (sx_streams (mk_status_store streams)) k = Some row" for k row
  proof -
    have "row = startup_pending k" using that init [of "dict_fromkeys streams" k row] by (simp add: mk_status_store_def)
    then show ?thesis by (simp add: startup_pending_def)
  qed
  moreover have "\<not> sx_aggregate_ready (mk_status_store streams)" "map fst (sx_streams (mk_status_store streams)) = dict_fromkeys streams"
    by (simp_all add: mk_status_store_def comp_def)
  moreover have "\<not> (dict_fromkeys streams \<noteq> [] \<and> (\<forall>k \<in> set (dict_fromkeys streams). False))" by (cases streams) auto
  ultimately have "store_shows (dict_fromkeys streams) (\<lambda>k. False) (mk_status_store streams)"
    unfolding store_shows_def by blast
  then show ?case by (simp add: status_run_def last_ready_def)
next
  case (snoc op ops)
  from status_apply_shows [OF snoc dict_fromkeys_props(2)] show ?case by (simp add: status_run_def)
qed

text \<open>
  C27. The readiness document is truthful. Whatever calls the status store has received, in any order, it
  says ready exactly when there is a stream and for every configured stream the last call that projects
  it was an update with a durable snapshot in state ready and realtime facts that are data-ready: a
  blocking reason set afterwards, or an update without facts, takes readiness away. The document of
  each configured stream says the same of that stream, and gives a reason exactly when it is not ready.
\<close>

theorem readiness_truthful:
  "dict_get (readiness_document (status_run ops (mk_status_store streams))) ''ready'' =
     Some (PBool (streams \<noteq> [] \<and> (\<forall>k \<in> set streams. last_ready ops k))) \<and>
   (\<forall>k \<in> set streams. \<exists>row. map_of (sx_streams (status_run ops (mk_status_store streams))) k = Some row \<and>
      rr_ready row = last_ready ops k \<and> (rr_reason row = None \<longleftrightarrow> last_ready ops k))"
proof -
  let ?s = "status_run ops (mk_status_store streams)"
  have s: "store_shows (dict_fromkeys streams) (last_ready ops) ?s" by (rule status_run_shows)
  then have "map fst (sx_streams ?s) = dict_fromkeys streams" by (simp add: store_shows_def)
  then have "\<exists>row. map_of (sx_streams ?s) k = Some row" if "k \<in> set streams" for k
    using map_of_keys [of "sx_streams ?s" "dict_fromkeys streams" k] that by (metis not_None_eq dict_fromkeys_props(1))
  then have rows: "\<forall>k \<in> set streams. \<exists>row. map_of (sx_streams ?s) k = Some row \<and>
      rr_ready row = last_ready ops k \<and> (rr_reason row = None \<longleftrightarrow> last_ready ops k)"
    using s unfolding store_shows_def by metis
  moreover have "sx_aggregate_ready ?s \<longleftrightarrow> streams \<noteq> [] \<and> (\<forall>k \<in> set streams. last_ready ops k)"
    using s by (simp add: store_shows_def)
  ultimately show ?thesis by (simp add: readiness_document_def dict_get_def)
qed

text \<open>The calls that make one configured stream ready, and a blocking reason that takes it back.\<close>

theorem readiness_truthful_witness:
  "dict_get (readiness_document (status_run [SetBlockingReason example_stream ''historical_backoff''] (mk_status_store [example_stream]))) ''ready'' =
     Some (PBool False)"
  using readiness_truthful [of "[SetBlockingReason example_stream ''historical_backoff'']" "[example_stream]"]
  by (simp add: last_ready_def)

end
