(* ===== verification/HistoryWorker.thy ===== *)
theory HistoryWorker
  imports Status "HOL-Library.Multiset"
begin

text \<open>
  runtime/historical\_worker.py: the worker that repeats the reconciliation of the streams that were not
  complete at startup. One task runs its loop; while it awaits a pass or sleeps, other tasks may call
  \<open>schedule\<close>. So the loop is cut at its awaits: \<open>worker_take\<close> is one turn up to the pass or the sleep,
  \<open>worker_settle\<close> is what follows the pass, and a history of the worker is a sequence of these and of
  \<open>worker_schedule\<close>. The event loop's clock is an argument of each; seconds are exact numbers. The calls
  to the status sink are recorded in order.
\<close>

section \<open>historical\_worker.py\<close>

record pending_stream =
  pd_stream :: stream_key
  pd_window :: "reconciliation_window option"
  pd_failures :: nat
  pd_no_progress_attempts :: nat
  pd_due_at :: rat
  pd_progress_marker :: "historical_progress_marker option"

definition fresh_pending :: "stream_key \<Rightarrow> reconciliation_window option \<Rightarrow> pending_stream" where
  "fresh_pending stream window =
     \<lparr>pd_stream = stream, pd_window = window, pd_failures = 0, pd_no_progress_attempts = 0, pd_due_at = 0,
      pd_progress_marker = None\<rparr>"

record history_worker =
  hw_queue :: "pending_stream list"
  hw_running :: "pending_stream option"
  hw_status_calls :: "status_op list"
  hw_completed :: "stream_key list"

record worker_policy =
  wp_base_backoff :: rat
  wp_max_backoff :: rat
  wp_idle_seconds :: rat
  wp_yield_to_gate :: bool

definition mk_history_worker :: "startup_outcome list \<Rightarrow> history_worker" where
  "mk_history_worker initial_outcomes =
     \<lparr>hw_queue = map (\<lambda>r. (fresh_pending (so_stream r) (so_window r))\<lparr>pd_progress_marker := so_progress_marker r\<rparr>)
        (filter (\<lambda>r. so_classification r \<in> {SC_INCOMPLETE, SC_RECOVERABLE_FAILURE}) initial_outcomes),
      hw_running = None, hw_status_calls = [], hw_completed = []\<rparr>"

text \<open>How long a turn of the loop sleeps, or that a pass has started.\<close>

datatype turn = Sleep rat | Pass stream_key "reconciliation_window option"

definition worker_take :: "worker_policy \<Rightarrow> rat \<Rightarrow> bool \<Rightarrow> history_worker \<Rightarrow> turn \<times> history_worker" where
  "worker_take p now gate_locked hw =
     (case hw_queue hw of
        [] \<Rightarrow> (Sleep (wp_idle_seconds p), hw)
      | pending # queue \<Rightarrow>
          if pd_due_at pending > now
          then (Sleep (min (wp_idle_seconds p) (pd_due_at pending - now)), hw\<lparr>hw_queue := queue @ [pending]\<rparr>)
          else if wp_yield_to_gate p \<and> gate_locked then (Sleep (wp_idle_seconds p), hw)
          else (Pass (pd_stream pending) (pd_window pending),
                hw\<lparr>hw_queue := queue, hw_running := Some pending,
                   hw_status_calls := hw_status_calls hw @ [SetBlockingReason (pd_stream pending) ''historical_reconciliation'']\<rparr>))"

definition backoff_delay :: "worker_policy \<Rightarrow> nat \<Rightarrow> rat" where
  "backoff_delay p attempts = min (wp_max_backoff p) (wp_base_backoff p * 2 ^ (attempts - 1))"

definition settle_incomplete :: "worker_policy \<Rightarrow> rat \<Rightarrow> startup_outcome \<Rightarrow> pending_stream \<Rightarrow> string \<times> pending_stream" where
  "settle_incomplete p now outcome pending =
     (let progressed = (so_progress_marker outcome \<noteq> None \<and> so_progress_marker outcome \<noteq> pd_progress_marker pending);
          pending = pending\<lparr>pd_failures := 0, pd_progress_marker := so_progress_marker outcome\<rparr>
      in if progressed
         then (''historical_reconciliation'', pending\<lparr>pd_no_progress_attempts := 0, pd_due_at := 0\<rparr>)
         else let attempts = Suc (pd_no_progress_attempts pending)
              in (''historical_no_progress_backoff'',
                  pending\<lparr>pd_no_progress_attempts := attempts, pd_due_at := now + backoff_delay p attempts\<rparr>))"

definition settle_recoverable :: "worker_policy \<Rightarrow> rat \<Rightarrow> pending_stream \<Rightarrow> string \<times> pending_stream" where
  "settle_recoverable p now pending =
     (let failures = Suc (pd_failures pending)
      in (''historical_backoff'', pending\<lparr>pd_failures := failures, pd_due_at := now + backoff_delay p failures\<rparr>))"

definition worker_settle :: "worker_policy \<Rightarrow> rat \<Rightarrow> startup_outcome \<Rightarrow> history_worker \<Rightarrow> history_worker" where
  "worker_settle p now outcome hw =
     (case hw_running hw of
        None \<Rightarrow> hw
      | Some pending \<Rightarrow>
          let stream = pd_stream pending;
              idle = hw\<lparr>hw_running := None\<rparr>;
              kept = pending\<lparr>pd_window := (case so_window outcome of None \<Rightarrow> pd_window pending | Some w \<Rightarrow> Some w)\<rparr>;
              requeue = (\<lambda>(reason, pending'). idle\<lparr>hw_queue := hw_queue idle @ [pending'],
                hw_status_calls := hw_status_calls idle @ [SetBlockingReason stream reason]\<rparr>)
          in case so_classification outcome of
               SC_CONNECTING \<Rightarrow> idle\<lparr>hw_status_calls := hw_status_calls idle @ [ClearBlockingReason stream],
                 hw_completed := hw_completed idle @ [stream]\<rparr>
             | SC_FATAL_FAILURE \<Rightarrow> idle\<lparr>hw_status_calls := hw_status_calls idle @ [SetBlockingReason stream ''historical_fatal_failure'']\<rparr>
             | SC_RECOVERABLE_FAILURE \<Rightarrow> requeue (settle_recoverable p now kept)
             | SC_INCOMPLETE \<Rightarrow> requeue (settle_incomplete p now outcome kept))"

definition worker_schedule :: "rat \<Rightarrow> stream_key \<Rightarrow> rat \<Rightarrow> history_worker \<Rightarrow> history_worker" where
  "worker_schedule now stream delay_seconds hw =
     hw\<lparr>hw_queue := hw_queue hw @ [(fresh_pending stream None)\<lparr>pd_due_at := now + max 0 delay_seconds\<rparr>]\<rparr>"

section \<open>Histories of the worker\<close>

text \<open>A turn is enabled when no pass is running, the end of a pass when one is.\<close>

datatype worker_event =
    Take rat bool
  | Settle rat startup_outcome
  | Schedule rat stream_key rat

fun worker_apply :: "worker_policy \<Rightarrow> worker_event \<Rightarrow> history_worker \<Rightarrow> history_worker option" where
  "worker_apply p (Take now locked) hw = (if hw_running hw = None then Some (snd (worker_take p now locked hw)) else None)"
| "worker_apply p (Settle now outcome) hw =
     (case hw_running hw of
        None \<Rightarrow> None
      | Some pending \<Rightarrow> if so_stream outcome = pd_stream pending then Some (worker_settle p now outcome hw) else None)"
| "worker_apply p (Schedule now stream delay) hw = Some (worker_schedule now stream delay hw)"

inductive worker_history :: "worker_policy \<Rightarrow> history_worker \<Rightarrow> worker_event list \<Rightarrow> history_worker \<Rightarrow> bool" for p where
  start: "worker_history p hw [] hw"
| step: "worker_history p hw es hw1 \<Longrightarrow> worker_apply p e hw1 = Some hw2 \<Longrightarrow> worker_history p hw (es @ [e]) hw2"

definition worker_streams :: "history_worker \<Rightarrow> stream_key multiset" where
  "worker_streams hw = image_mset pd_stream (mset (hw_queue hw) + mset (case hw_running hw of None \<Rightarrow> [] | Some x \<Rightarrow> [x]))"

text \<open>The streams that entered the worker after its construction, and those that left it.\<close>

fun scheduled :: "worker_event \<Rightarrow> stream_key list" where
  "scheduled (Schedule now stream delay) = [stream]"
| "scheduled e = []"

fun settled_away :: "worker_event \<Rightarrow> stream_key list" where
  "settled_away (Settle now outcome) =
     (if so_classification outcome \<in> {SC_CONNECTING, SC_FATAL_FAILURE} then [so_stream outcome] else [])"
| "settled_away e = []"

lemma worker_apply_streams:
  assumes "worker_apply p e hw = Some hw'"
  shows "worker_streams hw' + mset (settled_away e) = worker_streams hw + mset (scheduled e)"
proof (cases e)
  case (Take now locked)
  then show ?thesis using assms
    by (auto simp: worker_take_def worker_streams_def split: if_splits list.splits)
next
  case (Settle now outcome)
  then show ?thesis using assms
    by (cases "so_classification outcome")
      (auto simp: worker_settle_def worker_streams_def settle_recoverable_def settle_incomplete_def Let_def
        split: option.splits if_splits)
next
  case (Schedule now stream delay)
  then show ?thesis using assms by (auto simp: worker_schedule_def worker_streams_def fresh_pending_def)
qed

lemma worker_conserves:
  "worker_history p hw es hw' \<Longrightarrow>
   worker_streams hw' + mset (concat (map settled_away es)) = worker_streams hw + mset (concat (map scheduled es))"
proof (induction rule: worker_history.induct)
  case (step hw es hw1 e hw2)
  from worker_apply_streams [OF step.hyps(2)] step.IH show ?case
    by (simp add: ac_simps) (metis (no_types, lifting) union_assoc union_commute)
qed simp


fun connected :: "worker_event \<Rightarrow> stream_key list" where
  "connected (Settle now outcome) = (if so_classification outcome = SC_CONNECTING then [so_stream outcome] else [])"
| "connected e = []"

lemma worker_apply_completed:
  "worker_apply p e hw = Some hw' \<Longrightarrow> hw_completed hw' = hw_completed hw @ connected e"
  by (cases e; cases "so_classification (case e of Settle now outcome \<Rightarrow> outcome)")
    (auto simp: worker_take_def worker_settle_def worker_schedule_def Let_def case_prod_unfold
      split: option.splits if_splits list.splits)

lemma worker_completed:
  "worker_history p hw es hw' \<Longrightarrow> hw_completed hw' = hw_completed hw @ concat (map connected es)"
  by (induction rule: worker_history.induct) (auto dest: worker_apply_completed)

text \<open>
  C24. No stream is lost and none is worked on twice. In every history of the historical worker, with
  \<open>schedule\<close> called at any time, the streams in its queue or in its running pass are, counted with
  multiplicity, those that were incomplete or failed recoverably at startup and those scheduled since,
  without those whose pass ended connecting or fatal; and the streams handed on as complete are exactly
  those whose pass ended connecting, in that order.
\<close>

theorem worker_conserves_streams:
  assumes "worker_history p (mk_history_worker outcomes) es hw"
  shows "worker_streams hw + mset (concat (map settled_away es)) =
      mset (map so_stream (filter (\<lambda>r. so_classification r \<in> {SC_INCOMPLETE, SC_RECOVERABLE_FAILURE}) outcomes)) +
      mset (concat (map scheduled es)) \<and>
    hw_completed hw = concat (map connected es)"
proof -
  have "worker_streams (mk_history_worker outcomes) =
      mset (map so_stream (filter (\<lambda>r. so_classification r \<in> {SC_INCOMPLETE, SC_RECOVERABLE_FAILURE}) outcomes))"
    by (simp add: worker_streams_def mk_history_worker_def fresh_pending_def multiset.map_comp comp_def)
  then show ?thesis using worker_conserves [OF assms] worker_completed [OF assms] by (simp add: mk_history_worker_def)
qed

section \<open>Fairness\<close>

fun is_take :: "worker_event \<Rightarrow> bool" where
  "is_take (Take now locked) \<longleftrightarrow> True"
| "is_take e \<longleftrightarrow> False"

definition takes :: "worker_event list \<Rightarrow> nat" where
  "takes es = length (filter is_take es)"

definition gate_free :: "worker_policy \<Rightarrow> worker_event list \<Rightarrow> bool" where
  "gate_free p es \<longleftrightarrow> (\<forall>now locked. Take now locked \<in> set es \<longrightarrow> \<not> (wp_yield_to_gate p \<and> locked))"

text \<open>The queue only loses its head, once per turn, and grows at its end.\<close>

lemma worker_queue_rotates:
  "worker_history p hw es hw' \<Longrightarrow> gate_free p es \<Longrightarrow> takes es \<le> length (hw_queue hw) \<Longrightarrow>
   \<exists>rest. hw_queue hw' = drop (takes es) (hw_queue hw) @ rest"
proof (induction rule: worker_history.induct)
  case (start hw)
  then show ?case by (simp add: takes_def)
next
  case (step hw es hw1 e hw2)
  have n: "takes es \<le> length (hw_queue hw)" "gate_free p es"
    using step.prems by (auto simp: takes_def gate_free_def split: if_splits)
  then obtain rest where q: "hw_queue hw1 = drop (takes es) (hw_queue hw) @ rest" using step.IH by blast
  show ?case
  proof (cases e)
    case (Take now locked)
    then have lt: "takes es < length (hw_queue hw)" using step.prems by (simp add: takes_def)
    then have "hw_queue hw1 = hw_queue hw ! takes es # drop (Suc (takes es)) (hw_queue hw) @ rest"
      using q by (simp add: Cons_nth_drop_Suc)
    moreover have "\<not> (wp_yield_to_gate p \<and> locked)" using step.prems Take by (auto simp: gate_free_def)
    ultimately have "\<exists>rest'. hw_queue hw2 = drop (Suc (takes es)) (hw_queue hw) @ rest'"
      using step.hyps(2) Take by (auto simp: worker_take_def split: if_splits)
    then show ?thesis using Take by (simp add: takes_def)
  next
    case (Settle now outcome)
    then have "\<exists>rest'. hw_queue hw2 = hw_queue hw1 @ rest'"
      using step.hyps(2)
      by (cases "so_classification outcome")
        (auto simp: worker_settle_def Let_def case_prod_unfold split: option.splits if_splits)
    then show ?thesis using Settle q by (auto simp: takes_def)
  next
    case (Schedule now stream delay)
    then show ?thesis using step.hyps(2) q by (auto simp: worker_schedule_def takes_def)
  qed
qed

lemma history_prefix:
  "worker_history p hw es hw' \<Longrightarrow> i < takes es \<Longrightarrow>
   \<exists>es1 now locked es2 hw1. es = es1 @ Take now locked # es2 \<and> takes es1 = i \<and> worker_history p hw es1 hw1 \<and> hw_running hw1 = None"
proof (induction rule: worker_history.induct)
  case (start hw)
  then show ?case by (simp add: takes_def)
next
  case (step hw es hw1 e hw2)
  show ?case
  proof (cases "i < takes es")
    case True
    then obtain es1 now locked es2 hw3 where "es = es1 @ Take now locked # es2" "takes es1 = i" "worker_history p hw es1 hw3" "hw_running hw3 = None"
      using step.IH by blast
    then show ?thesis by (intro exI [of _ es1] exI [of _ now] exI [of _ locked] exI [of _ "es2 @ [e]"] exI [of _ hw3]) simp
  next
    case False
    then have t: "is_take e" "takes es = i" using step.prems by (auto simp: takes_def split: if_splits)
    then obtain now locked where e: "e = Take now locked" by (cases e) auto
    have "hw_running hw1 = None" using step.hyps(2) e by (auto split: if_splits)
    then show ?thesis using t(2) e step.hyps(1) by (intro exI [of _ es] exI [of _ now] exI [of _ locked] exI [of _ "[]"] exI [of _ hw1]) simp
  qed
qed

text \<open>
  C23. The historical worker is fair. A stream that stands at position \<open>i\<close> of the queue and is due gets its
  pass by the turn \<open>i + 1\<close> of the loop, whatever the outcomes of the passes before it, the streams
  scheduled meanwhile and the entries that are not due yet: no other stream can keep it waiting longer.
\<close>

theorem worker_is_fair:
  assumes "worker_history p hw es hw'" "gate_free p es" "i < length (hw_queue hw)" "i < takes es"
    and "\<forall>now locked. Take now locked \<in> set es \<longrightarrow> pd_due_at (hw_queue hw ! i) \<le> now"
  shows "\<exists>es1 now locked es2 hw1 hw2. es = es1 @ Take now locked # es2 \<and> takes es1 = i \<and> worker_history p hw es1 hw1 \<and>
     worker_take p now locked hw1 = (Pass (pd_stream (hw_queue hw ! i)) (pd_window (hw_queue hw ! i)), hw2) \<and>
     hw_running hw2 = Some (hw_queue hw ! i)"
proof -
  obtain es1 now locked es2 hw1 where h: "es = es1 @ Take now locked # es2" "takes es1 = i" "worker_history p hw es1 hw1"
    using history_prefix [OF assms(1,4)] by blast
  have g: "gate_free p es1" "\<not> (wp_yield_to_gate p \<and> locked)" "pd_due_at (hw_queue hw ! i) \<le> now"
    using assms(2,5) h(1) by (auto simp: gate_free_def)
  obtain rest where "hw_queue hw1 = drop i (hw_queue hw) @ rest"
    using worker_queue_rotates [OF h(3) g(1)] h(2) assms(3) by auto
  then have "hw_queue hw1 = hw_queue hw ! i # drop (Suc i) (hw_queue hw) @ rest"
    using assms(3) by (simp add: Cons_nth_drop_Suc)
  then obtain hw2 where "worker_take p now locked hw1 = (Pass (pd_stream (hw_queue hw ! i)) (pd_window (hw_queue hw ! i)), hw2)"
    "hw_running hw2 = Some (hw_queue hw ! i)"
    using g(2,3) by (auto simp: worker_take_def)
  then show ?thesis using h by blast
qed

definition example_worker_policy :: worker_policy where
  "example_worker_policy = \<lparr>wp_base_backoff = 1, wp_max_backoff = 60, wp_idle_seconds = 1/10, wp_yield_to_gate = False\<rparr>"

definition example_worker :: history_worker where
  "example_worker = mk_history_worker [startup_outcome_of example_stream SC_INCOMPLETE, startup_outcome_of example_stream5 SC_RECOVERABLE_FAILURE]"

definition example_worker_events :: "worker_event list" where
  "example_worker_events = [Take 0 False, Settle 2 (startup_outcome_of example_stream SC_INCOMPLETE), Take 2 False]"

fun worker_replay :: "worker_policy \<Rightarrow> worker_event list \<Rightarrow> history_worker \<Rightarrow> history_worker option" where
  "worker_replay p [] hw = Some hw"
| "worker_replay p (e # es) hw = Option.bind (worker_apply p e hw) (worker_replay p es)"

lemma worker_replay_history:
  "worker_history p hw0 es0 hw \<Longrightarrow> worker_replay p es hw = Some hw' \<Longrightarrow> worker_history p hw0 (es0 @ es) hw'"
proof (induction es arbitrary: es0 hw)
  case (Cons e es)
  then obtain hw1 where "worker_apply p e hw = Some hw1" "worker_replay p es hw1 = Some hw'"
    by (auto simp: bind_eq_Some_conv)
  then show ?case using Cons.IH [OF worker_history.step [OF Cons.prems(1)]] by simp
qed simp

lemma example_worker_history: "\<exists>hw. worker_history example_worker_policy example_worker example_worker_events hw"
proof -
  have "\<exists>hw. worker_replay example_worker_policy example_worker_events example_worker = Some hw"
    by (simp add: example_worker_events_def example_worker_def mk_history_worker_def worker_take_def worker_settle_def
        startup_outcome_of_def fresh_pending_def settle_incomplete_def Let_def)
  then show ?thesis using worker_replay_history [OF worker_history.start] by fastforce
qed

theorem worker_is_fair_witness:
  "\<exists>es1 now locked es2 hw1 hw2. example_worker_events = es1 @ Take now locked # es2 \<and> takes es1 = 1 \<and>
     worker_history example_worker_policy example_worker es1 hw1 \<and>
     worker_take example_worker_policy now locked hw1 = (Pass example_stream5 None, hw2) "
proof -
  obtain hw where h: "worker_history example_worker_policy example_worker example_worker_events hw"
    using example_worker_history by blast
  have q: "hw_queue example_worker ! 1 = fresh_pending example_stream5 None" "1 < length (hw_queue example_worker)"
    by (simp_all add: example_worker_def mk_history_worker_def startup_outcome_of_def fresh_pending_def)
  have "gate_free example_worker_policy example_worker_events" "1 < takes example_worker_events"
    "\<forall>now locked. Take now locked \<in> set example_worker_events \<longrightarrow> pd_due_at (hw_queue example_worker ! 1) \<le> now"
    using q by (auto simp: gate_free_def example_worker_policy_def takes_def example_worker_events_def fresh_pending_def)
  from worker_is_fair [OF h this(1) q(2) this(2,3)] show ?thesis unfolding q(1) by (fastforce simp: fresh_pending_def)
qed

theorem worker_conserves_streams_witness:
  "\<exists>hw. worker_history example_worker_policy example_worker example_worker_events hw \<and>
     worker_streams hw = {#example_stream, example_stream5#}"
proof -
  obtain hw where h: "worker_history example_worker_policy example_worker example_worker_events hw"
    using example_worker_history by blast
  from worker_conserves_streams [OF this [unfolded example_worker_def]] h show ?thesis
    by (auto simp: example_worker_events_def startup_outcome_of_def)
qed

end
