(* ===== verification/RecoveryWorker.thy ===== *)
theory RecoveryWorker
  imports Status
begin

text \<open>
  runtime/realtime\_recovery\_intent.py and runtime/realtime\_recovery\_worker.py: the single recovery each
  stream wants, and the worker that carries the recoveries out one after the other. The worker and the
  callers of \<open>enqueue\<close> and \<open>mark_live_commit\<close> are tasks of one event loop, so they interleave only where
  the worker awaits: for the next intent, for the operation gate and for the recovery itself. The loop is
  cut there: \<open>rw_take\<close>, \<open>rw_begin\<close> and \<open>rw_settle\<close>. An intent is one object that the dict and the queue
  share; since a stream has at most one, the queue here holds the stream and the dict the intent. The
  calls to the supervisor, to the status store and to \<open>on_restored\<close> are recorded in order.
\<close>

section \<open>realtime\_recovery\_intent.py\<close>

definition is_background :: "recovery_required \<Rightarrow> bool" where
  "is_background sig \<longleftrightarrow> rc_reason sig = STALE_BAR"

record recovery_intent =
  in_stream :: stream_key
  in_reason :: recovery_reason
  in_detected_at_ms :: int
  in_earliest_open_ms :: "int option"
  in_urgent :: bool
  in_revision :: nat
  in_due_at :: rat
  in_attempts_without_progress :: nat
  in_recovery_window :: "time_window option"
  in_progress_marker :: "repair_progress_marker option"
  in_retry_needed :: bool
  in_notify_open_ms :: "int option"

definition from_signal :: "recovery_required \<Rightarrow> recovery_intent" where
  "from_signal sig =
     \<lparr>in_stream = rc_stream sig, in_reason = rc_reason sig, in_detected_at_ms = rc_detected_at_ms sig,
      in_earliest_open_ms = rc_suspected_start_time_ms sig, in_urgent = (\<not> is_background sig), in_revision = 0,
      in_due_at = 0, in_attempts_without_progress = 0, in_recovery_window = None, in_progress_marker = None,
      in_retry_needed = False, in_notify_open_ms = None\<rparr>"

definition restart :: "recovery_intent \<Rightarrow> recovery_intent" where
  "restart x = x\<lparr>in_due_at := 0, in_attempts_without_progress := 0, in_recovery_window := None, in_progress_marker := None\<rparr>"

definition earlier :: "int option \<Rightarrow> int option \<Rightarrow> bool" where
  "earlier hint earliest \<longleftrightarrow>
     (case hint of None \<Rightarrow> False | Some h \<Rightarrow> (case earliest of None \<Rightarrow> True | Some e \<Rightarrow> h < e))"

definition absorb :: "recovery_required \<Rightarrow> recovery_intent \<Rightarrow> bool \<times> recovery_intent" where
  "absorb sig x =
     (let sooner = earlier (rc_suspected_start_time_ms sig) (in_earliest_open_ms x);
          x1 = (if sooner then x\<lparr>in_earliest_open_ms := rc_suspected_start_time_ms sig\<rparr> else x);
          promoted = (\<not> is_background sig \<and> \<not> in_urgent x1);
          x2 = (if promoted then x1\<lparr>in_urgent := True, in_reason := rc_reason sig\<rparr> else x1);
          changed = (sooner \<or> promoted)
      in (changed, if changed then restart (x2\<lparr>in_revision := Suc (in_revision x2)\<rparr>) else x2))"

definition request_signal :: "recovery_intent \<Rightarrow> recovery_required" where
  "request_signal x =
     \<lparr>rc_stream = in_stream x, rc_reason = in_reason x, rc_detected_at_ms = in_detected_at_ms x,
      rc_suspected_start_time_ms = in_earliest_open_ms x\<rparr>"

section \<open>realtime\_recovery\_worker.py\<close>

record recovery_policy =
  rv_max_windows :: int
  rv_base_backoff :: rat
  rv_max_backoff :: rat
  rv_stale_first_retry :: rat
  rv_stale_next_retry :: rat
  rv_idle_seconds :: rat

text \<open>The intent that is being executed, the revision it had when it was taken, and its request.\<close>

record recovery_attempt =
  at_stream :: stream_key
  at_started_revision :: nat
  at_request :: "recovery_request option"

record recovery_worker =
  vw_intents :: "(stream_key \<times> recovery_intent) list"
  vw_queue :: "stream_key list"
  vw_running :: "recovery_attempt option"
  vw_sup_calls :: "sup_op list"
  vw_status_calls :: "status_op list"
  vw_restored :: "(stream_key \<times> int) list"

definition mk_recovery_worker :: recovery_worker where
  "mk_recovery_worker = \<lparr>vw_intents = [], vw_queue = [], vw_running = None, vw_sup_calls = [], vw_status_calls = [],
     vw_restored = []\<rparr>"

definition rw_enqueue :: "recovery_required \<Rightarrow> recovery_worker \<Rightarrow> recovery_worker" where
  "rw_enqueue sig vw =
     (case map_of (vw_intents vw) (rc_stream sig) of
        Some x \<Rightarrow> vw\<lparr>vw_intents := dict_set (rc_stream sig) (snd (absorb sig x)) (vw_intents vw)\<rparr>
      | None \<Rightarrow> vw\<lparr>vw_intents := dict_set (rc_stream sig) (from_signal sig) (vw_intents vw),
                    vw_queue := vw_queue vw @ [rc_stream sig]\<rparr>)"

definition mark_live_commit :: "stream_key \<Rightarrow> recovery_worker \<Rightarrow> recovery_worker" where
  "mark_live_commit stream vw =
     (case map_of (vw_intents vw) stream of
        None \<Rightarrow> vw
      | Some x \<Rightarrow> vw\<lparr>vw_intents := dict_set stream (x\<lparr>in_retry_needed := True\<rparr>) (vw_intents vw)\<rparr>)"

datatype recovery_turn = NothingQueued | NotDue rat | Taken stream_key

definition rw_take :: "recovery_policy \<Rightarrow> rat \<Rightarrow> recovery_worker \<Rightarrow> recovery_turn \<times> recovery_worker" where
  "rw_take p now vw =
     (case vw_queue vw of
        [] \<Rightarrow> (NothingQueued, vw)
      | stream # queue \<Rightarrow>
          (case map_of (vw_intents vw) stream of
             None \<Rightarrow> (NothingQueued, vw)
           | Some x \<Rightarrow>
               if in_due_at x > now
               then (NotDue (min (rv_idle_seconds p) (in_due_at x - now)), vw\<lparr>vw_queue := queue @ [stream]\<rparr>)
               else (Taken stream, vw\<lparr>vw_queue := queue, vw_running :=
                      Some \<lparr>at_stream = stream, at_started_revision = in_revision x, at_request = None\<rparr>\<rparr>)))"

text \<open>The request is built when the operation gate has been acquired.\<close>

definition rw_begin :: "recovery_policy \<Rightarrow> recovery_intent \<Rightarrow> recovery_request res" where
  "rw_begin p x = mk_recovery_request \<lparr>vq_signal = request_signal x, vq_max_windows = rv_max_windows p,
     vq_recovery_window = in_recovery_window x\<rparr>"

definition retry_delay :: "recovery_policy \<Rightarrow> recovery_intent \<Rightarrow> rat \<times> recovery_intent" where
  "retry_delay p x =
     (let attempts = Suc (in_attempts_without_progress x)
      in (if in_urgent x then min (rv_max_backoff p) (rv_base_backoff p * 2 ^ (attempts - 1))
          else if attempts = 1 then rv_stale_first_retry p else rv_stale_next_retry p,
          x\<lparr>in_attempts_without_progress := attempts\<rparr>))"

text \<open>What is left of \<open>_execute\<close> for a result that neither ends the intent nor comes too late: the delay, the
  reason and the intent.\<close>

definition retry_incomplete :: "recovery_policy \<Rightarrow> recovery_result \<Rightarrow> recovery_intent \<Rightarrow> rat \<times> string \<times> recovery_intent" where
  "retry_incomplete p result x =
     (let previous_window = in_recovery_window x;
          previous_marker = in_progress_marker x;
          x1 = x\<lparr>in_recovery_window := (case vr_next_recovery_window result of
                    None \<Rightarrow> vr_recovery_window result | Some w \<Rightarrow> Some w),
                 in_progress_marker := recovery_progress_marker result\<rparr>;
          progressed = (made_progress result \<or>
            (vr_next_recovery_window result \<noteq> None \<and> vr_next_recovery_window result \<noteq> previous_window));
          progressed = (if \<not> progressed \<and> previous_marker \<noteq> None
                        then recovery_progress_marker result \<noteq> previous_marker else progressed)
      in if progressed then (0, ''realtime_recovery'', x1\<lparr>in_attempts_without_progress := 0\<rparr>)
         else let (delay, x2) = retry_delay p x1 in (delay, ''realtime_recovery_no_progress_backoff'', x2))"

definition retry_failed :: "recovery_policy \<Rightarrow> recovery_intent \<Rightarrow> rat \<times> string \<times> recovery_intent" where
  "retry_failed p x = (let (delay, x1) = retry_delay p x in (delay, ''realtime_recovery_backoff'', x1))"

text \<open>The outcome of an attempt: the intent to retry, or its end with the bar to notify.\<close>

datatype attempt_end = Retry recovery_intent | Done "int option"

definition attempt_ends ::
  "recovery_policy \<Rightarrow> rat \<Rightarrow> nat \<Rightarrow> recovery_result \<Rightarrow> recovery_intent \<Rightarrow> attempt_end \<times> status_op list" where
  "attempt_ends p now started_revision result x0 =
     (let changed = (in_revision x0 \<noteq> started_revision);
          x = (if committed_bars result \<noteq> 0 then x0\<lparr>in_retry_needed := True\<rparr> else x0);
          stream = in_stream x
      in if vr_classification result = REC_FATAL_FAILURE then (Done (in_notify_open_ms x), [])
         else if changed then (Retry x, [SetBlockingReason stream ''realtime_recovery''])
         else if vr_classification result = REC_RESTORED
         then (Done (if in_retry_needed x then vr_restored_through_open_time_ms result else in_notify_open_ms x),
               [ClearBlockingReason stream])
         else let (delay, reason, x1) = (if vr_classification result = REC_INCOMPLETE
                    then retry_incomplete p result x else retry_failed p x)
              in (Retry (x1\<lparr>in_due_at := (if delay \<noteq> 0 then now + delay else 0)\<rparr>), [SetBlockingReason stream reason]))"

definition drop_intent :: "stream_key \<Rightarrow> recovery_worker \<Rightarrow> recovery_worker" where
  "drop_intent stream vw = vw\<lparr>vw_intents := filter (\<lambda>(k, x). k \<noteq> stream) (vw_intents vw)\<rparr>"

definition rw_settle :: "recovery_policy \<Rightarrow> rat \<Rightarrow> bool \<Rightarrow> recovery_result \<Rightarrow> recovery_worker \<Rightarrow> recovery_worker" where
  "rw_settle p now stopped result vw =
     (case vw_running vw of
        None \<Rightarrow> vw
      | Some a \<Rightarrow>
          (case map_of (vw_intents vw) (at_stream a) of
             None \<Rightarrow> vw
           | Some x \<Rightarrow>
               let stream = at_stream a;
                   changed = (in_revision x \<noteq> at_started_revision a);
                   (outcome, calls) = attempt_ends p now (at_started_revision a) result x;
                   told = vw\<lparr>vw_running := None,
                     vw_sup_calls := vw_sup_calls vw @ [RecordRecoveryResult stream (restored result \<and> \<not> changed)
                       (vr_classification result = REC_FATAL_FAILURE) (vr_restored_through_open_time_ms result)],
                     vw_status_calls := vw_status_calls vw @ calls\<rparr>
               in case outcome of
                    Retry x1 \<Rightarrow>
                      if stopped then drop_intent stream told
                      else told\<lparr>vw_intents := dict_set stream x1 (vw_intents told), vw_queue := vw_queue told @ [stream]\<rparr>
                  | Done notify \<Rightarrow>
                      (drop_intent stream told)\<lparr>vw_restored := vw_restored told @
                         (case notify of None \<Rightarrow> [] | Some t \<Rightarrow> [(stream, t)])\<rparr>))"

text \<open>When the loop has been left, whatever the reason, the intents are forgotten.\<close>

definition rw_close :: "recovery_worker \<Rightarrow> recovery_worker" where
  "rw_close vw = vw\<lparr>vw_intents := []\<rparr>"

section \<open>Histories\<close>

datatype recovery_event =
    Enqueue recovery_required
  | LiveCommit stream_key
  | TakeIntent rat
  | BeginRecovery
  | SettleRecovery rat bool recovery_result

fun rw_apply :: "recovery_policy \<Rightarrow> recovery_event \<Rightarrow> recovery_worker \<Rightarrow> recovery_worker option" where
  "rw_apply p (Enqueue sig) vw = Some (rw_enqueue sig vw)"
| "rw_apply p (LiveCommit stream) vw = Some (mark_live_commit stream vw)"
| "rw_apply p (TakeIntent now) vw = (if vw_running vw = None then Some (snd (rw_take p now vw)) else None)"
| "rw_apply p BeginRecovery vw =
     (case vw_running vw of
        None \<Rightarrow> None
      | Some a \<Rightarrow>
          (case (at_request a, map_of (vw_intents vw) (at_stream a)) of
             (None, Some x) \<Rightarrow>
               (case rw_begin p x of Inl e \<Rightarrow> None | Inr req \<Rightarrow> Some (vw\<lparr>vw_running := Some (a\<lparr>at_request := Some req\<rparr>)\<rparr>))
           | _ \<Rightarrow> None))"
| "rw_apply p (SettleRecovery now stopped result) vw =
     (case vw_running vw of
        None \<Rightarrow> None
      | Some a \<Rightarrow> if at_request a = None then None else Some (rw_settle p now stopped result vw))"


text \<open>
  The signals of a stream that its intent still has to answer: all since the intent was created. They
  are forgotten when the intent ends.
\<close>

type_synonym open_signals = "stream_key \<Rightarrow> recovery_required list"

fun open_after :: "recovery_event \<Rightarrow> recovery_worker \<Rightarrow> open_signals \<Rightarrow> open_signals" where
  "open_after (Enqueue sig) vw' sigs = sigs(rc_stream sig := sigs (rc_stream sig) @ [sig])"
| "open_after (SettleRecovery now stopped result) vw' sigs = (\<lambda>k. if map_of (vw_intents vw') k = None then [] else sigs k)"
| "open_after e vw' sigs = sigs"

inductive rw_reach :: "recovery_policy \<Rightarrow> recovery_worker \<Rightarrow> open_signals \<Rightarrow> bool" for p where
  start: "rw_reach p mk_recovery_worker (\<lambda>k. [])"
| step: "rw_reach p vw sigs \<Longrightarrow> rw_apply p e vw = Some vw' \<Longrightarrow> rw_reach p vw' (open_after e vw' sigs)"

section \<open>One intent per stream\<close>

definition running_streams :: "recovery_worker \<Rightarrow> stream_key list" where
  "running_streams vw = (case vw_running vw of None \<Rightarrow> [] | Some a \<Rightarrow> [at_stream a])"

text \<open>Every intent is in exactly one place, the queue or the running attempt, and each knows its stream.\<close>

definition placed :: "recovery_worker \<Rightarrow> bool" where
  "placed vw \<longleftrightarrow> distinct (vw_queue vw @ running_streams vw) \<and>
     (\<forall>k. k \<in> set (vw_queue vw @ running_streams vw) \<longleftrightarrow> map_of (vw_intents vw) k \<noteq> None) \<and>
     (\<forall>k x. map_of (vw_intents vw) k = Some x \<longrightarrow> in_stream x = k)"

lemma absorb_fields:
  assumes "absorb sig x = (changed, y)"
  shows "in_stream y = in_stream x" "in_revision y = (if changed then Suc (in_revision x) else in_revision x)"
    "\<not> changed \<Longrightarrow> y = x"
    "in_urgent y \<longleftrightarrow> in_urgent x \<or> \<not> is_background sig"
    "in_earliest_open_ms y = (if earlier (rc_suspected_start_time_ms sig) (in_earliest_open_ms x)
       then rc_suspected_start_time_ms sig else in_earliest_open_ms x)"
  using assms by (auto simp: absorb_def Let_def restart_def split: if_splits)

lemma map_of_filter_key [simp]: "map_of (filter (\<lambda>(k, x). k \<noteq> s) d) k = (if k = s then None else map_of d k)"
  by (induction d) auto

lemma attempt_ends_stream:
  "attempt_ends p now n result x = (Retry y, calls) \<Longrightarrow> in_stream y = in_stream x \<and> in_revision y = in_revision x \<and>
     in_earliest_open_ms y = in_earliest_open_ms x \<and> in_urgent y = in_urgent x"
  by (auto simp: attempt_ends_def retry_incomplete_def retry_failed_def retry_delay_def Let_def split: if_splits prod.splits)

lemma running_streams_simps [simp]:
  "vw_running vw = None \<Longrightarrow> running_streams vw = []"
  "vw_running vw = Some a \<Longrightarrow> running_streams vw = [at_stream a]"
  by (simp_all add: running_streams_def)

lemma placed_update:
  assumes "placed vw" "map_of (vw_intents vw) k = Some x" "in_stream y = in_stream x"
  shows "placed (vw\<lparr>vw_intents := dict_set k y (vw_intents vw)\<rparr>)"
  using assms by (auto simp: placed_def map_of_dict_set running_streams_def)

lemma rw_enqueue_placed:
  assumes "placed vw"
  shows "placed (rw_enqueue sig vw)"
proof (cases "map_of (vw_intents vw) (rc_stream sig)")
  case None
  then have "rc_stream sig \<notin> set (vw_queue vw @ running_streams vw)" using assms by (simp add: placed_def)
  then show ?thesis using assms None
    by (cases "vw_running vw") (auto simp: placed_def rw_enqueue_def map_of_dict_set from_signal_def)
next
  case (Some x)
  have "in_stream (snd (absorb sig x)) = in_stream x" by (metis absorb_fields(1) prod.collapse)
  then show ?thesis using placed_update [OF assms Some] Some by (simp add: rw_enqueue_def)
qed

lemma mark_live_placed: "placed vw \<Longrightarrow> placed (mark_live_commit stream vw)"
  by (simp add: mark_live_commit_def placed_update split: option.split)

lemma rw_take_placed: "placed vw \<Longrightarrow> vw_running vw = None \<Longrightarrow> placed (snd (rw_take p now vw))"
  by (cases "vw_queue vw") (auto simp: placed_def rw_take_def running_streams_def split: option.split)

lemma rw_settle_cases:
  assumes "vw_running vw = Some a" "map_of (vw_intents vw) (at_stream a) = Some x"
    "attempt_ends p now (at_started_revision a) result x = (outcome, calls)"
  obtains
    (again) y where "outcome = Retry y" "\<not> stopped"
      "vw_intents (rw_settle p now stopped result vw) = dict_set (at_stream a) y (vw_intents vw)"
      "vw_queue (rw_settle p now stopped result vw) = vw_queue vw @ [at_stream a]"
  | (ended) "vw_intents (rw_settle p now stopped result vw) = filter (\<lambda>(k, x). k \<noteq> at_stream a) (vw_intents vw)"
      "vw_queue (rw_settle p now stopped result vw) = vw_queue vw"
  using assms
  by (cases outcome; cases stopped) (simp_all add: rw_settle_def Let_def drop_intent_def)

lemma rw_settle_running: "placed vw \<Longrightarrow> vw_running (rw_settle p now stopped result vw) = None"
  by (cases "vw_running vw")
    (auto simp: rw_settle_def Let_def drop_intent_def placed_def split: option.split prod.split attempt_end.split)

lemma placed_running:
  assumes "placed vw" "vw_running vw = Some a"
  obtains x where "map_of (vw_intents vw) (at_stream a) = Some x" "in_stream x = at_stream a"
proof -
  have "\<forall>k. k \<in> set (vw_queue vw @ running_streams vw) \<longleftrightarrow> map_of (vw_intents vw) k \<noteq> None"
    using assms(1) unfolding placed_def by blast
  from this [rule_format, of "at_stream a"] have "map_of (vw_intents vw) (at_stream a) \<noteq> None" using assms(2) by simp
  then show ?thesis using assms(1) that by (auto simp: placed_def)
qed

lemma rw_settle_placed:
  assumes "placed vw"
  shows "placed (rw_settle p now stopped result vw)"
proof (cases "vw_running vw")
  case None
  then show ?thesis using assms by (simp add: rw_settle_def)
next
  case (Some a)
  obtain x where x: "map_of (vw_intents vw) (at_stream a) = Some x" using placed_running [OF assms Some] .
  obtain outcome calls where e: "attempt_ends p now (at_started_revision a) result x = (outcome, calls)" by force
  note idle = rw_settle_running [OF assms, of p now stopped result]
  show ?thesis
  proof (rule rw_settle_cases [OF Some x e, of stopped])
    fix y assume y: "outcome = Retry y"
      "vw_intents (rw_settle p now stopped result vw) = dict_set (at_stream a) y (vw_intents vw)"
      "vw_queue (rw_settle p now stopped result vw) = vw_queue vw @ [at_stream a]"
    have "in_stream y = in_stream x" using attempt_ends_stream e y(1) by blast
    then show ?thesis using assms Some x idle y(2,3) by (auto simp: placed_def map_of_dict_set)
  next
    assume y: "vw_intents (rw_settle p now stopped result vw) = filter (\<lambda>(k, x). k \<noteq> at_stream a) (vw_intents vw)"
      "vw_queue (rw_settle p now stopped result vw) = vw_queue vw"
    show ?thesis using assms Some idle y by (auto simp: placed_def)
  qed
qed

lemma begin_apply:
  assumes "rw_apply p BeginRecovery vw = Some vw'"
  obtains a x req where "vw_running vw = Some a" "at_request a = None" "map_of (vw_intents vw) (at_stream a) = Some x"
    "rw_begin p x = Inr req" "vw' = vw\<lparr>vw_running := Some (a\<lparr>at_request := Some req\<rparr>)\<rparr>"
  using assms by (auto split: option.splits sum.splits)

lemma settle_apply:
  assumes "rw_apply p (SettleRecovery now stopped result) vw = Some vw'"
  obtains a req where "vw_running vw = Some a" "at_request a = Some req" "vw' = rw_settle p now stopped result vw"
  using assms by (auto split: option.splits if_splits)

lemma rw_apply_placed:
  assumes "placed vw" "rw_apply p e vw = Some vw'"
  shows "placed vw'"
proof (cases e)
  case BeginRecovery
  with assms(2) obtain a req where "vw_running vw = Some a" "vw' = vw\<lparr>vw_running := Some (a\<lparr>at_request := Some req\<rparr>)\<rparr>"
    by (metis begin_apply)
  then show ?thesis using assms(1) by (simp add: placed_def)
next
  case (SettleRecovery now stopped result)
  then show ?thesis using assms settle_apply rw_settle_placed by metis
qed (use assms in \<open>auto simp: rw_enqueue_placed mark_live_placed rw_take_placed split: if_splits\<close>)

lemma rw_reach_placed: "rw_reach p vw sigs \<Longrightarrow> placed vw"
proof (induction rule: rw_reach.induct)
  case start
  then show ?case by (simp add: placed_def mk_recovery_worker_def running_streams_def)
qed (rule rw_apply_placed)

section \<open>No signal is lost\<close>

text \<open>An intent answers a signal when it reaches back at least as far and is urgent if the signal is.\<close>

definition answers :: "recovery_intent \<Rightarrow> recovery_required \<Rightarrow> bool" where
  "answers x sig \<longleftrightarrow> (\<not> is_background sig \<longrightarrow> in_urgent x) \<and>
     (\<forall>h. rc_suspected_start_time_ms sig = Some h \<longrightarrow> (\<exists>e. in_earliest_open_ms x = Some e \<and> e \<le> h))"

definition answered :: "recovery_worker \<Rightarrow> open_signals \<Rightarrow> bool" where
  "answered vw sigs \<longleftrightarrow> (\<forall>k. map_of (vw_intents vw) k = None \<longrightarrow> sigs k = []) \<and>
     (\<forall>k x. map_of (vw_intents vw) k = Some x \<longrightarrow> (\<forall>sig \<in> set (sigs k). answers x sig))"

text \<open>The attempt never knows a later revision, and its request is for the revision it was taken at unless the
  intent has moved on.\<close>

definition attempt_current :: "recovery_worker \<Rightarrow> bool" where
  "attempt_current vw \<longleftrightarrow> (case vw_running vw of None \<Rightarrow> True | Some a \<Rightarrow>
     (case map_of (vw_intents vw) (at_stream a) of None \<Rightarrow> False | Some x \<Rightarrow>
        at_started_revision a \<le> in_revision x \<and>
        (case at_request a of None \<Rightarrow> True | Some req \<Rightarrow>
           at_started_revision a = in_revision x \<longrightarrow> vq_signal req = request_signal x)))"

lemma absorb_answers:
  assumes "absorb sig x = (changed, y)"
  shows "answers y sig" "answers x s \<Longrightarrow> answers y s"
  using absorb_fields(4,5) [OF assms]
  by (auto simp: answers_def earlier_def split: option.splits if_splits)

lemma from_signal_answers: "answers (from_signal sig) sig"
  by (simp add: answers_def from_signal_def)

lemma answers_cong:
  "in_urgent y = in_urgent x \<Longrightarrow> in_earliest_open_ms y = in_earliest_open_ms x \<Longrightarrow> answers y s = answers x s"
  by (simp add: answers_def)

lemma answeredD:
  assumes "answered vw sigs"
  shows "map_of (vw_intents vw) k = None \<Longrightarrow> sigs k = []"
    "map_of (vw_intents vw) k = Some x \<Longrightarrow> sig \<in> set (sigs k) \<Longrightarrow> answers x sig"
  using assms unfolding answered_def by blast+

lemma answered_enqueue:
  assumes "answered vw sigs"
  shows "answered (rw_enqueue sig vw) (sigs(rc_stream sig := sigs (rc_stream sig) @ [sig]))"
proof (cases "map_of (vw_intents vw) (rc_stream sig)")
  case None
  then have "sigs (rc_stream sig) = []" using assms by (rule answeredD(1) [rotated])
  then show ?thesis using None assms by (auto simp: answered_def rw_enqueue_def map_of_dict_set from_signal_answers split: if_splits)
next
  case (Some x)
  obtain changed y where a: "absorb sig x = (changed, y)" by force
  have "\<forall>s \<in> set (sigs (rc_stream sig)). answers x s"
    using answeredD(2) [OF assms Some] by blast
  then show ?thesis
    using Some assms a absorb_answers [OF a] by (auto simp: answered_def rw_enqueue_def map_of_dict_set split: if_splits)
qed

lemma current_enqueue:
  assumes "attempt_current vw"
  shows "attempt_current (rw_enqueue sig vw)"
proof (cases "map_of (vw_intents vw) (rc_stream sig)")
  case None
  then show ?thesis using assms
    by (auto simp: attempt_current_def rw_enqueue_def map_of_dict_set split: option.splits)
next
  case (Some x)
  obtain changed y where a: "absorb sig x = (changed, y)" by force
  then have "in_revision y = Suc (in_revision x) \<or> y = x" using absorb_fields(2,3) [OF a] by metis
  then show ?thesis
    using Some assms a by (auto simp: attempt_current_def rw_enqueue_def map_of_dict_set split: option.splits if_splits)
qed

lemma answered_live:
  "answered vw sigs \<Longrightarrow> answered (mark_live_commit stream vw) sigs"
  by (auto simp: answered_def mark_live_commit_def map_of_dict_set answers_def split: option.splits if_splits)

lemma current_live: "attempt_current vw \<Longrightarrow> attempt_current (mark_live_commit stream vw)"
  by (auto simp: attempt_current_def mark_live_commit_def map_of_dict_set request_signal_def split: option.splits if_splits)

lemma rw_take_intents [simp]: "vw_intents (snd (rw_take p now vw)) = vw_intents vw"
  by (simp add: rw_take_def split: list.split option.split)

lemma current_take: "vw_running vw = None \<Longrightarrow> attempt_current (snd (rw_take p now vw))"
  by (simp add: attempt_current_def rw_take_def split: list.split option.split)

lemma answered_settle:
  assumes "answered vw sigs" "placed vw"
  shows "answered (rw_settle p now stopped result vw)
    (\<lambda>k. if map_of (vw_intents (rw_settle p now stopped result vw)) k = None then [] else sigs k)"
proof (cases "vw_running vw")
  case None
  then show ?thesis using assms(1) by (auto simp: answered_def rw_settle_def)
next
  case (Some a)
  obtain x where x: "map_of (vw_intents vw) (at_stream a) = Some x" using placed_running [OF assms(2) Some] .
  obtain outcome calls where e: "attempt_ends p now (at_started_revision a) result x = (outcome, calls)" by force
  show ?thesis
  proof (rule rw_settle_cases [OF Some x e, of stopped])
    fix y assume y: "outcome = Retry y"
      "vw_intents (rw_settle p now stopped result vw) = dict_set (at_stream a) y (vw_intents vw)"
    have "answers y s = answers x s" for s using attempt_ends_stream [OF e [unfolded y(1)]] by (intro answers_cong) blast+
    then show ?thesis using assms(1) x y(2) by (auto simp: answered_def map_of_dict_set split: if_splits)
  next
    assume "vw_intents (rw_settle p now stopped result vw) = filter (\<lambda>(k, x). k \<noteq> at_stream a) (vw_intents vw)"
    then show ?thesis using assms(1) by (auto simp: answered_def split: if_splits)
  qed
qed

lemma rw_begin_signal: "rw_begin p x = Inr req \<Longrightarrow> vq_signal req = request_signal x"
  by (auto simp: rw_begin_def mk_recovery_request_def split: if_splits option.splits)

lemma rw_apply_tracks:
  assumes "placed vw" "answered vw sigs" "attempt_current vw" "rw_apply p e vw = Some vw'"
  shows "answered vw' (open_after e vw' sigs) \<and> attempt_current vw'"
proof (cases e)
  case (Enqueue sig)
  then show ?thesis using assms by (auto intro: answered_enqueue current_enqueue)
next
  case (LiveCommit stream)
  then show ?thesis using assms by (auto intro: answered_live current_live)
next
  case (TakeIntent now)
  then show ?thesis using assms by (auto simp: answered_def current_take split: if_splits)
next
  case BeginRecovery
  with assms(4) obtain a x req where "vw_running vw = Some a" "map_of (vw_intents vw) (at_stream a) = Some x"
    "rw_begin p x = Inr req" "vw' = vw\<lparr>vw_running := Some (a\<lparr>at_request := Some req\<rparr>)\<rparr>"
    by (metis begin_apply)
  then show ?thesis using assms(2,3) BeginRecovery by (simp add: answered_def attempt_current_def rw_begin_signal)
next
  case (SettleRecovery now stopped result)
  with assms(4) have "vw' = rw_settle p now stopped result vw" by (metis settle_apply)
  then show ?thesis using assms(1,2) SettleRecovery
    by (simp add: answered_settle attempt_current_def rw_settle_running)
qed

lemma rw_reach_tracks: "rw_reach p vw sigs \<Longrightarrow> answered vw sigs \<and> attempt_current vw"
proof (induction rule: rw_reach.induct)
  case start
  then show ?case by (simp add: answered_def attempt_current_def mk_recovery_worker_def)
next
  case (step vw sigs e vw')
  then show ?case using rw_apply_tracks rw_reach_placed by blast
qed

lemma distinct_count_list: "distinct xs \<Longrightarrow> k \<in> set xs \<Longrightarrow> count_list xs k = 1"
  by (induction xs) auto

text \<open>
  No signal is lost and no two recoveries of a stream are wanted at once: as long as a signal has not been
  answered, its stream stands exactly once in the queue or with the running attempt, and its one intent reaches
  back at least to the bar the signal suspects and is urgent if the signal is.
\<close>

theorem signals_single_flight:
  assumes "rw_reach p vw sigs" "sig \<in> set (sigs k)"
  shows "count_list (vw_queue vw @ running_streams vw) k = 1 \<and> (\<exists>x. map_of (vw_intents vw) k = Some x \<and> answers x sig)"
proof -
  have tracks: "answered vw sigs" and place: "placed vw"
    using rw_reach_tracks rw_reach_placed assms(1) by blast+
  obtain x where x: "map_of (vw_intents vw) k = Some x"
    using answeredD(1) [OF tracks, of k] assms(2) by (cases "map_of (vw_intents vw) k") auto
  have "\<forall>j. j \<in> set (vw_queue vw @ running_streams vw) \<longleftrightarrow> map_of (vw_intents vw) j \<noteq> None"
    using place unfolding placed_def by blast
  then have "k \<in> set (vw_queue vw @ running_streams vw)" using x by blast
  then have "count_list (vw_queue vw @ running_streams vw) k = 1"
    using place unfolding placed_def by (metis distinct_count_list)
  then show ?thesis using answeredD(2) [OF tracks x assms(2)] x by blast
qed


section \<open>Instances\<close>

fun rw_replay :: "recovery_policy \<Rightarrow> recovery_event list \<Rightarrow> recovery_worker \<Rightarrow> open_signals \<Rightarrow> (recovery_worker \<times> open_signals) option" where
  "rw_replay p [] vw sigs = Some (vw, sigs)"
| "rw_replay p (e # es) vw sigs = (case rw_apply p e vw of None \<Rightarrow> None | Some vw' \<Rightarrow> rw_replay p es vw' (open_after e vw' sigs))"

lemma rw_replay_reach: "rw_reach p vw sigs \<Longrightarrow> rw_replay p es vw sigs = Some (vw', sigs') \<Longrightarrow> rw_reach p vw' sigs'"
  by (induction es arbitrary: vw sigs) (auto split: option.splits intro: rw_reach.step)

definition example_recovery_policy :: recovery_policy where
  "example_recovery_policy = \<lparr>rv_max_windows = 10, rv_base_backoff = 1, rv_max_backoff = 60, rv_stale_first_retry = 60,
     rv_stale_next_retry = 360, rv_idle_seconds = 1/10\<rparr>"

definition example_signals :: "recovery_required list" where
  "example_signals =
     [\<lparr>rc_stream = example_stream, rc_reason = STALE_BAR, rc_detected_at_ms = 600000, rc_suspected_start_time_ms = Some 300000\<rparr>,
      \<lparr>rc_stream = example_stream, rc_reason = DISCONNECT, rc_detected_at_ms = 660000, rc_suspected_start_time_ms = Some 120000\<rparr>]"

definition example_recovery_events :: "recovery_event list" where
  "example_recovery_events = map Enqueue example_signals @ [TakeIntent 0, BeginRecovery]"

definition example_restored :: recovery_result where
  "example_restored = (recovery_result_of example_stream REC_RESTORED None None None)\<lparr>vr_restored_through_open_time_ms := Some 540000\<rparr>"

lemmas recovery_example_defs = example_recovery_events_def example_signals_def example_recovery_policy_def
  mk_recovery_worker_def rw_enqueue_def from_signal_def absorb_def earlier_def is_background_def restart_def rw_take_def
  rw_begin_def mk_recovery_request_def request_signal_def dict_set.simps Let_def

lemma example_attempt_run:
  "\<exists>vw sigs a req. rw_reach example_recovery_policy vw sigs \<and> vw_running vw = Some a \<and> at_request a = Some req \<and>
     at_stream a = example_stream \<and> sigs example_stream = example_signals \<and> vq_signal req = (example_signals ! 1) \<lparr>rc_detected_at_ms := 600000\<rparr> \<and>
     vw_sup_calls vw = [] \<and>
     vw_sup_calls (rw_settle example_recovery_policy 5 False example_restored vw) =
       [RecordRecoveryResult example_stream True False (Some 540000)]"
proof -
  obtain vw sigs where run: "rw_replay example_recovery_policy example_recovery_events mk_recovery_worker (\<lambda>k. []) = Some (vw, sigs)"
    and facts: "\<exists>a req. vw_running vw = Some a \<and> at_request a = Some req \<and>
     at_stream a = example_stream \<and> sigs example_stream = example_signals \<and> vq_signal req = (example_signals ! 1) \<lparr>rc_detected_at_ms := 600000\<rparr> \<and>
     vw_sup_calls vw = [] \<and>
     vw_sup_calls (rw_settle example_recovery_policy 5 False example_restored vw) =
       [RecordRecoveryResult example_stream True False (Some 540000)]"
    by (simp add: recovery_example_defs rw_settle_def attempt_ends_def example_restored_def recovery_result_of_def restored_def
        committed_bars_def recovery_window_results_def drop_intent_def)
  show ?thesis using rw_replay_reach [OF rw_reach.start run] facts by blast
qed

theorem signals_single_flight_witness:
  "\<exists>vw sigs. rw_reach example_recovery_policy vw sigs \<and> example_signals ! 1 \<in> set (sigs example_stream) \<and>
     count_list (vw_queue vw @ running_streams vw) example_stream = 1"
proof -
  obtain vw sigs where h: "rw_reach example_recovery_policy vw sigs" "sigs example_stream = example_signals"
    using example_attempt_run by blast
  have m: "example_signals ! 1 \<in> set (sigs example_stream)" by (simp add: h(2) example_signals_def)
  show ?thesis using signals_single_flight [OF h(1) m] h(1) m by blast
qed


end
