(* ===== verification/Coordinator.thy ===== *)
theory Coordinator
  imports RecoveryWorker
begin

text \<open>
  runtime/realtime.py, runtime/realtime\_lifecycle.py, the bar notifications of
  runtime/committed\_bar\_notification.py and the parts of runtime/service.py and
  runtime/open\_interest\_composition.py that start supervision: the coordinator that connects the supervisor, the
  durable lifecycle, the status store, the admission gate and the recovery worker. They share one state, a
  record with a part per component. The coroutines of the coordinator await only other coroutines that never
  suspend, since the queue of the recovery worker is unbounded and the one of the notifications is written with
  \<open>put_nowait\<close>; so each of them is one step. The notes given to the notifier are kept in \<open>ru_sent\<close>. Logging is left out.
\<close>

section \<open>The shared state\<close>

datatype bar_note = CommittedBarNotification (bn_instrument: string) (bn_timeframe: timeframe) (bn_open_time_ms: int)

record runtime =
  ru_world :: world
  ru_supervisor :: supervisor
  ru_status :: status_store
  ru_gate :: admission_gate
  ru_recovery :: recovery_worker
  ru_notes :: "bar_note list"
  ru_sent :: "bar_note list"

type_synonym 'a rt = "(runtime, 'a) prog"

text \<open>The collaborators of the coordinator that do not change: the ports, the clock of the supervisor, the
  configured streams, the capacity of the notification queue when there is one, and the policy of the worker.\<close>

record coordinator =
  co_env :: env
  co_clock :: "nat \<Rightarrow> int"
  co_streams :: "stream_key list"
  co_capacity :: "int option"
  co_policy :: recovery_policy

definition in_world :: "'a app \<Rightarrow> 'a rt" where
  "in_world m r = (case m (ru_world r) of (x, w) \<Rightarrow> (x, r\<lparr>ru_world := w\<rparr>))"

definition in_supervisor :: "'a sup \<Rightarrow> 'a rt" where
  "in_supervisor m r = (case m (ru_supervisor r) of (x, s) \<Rightarrow> (x, r\<lparr>ru_supervisor := s\<rparr>))"

definition in_status :: "'a stat \<Rightarrow> 'a rt" where
  "in_status m r = (case m (ru_status r) of (x, s) \<Rightarrow> (x, r\<lparr>ru_status := s\<rparr>))"

definition allows :: "stream_key \<Rightarrow> bool rt" where
  "allows stream = readE (\<lambda>r. Inr (gate_allows (ru_gate r) stream))"

definition set_recovery :: "recovery_worker \<Rightarrow> unit rt" where
  "set_recovery vw = updateE (\<lambda>r. Inr (r\<lparr>ru_recovery := vw\<rparr>))"

definition each :: "('a \<Rightarrow> ('s, unit) prog) \<Rightarrow> 'a list \<Rightarrow> ('s, unit) prog" where
  "each f xs = foldE (\<lambda>_. f) () xs"

section \<open>realtime\_lifecycle.py\<close>

definition follow_facts :: "env \<Rightarrow> realtime_stream_facts \<Rightarrow> stream_state \<Rightarrow> stream_state app" where
  "follow_facts E f durable =
     (if truthy (rf_fatal_error_code f) \<and> ss_state durable \<noteq> FAILED
      then mark_failed E (rf_stream f) (the (rf_fatal_error_code f))
      else if data_ready f
      then bindE (if ss_state durable = DEGRADED then mark_connecting E (rf_stream f) else returnE durable) (\<lambda>durable.
             if ss_state durable = CONNECTING then mark_ready E (rf_stream f) else returnE durable)
      else if (rf_recovery_pending f \<or> \<not> facts_current f \<or> rf_status f \<in> {RS_DISCONNECTED, RS_STALE, RS_RECOVERY_REQUIRED}) \<and>
          ss_state durable \<in> {CONNECTING, READY}
      then mark_degraded E (rf_stream f) (if facts_current f then realtime_status_value (rf_status f) else ''stale'')
      else returnE durable)"

definition synchronize_stream_lifecycle :: "env \<Rightarrow> realtime_stream_facts \<Rightarrow> bool \<Rightarrow> unit rt" where
  "synchronize_stream_lifecycle E f admitted =
     bindE (in_world (lifecycle_snapshot (rf_stream f))) (\<lambda>durable.
       if \<not> admitted then in_status (update_stream durable (Some f))
       else bindE (in_world (follow_facts E f durable)) (\<lambda>durable.
              in_status (update_stream durable (Some f))))"

section \<open>committed\_bar\_notification.py\<close>

definition bar_notification :: "stream_key \<Rightarrow> int \<Rightarrow> bar_note" where
  "bar_notification stream open_time_ms =
     CommittedBarNotification (ticker (sk_instrument stream)) (sk_timeframe stream) open_time_ms"

text \<open>A queue of size 0 or less is unbounded; a note for a full queue is dropped.\<close>

definition note_enqueue :: "int option \<Rightarrow> bar_note \<Rightarrow> unit rt" where
  "note_enqueue capacity note =
     updateE (\<lambda>r. Inr (case capacity of
         None \<Rightarrow> r
       | Some c \<Rightarrow> if 0 < c \<and> c \<le> int (length (ru_notes r)) then r else r\<lparr>ru_notes := ru_notes r @ [note]\<rparr>))"

section \<open>realtime.py\<close>

definition coordinator_enqueue :: "recovery_required \<Rightarrow> unit rt" where
  "coordinator_enqueue sig = updateE (\<lambda>r. Inr (r\<lparr>ru_recovery := rw_enqueue sig (ru_recovery r)\<rparr>))"

definition sync_lifecycle :: "coordinator \<Rightarrow> stream_key option \<Rightarrow> unit rt" where
  "sync_lifecycle co stream =
     bindE (in_supervisor (case stream of
         None \<Rightarrow> supervisor_all_facts (co_clock co)
       | Some k \<Rightarrow> bindE (supervisor_facts (co_clock co) k) (\<lambda>f. returnE [f]))) (\<lambda>selected.
     each (\<lambda>f. bindE (allows (rf_stream f)) (synchronize_stream_lifecycle (co_env co) f)) selected)"

definition refresh_status :: "coordinator \<Rightarrow> unit rt" where
  "refresh_status co =
     bindE (in_supervisor (supervisor_all_facts (co_clock co)))
       (each (\<lambda>f. bindE (in_world (lifecycle_snapshot (rf_stream f))) (\<lambda>durable. in_status (update_stream durable (Some f)))))"

text \<open>\<open>RecoveryRequired(stream, STARTUP_RECONCILIATION, detected_at_ms=now_ms())\<close>, enqueued.\<close>

definition enqueue_startup :: "coordinator \<Rightarrow> stream_key \<Rightarrow> unit rt" where
  "enqueue_startup co stream =
     bindE (in_world (now_ms (co_env co))) (\<lambda>now.
       coordinator_enqueue \<lparr>rc_stream = stream, rc_reason = STARTUP_RECONCILIATION, rc_detected_at_ms = now,
         rc_suspected_start_time_ms = None\<rparr>)"

definition coordinator_admit :: "coordinator \<Rightarrow> stream_key \<Rightarrow> unit rt" where
  "coordinator_admit co stream =
     bindE (in_world (lifecycle_snapshot stream)) (\<lambda>durable.
       case ss_latest_committed_open_time_ms durable of
         None \<Rightarrow>
           bindE (in_status (set_blocking_reason stream ''realtime_admission_missing_anchor'')) (\<lambda>_.
           bindE (in_supervisor (supervisor_facts (co_clock co) stream)) (\<lambda>f.
             in_status (update_stream durable (Some f))))
       | Some latest \<Rightarrow>
           bindE (in_supervisor (synchronize_successful_open_time stream latest)) (\<lambda>_.
           bindE (updateE (\<lambda>r. Inr (r\<lparr>ru_gate := gate_admit stream (ru_gate r)\<rparr>))) (\<lambda>_.
           bindE (in_status (clear_blocking_reason stream)) (\<lambda>_.
           bindE (in_supervisor (supervisor_facts (co_clock co) stream)) (\<lambda>f.
           bindE (if rf_subscription_active f \<and> \<not> rf_recovery_pending f then enqueue_startup co stream else returnE ()) (\<lambda>_.
             sync_lifecycle co None))))))"

text \<open>After a confirmed subscription every admitted stream that has not been restored is reconciled.\<close>

definition reconcile_subscribed :: "coordinator \<Rightarrow> stream_key \<Rightarrow> unit rt" where
  "reconcile_subscribed co stream =
     bindE (allows stream) (\<lambda>admitted.
       if \<not> admitted then returnE ()
       else bindE (in_supervisor (supervisor_facts (co_clock co) stream)) (\<lambda>f.
              if rf_subscription_active f \<and> \<not> rf_recovery_restored f then enqueue_startup co stream else returnE ()))"

fun transport_only :: "realtime_event \<Rightarrow> bool" where
  "transport_only (Connected tm) = True"
| "transport_only (HeartbeatObserved tm) = True"
| "transport_only (CandleObserved stream candle) = (\<not> oc_confirmed candle)"
| "transport_only event = False"

fun candle_refused :: "admission_gate \<Rightarrow> realtime_event \<Rightarrow> bool" where
  "candle_refused g (CandleObserved stream candle) = (\<not> gate_allows g stream)"
| "candle_refused g event = False"

fun is_confirmation :: "realtime_event \<Rightarrow> bool" where
  "is_confirmation (SubscriptionConfirmed topics tm) = True"
| "is_confirmation event = False"

definition admitted_signals :: "recovery_required list \<Rightarrow> recovery_required list rt" where
  "admitted_signals signals = readE (\<lambda>r. Inr (filter (\<lambda>sig. gate_allows (ru_gate r) (rc_stream sig)) signals))"

definition on_event :: "coordinator \<Rightarrow> realtime_event \<Rightarrow> unit rt" where
  "on_event co event =
     bindE (readE (\<lambda>r. Inr (candle_refused (ru_gate r) event))) (\<lambda>refused.
       if refused then returnE ()
       else
         bindE (in_supervisor (observe_event (co_clock co) event)) (\<lambda>observed.
         bindE (admitted_signals observed) (\<lambda>signals.
         bindE (if is_confirmation event then each (reconcile_subscribed co) (co_streams co) else returnE ()) (\<lambda>_.
         bindE (each coordinator_enqueue signals) (\<lambda>_.
           if transport_only event then returnE () else sync_lifecycle co None)))))"

definition on_outcome :: "coordinator \<Rightarrow> realtime_outcome \<Rightarrow> unit rt" where
  "on_outcome co outcome =
     bindE (allows (rt_stream outcome)) (\<lambda>admitted.
       if \<not> admitted then returnE ()
       else
         bindE (if rt_classification outcome = RT_COMMITTED
                then note_enqueue (co_capacity co) (bar_notification (rt_stream outcome) (rt_open_time_ms outcome))
                else returnE ()) (\<lambda>_.
         bindE (in_supervisor (observe_outcome (co_clock co) outcome)) (\<lambda>signals.
         bindE (each coordinator_enqueue signals) (\<lambda>_.
         bindE (if rt_classification outcome = RT_COMMITTED
                then updateE (\<lambda>r. Inr (r\<lparr>ru_recovery := mark_live_commit (rt_stream outcome) (ru_recovery r)\<rparr>))
                else returnE ()) (\<lambda>_.
           sync_lifecycle co None)))))"

definition notify_restored :: "coordinator \<Rightarrow> stream_key \<Rightarrow> int \<Rightarrow> unit rt" where
  "notify_restored co stream open_time_ms = note_enqueue (co_capacity co) (bar_notification stream open_time_ms)"

definition request_recovery :: "recovery_required \<Rightarrow> unit rt" where
  "request_recovery sig =
     bindE (allows (rc_stream sig)) (\<lambda>admitted. if admitted then coordinator_enqueue sig else returnE ())"

definition on_open_interest_changed :: "coordinator \<Rightarrow> stream_key \<Rightarrow> unit rt" where
  "on_open_interest_changed co stream = sync_lifecycle co (Some stream)"

text \<open>One round of \<open>_stale_worker\<close>.\<close>

definition stale_round :: "coordinator \<Rightarrow> unit rt" where
  "stale_round co =
     bindE (in_supervisor (detect_stale (co_clock co) None)) (\<lambda>signals.
     bindE (each request_recovery signals) (\<lambda>_.
       sync_lifecycle co None))"

section \<open>The recovery worker at work\<close>

text \<open>The two waits of the worker, and what it does when the recovery has returned: the calls \<open>rw_settle\<close> lists are
  made on the supervisor and the status store, then the lifecycle is synchronized and the bar announced.\<close>

fun tell_status :: "status_op \<Rightarrow> unit stat" where
  "tell_status (UpdateStream durable realtime) = update_stream durable realtime"
| "tell_status (SetBlockingReason stream reason) = set_blocking_reason stream reason"
| "tell_status (ClearBlockingReason stream) = clear_blocking_reason stream"
| "tell_status MarkHealthy = mark_healthy"
| "tell_status (MarkFatal detail) = mark_fatal detail"

definition take_recovery :: "coordinator \<Rightarrow> rat \<Rightarrow> unit rt" where
  "take_recovery co now =
     bindE (readE (\<lambda>r. Inr (ru_recovery r))) (\<lambda>vw. set_recovery (snd (rw_take (co_policy co) now vw)))"

definition begin_recovery :: "coordinator \<Rightarrow> recovery_request option rt" where
  "begin_recovery co =
     bindE (readE (\<lambda>r. Inr (ru_recovery r))) (\<lambda>vw.
       case vw_running vw of
         None \<Rightarrow> returnE None
       | Some a \<Rightarrow>
           (case map_of (vw_intents vw) (at_stream a) of
              None \<Rightarrow> returnE None
            | Some x \<Rightarrow>
                bindE (liftR (rw_begin (co_policy co) x)) (\<lambda>req.
                bindE (set_recovery (vw\<lparr>vw_running := Some (a\<lparr>at_request := Some req\<rparr>)\<rparr>)) (\<lambda>_. returnE (Some req)))))"

definition settle_recovery :: "coordinator \<Rightarrow> rat \<Rightarrow> bool \<Rightarrow> recovery_result \<Rightarrow> unit rt" where
  "settle_recovery co now stopped result =
     bindE (readE (\<lambda>r. Inr (ru_recovery r))) (\<lambda>vw.
     let settled = rw_settle (co_policy co) now stopped result
           (vw\<lparr>vw_sup_calls := [], vw_status_calls := [], vw_restored := []\<rparr>)
     in bindE (in_supervisor (each (\<lambda>op. bindE (run_op (co_clock co) op) (\<lambda>_. returnE ())) (vw_sup_calls settled))) (\<lambda>_.
        bindE (in_status (each tell_status (vw_status_calls settled))) (\<lambda>_.
        bindE (set_recovery settled) (\<lambda>_.
        bindE (sync_lifecycle co None) (\<lambda>_.
          each (\<lambda>(stream, t). notify_restored co stream t) (vw_restored settled))))))"

section \<open>service.py and open\_interest\_composition.py\<close>

definition startup_reason :: "startup_classification \<Rightarrow> string option" where
  "startup_reason c =
     (case c of SC_INCOMPLETE \<Rightarrow> Some ''historical_reconciliation''
      | SC_RECOVERABLE_FAILURE \<Rightarrow> Some ''historical_backoff''
      | SC_FATAL_FAILURE \<Rightarrow> Some ''historical_fatal_failure''
      | SC_CONNECTING \<Rightarrow> None)"

definition project_outcomes :: "startup_outcome list \<Rightarrow> unit rt" where
  "project_outcomes outcomes =
     each (\<lambda>x. bindE (case startup_reason (so_classification x) of
                 None \<Rightarrow> returnE () | Some reason \<Rightarrow> in_status (set_blocking_reason (so_stream x) reason)) (\<lambda>_.
               bindE (in_world (lifecycle_snapshot (so_stream x))) (\<lambda>durable.
                 in_status (update_stream durable None)))) outcomes"

definition admitted_streams :: "startup_outcome list \<Rightarrow> stream_key list" where
  "admitted_streams outcomes = map so_stream (filter (\<lambda>x. so_classification x = SC_CONNECTING) outcomes)"

definition open_interest_latest :: "stream_key \<Rightarrow> int option app" where
  "open_interest_latest stream = bindE (track_progress_of stream) (\<lambda>p. returnE (tp_latest_committed_open_time_ms p))"

definition initial_open_interest_frontiers :: "stream_key list \<Rightarrow> stream_key list \<Rightarrow> (stream_key \<times> int option) list app" where
  "initial_open_interest_frontiers flagged admitted =
     foldE (\<lambda>d stream. bindE (if stream \<in> set admitted then open_interest_latest stream else returnE None) (\<lambda>latest.
        returnE (dict_set stream latest d))) [] flagged"

definition initial_latest :: "stream_key list \<Rightarrow> (stream_key \<times> int option) list app" where
  "initial_latest streams =
     foldE (\<lambda>d stream. bindE (lifecycle_snapshot stream) (\<lambda>durable.
        returnE (dict_set stream (ss_latest_committed_open_time_ms durable) d))) [] streams"

definition build_realtime ::
  "coordinator \<Rightarrow> (string \<times> stream_key) list \<Rightarrow> int \<Rightarrow> stream_key list \<Rightarrow> stream_key list \<Rightarrow> status_store \<Rightarrow> runtime app" where
  "build_realtime co topic_to_stream grace flagged admitted status =
     bindE (initial_latest (co_streams co)) (\<lambda>initial.
     bindE (initial_open_interest_frontiers flagged admitted) (\<lambda>oi_initial.
     bindE (liftR (mk_stale_policy grace)) (\<lambda>policy.
     bindE (liftR (mk_supervisor (co_streams co) topic_to_stream (grace_ms policy) initial oi_initial)) (\<lambda>sv.
     readE (\<lambda>w. Inr \<lparr>ru_world = w, ru_supervisor = sv, ru_status = status, ru_gate = fold gate_admit admitted [],
       ru_recovery = mk_recovery_worker, ru_notes = [], ru_sent = []\<rparr>)))))"

definition handoff :: "coordinator \<Rightarrow> stream_key list \<Rightarrow> stream_key \<Rightarrow> unit rt" where
  "handoff co flagged stream =
     bindE (if stream \<in> set flagged
            then bindE (in_world (open_interest_latest stream)) (\<lambda>latest.
                   case latest of None \<Rightarrow> returnE ()
                   | Some t \<Rightarrow> in_supervisor (synchronize_open_interest_open_time stream t))
            else returnE ()) (\<lambda>_.
       coordinator_admit co stream)"

section \<open>What synchronization leaves alone\<close>

lemma in_part_Inr:
  "in_world v r = (Inr x, r') \<longleftrightarrow> (\<exists>w. v (ru_world r) = (Inr x, w) \<and> r' = r\<lparr>ru_world := w\<rparr>)"
  "in_supervisor m r = (Inr y, r') \<longleftrightarrow> (\<exists>sv. m (ru_supervisor r) = (Inr y, sv) \<and> r' = r\<lparr>ru_supervisor := sv\<rparr>)"
  "in_status n r = (Inr z, r') \<longleftrightarrow> (\<exists>st. n (ru_status r) = (Inr z, st) \<and> r' = r\<lparr>ru_status := st\<rparr>)"
  by (auto simp: in_world_def in_supervisor_def in_status_def split: prod.split)

text \<open>The part of the state that decides about recoveries and announcements.\<close>

definition core :: "runtime \<Rightarrow> realtime_stream_facts list \<times> admission_gate \<times> recovery_worker \<times> bar_note list \<times> bar_note list" where
  "core r = (sv_facts (ru_supervisor r), ru_gate r, ru_recovery r, ru_notes r, ru_sent r)"

definition core_is :: "(realtime_stream_facts list \<times> admission_gate \<times> recovery_worker \<times> bar_note list \<times> bar_note list \<Rightarrow> bool) \<Rightarrow> runtime \<Rightarrow> bool" where
  "core_is P r \<longleftrightarrow> P (core r)"

lemma keeps_core_basic [keeps_intro]:
  "keeps (core_is P) (in_world m)" "keeps (core_is P) (in_status n)" "keeps (core_is P) (allows k)"
  by (rule keepsI; simp add: in_world_def in_status_def allows_def core_is_def core_def readE_def split: prod.split)+

lemma keeps_each [keeps_intro]: "(\<And>x. keeps I (f x)) \<Longrightarrow> keeps I (each f xs)"
  by (simp add: each_def keeps_foldE)

lemma keeps_facts_reads [keeps_intro]:
  "keeps (\<lambda>sv. Q (sv_facts sv)) (sup_now clk)"
  "keeps (\<lambda>sv. Q (sv_facts sv)) (supervisor_facts clk k)"
  "keeps (\<lambda>sv. Q (sv_facts sv)) (supervisor_all_facts clk)"
proof -
  show now: "keeps (\<lambda>sv. Q (sv_facts sv)) (sup_now clk)" by (rule keepsI) (simp add: sup_now_def)
  have as_of: "keeps (\<lambda>sv. Q (sv_facts sv)) (as_of_now clk f)" for f
    unfolding as_of_now_def by (intro keeps_intro now)
  have find: "keeps (\<lambda>sv. Q (sv_facts sv)) (facts_of k)" by (rule keepsI) (simp add: facts_of_def split: option.split)
  show "keeps (\<lambda>sv. Q (sv_facts sv)) (supervisor_facts clk k)" "keeps (\<lambda>sv. Q (sv_facts sv)) (supervisor_all_facts clk)"
    unfolding supervisor_facts_def supervisor_all_facts_def by (intro keeps_intro as_of find)+
qed

lemma keeps_core_supervisor:
  assumes "\<And>Q. keeps (\<lambda>sv. Q (sv_facts sv)) m"
  shows "keeps (core_is P) (in_supervisor m)"
proof (rule keepsI)
  fix r assume "core_is P r"
  moreover have "sv_facts (snd (m (ru_supervisor r))) = sv_facts (ru_supervisor r)"
    using keeps_snd [OF assms, of "\<lambda>fs. fs = sv_facts (ru_supervisor r)" "ru_supervisor r"] by simp
  ultimately show "core_is P (snd (in_supervisor m r))"
    by (cases "m (ru_supervisor r)") (simp add: in_supervisor_def core_is_def core_def)
qed

lemma keeps_core_sync [keeps_intro]:
  "keeps (core_is P) (in_supervisor (supervisor_facts clk k))"
  "keeps (core_is P) (in_supervisor (supervisor_all_facts clk))"
  "keeps (core_is P) (synchronize_stream_lifecycle E f admitted)"
  "keeps (core_is P) (sync_lifecycle co stream)"
  "keeps (core_is P) (refresh_status co)"
proof -
  have one: "keeps (core_is P) (in_supervisor (supervisor_facts clk k))" for clk k by (intro keeps_core_supervisor keeps_intro)
  have all: "keeps (core_is P) (in_supervisor (supervisor_all_facts clk))" for clk by (intro keeps_core_supervisor keeps_intro)
  have sync: "keeps (core_is P) (synchronize_stream_lifecycle E f admitted)" for E f admitted
    unfolding synchronize_stream_lifecycle_def by (intro keeps_intro)
  have listed: "keeps (core_is P) (in_supervisor (bindE (supervisor_facts clk k) (\<lambda>f. returnE [f])))" for clk k
    by (intro keeps_core_supervisor keeps_intro)
  show "keeps (core_is P) (in_supervisor (supervisor_facts clk k))" "keeps (core_is P) (in_supervisor (supervisor_all_facts clk))"
    "keeps (core_is P) (synchronize_stream_lifecycle E f admitted)" by (fact one all sync)+
  show "keeps (core_is P) (sync_lifecycle co stream)" unfolding sync_lifecycle_def
    by (cases stream) (simp_all, (intro keeps_intro all listed sync)+)
  show "keeps (core_is P) (refresh_status co)" unfolding refresh_status_def by (intro keeps_intro all)
qed

section \<open>The durable lifecycle follows the facts\<close>

text \<open>The specification: the lifecycle state a stream has after its facts have been taken into account.\<close>

definition unsettled :: "realtime_stream_facts \<Rightarrow> bool" where
  "unsettled f \<longleftrightarrow> rf_recovery_pending f \<or> \<not> facts_current f \<or> rf_status f \<in> {RS_DISCONNECTED, RS_STALE, RS_RECOVERY_REQUIRED}"

definition followed :: "realtime_stream_facts \<Rightarrow> stream_lifecycle_state \<Rightarrow> stream_lifecycle_state" where
  "followed f l =
     (if truthy (rf_fatal_error_code f) then FAILED
      else if data_ready f then (if l \<in> {DEGRADED, CONNECTING} then READY else l)
      else if unsettled f \<and> l \<in> {CONNECTING, READY} then DEGRADED
      else l)"

definition moves :: "world \<Rightarrow> stream_key \<Rightarrow> stream_state res \<times> world \<Rightarrow> stream_lifecycle_state \<Rightarrow> bool" where
  "moves w stream result l \<longleftrightarrow>
     (case result of (Inl e, w') \<Rightarrow> False
      | (Inr x, w') \<Rightarrow> ss_state x = l \<and> service_inv (w_disk w') \<and> get_stream_state (w_disk w') stream = Inr x \<and>
          (\<forall>k. k \<noteq> stream \<longrightarrow> get_stream_state (w_disk w') k = get_stream_state (w_disk w) k))"

lemma moves_return:
  "service_inv (w_disk w) \<Longrightarrow> get_stream_state (w_disk w) stream = Inr x \<Longrightarrow> ss_state x = l \<Longrightarrow> moves w stream (returnE x w) l"
  by (simp add: moves_def returnE_def)

lemma transition_moves:
  assumes "service_inv (w_disk w)" "get_stream_state (w_disk w) stream = Inr s" "can_transition (ss_state s) target"
  shows "moves w stream (lifecycle_transition E stream target code detail w) target"
proof -
  have wf: "db_wf (w_disk w)" using assms(1) by (simp add: service_inv_def canonical_inv_def)
  have g: "ss_stream s = stream" "state_wf s" using sqlite_states.get_good [OF wf assms(2)] by simp_all
  obtain x where t: "transition_stream_state s target (max (e_now E (w_ticks w)) (ss_updated_at_ms s)) code detail = Inr x"
    using transition_succeeds [OF g(2)] assms(3) by auto
  note r = transition_result [OF t]
  obtain d where d: "save_stream_state x (w_disk w) = Inr d" "get_stream_state d stream = Inr x"
      "\<forall>k. k \<noteq> stream \<longrightarrow> get_stream_state d k = get_stream_state (w_disk w) k"
    using sqlite_states.modify [OF wf assms(2), of x] r(3,4) g(1) by auto
  obtain w' where w': "lifecycle_transition E stream target code detail w = (Inr x, w')" "w_disk w' = d"
    using assms(2) t d(1) by (auto simp: lifecycle_transition_def run_simps returnE_def)
  have "service_inv (w_disk w')"
    using keeps_snd [OF keeps_lifecycle_transition, of "w_disk w" w E stream target code detail] w' assms(1)
    by (simp add: disk_ok_def evolvesD)
  then show ?thesis using w' d(2,3) r(4) by (simp add: moves_def)
qed

lemma mark_state_moves:
  assumes "service_inv (w_disk w)" "get_stream_state (w_disk w) stream = Inr s"
    "ss_state s = target \<or> can_transition (ss_state s) target"
  shows "moves w stream (mark_state E stream target code detail w) target"
proof (cases "ss_state s = target")
  case True
  then show ?thesis using assms by (simp add: mark_state_def lifecycle_snapshot_def read_stream_state_def bindE_def moves_def)
next
  case False
  then show ?thesis using transition_moves [OF assms(1,2)] assms(2,3)
    by (simp add: mark_state_def lifecycle_snapshot_def read_stream_state_def bindE_def)
qed

lemma mark_moves:
  assumes "service_inv (w_disk w)" "get_stream_state (w_disk w) stream = Inr s"
  shows "moves w stream (mark_failed E stream reason w) FAILED"
    "ss_state s = DEGRADED \<Longrightarrow> moves w stream (mark_connecting E stream w) CONNECTING"
    "ss_state s = CONNECTING \<Longrightarrow> moves w stream (mark_ready E stream w) READY"
    "ss_state s \<in> {CONNECTING, READY} \<Longrightarrow> moves w stream (mark_degraded E stream reason w) DEGRADED"
  unfolding mark_failed_def mark_connecting_def mark_ready_def mark_degraded_def
  by ((rule mark_state_moves [OF assms], cases "ss_state s"; simp add: can_transition_def)+)

lemma moves_bind:
  assumes "moves w stream (m w) l"
    "\<And>x w'. service_inv (w_disk w') \<Longrightarrow> get_stream_state (w_disk w') stream = Inr x \<Longrightarrow> ss_state x = l \<Longrightarrow> moves w' stream (f x w') l'"
  shows "moves w stream (bindE m f w) l'"
proof -
  obtain x w' where m: "m w = (Inr x, w')" using assms(1) by (auto simp: moves_def split: prod.splits sum.splits)
  then have "moves w' stream (f x w') l'" using assms by (simp add: moves_def)
  with assms(1) m show ?thesis by (auto simp: moves_def bindE_def split: prod.splits sum.splits)
qed

lemma follow_facts_moves:
  assumes "service_inv (w_disk w)" "get_stream_state (w_disk w) (rf_stream f) = Inr s"
  shows "moves w (rf_stream f) (follow_facts E f s w) (followed f (ss_state s))"
proof -
  note marks = mark_moves [OF assms] and stay = moves_return [OF assms]
  consider "truthy (rf_fatal_error_code f)" "ss_state s \<noteq> FAILED" | "truthy (rf_fatal_error_code f)" "ss_state s = FAILED"
    | "\<not> truthy (rf_fatal_error_code f)" "data_ready f" | "\<not> truthy (rf_fatal_error_code f)" "\<not> data_ready f" by blast
  then show ?thesis
  proof cases
    case 1
    then show ?thesis using marks(1) by (simp add: follow_facts_def followed_def)
  next
    case 2
    moreover from 2 have "\<not> data_ready f" by (auto simp: data_ready_def truthy_def)
    ultimately show ?thesis using stay by (simp add: follow_facts_def followed_def)
  next
    case 3
    let ?then = "\<lambda>durable. if ss_state durable = CONNECTING then mark_ready E (rf_stream f) else returnE durable"
    have ready: "moves w' (rf_stream f) (?then x w') READY"
      if "service_inv (w_disk w')" "get_stream_state (w_disk w') (rf_stream f) = Inr x" "ss_state x = CONNECTING" for w' x
      using mark_moves(3) [OF that(1,2)] that(3) by simp
    show ?thesis
    proof (cases "ss_state s = DEGRADED")
      case True
      have "moves w (rf_stream f) (bindE (mark_connecting E (rf_stream f)) ?then w) READY"
        using marks(2) [OF True] ready by (rule moves_bind)
      then show ?thesis using 3 True by (simp add: follow_facts_def followed_def)
    next
      case False
      then show ?thesis using 3 marks(3) stay by (simp add: follow_facts_def followed_def)
    qed
  next
    case 4
    then show ?thesis using marks(4) stay by (simp add: follow_facts_def followed_def unsettled_def)
  qed
qed

lemma update_stream_row:
  assumes "map_of (sx_streams st) (ss_stream durable) \<noteq> None"
  shows "\<exists>st' row. update_stream durable (Some f) st = (Inr (), st') \<and> map_of (sx_streams st') (ss_stream durable) = Some row \<and>
     (rr_ready row \<longleftrightarrow> is_ready durable \<and> data_ready f)"
  using assms by (simp add: update_stream_def replace_stream_def bindE_def map_of_dict_set projected_status_def Let_def)

text \<open>
  C9. The durable lifecycle follows the realtime facts, and the call cannot fail: on a valid database, for a
  stream that has a snapshot and is known to the status store, \<open>synchronize_stream_lifecycle\<close> returns. The
  database stays valid, the snapshots of the other streams are untouched, and the state of this one is
  the specified one: unchanged while the stream is not admitted, failed on a fatal error, ready as soon as the
  facts are data-ready and the stream was connecting or degraded, degraded when a ready or connecting stream
  has a recovery pending, is behind or lost its connection. The status row then says ready exactly when the
  stored state is ready and the facts are data-ready.
\<close>

theorem lifecycle_follows_facts:
  assumes "service_inv (w_disk (ru_world r))" "get_stream_state (w_disk (ru_world r)) (rf_stream f) = Inr s"
    "map_of (sx_streams (ru_status r)) (rf_stream f) \<noteq> None"
  shows "\<exists>r' s' row. synchronize_stream_lifecycle E f admitted r = (Inr (), r') \<and>
    service_inv (w_disk (ru_world r')) \<and>
    get_stream_state (w_disk (ru_world r')) (rf_stream f) = Inr s' \<and>
    ss_state s' = (if admitted then followed f (ss_state s) else ss_state s) \<and>
    (\<forall>k. k \<noteq> rf_stream f \<longrightarrow> get_stream_state (w_disk (ru_world r')) k = get_stream_state (w_disk (ru_world r)) k) \<and>
    map_of (sx_streams (ru_status r')) (rf_stream f) = Some row \<and>
    (rr_ready row \<longleftrightarrow> ss_state s' = READY \<and> data_ready f)"
proof -
  let ?m = "if admitted then follow_facts E f s else returnE s"
  have "moves (ru_world r) (rf_stream f) (?m (ru_world r)) (if admitted then followed f (ss_state s) else ss_state s)"
    using follow_facts_moves [OF assms(1,2)] moves_return [OF assms(1,2)] by simp
  then obtain s' w where m: "?m (ru_world r) = (Inr s', w)" "service_inv (w_disk w)"
    "get_stream_state (w_disk w) (rf_stream f) = Inr s'" "ss_state s' = (if admitted then followed f (ss_state s) else ss_state s)"
    "\<forall>k. k \<noteq> rf_stream f \<longrightarrow> get_stream_state (w_disk w) k = get_stream_state (w_disk (ru_world r)) k"
    by (auto simp: moves_def split: prod.splits sum.splits)
  have k: "ss_stream s' = rf_stream f"
    using sqlite_states.get_good [OF _ m(3)] m(2) by (simp add: service_inv_def canonical_inv_def)
  obtain st row where u: "update_stream s' (Some f) (ru_status r) = (Inr (), st)"
    "map_of (sx_streams st) (rf_stream f) = Some row" "rr_ready row \<longleftrightarrow> is_ready s' \<and> data_ready f"
    using update_stream_row [of "ru_status r" s' f] assms(3) k by auto
  have "synchronize_stream_lifecycle E f admitted r = (Inr (), r\<lparr>ru_world := w, ru_status := st\<rparr>)"
    using m(1) u(1) assms(2)
    by (cases admitted) (simp_all add: synchronize_stream_lifecycle_def bindE_def in_world_def in_status_def
        lifecycle_snapshot_def read_stream_state_def returnE_def)
  then show ?thesis using m(2-5) u(2,3) by (simp add: is_ready_def)
qed

section \<open>An instance\<close>

definition example_coordinator :: coordinator where
  "example_coordinator = \<lparr>co_env = recovery_env, co_clock = (\<lambda>n. 240000), co_streams = [example_stream], co_capacity = Some 10,
     co_policy = example_recovery_policy\<rparr>"

definition connecting_world :: world where
  "connecting_world = snd (mark_connecting recovery_env example_stream auditing_world)"

lemma connecting_world_state:
  obtains s where "service_inv (w_disk connecting_world)" "get_stream_state (w_disk connecting_world) example_stream = Inr s"
    "ss_state s = CONNECTING"
proof -
  have "service_inv (w_disk auditing_world)" "get_stream_state (w_disk auditing_world) example_stream = Inr auditing_state"
    using auditing_inv auditing_reads(1) by (simp_all add: auditing_world_def)
  moreover have "can_transition (ss_state auditing_state) CONNECTING"
    by (simp add: auditing_state_def can_transition_def)
  ultimately have "moves auditing_world example_stream (mark_connecting recovery_env example_stream auditing_world) CONNECTING"
    unfolding mark_connecting_def by (blast intro: mark_state_moves)
  then show ?thesis using that by (auto simp: moves_def connecting_world_def split: prod.splits sum.splits)
qed

definition example_facts :: "int \<Rightarrow> realtime_stream_facts" where
  "example_facts expected = (initial_facts example_stream (Some 60000) False None)\<lparr>rf_status := RS_LIVE, rf_subscription_active := True,
     rf_recovery_restored := True, rf_expected_open_time_ms := Some expected\<rparr>"

definition example_runtime :: "realtime_stream_facts list \<Rightarrow> runtime" where
  "example_runtime fs =
     \<lparr>ru_world = connecting_world,
      ru_supervisor = \<lparr>sv_facts = fs, sv_topic_to_stream = [], sv_grace_ms = 0, sv_disconnected = False, sv_ticks = 0\<rparr>,
      ru_status = mk_status_store [example_stream], ru_gate = [], ru_recovery = mk_recovery_worker, ru_notes = [], ru_sent = []\<rparr>"

theorem lifecycle_follows_facts_witness:
  "\<exists>r' s row. synchronize_stream_lifecycle recovery_env (example_facts 60000) True (example_runtime []) = (Inr (), r') \<and>
     get_stream_state (w_disk (ru_world r')) example_stream = Inr s \<and> ss_state s = READY \<and>
     map_of (sx_streams (ru_status r')) example_stream = Some row \<and> rr_ready row"
proof -
  obtain s where s: "service_inv (w_disk connecting_world)" "get_stream_state (w_disk connecting_world) example_stream = Inr s"
    "ss_state s = CONNECTING" by (rule connecting_world_state)
  have f: "rf_stream (example_facts 60000) = example_stream" "data_ready (example_facts 60000)"
    "followed (example_facts 60000) CONNECTING = READY"
    by (simp_all add: example_facts_def initial_facts_def data_ready_def facts_current_def continuity_frontier_ms_def followed_def truthy_def)
  have known: "map_of (sx_streams (mk_status_store [example_stream])) example_stream \<noteq> None"
    by (simp add: mk_status_store_def)
  from lifecycle_follows_facts [of "example_runtime []" "example_facts 60000" s recovery_env True] s f known
  show ?thesis by (auto simp: example_runtime_def)
qed

end
