(* ===== verification/Publication.thy ===== *)
theory Publication
  imports Coordinator
begin

text \<open>
  runtime/open\_interest\_publication.py, the delivery loop of runtime/committed\_bar\_notification.py and
  runtime/open\_interest\_prefetch.py: bringing the open interest of a bar, and announcing a bar only when its
  stream is data-ready through it. The fetch of a point runs in a thread and awaits, so the other tasks may run
  before the rest of \<open>prepare\<close>, which is one step again. The notifier is a parameter of the code: a note
  counts as sent when \<open>send\<close> was called, since a failed delivery is only logged. Logging is left out.
\<close>

section \<open>open\_interest\_publication.py\<close>

definition publication_streams :: "stream_key list \<Rightarrow> ((string \<times> timeframe) \<times> stream_key) list" where
  "publication_streams streams =
     fold (\<lambda>stream d. dict_set (ticker (sk_instrument stream), sk_timeframe stream) stream d) streams []"

definition frontier_facts :: "realtime_stream_facts \<Rightarrow> int option \<times> realtime_stream_status \<times> bool \<times> bool" where
  "frontier_facts f = (rf_last_open_interest_open_time_ms f, rf_status f, rf_recovery_pending f, rf_recovery_restored f)"

definition observe_stored :: "coordinator \<Rightarrow> stream_key \<Rightarrow> int \<Rightarrow> unit rt" where
  "observe_stored co stream open_time_ms =
     bindE (in_supervisor (supervisor_facts (co_clock co) stream)) (\<lambda>before.
     bindE (in_supervisor (observe_open_interest (co_clock co) stream open_time_ms)) (\<lambda>signals.
     bindE (each request_recovery signals) (\<lambda>_.
     bindE (in_supervisor (supervisor_facts (co_clock co) stream)) (\<lambda>after.
       if frontier_facts before \<noteq> frontier_facts after then on_open_interest_changed co stream else returnE ()))))"

definition prepare_rest :: "coordinator \<Rightarrow> stream_key \<Rightarrow> int \<Rightarrow> bool \<Rightarrow> bool rt" where
  "prepare_rest co stream open_time_ms has_point =
     bindE (if has_point then observe_stored co stream open_time_ms else returnE ()) (\<lambda>_.
     bindE (in_supervisor (supervisor_facts (co_clock co) stream)) (\<lambda>f.
       returnE (published_through f open_time_ms)))"

definition prepare ::
  "coordinator \<Rightarrow> stream_key list \<Rightarrow> (stream_key \<Rightarrow> int \<Rightarrow> bool app) \<Rightarrow> bar_note \<Rightarrow> bool rt" where
  "prepare co streams fetch_point note =
     (case map_of (publication_streams streams) (bn_instrument note, bn_timeframe note) of
        None \<Rightarrow> returnE True
      | Some stream \<Rightarrow>
          bindE (tryE (in_world (fetch_point stream (bn_open_time_ms note)))) (\<lambda>result.
            prepare_rest co stream (bn_open_time_ms note) (case result of Inl e \<Rightarrow> False | Inr has_point \<Rightarrow> has_point)))"

section \<open>committed\_bar\_notification.py\<close>

text \<open>One round of \<open>run\<close> that found a note, without a stop.\<close>

definition deliver_note :: "coordinator \<Rightarrow> stream_key list \<Rightarrow> (stream_key \<Rightarrow> int \<Rightarrow> bool app) \<Rightarrow> unit rt" where
  "deliver_note co streams fetch_point =
     bindE (readE (\<lambda>r. Inr (ru_notes r))) (\<lambda>notes.
       case notes of
         [] \<Rightarrow> returnE ()
       | note # rest \<Rightarrow>
           bindE (updateE (\<lambda>r. Inr (r\<lparr>ru_notes := rest\<rparr>))) (\<lambda>_.
           bindE (prepare co streams fetch_point note) (\<lambda>publish.
             if publish then updateE (\<lambda>r. Inr (r\<lparr>ru_sent := ru_sent r @ [note]\<rparr>)) else returnE ())))"

section \<open>open\_interest\_prefetch.py\<close>

text \<open>
  An attempt keeps a reference to the bar state it was started for, also when the dict has moved on to the next
  bar. So the states are objects in a store, and the dict and the tasks hold their positions. A task waits for
  a slot or is fetching. Beside the fields of \<open>_BarState\<close> each state keeps its stream, the times at which \<open>tick\<close>
  started an attempt for it, and the times at which a fetch began.
\<close>

record bar_state =
  bs_owner :: stream_key
  bs_open_ms :: int
  bs_next_at_ms :: int
  bs_stored :: bool
  bs_in_flight :: bool
  bs_attempts :: nat
  bs_last_error :: "string option"
  bs_started :: "int list"
  bs_fetched :: "int list"

datatype fetch_phase = WaitingSlot | Fetching

record fetch_task =
  ft_stream :: stream_key
  ft_state :: nat
  ft_step_ms :: int
  ft_phase :: fetch_phase

record prefetch_config =
  fc_streams :: "stream_key list"
  fc_delay_ms :: int
  fc_retry_ms :: int
  fc_concurrency :: nat

record prefetch =
  pf_objects :: "bar_state list"
  pf_states :: "(stream_key \<times> nat) list"
  pf_tasks :: "fetch_task list"

definition mk_prefetch :: prefetch where
  "mk_prefetch = \<lparr>pf_objects = [], pf_states = [], pf_tasks = []\<rparr>"

definition eligible :: "(stream_key \<Rightarrow> bool) \<Rightarrow> (stream_key \<Rightarrow> realtime_stream_facts) \<Rightarrow> stream_key \<Rightarrow> bool" where
  "eligible admitted facts stream \<longleftrightarrow>
     admitted stream \<and> rf_subscription_active (facts stream) \<and> \<not> rf_recovery_pending (facts stream)"

definition state_for :: "prefetch_config \<Rightarrow> stream_key \<Rightarrow> int \<Rightarrow> prefetch \<Rightarrow> nat \<times> prefetch" where
  "state_for fc stream open_ms pf =
     (let fresh = (length (pf_objects pf), pf\<lparr>pf_objects := pf_objects pf @
            [\<lparr>bs_owner = stream, bs_open_ms = open_ms, bs_next_at_ms = open_ms + fc_delay_ms fc, bs_stored = False, bs_in_flight = False,
              bs_attempts = 0, bs_last_error = None, bs_started = [], bs_fetched = []\<rparr>],
            pf_states := dict_set stream (length (pf_objects pf)) (pf_states pf)\<rparr>)
      in case map_of (pf_states pf) stream of
           None \<Rightarrow> fresh
         | Some n \<Rightarrow> if bs_open_ms (pf_objects pf ! n) = open_ms then (n, pf) else fresh)"

definition set_bar :: "nat \<Rightarrow> (bar_state \<Rightarrow> bar_state) \<Rightarrow> prefetch \<Rightarrow> prefetch" where
  "set_bar n change pf = pf\<lparr>pf_objects := (pf_objects pf)[n := change (pf_objects pf ! n)]\<rparr>"

definition tick_stream :: "prefetch_config \<Rightarrow> (stream_key \<Rightarrow> bool) \<Rightarrow> int \<Rightarrow> stream_key \<Rightarrow> prefetch \<Rightarrow> prefetch" where
  "tick_stream fc elig now stream pf0 =
     (let step_ms = stream_step stream;
          open_ms = now - now mod step_ms;
          (n, pf) = state_for fc stream open_ms pf0;
          b = pf_objects pf ! n
      in if bs_stored b \<or> bs_in_flight b \<or> now < bs_next_at_ms b then pf
         else if \<not> elig stream then pf
         else (set_bar n (\<lambda>b. b\<lparr>bs_in_flight := True, bs_next_at_ms := now + fc_retry_ms fc, bs_started := bs_started b @ [now]\<rparr>) pf)
                \<lparr>pf_tasks := pf_tasks pf @ [\<lparr>ft_stream = stream, ft_state = n, ft_step_ms = step_ms, ft_phase = WaitingSlot\<rparr>]\<rparr>)"

definition tick :: "prefetch_config \<Rightarrow> (stream_key \<Rightarrow> bool) \<Rightarrow> int \<Rightarrow> prefetch \<Rightarrow> prefetch" where
  "tick fc elig now pf = fold (tick_stream fc elig now) (fc_streams fc) pf"

definition fetching :: "prefetch \<Rightarrow> nat" where
  "fetching pf = length (filter (\<lambda>task. ft_phase task = Fetching) (pf_tasks pf))"

definition end_task :: "nat \<Rightarrow> prefetch \<Rightarrow> prefetch" where
  "end_task i pf = (set_bar (ft_state (pf_tasks pf ! i)) (\<lambda>b. b\<lparr>bs_in_flight := False\<rparr>) pf)
     \<lparr>pf_tasks := take i (pf_tasks pf) @ drop (Suc i) (pf_tasks pf)\<rparr>"

text \<open>A task that got a slot checks again and either leaves or starts its fetch.\<close>

definition attempt_start :: "prefetch_config \<Rightarrow> (stream_key \<Rightarrow> bool) \<Rightarrow> int \<Rightarrow> nat \<Rightarrow> prefetch \<Rightarrow> prefetch option" where
  "attempt_start fc elig now i pf =
     (if i < length (pf_tasks pf) \<and> ft_phase (pf_tasks pf ! i) = WaitingSlot \<and> fetching pf < fc_concurrency fc
      then let task = pf_tasks pf ! i; b = pf_objects pf ! ft_state task
           in Some (if bs_stored b \<or> now \<ge> bs_open_ms b + ft_step_ms task \<or> \<not> elig (ft_stream task)
                    then end_task i pf
                    else (set_bar (ft_state task) (\<lambda>b. b\<lparr>bs_attempts := Suc (bs_attempts b), bs_fetched := bs_fetched b @ [now]\<rparr>) pf)
                           \<lparr>pf_tasks := (pf_tasks pf)[i := task\<lparr>ft_phase := Fetching\<rparr>]\<rparr>)
      else None)"

definition attempt_finish :: "bool res \<Rightarrow> nat \<Rightarrow> prefetch \<Rightarrow> prefetch option" where
  "attempt_finish result i pf =
     (if i < length (pf_tasks pf) \<and> ft_phase (pf_tasks pf ! i) = Fetching
      then Some (end_task i (set_bar (ft_state (pf_tasks pf ! i)) (\<lambda>b. case result of
               Inl e \<Rightarrow> b\<lparr>bs_last_error := Some (class_name (exn_cls e) @ '': '' @ exn_str e)\<rparr>
             | Inr has_point \<Rightarrow> b\<lparr>bs_last_error := (if has_point then None else Some ''not published yet''),
                               bs_stored := bs_stored b \<or> has_point\<rparr>) pf))
      else None)"

section \<open>The prefetch keeps its schedule\<close>

inductive prefetch_reach :: "prefetch_config \<Rightarrow> prefetch \<Rightarrow> bool" for fc where
  start: "prefetch_reach fc mk_prefetch"
| tick: "prefetch_reach fc pf \<Longrightarrow> prefetch_reach fc (tick fc elig now pf)"
| begin_fetch: "prefetch_reach fc pf \<Longrightarrow> attempt_start fc elig now i pf = Some pf' \<Longrightarrow> prefetch_reach fc pf'"
| end_fetch: "prefetch_reach fc pf \<Longrightarrow> attempt_finish result i pf = Some pf' \<Longrightarrow> prefetch_reach fc pf'"

text \<open>The starts of one bar: none before the delay, none after the close, and the retry interval apart.\<close>

definition on_schedule :: "prefetch_config \<Rightarrow> bar_state \<Rightarrow> bool" where
  "on_schedule fc b \<longleftrightarrow>
     (\<forall>t \<in> set (bs_started b). bs_open_ms b + fc_delay_ms fc \<le> t \<and> t < bs_open_ms b + stream_step (bs_owner b)) \<and>
     successively (\<lambda>s t. s + fc_retry_ms fc \<le> t) (bs_started b) \<and>
     bs_next_at_ms b = (if bs_started b = [] then bs_open_ms b + fc_delay_ms fc else last (bs_started b) + fc_retry_ms fc) \<and>
     (\<forall>t \<in> set (bs_fetched b). t < bs_open_ms b + stream_step (bs_owner b)) \<and>
     length (bs_fetched b) = bs_attempts b"

text \<open>A task belongs to a state in flight, and a state in flight has one task.\<close>

definition tasks_ok :: "prefetch \<Rightarrow> bool" where
  "tasks_ok pf \<longleftrightarrow> distinct (map ft_state (pf_tasks pf)) \<and>
     (\<forall>n. n \<in> ft_state ` set (pf_tasks pf) \<longleftrightarrow> n < length (pf_objects pf) \<and> bs_in_flight (pf_objects pf ! n)) \<and>
     (\<forall>task \<in> set (pf_tasks pf). ft_step_ms task = stream_step (bs_owner (pf_objects pf ! ft_state task)))"

definition bars_ok :: "prefetch \<Rightarrow> bool" where
  "bars_ok pf \<longleftrightarrow> (\<forall>k n. map_of (pf_states pf) k = Some n \<longrightarrow> n < length (pf_objects pf) \<and> bs_owner (pf_objects pf ! n) = k)"

definition waiting :: "fetch_task list \<Rightarrow> nat \<Rightarrow> nat" where
  "waiting tasks n = length (filter (\<lambda>task. ft_state task = n \<and> ft_phase task = WaitingSlot) tasks)"

definition counts_ok :: "prefetch \<Rightarrow> bool" where
  "counts_ok pf \<longleftrightarrow> (\<forall>n < length (pf_objects pf).
     bs_attempts (pf_objects pf ! n) + waiting (pf_tasks pf) n \<le> length (bs_started (pf_objects pf ! n)))"

lemma waiting_simps [simp]:
  "waiting [] n = 0"
  "waiting (task # tasks) n = (if ft_state task = n \<and> ft_phase task = WaitingSlot then 1 else 0) + waiting tasks n"
  "waiting (xs @ ys) n = waiting xs n + waiting ys n"
  by (simp_all add: waiting_def)

lemma waiting_none: "\<forall>task \<in> set tasks. ft_state task \<noteq> n \<Longrightarrow> waiting tasks n = 0"
  by (induction tasks) auto

definition prefetch_ok :: "prefetch_config \<Rightarrow> prefetch \<Rightarrow> bool" where
  "prefetch_ok fc pf \<longleftrightarrow> tasks_ok pf \<and> bars_ok pf \<and> counts_ok pf \<and> fetching pf \<le> fc_concurrency fc \<and>
     (\<forall>b \<in> set (pf_objects pf). on_schedule fc b)"

lemma set_bar_simps [simp]:
  "pf_objects (set_bar n c pf) ! m = (if m = n \<and> n < length (pf_objects pf) then c (pf_objects pf ! n) else pf_objects pf ! m)"
  "length (pf_objects (set_bar n c pf)) = length (pf_objects pf)"
  "pf_states (set_bar n c pf) = pf_states pf" "pf_tasks (set_bar n c pf) = pf_tasks pf" "fetching (set_bar n c pf) = fetching pf"
  by (cases "n < length (pf_objects pf)") (simp_all add: set_bar_def nth_list_update list_update_beyond fetching_def)

lemma bars_ok_set_bar:
  "bars_ok pf \<Longrightarrow> (\<And>b. bs_owner (c b) = bs_owner b) \<Longrightarrow> bars_ok (set_bar n c pf)"
  by (simp add: bars_ok_def)

lemma bars_ok_tasks [simp]: "bars_ok (pf\<lparr>pf_tasks := ts\<rparr>) = bars_ok pf"
  by (simp add: bars_ok_def)

lemma schedule_set_bar:
  assumes "\<forall>b \<in> set (pf_objects pf). on_schedule fc b" "n < length (pf_objects pf)" "on_schedule fc (c (pf_objects pf ! n))"
  shows "\<forall>b \<in> set (pf_objects (set_bar n c pf)). on_schedule fc b"
  using assms set_update_subset_insert [of "pf_objects pf" n "c (pf_objects pf ! n)"] by (auto simp: set_bar_def)

lemma fetching_append [simp]:
  "fetching (pf\<lparr>pf_objects := bs\<rparr>) = fetching pf" "fetching (pf\<lparr>pf_states := d\<rparr>) = fetching pf"
  by (simp_all add: fetching_def)

lemma fresh_state_ok:
  assumes "prefetch_ok fc pf"
    "b = \<lparr>bs_owner = k, bs_open_ms = open_ms, bs_next_at_ms = open_ms + fc_delay_ms fc, bs_stored = False, bs_in_flight = False,
       bs_attempts = 0, bs_last_error = None, bs_started = [], bs_fetched = []\<rparr>"
  shows "prefetch_ok fc (pf\<lparr>pf_objects := pf_objects pf @ [b], pf_states := dict_set k (length (pf_objects pf)) (pf_states pf)\<rparr>)"
proof -
  let ?pf = "pf\<lparr>pf_objects := pf_objects pf @ [b], pf_states := dict_set k (length (pf_objects pf)) (pf_states pf)\<rparr>"
  have old: "task \<in> set (pf_tasks pf) \<Longrightarrow> ft_state task < length (pf_objects pf)" for task
    using assms(1) by (auto simp: prefetch_ok_def tasks_ok_def)
  have "tasks_ok ?pf"
    using assms old by (auto simp: prefetch_ok_def tasks_ok_def nth_append less_Suc_eq)
  moreover have "bars_ok ?pf"
    using assms by (auto simp: prefetch_ok_def bars_ok_def nth_append map_of_dict_set split: if_splits intro: less_SucI)
  moreover have "waiting (pf_tasks pf) (length (pf_objects pf)) = 0" using old by (intro waiting_none) force
  then have "counts_ok ?pf"
    using assms by (simp add: prefetch_ok_def counts_ok_def nth_append less_Suc_eq)
  moreover have "on_schedule fc b" by (simp add: on_schedule_def assms(2))
  ultimately show ?thesis using assms(1) by (simp add: prefetch_ok_def)
qed

lemma state_for_ok:
  assumes "prefetch_ok fc pf" "state_for fc k open_ms pf = (n, pf')"
  shows "prefetch_ok fc pf'" "n < length (pf_objects pf')" "bs_owner (pf_objects pf' ! n) = k" "bs_open_ms (pf_objects pf' ! n) = open_ms"
  using assms fresh_state_ok [OF assms(1) refl]
  by (auto simp: state_for_def Let_def prefetch_ok_def bars_ok_def split: option.splits if_splits)

lemma on_schedule_start:
  assumes "on_schedule fc b" "bs_next_at_ms b \<le> now" "bs_open_ms b = now - now mod stream_step (bs_owner b)" "0 \<le> fc_retry_ms fc"
  shows "on_schedule fc (b\<lparr>bs_in_flight := True, bs_next_at_ms := now + fc_retry_ms fc, bs_started := bs_started b @ [now]\<rparr>)"
proof -
  have "now < bs_open_ms b + stream_step (bs_owner b)"
    using assms(3) pos_mod_bound [of "stream_step (bs_owner b)" now] stream_step_pos by simp
  moreover have "bs_open_ms b + fc_delay_ms fc \<le> now"
  proof (cases "bs_started b = []")
    case False
    then have "bs_open_ms b + fc_delay_ms fc \<le> last (bs_started b)" "bs_next_at_ms b = last (bs_started b) + fc_retry_ms fc"
      using assms(1) last_in_set [OF False] unfolding on_schedule_def by auto
    then show ?thesis using assms(2,4) by linarith
  qed (use assms in \<open>simp add: on_schedule_def\<close>)
  moreover have "successively (\<lambda>s t. s + fc_retry_ms fc \<le> t) (bs_started b @ [now])"
    using assms(1,2) by (cases "bs_started b = []") (simp_all add: on_schedule_def successively_append_iff)
  ultimately show ?thesis using assms(1) by (auto simp: on_schedule_def)
qed

lemma start_task_ok:
  assumes "prefetch_ok fc pf" "n < length (pf_objects pf)" "\<not> bs_in_flight (pf_objects pf ! n)" "bs_next_at_ms (pf_objects pf ! n) \<le> now"
    "bs_open_ms (pf_objects pf ! n) = now - now mod stream_step k" "bs_owner (pf_objects pf ! n) = k" "0 \<le> fc_retry_ms fc"
  shows "prefetch_ok fc ((set_bar n (\<lambda>b. b\<lparr>bs_in_flight := True, bs_next_at_ms := now + fc_retry_ms fc,
      bs_started := bs_started b @ [now]\<rparr>) pf)
      \<lparr>pf_tasks := pf_tasks pf @ [\<lparr>ft_stream = k, ft_state = n, ft_step_ms = stream_step k, ft_phase = WaitingSlot\<rparr>]\<rparr>)"
    (is "prefetch_ok fc ?pf")
proof -
  have new: "n \<notin> ft_state ` set (pf_tasks pf)" using assms(1,3) unfolding prefetch_ok_def tasks_ok_def by blast
  have "tasks_ok ?pf"
    using assms(1,2,6) new by (auto simp: prefetch_ok_def tasks_ok_def)
  moreover have "bars_ok ?pf" using assms(1) by (simp add: prefetch_ok_def bars_ok_set_bar)
  moreover have "counts_ok ?pf" using assms(1) by (auto simp: prefetch_ok_def counts_ok_def)
  moreover have "fetching ?pf = fetching pf" by (simp add: fetching_def)
  moreover have "\<forall>b \<in> set (pf_objects ?pf). on_schedule fc b"
    using schedule_set_bar [of pf fc n] on_schedule_start [of fc "pf_objects pf ! n" now] assms by (simp add: prefetch_ok_def)
  ultimately show ?thesis using assms(1) by (simp add: prefetch_ok_def)
qed

lemma tick_stream_ok:
  assumes "prefetch_ok fc pf" "0 \<le> fc_retry_ms fc"
  shows "prefetch_ok fc (tick_stream fc elig now k pf)"
proof -
  obtain n pf' where s: "state_for fc k (now - now mod stream_step k) pf = (n, pf')" by force
  note ok = state_for_ok [OF assms(1) s]
  from start_task_ok [OF ok(1,2) _ _ ok(4,3) assms(2)] ok(1) s show ?thesis
    by (simp add: tick_stream_def Let_def)
qed

lemma tick_ok: "prefetch_ok fc pf \<Longrightarrow> 0 \<le> fc_retry_ms fc \<Longrightarrow> prefetch_ok fc (tick fc elig now pf)"
proof -
  have "prefetch_ok fc pf \<Longrightarrow> 0 \<le> fc_retry_ms fc \<Longrightarrow> prefetch_ok fc (fold (tick_stream fc elig now) ks pf)" for ks
    by (induction ks arbitrary: pf) (simp_all add: tick_stream_ok)
  then show "prefetch_ok fc pf \<Longrightarrow> 0 \<le> fc_retry_ms fc \<Longrightarrow> prefetch_ok fc (tick fc elig now pf)" by (simp add: tick_def)
qed

lemma split_task:
  assumes "i < length (pf_tasks pf)"
  obtains xs task ys where "pf_tasks pf = xs @ task # ys" "pf_tasks pf ! i = task" "length xs = i"
    using that [of "take i (pf_tasks pf)" "pf_tasks pf ! i" "drop (Suc i) (pf_tasks pf)"] assms
    by (simp add: id_take_nth_drop [symmetric])

lemma task_state:
  assumes "prefetch_ok fc pf" "task \<in> set (pf_tasks pf)"
  shows "ft_state task < length (pf_objects pf)" "bs_in_flight (pf_objects pf ! ft_state task)"
    "ft_step_ms task = stream_step (bs_owner (pf_objects pf ! ft_state task))"
  using assms by (auto simp: prefetch_ok_def tasks_ok_def)

lemma tasks_ok_remove:
  assumes "tasks_ok pf" "pf_tasks pf = xs @ task # ys" "pf_tasks pf' = xs @ ys"
    "pf_objects pf' = pf_objects (set_bar (ft_state task) (\<lambda>b. b\<lparr>bs_in_flight := False\<rparr>) pf)"
  shows "tasks_ok pf'"
proof -
  have d: "distinct (map ft_state (xs @ task # ys))" using assms(1,2) by (simp only: tasks_ok_def)
  then have keep: "m \<in> ft_state ` set (pf_tasks pf') \<longleftrightarrow> m \<in> ft_state ` set (pf_tasks pf) \<and> m \<noteq> ft_state task" for m
    unfolding assms(2,3) by (simp add: image_Un) blast
  have flight: "m \<in> ft_state ` set (pf_tasks pf) \<longleftrightarrow> m < length (pf_objects pf) \<and> bs_in_flight (pf_objects pf ! m)" for m
    using assms(1) unfolding tasks_ok_def by blast
  have "distinct (map ft_state (pf_tasks pf'))" using d by (simp add: assms(3))
  moreover have "m \<in> ft_state ` set (pf_tasks pf') \<longleftrightarrow> m < length (pf_objects pf') \<and> bs_in_flight (pf_objects pf' ! m)" for m
    unfolding keep flight by (auto simp: assms(4))
  moreover have "ft_step_ms x = stream_step (bs_owner (pf_objects pf' ! ft_state x))" if "x \<in> set (pf_tasks pf')" for x
  proof -
    have "x \<in> set (pf_tasks pf)" using that by (auto simp: assms(2,3))
    then have "ft_step_ms x = stream_step (bs_owner (pf_objects pf ! ft_state x))" using assms(1) unfolding tasks_ok_def by blast
    then show ?thesis by (simp add: assms(4))
  qed
  ultimately show ?thesis unfolding tasks_ok_def by blast
qed

lemma end_task_ok:
  assumes "prefetch_ok fc pf" "i < length (pf_tasks pf)"
  shows "prefetch_ok fc (end_task i pf)"
proof -
  obtain xs task ys where t: "pf_tasks pf = xs @ task # ys" "pf_tasks pf ! i = task" "length xs = i"
    using split_task [OF assms(2)] .
  have new: "pf_tasks (end_task i pf) = xs @ ys" using t by (auto simp: end_task_def)
  have ob: "pf_objects (end_task i pf) = pf_objects (set_bar (ft_state task) (\<lambda>b. b\<lparr>bs_in_flight := False\<rparr>) pf)"
    by (simp add: end_task_def t(2))
  have n: "ft_state task < length (pf_objects pf)" using task_state [OF assms(1)] t(1) by simp
  have "tasks_ok (end_task i pf)" using tasks_ok_remove [OF _ t(1) new ob] assms(1) by (simp add: prefetch_ok_def)
  moreover have "bars_ok (end_task i pf)" using assms(1) by (simp add: end_task_def prefetch_ok_def bars_ok_set_bar)
  moreover have "waiting (xs @ ys) m \<le> waiting (pf_tasks pf) m" for m by (simp add: t(1))
  then have "counts_ok (end_task i pf)"
    using assms(1) by (auto simp: prefetch_ok_def counts_ok_def new ob simp del: waiting_simps intro: order_trans [OF add_left_mono])
  moreover have "fetching (end_task i pf) \<le> fetching pf" by (simp add: fetching_def new t(1))
  moreover have "\<forall>b \<in> set (pf_objects (end_task i pf)). on_schedule fc b"
    unfolding ob using assms(1) n by (intro schedule_set_bar) (simp_all add: prefetch_ok_def on_schedule_def)
  ultimately show ?thesis using assms(1) by (simp add: prefetch_ok_def)
qed

lemma start_fetch_ok:
  assumes "prefetch_ok fc pf" "attempt_start fc elig now i pf = Some pf'"
  shows "prefetch_ok fc pf'"
proof -
  have i: "i < length (pf_tasks pf)" "ft_phase (pf_tasks pf ! i) = WaitingSlot" "fetching pf < fc_concurrency fc"
    using assms(2) by (auto simp: attempt_start_def split: if_splits)
  obtain xs task ys where t: "pf_tasks pf = xs @ task # ys" "pf_tasks pf ! i = task" "length xs = i"
    using split_task [OF i(1)] .
  let ?b = "pf_objects pf ! ft_state task"
  have "task \<in> set (pf_tasks pf)" by (simp add: t(1))
  note st = task_state [OF assms(1) this]
  show ?thesis
  proof (cases "bs_stored ?b \<or> now \<ge> bs_open_ms ?b + ft_step_ms task \<or> \<not> elig (ft_stream task)")
    case True
    then show ?thesis using assms i t(2) end_task_ok [OF assms(1) i(1)] by (simp add: attempt_start_def Let_def)
  next
    case False
    let ?c = "\<lambda>b. b\<lparr>bs_attempts := Suc (bs_attempts b), bs_fetched := bs_fetched b @ [now]\<rparr>"
    have pf': "pf_tasks pf' = xs @ task\<lparr>ft_phase := Fetching\<rparr> # ys" "pf_objects pf' = pf_objects (set_bar (ft_state task) ?c pf)"
      "pf_states pf' = pf_states pf"
      using assms(2) i False t by (auto simp: attempt_start_def Let_def)
    have "tasks_ok pf'" using assms(1) by (simp add: prefetch_ok_def tasks_ok_def pf'(1,2) t(1))
    moreover have "bars_ok pf'" using assms(1) by (simp add: prefetch_ok_def bars_ok_def pf'(2,3))
    moreover have "counts_ok pf'" unfolding counts_ok_def
    proof (intro allI impI)
      fix m assume "m < length (pf_objects pf')"
      then have "bs_attempts (pf_objects pf ! m) + waiting (pf_tasks pf) m \<le> length (bs_started (pf_objects pf ! m))"
        using assms(1) by (simp add: prefetch_ok_def counts_ok_def pf'(2))
      then show "bs_attempts (pf_objects pf' ! m) + waiting (pf_tasks pf') m \<le> length (bs_started (pf_objects pf' ! m))"
        using i(2) t(2) by (auto simp: pf'(1,2) t(1))
    qed
    moreover have "fetching pf' = Suc (fetching pf)" using i(2) t(2) by (simp add: fetching_def pf'(1) t(1))
    moreover have "on_schedule fc (?c ?b)" using assms(1) st False by (auto simp: prefetch_ok_def on_schedule_def)
    then have "\<forall>b \<in> set (pf_objects pf'). on_schedule fc b"
      unfolding pf'(2) using assms(1) st(1) by (intro schedule_set_bar) (simp_all add: prefetch_ok_def)
    ultimately show ?thesis using assms(1) i(3) by (simp add: prefetch_ok_def)
  qed
qed

lemma end_fetch_ok:
  assumes "prefetch_ok fc pf" "attempt_finish result i pf = Some pf'"
  shows "prefetch_ok fc pf'"
proof -
  let ?c = "\<lambda>b. case result of
       Inl e \<Rightarrow> b\<lparr>bs_last_error := Some (class_name (exn_cls e) @ '': '' @ exn_str e)\<rparr>
     | Inr has_point \<Rightarrow> b\<lparr>bs_last_error := (if has_point then None else Some ''not published yet''), bs_stored := bs_stored b \<or> has_point\<rparr>"
  have i: "i < length (pf_tasks pf)" "pf' = end_task i (set_bar (ft_state (pf_tasks pf ! i)) ?c pf)"
    using assms(2) by (auto simp: attempt_finish_def split: if_splits)
  have c [simp]: "bs_owner (?c b) = bs_owner b" "bs_in_flight (?c b) = bs_in_flight b" "bs_attempts (?c b) = bs_attempts b"
    "bs_started (?c b) = bs_started b" "on_schedule fc (?c b) = on_schedule fc b" for b
    by (simp_all add: on_schedule_def split: sum.split)
  have n: "ft_state (pf_tasks pf ! i) < length (pf_objects pf)" using task_state [OF assms(1) nth_mem [OF i(1)]] by simp
  have "prefetch_ok fc (set_bar (ft_state (pf_tasks pf ! i)) ?c pf)"
    using assms(1) n schedule_set_bar [of pf fc "ft_state (pf_tasks pf ! i)" ?c]
    by (simp add: prefetch_ok_def bars_ok_set_bar tasks_ok_def counts_ok_def)
  then show ?thesis using end_task_ok [of fc "set_bar (ft_state (pf_tasks pf ! i)) ?c pf" i] i by simp
qed

lemma prefetch_reach_ok: "prefetch_reach fc pf \<Longrightarrow> 0 \<le> fc_retry_ms fc \<Longrightarrow> prefetch_ok fc pf"
proof (induction rule: prefetch_reach.induct)
  case start
  then show ?case
    by (simp add: prefetch_ok_def mk_prefetch_def tasks_ok_def bars_ok_def counts_ok_def fetching_def)
qed (use tick_ok start_fetch_ok end_fetch_ok in blast)+

lemma gaps_add_up:
  assumes "successively (\<lambda>s t. s + r \<le> t) xs" "xs \<noteq> []"
  shows "hd xs + int (length xs - 1) * r \<le> last xs"
  using assms
proof (induction xs rule: induct_list012)
  case (3 x y zs)
  then have "y + int (length zs) * r \<le> last (y # zs)" "x + r \<le> y" by simp_all
  then show ?case by (simp add: algebra_simps)
qed simp_all

text \<open>
  C26. The prefetch keeps its schedule and its limits, whatever the clock, the eligibility of the streams and
  the fetches do. At no time more than \<open>concurrency\<close> fetches run, and no bar of a stream has two attempts
  at once. For every bar, attempts are started no earlier than the delay after its open and before its close, at
  least the retry interval apart, and no fetch for it begins after its close; so the number of fetches of one
  bar is bounded by the length of the bar.
\<close>

theorem prefetch_disciplined:
  assumes "prefetch_reach fc pf" "0 \<le> fc_retry_ms fc"
  shows "fetching pf \<le> fc_concurrency fc \<and> distinct (map ft_state (pf_tasks pf)) \<and>
    (\<forall>b \<in> set (pf_objects pf).
       (\<forall>t \<in> set (bs_started b). bs_open_ms b + fc_delay_ms fc \<le> t \<and> t < bs_open_ms b + stream_step (bs_owner b)) \<and>
       successively (\<lambda>s t. s + fc_retry_ms fc \<le> t) (bs_started b) \<and>
       (\<forall>t \<in> set (bs_fetched b). t < bs_open_ms b + stream_step (bs_owner b)) \<and>
       (0 < bs_attempts b \<longrightarrow> int (bs_attempts b - 1) * fc_retry_ms fc < stream_step (bs_owner b) - fc_delay_ms fc))"
proof -
  have ok: "prefetch_ok fc pf" using prefetch_reach_ok assms by blast
  have bound: "int (bs_attempts b - 1) * fc_retry_ms fc < stream_step (bs_owner b) - fc_delay_ms fc"
    if b: "b \<in> set (pf_objects pf)" "0 < bs_attempts b" for b
  proof -
    have s: "on_schedule fc b" using ok b(1) by (simp add: prefetch_ok_def)
    obtain n where "n < length (pf_objects pf)" "b = pf_objects pf ! n" using b(1) by (auto simp: in_set_conv_nth)
    then have le: "bs_attempts b \<le> length (bs_started b)" using ok by (fastforce simp: prefetch_ok_def counts_ok_def)
    then have ne: "bs_started b \<noteq> []" using b(2) by auto
    have "hd (bs_started b) + int (length (bs_started b) - 1) * fc_retry_ms fc \<le> last (bs_started b)"
      using gaps_add_up ne s by (auto simp: on_schedule_def)
    moreover have "int (bs_attempts b - 1) * fc_retry_ms fc \<le> int (length (bs_started b) - 1) * fc_retry_ms fc"
      using le assms(2) by (intro mult_right_mono) simp_all
    moreover have "bs_open_ms b + fc_delay_ms fc \<le> hd (bs_started b)" "last (bs_started b) < bs_open_ms b + stream_step (bs_owner b)"
      using s hd_in_set [OF ne] last_in_set [OF ne] unfolding on_schedule_def by blast+
    ultimately show ?thesis by linarith
  qed
  have "on_schedule fc b" if "b \<in> set (pf_objects pf)" for b using ok that by (simp add: prefetch_ok_def)
  moreover have "fetching pf \<le> fc_concurrency fc" "distinct (map ft_state (pf_tasks pf))"
    using ok by (simp_all add: prefetch_ok_def tasks_ok_def)
  ultimately show ?thesis using bound unfolding on_schedule_def by blast
qed

section \<open>Only ready bars are announced\<close>

lemma published_through_tracks:
  assumes "published_through (f\<lparr>rf_expected_open_time_ms := e\<rparr>) t"
  shows "rf_subscription_active f \<and> rf_recovery_restored f \<and> \<not> rf_recovery_pending f \<and> rf_fatal_error_code f = None \<and>
    (\<exists>c. rf_last_successful_open_time_ms f = Some c \<and> t \<le> c) \<and>
    (rf_open_interest_required f \<longrightarrow> (\<exists>c. rf_last_open_interest_open_time_ms f = Some c \<and> t \<le> c))"
  using assms by (auto simp: published_through_def data_ready_def continuity_frontier_ms_def split: option.splits if_splits)

lemma supervisor_facts_read:
  assumes "supervisor_facts clk k sv = (Inr f, sv')"
  obtains g e where "g \<in> set (sv_facts sv')" "rf_stream g = k" "f = g\<lparr>rf_expected_open_time_ms := e\<rparr>"
proof -
  obtain g where g: "find (\<lambda>f. rf_stream f = k) (sv_facts sv) = Some g"
    using assms by (auto simp: supervisor_facts_def facts_of_def bindE_def split: option.splits)
  then have "g \<in> set (sv_facts sv)" "rf_stream g = k" by (auto simp: find_Some_iff)
  moreover have "f = g\<lparr>rf_expected_open_time_ms := Some (expected_at (sv_grace_ms sv) (rf_stream g) (clk (sv_ticks sv)))\<rparr>"
      "sv' = sv\<lparr>sv_ticks := Suc (sv_ticks sv)\<rparr>"
    using assms g
    by (simp_all add: supervisor_facts_def facts_of_def as_of_now_def sup_now_def bindE_def returnE_def readE_def expected_open_ms_run)
  ultimately show ?thesis using that by simp
qed

lemma publication_streams_get:
  "map_of (publication_streams streams) (ticker (sk_instrument k), sk_timeframe k) = (if k \<in> set streams then Some k else None)"
proof -
  have "map_of (fold (\<lambda>stream d. dict_set (ticker (sk_instrument stream), sk_timeframe stream) stream d) streams d)
      (ticker (sk_instrument k), sk_timeframe k) =
      (if k \<in> set streams then Some k else map_of d (ticker (sk_instrument k), sk_timeframe k))" for d
    by (induction streams arbitrary: d)
      (auto simp: map_of_dict_set intro: stream_key.expand instrument_key.expand)
  then show ?thesis by (simp add: publication_streams_def)
qed

definition notes_are :: "bar_note list \<Rightarrow> bar_note list \<Rightarrow> runtime \<Rightarrow> bool" where
  "notes_are notes sent = core_is (\<lambda>(fs, g, vw, n, s). n = notes \<and> s = sent)"

lemma notes_are_iff: "notes_are notes sent r \<longleftrightarrow> ru_notes r = notes \<and> ru_sent r = sent"
  by (simp add: notes_are_def core_is_def core_def)

lemma keeps_notes [keeps_intro]:
  "keeps (notes_are notes sent) (in_supervisor m)" "keeps (notes_are notes sent) (in_world v)"
  "keeps (notes_are notes sent) (request_recovery sig)"
  "keeps (notes_are notes sent) (on_open_interest_changed co k)"
proof -
  show "keeps (notes_are notes sent) (in_supervisor m)" "keeps (notes_are notes sent) (in_world v)"
    by (rule keepsI; simp add: notes_are_iff in_supervisor_def in_world_def split: prod.split)+
  have "keeps (notes_are notes sent) (coordinator_enqueue sig)"
    by (rule keepsI) (simp add: notes_are_iff coordinator_enqueue_def updateE_def)
  moreover have "keeps (notes_are notes sent) (allows k)" for k unfolding notes_are_def by (intro keeps_intro)
  ultimately show "keeps (notes_are notes sent) (request_recovery sig)"
    unfolding request_recovery_def by (intro keeps_intro)
  show "keeps (notes_are notes sent) (on_open_interest_changed co k)"
    unfolding on_open_interest_changed_def notes_are_def by (intro keeps_intro)
qed

lemma keeps_notes_prepare [keeps_intro]:
  "keeps (notes_are notes sent) (prepare_rest co k t has_point)"
  "keeps (notes_are notes sent) (prepare co streams fetch_point note)"
  unfolding prepare_def prepare_rest_def observe_stored_def
  by (intro keeps_intro | (cases "map_of (publication_streams streams) (bn_instrument note, bn_timeframe note)"; simp))+

lemma prepare_true:
  assumes "prepare co streams fetch_point (bar_notification k t) r = (Inr True, r')" "k \<in> set streams"
  obtains f e where "f \<in> set (sv_facts (ru_supervisor r'))" "rf_stream f = k" "published_through (f\<lparr>rf_expected_open_time_ms := e\<rparr>) t"
proof -
  obtain v r1 where run: "prepare_rest co k t v r1 = (Inr True, r')"
    using assms by (auto simp: prepare_def bar_notification_def publication_streams_get tryE_def bindE_def split: prod.splits)
  then obtain r2 f sv where f: "supervisor_facts (co_clock co) k (ru_supervisor r2) = (Inr f, sv)" "published_through f t"
      "r' = r2\<lparr>ru_supervisor := sv\<rparr>"
    by (auto simp: prepare_rest_def bindE_eq_Inr in_part_Inr returnE_def)
  show ?thesis using supervisor_facts_read [OF f(1)] f(2,3) that by auto
qed

text \<open>
  C25. A bar is only announced when its stream is ready through it. When the worker has handled a note, the
  note has left the queue and was either sent or held back. A note of a stream without the open interest flag
  is always sent; one of a flagged stream is sent only when the supervisor then holds facts of the stream that
  are subscribed, restored, without pending recovery and without fatal error, and whose candle frontier, and
  open interest frontier if required, have reached the bar. A failed fetch never raises.
\<close>

theorem only_ready_bars_announced:
  assumes "ru_notes r = bar_notification k t # rest" "deliver_note co streams fetch_point r = (Inr (), r')"
  shows "ru_notes r' = rest \<and>
    (ru_sent r' = ru_sent r \<and> k \<in> set streams \<or>
     ru_sent r' = ru_sent r @ [bar_notification k t] \<and>
     (k \<in> set streams \<longrightarrow> (\<exists>f \<in> set (sv_facts (ru_supervisor r')). rf_stream f = k \<and>
        rf_subscription_active f \<and> rf_recovery_restored f \<and> \<not> rf_recovery_pending f \<and> rf_fatal_error_code f = None \<and>
        (\<exists>c. rf_last_successful_open_time_ms f = Some c \<and> t \<le> c) \<and>
        (rf_open_interest_required f \<longrightarrow> (\<exists>c. rf_last_open_interest_open_time_ms f = Some c \<and> t \<le> c)))))"
proof -
  obtain res r1 where p1: "prepare co streams fetch_point (bar_notification k t) (r\<lparr>ru_notes := rest\<rparr>) = (res, r1)" by force
  then obtain b where res: "res = Inr b" and r': "r' = (if b then r1\<lparr>ru_sent := ru_sent r1 @ [bar_notification k t]\<rparr> else r1)"
    using assms by (cases res) (simp_all add: deliver_note_def bindE_def updateE_def returnE_def split: if_splits)
  note p = p1 [unfolded res]
  have kept: "ru_notes r1 = rest" "ru_sent r1 = ru_sent r"
    using valid_Inr [OF keeps_notes_prepare(2) _ p, of rest "ru_sent r"] by (simp_all add: notes_are_iff)
  have unflagged: "b" if "k \<notin> set streams"
    using p that by (auto simp: prepare_def bar_notification_def publication_streams_get returnE_def)
  have flagged: "\<exists>f \<in> set (sv_facts (ru_supervisor r1)). rf_stream f = k \<and> (\<exists>e. published_through (f\<lparr>rf_expected_open_time_ms := e\<rparr>) t)"
    if "b" "k \<in> set streams"
    using prepare_true [of co streams fetch_point k t "r\<lparr>ru_notes := rest\<rparr>" r1] p that by metis
  show ?thesis
  proof (cases b)
    case True
    then show ?thesis using r' kept flagged published_through_tracks by fastforce
  next
    case False
    then show ?thesis using r' kept unflagged by auto
  qed
qed

section \<open>Instances\<close>

definition example_prefetch_config :: prefetch_config where
  "example_prefetch_config = \<lparr>fc_streams = [example_stream], fc_delay_ms = 5000, fc_retry_ms = 10000, fc_concurrency = 2\<rparr>"

definition example_prefetch :: prefetch where
  "example_prefetch = the (attempt_start example_prefetch_config (\<lambda>_. True) 66000 0
     (tick example_prefetch_config (\<lambda>_. True) 65000 (tick example_prefetch_config (\<lambda>_. True) 64000 mk_prefetch)))"

lemma example_prefetch_reach: "prefetch_reach example_prefetch_config example_prefetch"
proof -
  let ?two = "tick example_prefetch_config (\<lambda>_. True) 65000 (tick example_prefetch_config (\<lambda>_. True) 64000 mk_prefetch)"
  have "case attempt_start example_prefetch_config (\<lambda>_. True) 66000 0 ?two of None \<Rightarrow> False | Some pf \<Rightarrow> True" by code_simp
  then have "attempt_start example_prefetch_config (\<lambda>_. True) 66000 0 ?two = Some example_prefetch"
    by (simp add: example_prefetch_def split: option.splits)
  from prefetch_reach.begin_fetch [OF prefetch_reach.tick [OF prefetch_reach.tick [OF prefetch_reach.start]] this] show ?thesis .
qed

theorem prefetch_disciplined_witness:
  "map bs_started (pf_objects example_prefetch) = [[65000]] \<and> map bs_fetched (pf_objects example_prefetch) = [[66000]] \<and>
   fetching example_prefetch \<le> 2 \<and> list_all (\<lambda>b. list_all (\<lambda>t. t < 120000) (bs_fetched b)) (pf_objects example_prefetch)"
proof -
  have v: "map bs_started (pf_objects example_prefetch) = [[65000]]" "map bs_fetched (pf_objects example_prefetch) = [[66000]]"
    "map bs_open_ms (pf_objects example_prefetch) = [60000]" "map bs_owner (pf_objects example_prefetch) = [example_stream]"
    "stream_step example_stream = 60000" by code_simp+
  have "0 \<le> fc_retry_ms example_prefetch_config" "fc_concurrency example_prefetch_config = 2" by (simp_all add: example_prefetch_config_def)
  with prefetch_disciplined [OF example_prefetch_reach this(1)] v show ?thesis by (auto simp: map_eq_Cons_conv list_all_iff)
qed

definition announcing_runtime :: runtime where
  "announcing_runtime = (example_runtime [(example_facts 0)\<lparr>rf_open_interest_required := True,
      rf_last_successful_open_time_ms := Some 180000, rf_last_open_interest_open_time_ms := Some 120000\<rparr>])
      \<lparr>ru_notes := [bar_notification example_stream 180000]\<rparr>"

lemma announcing_runs:
  "\<exists>r'. deliver_note example_coordinator [example_stream] (\<lambda>_ _. returnE True) announcing_runtime = (Inr (), r') \<and>
     ru_sent r' = [bar_notification example_stream 180000]"
proof -
  have "fst (deliver_note example_coordinator [example_stream] (\<lambda>_ _. returnE True) announcing_runtime) = Inr ()"
    "ru_sent (snd (deliver_note example_coordinator [example_stream] (\<lambda>_ _. returnE True) announcing_runtime)) =
       [bar_notification example_stream 180000]" by code_simp+
  then show ?thesis
    by (cases "deliver_note example_coordinator [example_stream] (\<lambda>_ _. returnE True) announcing_runtime") auto
qed

theorem only_ready_bars_announced_witness:
  "\<exists>r'. deliver_note example_coordinator [example_stream] (\<lambda>_ _. returnE True) announcing_runtime = (Inr (), r') \<and>
     ru_sent r' = [bar_notification example_stream 180000] \<and>
     (\<exists>f \<in> set (sv_facts (ru_supervisor r')). rf_stream f = example_stream \<and>
        (\<exists>c. rf_last_successful_open_time_ms f = Some c \<and> 180000 \<le> c))"
proof -
  obtain r' where r: "deliver_note example_coordinator [example_stream] (\<lambda>_ _. returnE True) announcing_runtime = (Inr (), r')"
    "ru_sent r' = [bar_notification example_stream 180000]" using announcing_runs by blast
  have n: "ru_notes announcing_runtime = bar_notification example_stream 180000 # []" "ru_sent announcing_runtime = []"
    by (simp_all add: announcing_runtime_def example_runtime_def)
  from only_ready_bars_announced [OF n(1) r(1)] r n(2) show ?thesis by auto
qed

end
