(* ===== verification/Orchestration.thy ===== *)
theory Orchestration
  imports Publication
begin

text \<open>
  The running service as one transition system: the steps the tasks of the event loop take on the shared
  state of the coordinator, between two suspensions, in any order. What holds of all of them together: the
  recovery worker only ever works for admitted streams, each of them has at most one intent, and a stream whose
  supervisor waits for a recovery has one, unless it was handed over while the supervisor was already waiting.
\<close>

section \<open>Steps\<close>

datatype rt_op =
    RtEvent realtime_event
  | RtOutcome realtime_outcome
  | RtHandoff stream_key
  | RtStale
  | RtPublish stream_key int bool
  | RtTake rat
  | RtBegin
  | RtSettle rat recovery_result
  | RtWorld world

text \<open>\<open>RtPublish\<close> is what \<open>prepare\<close> does after the fetch, and \<open>RtWorld\<close> whatever the other tasks and threads do
  to the database: recoveries, imports, fetches of points.\<close>

fun rt_step :: "coordinator \<Rightarrow> stream_key list \<Rightarrow> rt_op \<Rightarrow> unit rt" where
  "rt_step co flagged (RtEvent event) = on_event co event"
| "rt_step co flagged (RtOutcome outcome) = on_outcome co outcome"
| "rt_step co flagged (RtHandoff stream) = handoff co flagged stream"
| "rt_step co flagged RtStale = stale_round co"
| "rt_step co flagged (RtPublish stream t has_point) = bindE (prepare_rest co stream t has_point) (\<lambda>_. returnE ())"
| "rt_step co flagged (RtTake now) = take_recovery co now"
| "rt_step co flagged RtBegin = bindE (begin_recovery co) (\<lambda>_. returnE ())"
| "rt_step co flagged (RtSettle now result) = settle_recovery co now False result"
| "rt_step co flagged (RtWorld w) = updateE (\<lambda>r. Inr (r\<lparr>ru_world := w\<rparr>))"

definition wanting :: "supervisor \<Rightarrow> stream_key set" where
  "wanting sv = rf_stream ` {f \<in> set (sv_facts sv). rf_recovery_pending f}"

text \<open>The worker takes an intent when it runs none, and settles the one whose request has run; a handoff is
  \<open>calm\<close> when the supervisor does not wait for a recovery of the stream, or the stream is admitted already.\<close>

fun rt_enabled :: "rt_op \<Rightarrow> runtime \<Rightarrow> bool" where
  "rt_enabled (RtTake now) r \<longleftrightarrow> vw_running (ru_recovery r) = None"
| "rt_enabled (RtSettle now result) r \<longleftrightarrow> vw_running (ru_recovery r) \<noteq> None"
| "rt_enabled op r \<longleftrightarrow> True"

fun calm :: "rt_op \<Rightarrow> runtime \<Rightarrow> bool" where
  "calm (RtHandoff stream) r \<longleftrightarrow> stream \<notin> wanting (ru_supervisor r) \<or> gate_allows (ru_gate r) stream"
| "calm op r \<longleftrightarrow> True"

inductive rt_run :: "coordinator \<Rightarrow> stream_key list \<Rightarrow> runtime \<Rightarrow> rt_op list \<Rightarrow> runtime \<Rightarrow> bool" for co flagged where
  start: "rt_run co flagged r [] r"
| step: "rt_run co flagged r ops r' \<Longrightarrow> rt_enabled op r' \<Longrightarrow> calm op r' \<Longrightarrow> rt_step co flagged op r' = (Inr (), r'') \<Longrightarrow>
    rt_run co flagged r (ops @ [op]) r''"

section \<open>Whoever asks for a recovery says so\<close>

text \<open>An operation of the supervisor sets a recovery pending only for streams it returns a signal for.\<close>

definition asks :: "stream_key set \<Rightarrow> supervisor \<Rightarrow> bool" where
  "asks S sv \<longleftrightarrow> wanting sv \<subseteq> S"

abbreviation announces :: "stream_key set \<Rightarrow> recovery_required list sup \<Rightarrow> bool" where
  "announces S m \<equiv> valid (asks S) m (\<lambda>sigs. asks (S \<union> rc_stream ` set sigs)) (\<lambda>_ _. True)"

lemma asks_mono: "asks S sv \<Longrightarrow> S \<subseteq> T \<Longrightarrow> asks T sv"
  by (auto simp: asks_def)

lemma update_facts_Inr:
  assumes "update_facts k change sv = (Inr x, sv')"
  obtains f where "f \<in> set (sv_facts sv)" "rf_stream f = k"
    "sv_facts sv' = map (\<lambda>g. if rf_stream g = k then change f else g) (sv_facts sv)"
proof -
  obtain f where f: "find (\<lambda>f. rf_stream f = k) (sv_facts sv) = Some f"
    and sv': "sv_facts sv' = map (\<lambda>g. if rf_stream g = k then change f else g) (sv_facts sv)"
    using assms by (auto simp: update_facts_def facts_of_def put_facts_def bindE_def split: option.splits)
  have "f \<in> set (sv_facts sv)" "rf_stream f = k" using f by (auto simp: find_Some_iff)
  then show ?thesis using sv' that by blast
qed

lemma asks_update:
  assumes "\<And>f. rf_stream (change f) = rf_stream f" "\<And>f. rf_recovery_pending (change f) \<Longrightarrow> \<not> rf_recovery_pending f \<Longrightarrow> k \<in> T"
    "S \<subseteq> T"
  shows "valid (asks S) (update_facts k change) (\<lambda>_. asks T) (\<lambda>_ _. True)"
proof (rule validI)
  fix sv sv' x assume a: "asks S sv" "update_facts k change sv = (Inr x, sv')"
  obtain f where g: "f \<in> set (sv_facts sv)" "rf_stream f = k"
    and sv': "sv_facts sv' = map (\<lambda>g. if rf_stream g = k then change f else g) (sv_facts sv)"
    using update_facts_Inr [OF a(2)] .
  have "rf_stream h \<in> T" if "h \<in> set (sv_facts sv')" "rf_recovery_pending h" for h
  proof (cases "h = change f \<and> k = rf_stream h")
    case True
    show ?thesis
    proof (cases "rf_recovery_pending f")
      case True
      then have "k \<in> S" using g a(1) by (auto simp: asks_def wanting_def)
      then show ?thesis using \<open>h = change f \<and> k = rf_stream h\<close> assms(3) by auto
    qed (use True assms(2) that(2) in blast)
  next
    case False
    then have "h \<in> set (sv_facts sv)" using that(1) sv' assms(1) g(2) by auto
    then show ?thesis using a(1) that(2) assms(3) by (auto simp: asks_def wanting_def)
  qed
  then show "asks T sv'" by (auto simp: asks_def wanting_def)
qed simp

lemma keeps_asks_update:
  assumes "\<And>f. rf_stream (change f) = rf_stream f" "\<And>f. rf_recovery_pending (change f) \<longrightarrow> rf_recovery_pending f"
  shows "valid (asks S) (update_facts k change) (\<lambda>_. asks S) (\<lambda>_ _. True)"
  by (rule asks_update) (use assms in auto)

lemma require_asks: "valid (asks S) (require_recovery k st e) (\<lambda>_. asks (insert k S)) (\<lambda>_ _. True)"
  unfolding require_recovery_def by (rule asks_update) (auto simp: required_facts_def)

lemma signal_asks: "valid (asks (insert k S)) (signal clk k reason e) (\<lambda>sigs. asks (S \<union> rc_stream ` set sigs)) (\<lambda>_ _. True)"
  by (rule validI)
    (auto simp: signal_def facts_of_def sup_now_def bindE_def returnE_def Let_def asks_def wanting_def split: option.splits prod.splits)

lemma valid_if: "valid P m Q R \<Longrightarrow> valid P n Q R \<Longrightarrow> valid P (if b then m else n) Q R"
  by simp

lemma asks_return: "valid (asks (S \<union> rc_stream ` set sigs)) (returnE sigs) (\<lambda>sigs. asks (S \<union> rc_stream ` set sigs)) (\<lambda>_ _. True)"
  by (rule validI) (auto simp: returnE_def)

lemma asks_basic:
  "valid (asks S) (readE g) (\<lambda>_. asks S) (\<lambda>_ _. True)" "valid (asks S) (sup_now clk) (\<lambda>_. asks S) (\<lambda>_ _. True)"
  "valid (asks S) (set_disconnected b) (\<lambda>_. asks S) (\<lambda>_ _. True)"
  "valid (asks S) (facts_of k) (\<lambda>_. asks S) (\<lambda>_ _. True)"
  by (rule validI; auto simp: readE_def sup_now_def set_disconnected_def facts_of_def asks_def wanting_def split: sum.splits option.splits)+

lemma asks_map_facts:
  assumes "\<And>f. rf_stream (change f) = rf_stream f" "\<And>f. rf_recovery_pending (change f) = rf_recovery_pending f"
  shows "valid (asks S) (map_facts change) (\<lambda>_. asks S) (\<lambda>_ _. True)"
  by (rule validI) (use assms in \<open>auto simp: map_facts_def asks_def wanting_def image_subset_iff\<close>)

lemma asks_silent:
  assumes "valid (asks S) m (\<lambda>_. asks S) (\<lambda>_ _. True)"
  shows "announces S (bindE m (\<lambda>_. returnE []))"
  by (rule valid_bindE [OF assms]) (use asks_return [of S "[]"] in simp)

lemma confirm_asks:
  "valid (asks (S \<union> rc_stream ` set signals)) (confirm_topics clk again tm topics signals)
     (\<lambda>sigs. asks (S \<union> rc_stream ` set sigs)) (\<lambda>_ _. True)"
proof (induction topics arbitrary: signals)
  case (Cons topic topics)
  have sub: "valid (asks T) (subscribe stream tm) (\<lambda>_. asks T) (\<lambda>_ _. True)" for T stream
    unfolding subscribe_def by (rule keeps_asks_update) simp_all
  have sig: "valid (asks (insert stream (S \<union> rc_stream ` set signals))) (signal clk stream DISCONNECT None)
      (\<lambda>new. asks (S \<union> rc_stream ` set (signals @ new))) (\<lambda>_ _. True)" for stream
    using signal_asks [of stream "S \<union> rc_stream ` set signals"] by (simp add: image_Un Un_assoc)
  show ?case
    unfolding confirm_topics.simps
    by (intro valid_bindE [OF asks_basic(1)] valid_bindE [OF sub] valid_if valid_bindE [OF require_asks] valid_bindE [OF sig] Cons.IH)
qed (use asks_return in simp)

lemma event_asks: "announces S (observe_event clk e)"
proof (cases e)
  case (CandleObserved stream candle)
  have "valid (asks S) (observe_candle stream candle) (\<lambda>_. asks S) (\<lambda>_ _. True)"
    unfolding observe_candle_def by (rule keeps_asks_update) simp_all
  then show ?thesis using CandleObserved by (simp add: asks_silent)
next
  case (SubscriptionConfirmed topics tm)
  have "announces S (confirm_topics clk again tm topics [])" for again using confirm_asks [of S "[]"] by simp
  then show ?thesis unfolding SubscriptionConfirmed observe_event.simps subscriptions_confirmed_def
    by (intro valid_bindE [OF asks_basic(1)] valid_bindE [OF asks_basic(3)])
next
  case (Connected tm)
  then show ?thesis by (simp add: touch_all_def asks_silent asks_map_facts)
next
  case (HeartbeatObserved tm)
  then show ?thesis by (simp add: touch_subscribed_def asks_silent asks_map_facts)
next
  case (Stopped tm)
  then show ?thesis by (simp add: mark_stopped_def asks_silent asks_map_facts)
qed (simp_all add: lost_connection_def mark_disconnected_def asks_silent asks_map_facts valid_bindE [OF asks_basic(3)])

lemma required_signal_asks: "announces S (bindE (require_recovery k st e) (\<lambda>_. signal clk k reason h))"
  by (rule valid_bindE [OF require_asks signal_asks])

lemma asks_none: "announces S (returnE [])"
  using asks_return [of S "[]"] by simp

lemma outcome_asks: "announces S (observe_outcome clk oc)"
proof -
  have failed: "valid (asks S) (record_failed oc) (\<lambda>_. asks S) (\<lambda>_ _. True)"
    unfolding record_failed_def by (rule keeps_asks_update) simp_all
  have rejected: "valid (asks S) (record_rejected oc) (\<lambda>_. asks (insert (rt_stream oc) S)) (\<lambda>_ _. True)"
    unfolding record_rejected_def by (rule asks_update) auto
  have success: "valid (asks S) (record_success oc) (\<lambda>_. asks S) (\<lambda>_ _. True)"
    unfolding record_success_update
    by (intro valid_bindE [OF asks_basic(4)] valid_bindE [OF keeps_asks_update]) (simp_all add: valid_def returnE_def)
  show ?thesis unfolding observe_outcome_def Let_def
    by (intro valid_if asks_silent [OF failed] valid_bindE [OF rejected signal_asks] valid_bindE [OF success])
      (simp add: required_signal_asks asks_none split: option.split)
qed

lemma open_interest_asks: "announces S (observe_open_interest clk k t)"
  unfolding observe_open_interest_update
  by (intro valid_bindE [OF asks_basic(4)] valid_bindE [OF keeps_asks_update])
    (simp_all add: required_signal_asks asks_none split: option.split)

lemma stale_step_asks:
  "valid (asks (S \<union> rc_stream ` set signals)) (stale_step clk n signals f) (\<lambda>sigs. asks (S \<union> rc_stream ` set sigs)) (\<lambda>_ _. True)"
proof -
  have sig: "valid (asks (insert k (S \<union> rc_stream ` set signals))) (signal clk k STALE_BAR e)
      (\<lambda>new. asks (S \<union> rc_stream ` set (signals @ new))) (\<lambda>_ _. True)" for k e
    using signal_asks [of k "S \<union> rc_stream ` set signals"] by (simp add: image_Un Un_assoc)
  have go: "valid (asks (S \<union> rc_stream ` set signals)) (bindE (readE g) (\<lambda>expected. if a expected then returnE signals
      else if b expected then returnE signals
      else bindE (require_recovery k st (u expected)) (\<lambda>_. bindE (signal clk k STALE_BAR e) (\<lambda>new. returnE (signals @ new)))))
      (\<lambda>sigs. asks (S \<union> rc_stream ` set sigs)) (\<lambda>_ _. True)" for g a b k st u e
    by (intro valid_bindE [OF asks_basic(1)] valid_if valid_bindE [OF require_asks] valid_bindE [OF sig] asks_return)
  show ?thesis unfolding stale_step_def
    by (rule valid_if [OF asks_return]) (simp add: asks_return go split: option.split)
qed

lemma stale_asks: "announces S (detect_stale clk n)"
proof -
  have loop: "valid (asks (S \<union> rc_stream ` set signals)) (foldE (stale_step clk m) signals fs)
      (\<lambda>sigs. asks (S \<union> rc_stream ` set sigs)) (\<lambda>_ _. True)" for signals fs m
    by (induction fs arbitrary: signals) (simp_all add: asks_return valid_bindE [OF stale_step_asks])
  have "valid (asks S) (case n of None \<Rightarrow> sup_now clk | Some n \<Rightarrow> returnE n) (\<lambda>_. asks S) (\<lambda>_ _. True)"
    using asks_basic(2) by (simp add: valid_def returnE_def split: option.split)
  then show ?thesis unfolding detect_stale_def
    by (intro valid_bindE [OF _ valid_bindE [OF asks_basic(1)]]) (use loop [of "[]"] in simp_all)
qed

section \<open>No recovery is forgotten\<close>

definition has_intent :: "recovery_worker \<Rightarrow> stream_key \<Rightarrow> bool" where
  "has_intent vw k \<longleftrightarrow> map_of (vw_intents vw) k \<noteq> None"

text \<open>\<open>owing G S r\<close>: the gate is \<open>G\<close>, the worker is well formed and works for admitted streams only, and every admitted
  stream whose recovery is pending has an intent, except those of \<open>S\<close>.\<close>

definition owing :: "admission_gate \<Rightarrow> stream_key set \<Rightarrow> runtime \<Rightarrow> bool" where
  "owing G S = core_is (\<lambda>(fs, g, vw, n, s). g = G \<and> placed vw \<and> (\<forall>k. has_intent vw k \<longrightarrow> k \<in> set G) \<and>
     (\<forall>f \<in> set fs. rf_recovery_pending f \<longrightarrow> rf_stream f \<in> set G \<longrightarrow> has_intent vw (rf_stream f) \<or> rf_stream f \<in> S))"

lemma owing_iff:
  "owing G S r \<longleftrightarrow> ru_gate r = G \<and> placed (ru_recovery r) \<and> (\<forall>k. has_intent (ru_recovery r) k \<longrightarrow> k \<in> set G) \<and>
     (\<forall>k \<in> wanting (ru_supervisor r). k \<in> set G \<longrightarrow> has_intent (ru_recovery r) k \<or> k \<in> S)"
  by (auto simp: owing_def core_is_def core_def wanting_def)

lemma keeps_owing [keeps_intro]:
  "keeps (owing G S) (in_world v)" "keeps (owing G S) (in_status st)"
  "keeps (owing G S) (in_supervisor (supervisor_facts clk k))"
  "keeps (owing G S) (sync_lifecycle co stream)"
  unfolding owing_def by (intro keeps_intro)+

lemma owing_mono: "owing G S r \<Longrightarrow> S \<subseteq> T \<Longrightarrow> owing G T r"
  by (auto simp: owing_iff)

lemma valid_True: "valid P m Q R \<Longrightarrow> valid P m Q (\<lambda>_ _. True)"
  by (erule valid_weaken) simp_all

lemmas keeps_owing_True = keeps_owing [THEN valid_True]

text \<open>
  The interface between the supervisor and the coordinator. An operation that may demand recoveries returns a
  signal for each of them; one that only moves a frontier demands none.
\<close>

locale demanding =
  fixes m :: "recovery_required list sup"
  assumes says: "announces S m"
begin

lemma owes: "valid (owing G {}) (in_supervisor m) (\<lambda>sigs. owing G (rc_stream ` set sigs)) (\<lambda>_ _. True)"
proof (rule validI)
  fix r x r' assume r: "owing G {} r" "in_supervisor m r = (Inr x, r')"
  then obtain sv where sv: "m (ru_supervisor r) = (Inr x, sv)" "r' = r\<lparr>ru_supervisor := sv\<rparr>" by (auto simp: in_part_Inr)
  have "wanting sv \<subseteq> wanting (ru_supervisor r) \<union> rc_stream ` set x"
    using valid_Inr [OF says [of "wanting (ru_supervisor r)"] _ sv(1)] by (simp add: asks_def)
  then show "owing G (rc_stream ` set x) r'" using r(1) sv(2) by (auto simp: owing_iff)
qed simp

end

locale undemanding =
  fixes m :: "unit sup"
  assumes silent: "valid (asks S) m (\<lambda>_. asks S) (\<lambda>_ _. True)"
begin

lemma wants_less: "m sv = (Inr x, sv') \<Longrightarrow> wanting sv' \<subseteq> wanting sv"
  using valid_Inr [OF silent [of "wanting sv"], of sv x sv'] by (simp add: asks_def)

lemma owes_no_more: "valid (owing G T) (in_supervisor m) (\<lambda>_. owing G T) (\<lambda>_ _. True)"
proof (rule validI)
  fix r x r' assume r: "owing G T r" "in_supervisor m r = (Inr x, r')"
  then obtain sv where sv: "m (ru_supervisor r) = (Inr x, sv)" "r' = r\<lparr>ru_supervisor := sv\<rparr>" by (auto simp: in_part_Inr)
  then show "owing G T r'" using r(1) wants_less [OF sv(1)] by (auto simp: owing_iff)
qed simp

end

interpretation event_demand: demanding "observe_event clk event" for clk event
  by unfold_locales (rule event_asks)

interpretation outcome_demand: demanding "observe_outcome clk outcome" for clk outcome
  by unfold_locales (rule outcome_asks)

interpretation open_interest_demand: demanding "observe_open_interest clk k t" for clk k t
  by unfold_locales (rule open_interest_asks)

interpretation stale_demand: demanding "detect_stale clk n" for clk n
  by unfold_locales (rule stale_asks)

lemma quiet_synchronize:
  "valid (asks S) (synchronize_successful_open_time k t) (\<lambda>_. asks S) (\<lambda>_ _. True)"
  "valid (asks S) (synchronize_open_interest_open_time k t) (\<lambda>_. asks S) (\<lambda>_ _. True)"
  unfolding synchronize_successful_open_time_def state_synchronize_successful_open_time_def synchronize_open_interest_update
  by (intro valid_bindE [OF asks_basic(4)] keeps_asks_update; simp)+

interpretation candle_frontier: undemanding "synchronize_successful_open_time k t" for k t
  by unfold_locales (rule quiet_synchronize)

interpretation open_interest_frontier: undemanding "synchronize_open_interest_open_time k t" for k t
  by unfold_locales (rule quiet_synchronize)

lemma rw_enqueue_intents:
  "has_intent (rw_enqueue sig vw) k \<longleftrightarrow> has_intent vw k \<or> k = rc_stream sig"
  by (auto simp: has_intent_def rw_enqueue_def map_of_dict_set split: option.splits)

lemma enqueue_owing:
  assumes "rc_stream sig \<in> set G"
  shows "valid (owing G T) (coordinator_enqueue sig) (\<lambda>_. owing G (T - {rc_stream sig})) (\<lambda>_ _. True)"
proof (rule validI)
  fix r x r' assume r: "owing G T r" "coordinator_enqueue sig r = (Inr x, r')"
  then have r': "r' = r\<lparr>ru_recovery := rw_enqueue sig (ru_recovery r)\<rparr>" by (auto simp: coordinator_enqueue_def updateE_def)
  show "owing G (T - {rc_stream sig}) r'"
    using r(1) assms by (auto simp: r' owing_iff rw_enqueue_intents rw_enqueue_placed)
qed simp

lemma enqueue_keeps_owing:
  assumes "rc_stream sig \<in> set G"
  shows "valid (owing G T) (coordinator_enqueue sig) (\<lambda>_. owing G T) (\<lambda>_ _. True)"
  by (rule valid_weaken [OF enqueue_owing [OF assms]]) (auto intro: owing_mono)

lemma each_enqueue_owing:
  "\<forall>sig \<in> set sigs. rc_stream sig \<in> set G \<Longrightarrow>
   valid (owing G (rc_stream ` set sigs)) (each coordinator_enqueue sigs) (\<lambda>_. owing G {}) (\<lambda>_ _. True)"
proof (induction sigs)
  case (Cons sig sigs)
  have "valid (owing G (rc_stream ` set (sig # sigs))) (coordinator_enqueue sig) (\<lambda>_. owing G (rc_stream ` set sigs)) (\<lambda>_ _. True)"
    by (rule valid_weaken [OF enqueue_owing [of sig G "rc_stream ` set (sig # sigs)"]]) (use Cons in \<open>auto intro: owing_mono\<close>)
  then show ?case using valid_bindE Cons unfolding each_def foldE.simps by fastforce
qed (auto simp: each_def valid_def returnE_def)

lemma request_owing:
  "valid (owing G T) (request_recovery sig) (\<lambda>_. owing G (T - {rc_stream sig})) (\<lambda>_ _. True)"
proof (rule validI)
  fix r x r' assume r: "owing G T r" "request_recovery sig r = (Inr x, r')"
  then have run: "(if rc_stream sig \<in> set G then coordinator_enqueue sig else returnE ()) r = (Inr x, r')"
    by (simp add: request_recovery_def allows_def bindE_def owing_iff gate_allows_def)
  show "owing G (T - {rc_stream sig}) r'"
  proof (cases "rc_stream sig \<in> set G")
    case True
    then show ?thesis using valid_Inr [OF enqueue_owing [OF True] r(1)] run by simp
  next
    case False
    then show ?thesis using r(1) run by (auto simp: owing_iff returnE_def)
  qed
qed simp

lemma each_request_owing:
  "valid (owing G (rc_stream ` set sigs)) (each request_recovery sigs) (\<lambda>_. owing G {}) (\<lambda>_ _. True)"
proof (induction sigs)
  case (Cons sig sigs)
  have "valid (owing G (rc_stream ` set (sig # sigs))) (request_recovery sig) (\<lambda>_. owing G (rc_stream ` set sigs)) (\<lambda>_ _. True)"
    by (rule valid_weaken [OF request_owing [of G "rc_stream ` set (sig # sigs)" sig]]) (auto intro: owing_mono)
  then show ?case using valid_bindE Cons unfolding each_def foldE.simps by fastforce
qed (auto simp: each_def valid_def returnE_def)

abbreviation stays :: "admission_gate \<Rightarrow> stream_key set \<Rightarrow> 'a rt \<Rightarrow> bool" where
  "stays G T m \<equiv> valid (owing G T) m (\<lambda>_. owing G T) (\<lambda>_ _. True)"

lemma valid_ifI: "(b \<Longrightarrow> valid P m Q R) \<Longrightarrow> (\<not> b \<Longrightarrow> valid P n Q R) \<Longrightarrow> valid P (if b then m else n) Q R"
  by simp

lemma valid_pure: "(F \<Longrightarrow> valid P m Q R) \<Longrightarrow> valid (\<lambda>r. F \<and> P r) m Q R"
  by (auto simp: valid_def)

lemma owing_notes [simp]: "owing G T (r\<lparr>ru_notes := n\<rparr>) = owing G T r"
  by (simp add: owing_iff)

lemma stays_basic:
  "stays G T (readE g)" "stays G T (returnE x)" "stays G T (allows k)"
  "stays G T (in_supervisor (supervisor_facts clk k))" "stays G T (sync_lifecycle co stream)"
  "stays G T (in_world v)" "stays G T (in_status st)" "stays G T (note_enqueue capacity note)"
  unfolding allows_def by (rule valid_True, rule keeps_basic keeps_owing)+
    (rule validI, auto simp: note_enqueue_def updateE_def split: option.splits)

lemma stays_each: "(\<And>x. x \<in> set xs \<Longrightarrow> stays G T (f x)) \<Longrightarrow> stays G T (each f xs)"
  unfolding each_def by (induction xs) (auto intro: stays_basic(2) valid_bindE)

lemma startup_stays: "stream \<in> set G \<Longrightarrow> stays G T (enqueue_startup co stream)"
  unfolding enqueue_startup_def by (rule valid_bindE [OF stays_basic(6)]) (simp add: enqueue_keeps_owing)

lemma allows_knows: "valid (owing G T) (allows k) (\<lambda>b r. (b \<longleftrightarrow> k \<in> set G) \<and> owing G T r) (\<lambda>_ _. True)"
  by (rule validI) (auto simp: allows_def owing_iff gate_allows_def)

lemma reconcile_stays: "stays G T (reconcile_subscribed co stream)"
  unfolding reconcile_subscribed_def
  by (rule valid_bindE [OF allows_knows], rule valid_pure)
    (auto intro!: stays_basic valid_bindE [OF stays_basic(4)] startup_stays)

lemma admitted_signals_knows:
  "valid (owing G (rc_stream ` set observed)) (admitted_signals observed)
     (\<lambda>sigs r. (\<forall>sig \<in> set sigs. rc_stream sig \<in> set G) \<and> owing G (rc_stream ` set sigs) r) (\<lambda>_ _. True)"
  by (rule validI) (auto simp: admitted_signals_def owing_iff gate_allows_def)

lemma on_event_stays: "stays G {} (on_event co event)"
proof -
  have rest: "valid (\<lambda>r. (\<forall>sig \<in> set sigs. rc_stream sig \<in> set G) \<and> owing G (rc_stream ` set sigs) r)
      (bindE (if is_confirmation event then each (reconcile_subscribed co) (co_streams co) else returnE ()) (\<lambda>_.
       bindE (each coordinator_enqueue sigs) (\<lambda>_. if transport_only event then returnE () else sync_lifecycle co None)))
      (\<lambda>_. owing G {}) (\<lambda>_ _. True)" for sigs
    by (rule valid_pure, rule valid_bindE [OF valid_if [OF stays_each [OF reconcile_stays] stays_basic(2)]])
      (intro valid_bindE [OF each_enqueue_owing] valid_if stays_basic)
  show ?thesis unfolding on_event_def
    by (intro valid_bindE [OF stays_basic(1)] valid_if stays_basic valid_bindE [OF event_demand.owes]
        valid_bindE [OF admitted_signals_knows] rest)
qed

lemma signal_streams: "signal clk k reason e sv = (Inr sigs, sv') \<Longrightarrow> \<forall>sig \<in> set sigs. rc_stream sig = k"
  by (auto simp: signal_def facts_of_def sup_now_def bindE_def returnE_def Let_def split: option.splits)

lemma outcome_streams: "observe_outcome clk oc sv = (Inr sigs, sv') \<Longrightarrow> \<forall>sig \<in> set sigs. rc_stream sig = rt_stream oc"
  by (auto simp: observe_outcome_def Let_def bindE_eq_Inr returnE_def dest!: signal_streams split: if_splits option.splits)

lemma outcome_owing:
  assumes "rt_stream oc \<in> set G"
  shows "valid (owing G {}) (in_supervisor (observe_outcome clk oc))
    (\<lambda>sigs r. (\<forall>sig \<in> set sigs. rc_stream sig \<in> set G) \<and> owing G (rc_stream ` set sigs) r) (\<lambda>_ _. True)"
  by (rule validI) (use assms valid_Inr [OF outcome_demand.owes] in \<open>auto simp: in_part_Inr dest!: outcome_streams\<close>)

lemma mark_live_intent: "has_intent (mark_live_commit stream vw) k = has_intent vw k"
  by (auto simp: has_intent_def mark_live_commit_def map_of_dict_set split: option.splits)

lemma mark_live_stays: "stays G T (updateE (\<lambda>r. Inr (r\<lparr>ru_recovery := mark_live_commit stream (ru_recovery r)\<rparr>)))"
  by (rule validI) (auto simp: updateE_def owing_iff mark_live_intent mark_live_placed)

lemma on_outcome_stays: "stays G {} (on_outcome co outcome)"
proof -
  have rest: "stays G {} (bindE (if rt_classification outcome = RT_COMMITTED
        then note_enqueue (co_capacity co) (bar_notification (rt_stream outcome) (rt_open_time_ms outcome)) else returnE ()) (\<lambda>_.
      bindE (in_supervisor (observe_outcome (co_clock co) outcome)) (\<lambda>signals.
      bindE (each coordinator_enqueue signals) (\<lambda>_.
      bindE (if rt_classification outcome = RT_COMMITTED
             then updateE (\<lambda>r. Inr (r\<lparr>ru_recovery := mark_live_commit (rt_stream outcome) (ru_recovery r)\<rparr>)) else returnE ()) (\<lambda>_.
        sync_lifecycle co None)))))" if "rt_stream outcome \<in> set G"
    by (rule valid_bindE [OF valid_if [OF stays_basic(8,2)]], rule valid_bindE [OF outcome_owing [OF that]], rule valid_pure)
      (intro valid_bindE [OF each_enqueue_owing] valid_bindE [OF valid_if [OF mark_live_stays stays_basic(2)]] stays_basic)
  show ?thesis unfolding on_outcome_def
    by (rule valid_bindE [OF allows_knows], rule valid_pure, rule valid_ifI, rule stays_basic, rule rest) simp
qed

lemma stale_round_stays: "stays G {} (stale_round co)"
  unfolding stale_round_def
  by (intro valid_bindE [OF stale_demand.owes] valid_bindE [OF each_request_owing] stays_basic)

lemma publish_stays: "stays G {} (prepare_rest co stream t has_point)"
proof -
  have "stays G {} (observe_stored co stream t)" unfolding observe_stored_def on_open_interest_changed_def
    by (intro valid_bindE [OF stays_basic(4)] valid_bindE [OF open_interest_demand.owes]
        valid_bindE [OF each_request_owing] valid_if stays_basic)
  then show ?thesis unfolding prepare_rest_def
    by (rule valid_bindE [OF valid_if [OF _ stays_basic(2)]]) (intro valid_bindE [OF stays_basic(4)] stays_basic)
qed

lemma has_intent_take [simp]: "has_intent (snd (rw_take p now vw)) k = has_intent vw k"
  by (simp add: has_intent_def)

lemma take_keeps:
  assumes "owing G {} r" "vw_running (ru_recovery r) = None" "take_recovery co now r = (Inr (), r')"
  shows "owing G {} r'"
proof -
  have "r' = r\<lparr>ru_recovery := snd (rw_take (co_policy co) now (ru_recovery r))\<rparr>"
    using assms(3) by (auto simp: take_recovery_def set_recovery_def bindE_def updateE_def)
  then show ?thesis using assms(1,2) rw_take_placed by (simp add: owing_iff)
qed

lemma placed_request:
  "vw_running vw = Some a \<Longrightarrow> placed vw \<Longrightarrow> placed (vw\<lparr>vw_running := Some (a\<lparr>at_request := q\<rparr>)\<rparr>)"
  by (simp add: placed_def running_streams_def)

lemma begin_stays: "stays G T (begin_recovery co)"
proof (rule validI)
  fix r x r' assume r: "owing G T r" "begin_recovery co r = (Inr x, r')"
  then have "r' = r \<or> (\<exists>a req. vw_running (ru_recovery r) = Some a \<and>
      r' = r\<lparr>ru_recovery := (ru_recovery r)\<lparr>vw_running := Some (a\<lparr>at_request := Some req\<rparr>)\<rparr>\<rparr>)"
    by (auto simp: begin_recovery_def set_recovery_def bindE_def updateE_def returnE_def liftR_def split: option.splits sum.splits)
  then show "owing G T r'"
    using r(1) placed_request by (auto simp: owing_iff has_intent_def)
qed simp

lemma record_result_asks:
  assumes "record_recovery_result clk k whole fatal through sv = (Inr (), sv')"
  shows "wanting sv' \<subseteq> (if fatal \<or> whole then wanting sv - {k} else insert k (wanting sv))"
proof -
  obtain change where upd: "update_facts k change (sv\<lparr>sv_ticks := Suc (sv_ticks sv)\<rparr>) = (Inr (), sv')"
    and c: "\<And>f. rf_stream (change f) = rf_stream f" "\<And>f. rf_recovery_pending (change f) = (\<not> fatal \<and> \<not> whole)"
    using assms unfolding record_recovery_result_def state_record_recovery_result_def sup_now_def bindE_def
    by (atomize_elim) (fastforce split: if_splits)
  obtain f where f: "rf_stream f = k" "sv_facts sv' = map (\<lambda>h. if rf_stream h = k then change f else h) (sv_facts sv)"
    using update_facts_Inr [OF upd] by auto
  show ?thesis using f c by (auto simp: wanting_def split: if_splits)
qed

text \<open>An attempt ends its intent exactly when it failed for good, or restored a requirement that had not changed.\<close>

definition attempt_over :: "recovery_attempt \<Rightarrow> recovery_intent \<Rightarrow> recovery_result \<Rightarrow> bool" where
  "attempt_over a x result \<longleftrightarrow> vr_classification result = REC_FATAL_FAILURE \<or>
     restored result \<and> in_revision x = at_started_revision a"

lemma attempt_ends_over:
  "attempt_ends p now (at_started_revision a) result x = (outcome, calls) \<Longrightarrow>
     (\<exists>y. outcome = Retry y) \<longleftrightarrow> \<not> attempt_over a x result"
  by (auto simp: attempt_ends_def attempt_over_def restored_def Let_def split: if_splits prod.splits)

lemma settle_intents:
  assumes "vw_running vw = Some a" "map_of (vw_intents vw) (at_stream a) = Some x"
  shows "has_intent (rw_settle p now False result vw) j \<longleftrightarrow> has_intent vw j \<and> (j \<noteq> at_stream a \<or> \<not> attempt_over a x result)"
    "vw_sup_calls (rw_settle p now False result vw) = vw_sup_calls vw @
       [RecordRecoveryResult (at_stream a) (restored result \<and> in_revision x = at_started_revision a)
          (vr_classification result = REC_FATAL_FAILURE) (vr_restored_through_open_time_ms result)]"
proof -
  obtain outcome calls where e: "attempt_ends p now (at_started_revision a) result x = (outcome, calls)" by force
  show "has_intent (rw_settle p now False result vw) j \<longleftrightarrow> has_intent vw j \<and> (j \<noteq> at_stream a \<or> \<not> attempt_over a x result)"
    using assms e attempt_ends_over [OF e]
    by (cases outcome) (auto simp: rw_settle_def drop_intent_def has_intent_def map_of_dict_set Let_def)
  show "vw_sup_calls (rw_settle p now False result vw) = vw_sup_calls vw @
       [RecordRecoveryResult (at_stream a) (restored result \<and> in_revision x = at_started_revision a)
          (vr_classification result = REC_FATAL_FAILURE) (vr_restored_through_open_time_ms result)]"
    using assms e by (cases outcome) (simp_all add: rw_settle_def drop_intent_def Let_def)
qed

lemma settle_keeps:
  assumes "owing G {} r" "vw_running (ru_recovery r) \<noteq> None" "settle_recovery co now False result r = (Inr (), r')"
  shows "owing G {} r'"
proof -
  obtain a where a: "vw_running (ru_recovery r) = Some a" using assms(2) by auto
  define vw where "vw = (ru_recovery r)\<lparr>vw_sup_calls := [], vw_status_calls := [], vw_restored := []\<rparr>"
  define settled where "settled = rw_settle (co_policy co) now False result vw"
  have place: "placed vw" "vw_running vw = Some a" "has_intent vw = has_intent (ru_recovery r)"
    using assms(1) a by (simp_all add: owing_iff vw_def placed_def running_streams_def has_intent_def fun_eq_iff)
  obtain x where x: "map_of (vw_intents vw) (at_stream a) = Some x" using placed_running [OF place(1,2)] .
  note si = settle_intents [OF place(2) x, of "co_policy co" now result, folded settled_def]
  obtain sv st r3 where sv: "record_recovery_result (co_clock co) (at_stream a) (restored result \<and> in_revision x = at_started_revision a)
        (vr_classification result = REC_FATAL_FAILURE) (vr_restored_through_open_time_ms result) (ru_supervisor r) = (Inr (), sv)"
    and r3: "sync_lifecycle co None (r\<lparr>ru_supervisor := sv, ru_status := st, ru_recovery := settled\<rparr>) = (Inr (), r3)"
    and last: "each (\<lambda>(stream, t). notify_restored co stream t) (vw_restored settled) r3 = (Inr (), r')"
    using assms(3) si(2)
    by (auto simp: settle_recovery_def Let_def bindE_eq_Inr in_part_Inr set_recovery_def updateE_def returnE_def each_def
        settled_def vw_def split: prod.splits)
  have w: "wanting sv \<subseteq> (if attempt_over a x result then wanting (ru_supervisor r) - {at_stream a} else insert (at_stream a) (wanting (ru_supervisor r)))"
    using record_result_asks [OF sv] by (simp add: attempt_over_def)
  have intent: "has_intent vw (at_stream a)" using x by (simp add: has_intent_def)
  have "owing G {} (r\<lparr>ru_supervisor := sv, ru_status := st, ru_recovery := settled\<rparr>)"
    using assms(1) si(1) w place(3) intent rw_settle_placed [OF place(1), of "co_policy co" now False result]
    by (auto simp: owing_iff settled_def split: if_splits)
  from valid_Inr [OF stays_basic(5) this r3] have "owing G {} r3" .
  moreover have "stays G {} (each (\<lambda>(stream, t). notify_restored co stream t) (vw_restored settled))"
    unfolding notify_restored_def by (rule stays_each) (auto intro: stays_basic)
  ultimately show ?thesis using last valid_Inr by metis
qed

text \<open>The hand-over of a stream, whose gate opens in the middle.\<close>

definition calm_for :: "stream_key \<Rightarrow> admission_gate \<Rightarrow> runtime \<Rightarrow> bool" where
  "calm_for k G r \<longleftrightarrow> owing G {} r \<and> (k \<in> set G \<or> k \<notin> wanting (ru_supervisor r))"

definition coordinated :: "runtime \<Rightarrow> bool" where
  "coordinated r \<longleftrightarrow> owing (ru_gate r) {} r"

lemma owing_coordinated: "owing G {} r \<Longrightarrow> coordinated r"
  by (simp add: coordinated_def owing_iff)

lemma calm_in_world: "valid (calm_for k G) (in_world m) (\<lambda>_. calm_for k G) (\<lambda>_ _. True)"
  by (rule validI) (auto simp: calm_for_def in_part_Inr owing_iff)

context undemanding
begin

lemma stays_calm: "valid (calm_for k G) (in_supervisor m) (\<lambda>_. calm_for k G) (\<lambda>_ _. True)"
proof (rule validI)
  fix r x r' assume r: "calm_for k G r" "in_supervisor m r = (Inr x, r')"
  then obtain sv where sv: "m (ru_supervisor r) = (Inr x, sv)" "r' = r\<lparr>ru_supervisor := sv\<rparr>" by (auto simp: in_part_Inr)
  have "owing G {} r'" using valid_Inr [OF owes_no_more _ r(2)] r(1) by (simp add: calm_for_def)
  then show "calm_for k G r'" using r(1) sv(2) wants_less [OF sv(1)] by (auto simp: calm_for_def)
qed simp

end

lemma set_gate_admit: "set (gate_admit k G) = insert k (set G)"
  by (auto simp: gate_admit_def)

lemma gate_opens:
  "valid (calm_for k G) (updateE (\<lambda>r. Inr (r\<lparr>ru_gate := gate_admit k (ru_gate r)\<rparr>))) (\<lambda>_. owing (gate_admit k G) {}) (\<lambda>_ _. True)"
proof (rule validI)
  fix r x r' assume r: "calm_for k G r" "updateE (\<lambda>r. Inr (r\<lparr>ru_gate := gate_admit k (ru_gate r)\<rparr>)) r = (Inr x, r')"
  then have r': "r' = r\<lparr>ru_gate := gate_admit k G\<rparr>" by (auto simp: updateE_def calm_for_def owing_iff)
  show "owing (gate_admit k G) {} r'"
    using r(1) by (simp add: r' calm_for_def owing_iff set_gate_admit) blast
qed simp

lemma valid_post: "valid P m Q R \<Longrightarrow> (\<And>x s. Q x s \<Longrightarrow> Q' x s) \<Longrightarrow> valid P m Q' R"
  by (erule valid_weaken) simp_all

lemma valid_pre: "valid P m Q R \<Longrightarrow> (\<And>s. P' s \<Longrightarrow> P s) \<Longrightarrow> valid P' m Q R"
  by (erule valid_weaken) simp_all

lemma admit_coordinated: "valid (calm_for k G) (coordinator_admit co k) (\<lambda>_. coordinated) (\<lambda>_ _. True)"
proof -
  let ?G = "gate_admit k G"
  have opened: "valid (owing ?G {}) (bindE (in_status (clear_blocking_reason k)) (\<lambda>_.
      bindE (in_supervisor (supervisor_facts (co_clock co) k)) (\<lambda>f.
      bindE (if rf_subscription_active f \<and> \<not> rf_recovery_pending f then enqueue_startup co k else returnE ()) (\<lambda>_.
        sync_lifecycle co None)))) (\<lambda>_. coordinated) (\<lambda>_ _. True)"
    by (intro valid_bindE [OF stays_basic(7)] valid_bindE [OF stays_basic(4)]
        valid_bindE [OF valid_if [OF startup_stays stays_basic(2)]] valid_post [OF stays_basic(5) owing_coordinated])
      (simp add: gate_admit_def)
  have refused: "valid (calm_for k G) (bindE (in_status (set_blocking_reason k ''realtime_admission_missing_anchor'')) (\<lambda>_.
      bindE (in_supervisor (supervisor_facts (co_clock co) k)) (\<lambda>f. in_status (update_stream durable (Some f)))))
      (\<lambda>_. coordinated) (\<lambda>_ _. True)" for durable
    by (rule valid_pre [of "owing G {}"],
        intro valid_bindE [OF stays_basic(7)] valid_bindE [OF stays_basic(4)] valid_post [OF stays_basic(7) owing_coordinated])
      (simp_all add: calm_for_def)
  have accepted: "valid (calm_for k G) (bindE (in_supervisor (synchronize_successful_open_time k latest)) (\<lambda>_.
      bindE (updateE (\<lambda>r. Inr (r\<lparr>ru_gate := gate_admit k (ru_gate r)\<rparr>))) (\<lambda>_.
      bindE (in_status (clear_blocking_reason k)) (\<lambda>_.
      bindE (in_supervisor (supervisor_facts (co_clock co) k)) (\<lambda>f.
      bindE (if rf_subscription_active f \<and> \<not> rf_recovery_pending f then enqueue_startup co k else returnE ()) (\<lambda>_.
        sync_lifecycle co None)))))) (\<lambda>_. coordinated) (\<lambda>_ _. True)" for latest
    by (rule valid_bindE [OF candle_frontier.stays_calm valid_bindE [OF gate_opens opened]])
  show ?thesis unfolding coordinator_admit_def
    by (rule valid_bindE [OF calm_in_world]) (simp add: refused accepted split: option.split)
qed

lemma calm_return: "valid (calm_for k G) (returnE x) (\<lambda>_. calm_for k G) (\<lambda>_ _. True)"
  by (simp add: valid_def returnE_def)

lemma handoff_coordinated: "valid (calm_for k G) (handoff co flagged k) (\<lambda>_. coordinated) (\<lambda>_ _. True)"
proof -
  have "valid (calm_for k G) (bindE (in_world (open_interest_latest k)) (\<lambda>latest. case latest of None \<Rightarrow> returnE ()
      | Some t \<Rightarrow> in_supervisor (synchronize_open_interest_open_time k t))) (\<lambda>_. calm_for k G) (\<lambda>_ _. True)"
    by (rule valid_bindE [OF calm_in_world]) (simp add: calm_return open_interest_frontier.stays_calm split: option.split)
  then show ?thesis unfolding handoff_def by (intro valid_bindE [OF valid_if [OF _ calm_return] admit_coordinated])
qed

lemma rt_step_coordinated:
  assumes "coordinated r" "rt_enabled op r" "calm op r" "rt_step co flagged op r = (Inr (), r')"
  shows "coordinated r'"
proof -
  have owe: "owing (ru_gate r) {} r" using assms(1) by (simp add: coordinated_def)
  have plain: "coordinated r'" if "stays (ru_gate r) {} (rt_step co flagged op)"
    using valid_Inr [OF that owe assms(4)] by (rule owing_coordinated)
  show ?thesis
  proof (cases op)
    case (RtEvent event)
    then show ?thesis using on_event_stays by (intro plain) simp
  next
    case (RtOutcome outcome)
    then show ?thesis using on_outcome_stays by (intro plain) simp
  next
    case (RtHandoff k)
    then have "calm_for k (ru_gate r) r" using owe assms(3) by (auto simp: calm_for_def gate_allows_def)
    from valid_Inr [OF handoff_coordinated this] assms(4) show ?thesis unfolding RtHandoff rt_step.simps .
  next
    case RtStale
    then show ?thesis using stale_round_stays by (intro plain) simp
  next
    case (RtPublish k t b)
    show ?thesis by (rule plain) (unfold RtPublish rt_step.simps, rule valid_bindE [OF publish_stays stays_basic(2)])
  next
    case (RtTake now)
    then show ?thesis using take_keeps [OF owe, of co now r'] assms(2,4) owing_coordinated by simp
  next
    case RtBegin
    show ?thesis by (rule plain) (unfold RtBegin rt_step.simps, rule valid_bindE [OF begin_stays stays_basic(2)])
  next
    case (RtSettle now result)
    then show ?thesis using settle_keeps [OF owe, of co now result r'] assms(2,4) owing_coordinated by simp
  next
    case (RtWorld w)
    then show ?thesis using assms(1,4) by (auto simp: updateE_def coordinated_def owing_iff)
  qed
qed

lemma fresh_wants_nothing: "mk_supervisor streams topics grace initial initial_oi = Inr sv \<Longrightarrow> wanting sv = {}"
  by (auto simp: mk_supervisor_def wanting_def initial_facts_def split: if_splits)

lemma build_coordinated:
  assumes "build_realtime co topics grace flagged admitted st w = (Inr r, w')"
  shows "coordinated r"
proof -
  obtain initial initial_oi policy where "mk_supervisor (co_streams co) topics (grace_ms policy) initial initial_oi = Inr (ru_supervisor r)"
      "ru_recovery r = mk_recovery_worker"
    using assms by (auto simp: build_realtime_def bindE_eq_Inr)
  then show ?thesis using fresh_wants_nothing
    by (simp add: coordinated_def owing_iff mk_recovery_worker_def has_intent_def placed_def running_streams_def)
qed

lemma rt_run_coordinated: "rt_run co flagged r0 ops r \<Longrightarrow> coordinated r0 \<Longrightarrow> coordinated r"
  by (induction rule: rt_run.induct) (auto intro: rt_step_coordinated)


section \<open>A hand-over that comes too late\<close>

text \<open>A stream that is not admitted yet is subscribed and behind.\<close>

definition late_runtime :: runtime where
  "late_runtime = example_runtime [(example_facts 0)\<lparr>rf_recovery_restored := False, rf_expected_open_time_ms := None\<rparr>]"

definition late_run :: "rt_op list \<Rightarrow> runtime" where
  "late_run ops = fold (\<lambda>op r. snd (rt_step example_coordinator [] op r)) ops late_runtime"


section \<open>An instance\<close>

fun rt_replay :: "coordinator \<Rightarrow> stream_key list \<Rightarrow> rt_op list \<Rightarrow> runtime \<Rightarrow> runtime option" where
  "rt_replay co flagged [] r = Some r"
| "rt_replay co flagged (op # ops) r =
     (if rt_enabled op r \<and> calm op r
      then case rt_step co flagged op r of (Inl e, r') \<Rightarrow> None | (Inr x, r') \<Rightarrow> rt_replay co flagged ops r'
      else None)"

lemma rt_replay_run: "rt_run co flagged r0 ops0 r \<Longrightarrow> rt_replay co flagged ops r = Some r' \<Longrightarrow> rt_run co flagged r0 (ops0 @ ops) r'"
proof (induction ops arbitrary: ops0 r)
  case (Cons op ops)
  then obtain r1 where "rt_enabled op r" "calm op r" "rt_step co flagged op r = (Inr (), r1)" "rt_replay co flagged ops r1 = Some r'"
    by (auto split: if_splits prod.splits sum.splits)
  with Cons.IH [OF rt_run.step [OF Cons.prems(1)]] show ?case by fastforce
qed simp

definition example_start :: "runtime res \<times> world" where
  "example_start = build_realtime example_coordinator [(''kline.1'', example_stream)] 0 [] [example_stream]
     (mk_status_store [example_stream]) connecting_world"

definition example_steps :: "rt_op list" where
  "example_steps = [RtEvent (SubscriptionConfirmed [''kline.1''] 240000), RtStale, RtTake 0, RtBegin]"


end
