(* ===== verification/Http.thy ===== *)
theory Http
  imports ConsumerRead Status
begin

text \<open>
  adapters/http: the request router, the handlers of the candle range, of the hash-bound historical range and of
  the planning endpoints, the parsing of their requests and the one place that turns an exception into a
  response. A response is a status and a document. What \<open>json.loads\<close> makes of a body is an argument, as in
  the other adapters; the sockets and \<open>json.dumps\<close> of the server are left out. Texts are ASCII; what
  \<open>urllib\<close> does with bytes of percent escapes that are not, and its check of a host name in an absolute
  request target, are parameters.
\<close>

section \<open>urllib.parse\<close>

record url_lib =
  ul_decode :: "string \<Rightarrow> string"
  ul_check_netloc :: "string \<Rightarrow> unit res"

definition cut_at :: "char \<Rightarrow> string \<Rightarrow> string \<times> string option" where
  "cut_at c s = (let a = takeWhile (\<lambda>x. x \<noteq> c) s in (a, if c \<in> set s then Some (drop (Suc (length a)) s) else None))"

definition scheme_char :: "char \<Rightarrow> bool" where
  "scheme_char c \<longleftrightarrow> py_is_alnum_char c \<or> c \<in> {CHR ''+'', CHR ''-'', CHR ''.''}"

definition drop_scheme :: "string \<Rightarrow> string" where
  "drop_scheme url =
     (case cut_at (CHR '':'') url of
        (scheme, Some rest) \<Rightarrow>
          if scheme \<noteq> [] \<and> py_is_alnum_char (hd scheme) \<and> \<not> py_is_digit (hd scheme) \<and> list_all scheme_char scheme
          then rest else url
      | (scheme, None) \<Rightarrow> url)"

definition drop_netloc :: "url_lib \<Rightarrow> string \<Rightarrow> string res" where
  "drop_netloc lib url =
     (if take 2 url = ''//''
      then let netloc = takeWhile (\<lambda>c. c \<notin> {CHR ''/'', CHR ''?'', CHR ''#''}) (drop 2 url)
           in bindR (ul_check_netloc lib netloc) (\<lambda>_. Inr (drop (2 + length netloc) url))
      else Inr url)"

text \<open>\<open>urlsplit(target)\<close>: its path and its query.\<close>

definition url_split :: "url_lib \<Rightarrow> string \<Rightarrow> (string \<times> string) res" where
  "url_split lib target =
     (let url = filter (\<lambda>c. c \<notin> {CHR 0x09, CHR 0x0A, CHR 0x0D}) (dropWhile (\<lambda>c. of_char c \<le> (32 :: nat)) target)
      in bindR (drop_netloc lib (drop_scheme url)) (\<lambda>rest.
         let (path, query) = cut_at (CHR ''?'') (fst (cut_at (CHR ''#'') rest))
         in Inr (path, case query of None \<Rightarrow> [] | Some q \<Rightarrow> q)))"

fun split_on :: "char \<Rightarrow> string \<Rightarrow> string list" where
  "split_on c [] = [[]]"
| "split_on c (x # xs) = (if x = c then [] # split_on c xs else (x # hd (split_on c xs)) # tl (split_on c xs))"

definition hex_value :: "char \<Rightarrow> nat option" where
  "hex_value c = (let n = of_char c :: nat in
     if 48 \<le> n \<and> n \<le> 57 then Some (n - 48) else if 65 \<le> n \<and> n \<le> 70 then Some (n - 55)
     else if 97 \<le> n \<and> n \<le> 102 then Some (n - 87) else None)"

fun unquote_bytes :: "string \<Rightarrow> string" where
  "unquote_bytes (c # a # b # s) =
     (case (c = CHR ''%'', hex_value a, hex_value b) of
        (True, Some x, Some y) \<Rightarrow> char_of (16 * x + y) # unquote_bytes s
      | _ \<Rightarrow> c # unquote_bytes (a # b # s))"
| "unquote_bytes s = s"

definition unquote :: "url_lib \<Rightarrow> string \<Rightarrow> string" where
  "unquote lib s = (if CHR ''%'' \<in> set s then ul_decode lib (unquote_bytes s) else s)"

text \<open>\<open>parse_qs(query, keep_blank_values=True)\<close> as the list of its name-value pairs.\<close>

definition parse_qs :: "url_lib \<Rightarrow> string \<Rightarrow> (string \<times> string) list" where
  "parse_qs lib query =
     (let text = (\<lambda>s. unquote lib (map (\<lambda>c. if c = CHR ''+'' then CHR '' '' else c) s))
      in map (\<lambda>field. case cut_at (CHR ''='') field of
             (name, v) \<Rightarrow> (text name, case v of None \<Rightarrow> text [] | Some v \<Rightarrow> text v))
           (filter (\<lambda>field. field \<noteq> []) (split_on (CHR ''&'') query)))"

section \<open>error\_envelope.py\<close>

abbreviation LookupError :: exn_class where
  "LookupError \<equiv> OtherError ''LookupError'' False"

definition is_lookup_error :: "exn_class \<Rightarrow> bool" where
  "is_lookup_error c \<longleftrightarrow> c \<in> {KeyError, LookupError}"

text \<open>The subclasses of \<open>ValueError\<close> that \<open>json.loads\<close> raises.\<close>

definition is_json_error :: "exn_class \<Rightarrow> bool" where
  "is_json_error c \<longleftrightarrow> c \<in> {OtherError ''JSONDecodeError'' False, OtherError ''UnicodeDecodeError'' False}"

fun error_code :: "exn_class \<Rightarrow> string" where
  "error_code ConfiguredStreamNotFound = ''configured_stream_not_found''"
| "error_code StreamNotReady = ''stream_not_ready''"
| "error_code InvalidRange = ''invalid_request''"
| "error_code RangeNotAligned = ''range_not_aligned''"
| "error_code RangeOutOfBounds = ''range_out_of_bounds''"
| "error_code ContinuityInvariantBroken = ''continuity_invariant_broken''"
| "error_code CoverageStale = ''coverage_stale''"
| "error_code c = ''consumer_read_error''"

type_synonym response = "int \<times> pydict"

definition error_response :: "int \<Rightarrow> string \<Rightarrow> string \<Rightarrow> response" where
  "error_response status code detail = (status, [(''error'', PStr code), (''detail'', PStr detail)])"

definition map_exception :: "exn \<Rightarrow> response" where
  "map_exception exc =
     (let c = exn_cls exc
      in if is_lookup_error c then error_response 404 ''not_found'' (exn_str exc)
         else if c = UnknownStreamError then error_response 404 ''configured_stream_not_found'' (exn_str exc)
         else if c = ConfiguredStreamNotFound then error_response 404 (error_code c) (exn_str exc)
         else if c \<in> {StreamNotReady, CoverageStale} then error_response 409 (error_code c) (exn_str exc)
         else if c \<in> {InvalidRange, RangeNotAligned, RangeOutOfBounds} then error_response 422 (error_code c) (exn_str exc)
         else if c = ContinuityInvariantBroken then error_response 500 (error_code c) (exn_str exc)
         else if is_value_error c \<or> is_json_error c then error_response 422 ''invalid_request'' (exn_str exc)
         else error_response 500 ''internal_error'' (exn_str exc))"

text \<open>\<open>try: return 200, document(...) except Exception as exc: return map_exception(exc)\<close>.\<close>

definition respond :: "('a \<Rightarrow> pydict) \<Rightarrow> 'a res \<Rightarrow> response" where
  "respond document result = (case result of Inl exc \<Rightarrow> map_exception exc | Inr x \<Rightarrow> (200, document x))"

section \<open>consumer\_read\<close>

text \<open>The names are taken from a set, in an order of Python's choice.\<close>

definition allowed_fields :: "string set" where
  "allowed_fields = {''ticker'', ''timeframe'', ''from_ms'', ''to_ms''}"

fun require_once :: "(string \<times> string) list \<Rightarrow> string list \<Rightarrow> (string \<times> string) list res" where
  "require_once query [] = Inr []"
| "require_once query (name # names) =
     (case map snd (filter (\<lambda>(k, v). k = name) query) of
        [v] \<Rightarrow> if v = [] then Inl (Exn InvalidRange (name @ '' is required exactly once''))
               else bindR (require_once query names) (\<lambda>values. Inr ((name, v) # values))
      | _ \<Rightarrow> Inl (Exn InvalidRange (name @ '' is required exactly once'')))"

definition field :: "(string \<times> string) list \<Rightarrow> string \<Rightarrow> string" where
  "field values name = (case map_of values name of None \<Rightarrow> [] | Some v \<Rightarrow> v)"

definition parse_request_target :: "url_lib \<Rightarrow> string list \<Rightarrow> string \<Rightarrow> candle_range_request res" where
  "parse_request_target lib order target =
     bindR (url_split lib target) (\<lambda>(path, text).
     let query = parse_qs lib text
     in if \<not> fst ` set query \<subseteq> allowed_fields then Inl (Exn InvalidRange ''unsupported query parameter'')
        else bindR (require_once query order) (\<lambda>values.
          case (py_int_text (field values ''from_ms''), py_int_text (field values ''to_ms'')) of
            (Inr from_ms, Inr to_ms) \<Rightarrow>
              Inr \<lparr>qr_ticker = field values ''ticker'', qr_timeframe = field values ''timeframe'',
                   qr_from_ms = from_ms, qr_to_ms = to_ms\<rparr>
          | _ \<Rightarrow> Inl (Exn InvalidRange ''from_ms and to_ms must be integers'')))"

definition range_candle_document :: "canonical_candle \<Rightarrow> string option \<Rightarrow> pyval" where
  "range_candle_document candle open_interest =
     (case canonical_ohlcv_text candle of (open_text, high_text, low_text, close_text, volume_text) \<Rightarrow>
        PDict [(''open_time_ms'', PInt (cc_open_time_ms candle)), (''open'', PStr open_text), (''high'', PStr high_text),
          (''low'', PStr low_text), (''close'', PStr close_text), (''volume'', PStr volume_text),
          (''open_interest'', opt_str open_interest)])"

text \<open>\<open>zip(..., strict=True)\<close>.\<close>

fun zip_strict :: "'a list \<Rightarrow> 'b list \<Rightarrow> ('a \<times> 'b) list res" where
  "zip_strict [] [] = Inr []"
| "zip_strict (x # xs) (y # ys) = bindR (zip_strict xs ys) (\<lambda>ps. Inr ((x, y) # ps))"
| "zip_strict [] (y # ys) = Inl (Exn ValueError ''zip() argument 2 is longer than argument 1'')"
| "zip_strict (x # xs) [] = Inl (Exn ValueError ''zip() argument 2 is shorter than argument 1'')"

definition serialize_result :: "candle_range_result \<Rightarrow> pydict res" where
  "serialize_result result =
     bindR (zip_strict (cg_candles result) (cg_open_interest result)) (\<lambda>pairs.
     Inr [(''ticker'', PStr (ticker (sk_instrument (cg_stream result)))),
          (''timeframe'', PStr (tf_id (sk_timeframe (cg_stream result)))),
          (''from_ms'', PInt (cg_from_ms result)), (''to_ms'', PInt (cg_to_ms result)),
          (''market_data_hash'', PStr (cg_market_data_hash result)),
          (''candles'', PList (map (\<lambda>(candle, open_interest). range_candle_document candle open_interest) pairs))])"

definition consumer_read_handle ::
  "url_lib \<Rightarrow> string list \<Rightarrow> (candle_range_request \<Rightarrow> candle_range_result res) \<Rightarrow> string \<Rightarrow> response" where
  "consumer_read_handle lib order query target =
     respond id (bindR (bindR (parse_request_target lib order target) query) serialize_result)"

section \<open>historical\_read\<close>

definition require_str :: "pydict \<Rightarrow> string \<Rightarrow> string res" where
  "require_str document key =
     (case dict_get document key of
        None \<Rightarrow> Inl (Exn KeyError (py_repr key))
      | Some (PStr s) \<Rightarrow> if s = [] then Inl (Exn ValueError (key @ '' must be a non-empty string'')) else Inr s
      | Some v \<Rightarrow> Inl (Exn ValueError (key @ '' must be a non-empty string'')))"

definition require_int :: "pydict \<Rightarrow> string \<Rightarrow> int res" where
  "require_int document key =
     (case dict_get document key of
        None \<Rightarrow> Inl (Exn KeyError (py_repr key))
      | Some (PInt i) \<Rightarrow> Inr i
      | Some v \<Rightarrow> Inl (Exn ValueError (key @ '' must be an integer'')))"

definition parse_historical_request :: "pyval res \<Rightarrow> historical_candle_range_request res" where
  "parse_historical_request body =
     bindR body (\<lambda>value.
       case value of
         PDict document \<Rightarrow>
           if fst ` set document \<noteq> {''ticker'', ''timeframe'', ''from_ms'', ''to_ms'', ''expected_market_data_hash''}
           then Inl (Exn ValueError ''request body has unexpected or missing fields'')
           else
             bindR (require_str document ''ticker'') (\<lambda>tk.
             bindR (require_str document ''timeframe'') (\<lambda>tf.
             bindR (require_int document ''from_ms'') (\<lambda>from_ms.
             bindR (require_int document ''to_ms'') (\<lambda>to_ms.
             bindR (require_str document ''expected_market_data_hash'') (\<lambda>h.
               Inr \<lparr>qr_ticker = tk, qr_timeframe = tf, qr_from_ms = from_ms, qr_to_ms = to_ms,
                    qr_expected_market_data_hash = h\<rparr>)))))
       | _ \<Rightarrow> Inl (Exn ValueError ''request body must be a JSON object''))"

definition historical_read_handle ::
  "(historical_candle_range_request \<Rightarrow> candle_range_result res) \<Rightarrow> pyval res \<Rightarrow> response" where
  "historical_read_handle query body =
     respond id (bindR (bindR (parse_historical_request body) query) serialize_result)"

section \<open>history\_planning\<close>

definition strip_slashes :: "string \<Rightarrow> string" where
  "strip_slashes s = py_rstrip_char (CHR ''/'') (dropWhile (\<lambda>c. c = CHR ''/'') s)"

definition planning_matches :: "url_lib \<Rightarrow> string \<Rightarrow> bool res" where
  "planning_matches lib target =
     bindR (url_split lib target) (\<lambda>(path, query).
       let parts = split_on (CHR ''/'') (strip_slashes path)
       in Inr (length parts = 5 \<and> take 2 parts = [''v1'', ''streams'']))"

definition parse_route :: "url_lib \<Rightarrow> stream_key list \<Rightarrow> string \<Rightarrow> (stream_key \<times> string) res" where
  "parse_route lib configured target =
     bindR (url_split lib target) (\<lambda>(path, query).
       let parts = split_on (CHR ''/'') (strip_slashes path)
       in if length parts \<noteq> 5 \<or> take 2 parts \<noteq> [''v1'', ''streams'']
          then Inl (Exn LookupError ''route not found'')
          else
            let tk = unquote lib (parts ! 2); tf = unquote lib (parts ! 3); operation = unquote lib (parts ! 4)
            in case bindR (mk_instrument_key tk) (\<lambda>i. mk_stream_key i tf) of
                 Inl exc \<Rightarrow> if is_value_error (exn_cls exc) then Inl (Exn ValueError (exn_str exc)) else Inl exc
               | Inr stream \<Rightarrow>
                   if stream \<notin> set configured then Inl (Exn UnknownStreamError (canonical_id stream))
                   else Inr (stream, operation))"

definition opt_int :: "int option \<Rightarrow> pyval" where
  "opt_int v = (case v of None \<Rightarrow> PNone | Some i \<Rightarrow> PInt i)"

definition bounds_document :: "stream_bounds_result \<Rightarrow> pydict" where
  "bounds_document result =
     [(''contract_version'', PStr ''market_stream_bounds.v1''),
      (''ticker'', PStr (ticker (sk_instrument (sb_stream result)))),
      (''timeframe'', PStr (tf_id (sk_timeframe (sb_stream result)))),
      (''state'', PStr (sb_state result)),
      (''earliest_committed_open_time_ms'', opt_int (sb_earliest_committed_open_time_ms result)),
      (''latest_committed_open_time_ms'', opt_int (sb_latest_committed_open_time_ms result))]"

definition no_such_operation :: response where
  "no_such_operation = error_response 404 ''not_found'' ''no such planning operation''"

text \<open>A handler that runs a use case: its exceptions become a response.\<close>

definition answered_by :: "response app \<Rightarrow> response app" where
  "answered_by m = bindE (tryE m) (\<lambda>result. returnE (case result of Inl exc \<Rightarrow> map_exception exc | Inr x \<Rightarrow> x))"

definition handle_get :: "url_lib \<Rightarrow> stream_key list \<Rightarrow> (stream_key \<Rightarrow> stream_bounds_result app) \<Rightarrow> string \<Rightarrow> response app" where
  "handle_get lib configured bounds target = answered_by
     (bindE (liftR (parse_route lib configured target)) (\<lambda>(stream, operation).
        if operation \<noteq> ''bounds'' then returnE no_such_operation
        else bindE (bounds stream) (\<lambda>result. returnE (200, bounds_document result))))"

definition parse_audit_payload :: "pyval res \<Rightarrow> (int \<times> int) res" where
  "parse_audit_payload body =
     bindR (case body of
              Inl exc \<Rightarrow> Inl (if is_json_error (exn_cls exc) then Exn ValueError ''request body must be valid JSON'' else exc)
            | Inr v \<Rightarrow> Inr v) (\<lambda>value.
       case value of
         PDict document \<Rightarrow>
           if fst ` set document \<noteq> {''from_ms'', ''to_ms''}
           then Inl (Exn ValueError ''request body must contain only from_ms/to_ms'')
           else bindR (require_int document ''from_ms'') (\<lambda>start.
                bindR (require_int document ''to_ms'') (\<lambda>stop. Inr (start, stop)))
       | _ \<Rightarrow> Inl (Exn ValueError ''request body must be a JSON object''))"

definition audit_document :: "continuity_audit_result \<Rightarrow> pydict" where
  "audit_document result =
     [(''contract_version'', PStr ''market_continuity_audit.v1''),
      (''ticker'', PStr (ticker (sk_instrument (ca_stream result)))),
      (''timeframe'', PStr (tf_id (sk_timeframe (ca_stream result)))),
      (''checked_start_ms'', PInt (ca_checked_start_ms result)), (''checked_end_ms'', PInt (ca_checked_end_ms result)),
      (''candle_count'', PInt (ca_candle_count result)), (''is_continuous'', PBool (ca_is_continuous result)),
      (''gaps'', PList (map (\<lambda>g. PDict [(''from_ms'', PInt (gap_start_ms g)), (''to_ms'', PInt (gap_end_ms g))]) (ca_gaps result))),
      (''state'', PStr (ca_state result)), (''market_data_hash'', opt_str (ca_market_data_hash result))]"

definition handle_post ::
  "url_lib \<Rightarrow> stream_key list \<Rightarrow> (stream_key \<Rightarrow> int \<Rightarrow> int \<Rightarrow> continuity_audit_result app) \<Rightarrow> string \<Rightarrow> pyval res \<Rightarrow> response app" where
  "handle_post lib configured audit target body = answered_by
     (bindE (liftR (parse_route lib configured target)) (\<lambda>(stream, operation).
        if operation \<noteq> ''continuity-audits'' then returnE no_such_operation
        else bindE (liftR (parse_audit_payload body)) (\<lambda>(start, stop).
             bindE (audit stream start stop) (\<lambda>result. returnE (200, audit_document result)))))"

section \<open>request\_router.py\<close>

text \<open>The handlers a server was given; a candle query reads what is committed.\<close>

record handlers =
  hh_candles :: "(string \<Rightarrow> response app) option"
  hh_planning_get :: "(string \<Rightarrow> response app) option"
  hh_planning_post :: "(string \<Rightarrow> pyval res \<Rightarrow> response app) option"
  hh_historical :: "(pyval res \<Rightarrow> response app) option"

definition no_route :: "string \<Rightarrow> response" where
  "no_route target = error_response 404 ''not_found'' (''no route for '' @ target)"

definition router_get :: "url_lib \<Rightarrow> pydict \<Rightarrow> status_store \<Rightarrow> handlers \<Rightarrow> string \<Rightarrow> response app" where
  "router_get lib openapi status hs target =
     (if target = ''/health'' then returnE (if sx_healthy status then 200 else 503, health_document status)
      else if target = ''/readiness'' then returnE (if sx_aggregate_ready status then 200 else 503, readiness_document status)
      else bindE (liftR (url_split lib target)) (\<lambda>(path, query).
        if path = ''/openapi.json'' then returnE (200, openapi)
        else case (path = ''/v1/candles'', hh_candles hs) of
            (True, Some handle) \<Rightarrow> handle target
          | _ \<Rightarrow>
              (case hh_planning_get hs of
                 None \<Rightarrow> returnE (no_route target)
               | Some handle \<Rightarrow>
                   bindE (liftR (planning_matches lib target)) (\<lambda>ok.
                     if ok then handle target else returnE (no_route target)))))"

definition router_post :: "url_lib \<Rightarrow> handlers \<Rightarrow> string \<Rightarrow> pyval res \<Rightarrow> response app" where
  "router_post lib hs target body =
     bindE (liftR (url_split lib target)) (\<lambda>(path, query).
       case (path = ''/v1/historical-candles'', hh_historical hs) of
         (True, Some handle) \<Rightarrow> handle body
       | _ \<Rightarrow>
           (case hh_planning_post hs of
              None \<Rightarrow> returnE (no_route target)
            | Some handle \<Rightarrow>
                bindE (liftR (planning_matches lib target)) (\<lambda>ok.
                  if ok then handle target body else returnE (no_route target))))"

section \<open>Canonical tickers\<close>

lemma upper_char_idem [simp]: "py_upper_char (py_upper_char c) = py_upper_char c"
proof -
  have "\<not> 97 \<le> (of_char c - 32) mod (256 :: nat)" if "(of_char c :: nat) \<le> 122" for c :: char
    using that by simp
  then show ?thesis by (auto simp: py_upper_char_def Let_def)
qed

lemma upper_idem [simp]: "py_upper (py_upper s) = py_upper s"
  by (simp add: py_upper_def)

definition plain :: "char \<Rightarrow> bool" where
  "plain c \<longleftrightarrow> py_is_alnum_char c \<or> c = CHR ''.''"

lemma strip_plain: "list_all plain s \<Longrightarrow> py_strip s = s"
proof -
  have "\<not> py_is_space c" if "plain c" for c
    using that by (auto simp: plain_def py_is_alnum_char_def py_is_space_def Let_def)
  then have "list_all plain s \<Longrightarrow> py_lstrip s = s" for s by (cases s) (auto simp: py_lstrip_def)
  then show "list_all plain s \<Longrightarrow> py_strip s = s" by (simp add: py_strip_def)
qed

lemma mk_instrument_key_plain:
  assumes "mk_instrument_key raw = Inr i"
  shows "list_all plain (ticker i)" "ticker i \<noteq> []"
proof -
  let ?tk = "py_upper (py_strip raw)"
  have i: "i = InstrumentKey ?tk" "?tk \<noteq> []" "py_endswith ?tk ''.P''" "py_isalnum (take (length ?tk - 2) ?tk)"
    using assms by (auto simp: mk_instrument_key_def Let_def split: if_splits)
  have "?tk = take (length ?tk - 2) ?tk @ ''.P''" using i(3) by (metis append_take_drop_id length_Cons list.size(3) numeral_2_eq_2 py_endswith_def)
  moreover have "list_all plain (take (length ?tk - 2) ?tk)" using i(4) by (auto simp: py_isalnum_def list_all_iff plain_def)
  moreover have "list_all plain ''.P''" by (simp add: plain_def py_is_alnum_char_def)
  ultimately have "list_all plain ?tk" by (metis list_all_append)
  then show "list_all plain (ticker i)" "ticker i \<noteq> []" using i(1,2) by simp_all
qed

lemma mk_instrument_key_idem:
  assumes "mk_instrument_key raw = Inr i"
  shows "mk_instrument_key (ticker i) = Inr i"
proof -
  have "ticker i = py_upper (py_strip raw)" using assms by (auto simp: mk_instrument_key_def Let_def split: if_splits)
  then have "py_upper (py_strip (ticker i)) = py_upper (py_strip raw)"
    using strip_plain [OF mk_instrument_key_plain(1) [OF assms]] by simp
  then show ?thesis using assms by (simp add: mk_instrument_key_def)
qed

lemma tf_id_plain: "list_all plain (tf_id t)" "tf_id t \<noteq> []"
  by (cases t; simp add: tf_id_def plain_def py_is_alnum_char_def)+

text \<open>A stream as the configuration has it: its ticker is the canonical one.\<close>

definition canonical_stream :: "stream_key \<Rightarrow> bool" where
  "canonical_stream s \<longleftrightarrow> mk_instrument_key (ticker (sk_instrument s)) = Inr (sk_instrument s)"

lemma configured_canonical:
  "canonical_stream s \<Longrightarrow> s \<in> set configured \<Longrightarrow>
   configured_stream configured (ticker (sk_instrument s)) (tf_id (sk_timeframe s)) = Inr s"
  by (cases s) (simp add: canonical_stream_def configured_stream_def)

lemma stream_of_texts:
  "bindR (mk_instrument_key tk) (\<lambda>i. mk_stream_key i tf) = Inr s \<Longrightarrow> canonical_stream s"
  by (auto simp: bindR_eq_Inr mk_stream_key_def canonical_stream_def mk_instrument_key_idem)

lemma parse_route_stream:
  assumes "parse_route lib configured target = Inr (s, operation)"
  shows "s \<in> set configured" "canonical_stream s"
  using assms stream_of_texts
  by (auto simp: parse_route_def bindR_eq_Inr Let_def split: if_splits sum.splits)

section \<open>From the plan to the data, over HTTP\<close>

lemma zip_strict_map: "zip_strict xs (map f xs) = Inr (map (\<lambda>x. (x, f x)) xs)"
  by (induction xs) simp_all

definition range_document :: "db \<Rightarrow> stream_key \<Rightarrow> int \<Rightarrow> int \<Rightarrow> string \<Rightarrow> canonical_candle list \<Rightarrow> pydict" where
  "range_document d s a b h candles =
     [(''ticker'', PStr (ticker (sk_instrument s))), (''timeframe'', PStr (tf_id (sk_timeframe s))),
      (''from_ms'', PInt a), (''to_ms'', PInt b), (''market_data_hash'', PStr h),
      (''candles'', PList (map (\<lambda>c. range_candle_document c (oi_text d s (cc_open_time_ms c))) candles))]"

lemma serialize_answer:
  assumes "range_answer d s a b (cg_candles r) (cg_open_interest r)" "cg_stream r = s" "cg_from_ms r = a" "cg_to_ms r = b"
  shows "serialize_result r = Inr (range_document d s a b (cg_market_data_hash r) (cg_candles r))"
  using assms by (simp add: serialize_result_def range_document_def range_answer_def zip_strict_map comp_def)

lemma map_exception_status: "fst (map_exception exc) \<in> {404, 409, 422, 500}"
  by (simp add: map_exception_def error_response_def Let_def)

lemma map_exception_fails: "map_exception exc \<noteq> (200, doc)"
  using map_exception_status [of exc] by auto

lemma audit_post_run:
  assumes "handle_post lib configured audit target body w = (Inr (200, doc), w')" "parse_audit_payload body = Inr (a, b)"
  obtains s x where "parse_route lib configured target = Inr (s, ''continuity-audits'')" "audit s a b w = (Inr x, w')"
    "doc = audit_document x"
proof -
  let ?m = "bindE (liftR (parse_route lib configured target)) (\<lambda>(stream, operation).
        if operation \<noteq> ''continuity-audits'' then returnE no_such_operation
        else bindE (liftR (parse_audit_payload body)) (\<lambda>(start, stop).
             bindE (audit stream start stop) (\<lambda>result. returnE (200, audit_document result))))"
  obtain result w1 where m: "?m w = (result, w1)" by force
  have "\<exists>resp. result = Inr resp \<and> resp = (200, doc) \<and> w1 = w'"
    using assms(1) m map_exception_fails
    by (cases result) (auto simp: handle_post_def answered_by_def tryE_def bindE_def returnE_def)
  then have run: "?m w = (Inr (200, doc), w')" using m by simp
  show ?thesis using run that assms(2)
    by (auto simp: bindE_eq_Inr liftR_def returnE_def no_such_operation_def error_response_def split: sum.splits if_splits prod.splits)
qed

lemma historical_fields:
  "get_historical_candle_range configured read q = Inr r \<Longrightarrow> configured_stream configured (qr_ticker q) (qr_timeframe q) = Inr s \<Longrightarrow>
   cg_stream r = s \<and> cg_from_ms r = qr_from_ms q \<and> cg_to_ms r = qr_to_ms q"
  by (auto simp: get_historical_candle_range_def bindR_eq_Inr Let_def split: if_splits)

text \<open>
  C15. What was planned can be fetched, from the wire to the wire. If the audit endpoint answers 200 to a
  request for a range and the document carries a hash, then a body built from that document (its ticker, its
  timeframe, the range asked for and the hash) makes the historical endpoint answer 200 on the same database,
  and the document it sends lists every bar of the range once and in order, as stored, with its
  open interest, under the audited hash.
\<close>

theorem audited_range_fetched_over_http:
  assumes "service_inv (w_disk w)" "parse_audit_payload body = Inr (a, b)"
    "handle_post lib configured (audit_stream_range (Some read_snapshot)) target body w = (Inr (200, doc), w')"
    "dict_get doc ''market_data_hash'' = Some (PStr h)" "dict_get doc ''ticker'' = Some tk" "dict_get doc ''timeframe'' = Some tf"
  shows "\<exists>s candles. s \<in> set configured \<and>
    range_answer (w_disk w) s a b candles (map (\<lambda>c. oi_text (w_disk w) s (cc_open_time_ms c)) candles) \<and>
    historical_read_handle (get_historical_candle_range configured (read_snapshot (w_disk w')))
      (Inr (PDict [(''ticker'', tk), (''timeframe'', tf), (''from_ms'', PInt a), (''to_ms'', PInt b),
                   (''expected_market_data_hash'', PStr h)])) =
    (200, range_document (w_disk w) s a b h candles)"
proof -
  obtain s x where run: "parse_route lib configured target = Inr (s, ''continuity-audits'')"
    "audit_stream_range (Some read_snapshot) s a b w = (Inr x, w')" "doc = audit_document x"
    using audit_post_run [OF assms(3,2)] .
  note route = parse_route_stream [OF run(1)]
  note conf = configured_canonical [OF route(2,1)]
  have x: "ca_stream x = s" using run(2) by (auto simp: audit_stream_range_def bindE_eq_Inr returnE_def split: option.splits)
  have doc: "tk = PStr (ticker (sk_instrument s))" "tf = PStr (tf_id (sk_timeframe s))" "ca_market_data_hash x = Some h"
    using assms(4-6) x by (auto simp: run(3) audit_document_def dict_get_def opt_str_def split: option.splits)
  let ?q = "\<lparr>qr_ticker = ticker (sk_instrument s), qr_timeframe = tf_id (sk_timeframe s), qr_from_ms = a, qr_to_ms = b,
      qr_expected_market_data_hash = h\<rparr>"
  obtain r where r: "get_historical_candle_range configured (read_snapshot (w_disk w')) ?q = Inr r" "w_disk w' = w_disk w"
      "range_answer (w_disk w) s a b (cg_candles r) (cg_open_interest r)" "cg_market_data_hash r = h"
    using audited_range_reads_back [OF assms(1) run(2) conf] doc(3) by auto
  have "hash_format_matches h" using r(1) by (auto simp: get_historical_candle_range_def bindR_eq_Inr split: if_splits)
  then have ne: "ticker (sk_instrument s) \<noteq> []" "tf_id (sk_timeframe s) \<noteq> []" "h \<noteq> []"
    using mk_instrument_key_plain(2) route(2) tf_id_plain(2) by (auto simp: canonical_stream_def hash_format_matches_def)
  have q: "parse_historical_request (Inr (PDict [(''ticker'', tk), (''timeframe'', tf), (''from_ms'', PInt a), (''to_ms'', PInt b),
                   (''expected_market_data_hash'', PStr h)])) = Inr ?q"
    using ne doc(1,2) by (simp add: parse_historical_request_def require_str_def require_int_def dict_get_def insert_commute)
  note f = historical_fields [OF r(1)] 
  have "serialize_result r = Inr (range_document (w_disk w) s a b h (cg_candles r))"
    using serialize_answer [OF r(3)] f conf r(4) by simp
  moreover have "cg_open_interest r = map (\<lambda>c. oi_text (w_disk w) s (cc_open_time_ms c)) (cg_candles r)"
    using r(3) by (simp add: range_answer_def)
  ultimately show ?thesis using r q route(1)
    by (intro exI [of _ s] exI [of _ "cg_candles r"]) (simp add: historical_read_handle_def respond_def)
qed

section \<open>A request for a range of candles\<close>

definition candles_query :: "string \<Rightarrow> string \<Rightarrow> string \<Rightarrow> string \<Rightarrow> string" where
  "candles_query tk tf a b = ''ticker='' @ tk @ CHR ''&'' # ''timeframe='' @ tf @ CHR ''&'' # ''from_ms='' @ a @ CHR ''&'' # ''to_ms='' @ b"

definition candles_target :: "stream_key \<Rightarrow> int \<Rightarrow> int \<Rightarrow> string" where
  "candles_target s a b = ''/v1/candles'' @ CHR ''?'' #
     candles_query (ticker (sk_instrument s)) (tf_id (sk_timeframe s)) (py_int_str a) (py_int_str b)"

lemma cut_at_simps [simp]:
  "c \<notin> set xs \<Longrightarrow> cut_at c (xs @ c # ys) = (xs, Some ys)" "c \<notin> set xs \<Longrightarrow> cut_at c xs = (xs, None)"
proof -
  show "c \<notin> set xs \<Longrightarrow> cut_at c (xs @ c # ys) = (xs, Some ys)"
    by (induction xs) (auto simp: cut_at_def Let_def)
  show "c \<notin> set xs \<Longrightarrow> cut_at c xs = (xs, None)" by (induction xs) (auto simp: cut_at_def Let_def)
qed

lemma split_on_simps: "c \<notin> set xs \<Longrightarrow> split_on c (xs @ c # ys) = xs # split_on c ys" "c \<notin> set xs \<Longrightarrow> split_on c xs = [xs]"
  by (induction xs) auto

declare split_on.simps [simp del]

lemma split_on_parts: "\<forall>y \<in> set (x # xs). c \<notin> set y \<Longrightarrow> split_on c (x @ concat (map ((#) c) xs)) = x # xs"
  by (induction xs arbitrary: x) (simp_all add: split_on_simps)

lemma plain_chars:
  assumes "list_all plain s" "c \<in> {CHR ''&'', CHR ''='', CHR ''+'', CHR ''%'', CHR ''#'', CHR ''?'', CHR '':'', CHR 0x09, CHR 0x0A, CHR 0x0D}"
  shows "c \<notin> set s"
  using assms by (auto simp: list_all_iff plain_def py_is_alnum_char_def)

lemma plain_text: "list_all plain s \<Longrightarrow> unquote lib (map (\<lambda>c. if c = CHR ''+'' then CHR '' '' else c) s) = s"
proof -
  assume s: "list_all plain s"
  have "map (\<lambda>c. if c = CHR ''+'' then CHR '' '' else c) s = s"
    using plain_chars [OF s, of "CHR ''+''"] by (intro map_idI) auto
  then show ?thesis using plain_chars [OF s, of "CHR ''%''"] by (simp add: unquote_def)
qed

lemma parse_candles_query:
  assumes "list_all plain tk" "list_all plain tf" "list_all plain a" "list_all plain b"
  shows "parse_qs lib (candles_query tk tf a b) = [(''ticker'', tk), (''timeframe'', tf), (''from_ms'', a), (''to_ms'', b)]"
proof -
  have amp: "CHR ''&'' \<notin> set x" "CHR ''='' \<notin> set x" if "list_all plain x" for x using plain_chars [OF that] by simp_all
  have name: "unquote lib ''ticker'' = ''ticker''" "unquote lib ''timeframe'' = ''timeframe''" "unquote lib ''from_ms'' = ''from_ms''"
    "unquote lib ''to_ms'' = ''to_ms''" by (simp_all add: unquote_def)
  have field: "cut_at (CHR ''='') (n @ CHR ''='' # x) = (n, Some x)" if "CHR ''='' \<notin> set n" for n x using that by simp
  have "split_on (CHR ''&'') (candles_query tk tf a b) = [''ticker='' @ tk, ''timeframe='' @ tf, ''from_ms='' @ a, ''to_ms='' @ b]"
    using split_on_parts [of "''ticker='' @ tk" "[''timeframe='' @ tf, ''from_ms='' @ a, ''to_ms='' @ b]" "CHR ''&''"] amp assms
    by (simp add: candles_query_def)
  moreover have "cut_at (CHR ''='') (''ticker='' @ tk) = (''ticker'', Some tk)" "cut_at (CHR ''='') (''timeframe='' @ tf) = (''timeframe'', Some tf)"
    "cut_at (CHR ''='') (''from_ms='' @ a) = (''from_ms'', Some a)" "cut_at (CHR ''='') (''to_ms='' @ b) = (''to_ms'', Some b)"
    using field [of "''ticker''" tk] field [of "''timeframe''" tf] field [of "''from_ms''" a] field [of "''to_ms''" b] by simp_all
  ultimately show ?thesis
    using plain_text [OF assms(1)] plain_text [OF assms(2)] plain_text [OF assms(3)] plain_text [OF assms(4)]
    by (simp add: parse_qs_def Let_def name)
qed

lemma nat_str_all_digits: "\<forall>c \<in> set (nat_str n). py_is_digit c"
  using nat_str_digits by (simp add: list_all_iff)

lemma nat_str_length: "n < 10 ^ k \<Longrightarrow> 0 < k \<Longrightarrow> length (nat_str n) \<le> k"
proof (induction k arbitrary: n)
  case (Suc k)
  show ?case
  proof (cases "n < 10")
    case False
    then have "0 < k" using Suc.prems(1) by (cases k) auto
    moreover have "n div 10 < 10 ^ k" using Suc.prems(1) by (simp add: less_mult_imp_div_less mult.commute)
    ultimately show ?thesis using Suc.IH False by (simp add: nat_str_big)
  qed (simp add: nat_str_small)
qed simp

lemma digits_plain: "\<forall>c \<in> set s. py_is_digit c \<Longrightarrow> list_all plain s"
  by (auto simp: list_all_iff plain_def py_is_digit_def py_is_alnum_char_def Let_def)

lemma int_digits_all: "\<forall>c \<in> set s. py_is_digit c \<Longrightarrow> s \<noteq> [] \<or> after \<Longrightarrow> int_digits_ok after s"
  by (induction s arbitrary: after) auto

lemma py_int_text_str:
  assumes "0 \<le> i" "i < 10 ^ k" "0 < k" "k \<le> 4300"
  shows "py_int_text (py_int_str i) = Inr i"
proof -
  let ?s = "nat_str (nat i)"
  have d: "\<forall>c \<in> set ?s. py_is_digit c" by (rule nat_str_all_digits)
  have "nat i < 10 ^ k" using assms(1,2) by (simp add: nat_less_iff)
  then have len: "length ?s \<le> 4300" by (intro order_trans [OF nat_str_length [OF _ assms(3)] assms(4)])
  have strip: "py_strip ?s = ?s" by (rule strip_plain [OF digits_plain [OF d]])
  have "hd ?s \<in> set ?s" by simp
  then have "py_is_digit (hd ?s)" using d by blast
  then have sign: "hd ?s \<notin> {CHR ''-'', CHR ''+''}" by (auto simp: py_is_digit_def)
  have "filter py_is_digit ?s = ?s" using d by simp
  then show ?thesis using assms(1) strip sign len int_digits_all [OF d]
    by (simp add: py_int_text_def py_int_str_def Let_def)
qed

lemma int_str_plain: "0 \<le> i \<Longrightarrow> list_all plain (py_int_str i)"
  using digits_plain [OF nat_str_all_digits] by (simp add: py_int_str_def)

text \<open>A target is cut at its question mark when nothing in it means something else to \<open>urlsplit\<close>.\<close>

lemma url_split_plain:
  assumes "\<forall>c \<in> set path \<union> set query. c \<notin> {CHR 0x09, CHR 0x0A, CHR 0x0D, CHR '':'', CHR ''#''}"
    "path = CHR ''/'' # p" "p \<noteq> []" "hd p \<noteq> CHR ''/''" "CHR ''?'' \<notin> set path"
  shows "url_split lib (path @ CHR ''?'' # query) = Inr (path, query)"
proof -
  let ?url = "path @ CHR ''?'' # query"
  have "filter (\<lambda>c. c \<notin> {CHR 0x09, CHR 0x0A, CHR 0x0D}) ?url = ?url" using assms(1) by (intro filter_True) auto
  moreover have "dropWhile (\<lambda>c. of_char c \<le> (32 :: nat)) ?url = ?url" by (simp add: assms(2))
  moreover have "cut_at (CHR '':'') ?url = (?url, None)" using assms(1) by (intro cut_at_simps(2)) auto
  moreover have "cut_at (CHR ''#'') ?url = (?url, None)" using assms(1) by (intro cut_at_simps(2)) auto
  moreover have "take 2 ?url \<noteq> ''//''" using assms(2-4) by (cases p) auto
  ultimately show ?thesis using assms(5)
    by (simp add: url_split_def drop_scheme_def drop_netloc_def Let_def)
qed

lemma query_chars:
  assumes "list_all plain tk" "list_all plain tf" "list_all plain a" "list_all plain b"
  shows "\<forall>c \<in> set (candles_query tk tf a b). c \<notin> {CHR 0x09, CHR 0x0A, CHR 0x0D, CHR '':'', CHR ''#''}"
proof -
  have "c \<notin> set x" if "list_all plain x" "c \<in> {CHR 0x09, CHR 0x0A, CHR 0x0D, CHR '':'', CHR ''#''}" for c x
    using that by (intro plain_chars) auto
  with assms show ?thesis by (auto simp: candles_query_def)
qed

lemma require_once_all:
  assumes "distinct names" "\<forall>n \<in> set names. \<exists>v. v \<noteq> [] \<and> map snd (filter (\<lambda>(k, v). k = n) query) = [v]"
  shows "\<exists>vs. require_once query names = Inr vs \<and>
    (\<forall>n \<in> set names. map snd (filter (\<lambda>(k, v). k = n) query) = [field vs n])"
  using assms
proof (induction names)
  case (Cons n ns)
  then obtain v vs where v: "v \<noteq> []" "map snd (filter (\<lambda>(k, v). k = n) query) = [v]"
    "require_once query ns = Inr vs" "\<forall>n \<in> set ns. map snd (filter (\<lambda>(k, v). k = n) query) = [field vs n]"
    by auto
  then show ?case using Cons.prems(1) by (auto simp: field_def)
qed simp

lemma parse_candles_target:
  assumes "canonical_stream s" "0 \<le> a" "a < 10 ^ k" "0 \<le> b" "b < 10 ^ k" "0 < k" "k \<le> 4300"
    and "set order = allowed_fields" "distinct order"
  shows "url_split lib (candles_target s a b) = Inr (''/v1/candles'', candles_query (ticker (sk_instrument s))
      (tf_id (sk_timeframe s)) (py_int_str a) (py_int_str b))"
    and "parse_request_target lib order (candles_target s a b) =
      Inr \<lparr>qr_ticker = ticker (sk_instrument s), qr_timeframe = tf_id (sk_timeframe s), qr_from_ms = a, qr_to_ms = b\<rparr>"
proof -
  let ?tk = "ticker (sk_instrument s)" and ?tf = "tf_id (sk_timeframe s)"
  have pl: "list_all plain ?tk" "list_all plain ?tf" "list_all plain (py_int_str a)" "list_all plain (py_int_str b)"
    using mk_instrument_key_plain(1) assms(1) tf_id_plain(1) int_str_plain assms(2,4) by (auto simp: canonical_stream_def)
  have ne: "?tk \<noteq> []" "?tf \<noteq> []" "py_int_str a \<noteq> []" "py_int_str b \<noteq> []"
    using mk_instrument_key_plain(2) assms(1) tf_id_plain(2) assms(2,4) by (auto simp: canonical_stream_def py_int_str_def)
  show url: "url_split lib (candles_target s a b) = Inr (''/v1/candles'', candles_query ?tk ?tf (py_int_str a) (py_int_str b))"
    unfolding candles_target_def using query_chars [OF pl] by (intro url_split_plain [where p = "''v1/candles''"]) auto
  let ?q = "[(''ticker'', ?tk), (''timeframe'', ?tf), (''from_ms'', py_int_str a), (''to_ms'', py_int_str b)]"
  have q: "parse_qs lib (candles_query ?tk ?tf (py_int_str a) (py_int_str b)) = ?q" by (rule parse_candles_query [OF pl])
  have "\<exists>v. v \<noteq> [] \<and> map snd (filter (\<lambda>(k, v). k = n) ?q) = [v]" if "n \<in> set order" for n
    using that ne by (auto simp: assms(8) allowed_fields_def)
  then obtain vs where v: "require_once ?q order = Inr vs"
      "\<forall>n \<in> set order. map snd (filter (\<lambda>(k, v). k = n) ?q) = [field vs n]"
    using require_once_all [OF assms(9)] by blast
  have f: "field vs ''ticker'' = ?tk" "field vs ''timeframe'' = ?tf" "field vs ''from_ms'' = py_int_str a"
    "field vs ''to_ms'' = py_int_str b"
    using v(2) by (simp_all add: assms(8) allowed_fields_def)
  have "fst ` set ?q \<subseteq> allowed_fields" by (simp add: allowed_fields_def)
  then show "parse_request_target lib order (candles_target s a b) =
      Inr \<lparr>qr_ticker = ?tk, qr_timeframe = ?tf, qr_from_ms = a, qr_to_ms = b\<rparr>"
    using url q v(1) f py_int_text_str [OF assms(2,3,6,7)] py_int_text_str [OF assms(4,5,6,7)]
    by (simp add: parse_request_target_def)
qed

lemma get_candle_range_ready:
  assumes "service_inv d" "range_valid s a b" "get_stream_state d s = Inr st" "ss_state st = READY"
    and "ss_earliest_available_open_time_ms st = Some e" "e \<le> a"
    and "ss_latest_committed_open_time_ms st = Some l" "b \<le> l + stream_step s"
    and "\<forall>t. a \<le> t \<longrightarrow> t < b \<longrightarrow> t mod stream_step s = 0 \<longrightarrow> stored d s t"
    and "configured_stream configured tk tf = Inr s"
  obtains candles where "range_answer d s a b candles (map (\<lambda>c. oi_text d s (cc_open_time_ms c)) candles)"
    "get_candle_range configured (read_snapshot d) \<lparr>qr_ticker = tk, qr_timeframe = tf, qr_from_ms = a, qr_to_ms = b\<rparr> =
      Inr \<lparr>cg_stream = s, cg_from_ms = a, cg_to_ms = b, cg_market_data_hash = canonical_market_data_hash s a b candles,
        cg_candles = candles, cg_open_interest = map (\<lambda>c. oi_text d s (cc_open_time_ms c)) candles\<rparr>"
proof -
  have v: "a < b" "a mod stream_step s = 0" "b mod stream_step s = 0" using assms(2) by (simp_all add: range_valid_def)
  obtain snap where snap: "read_snapshot d s a b = Inr snap" "cs_state snap = st"
    using sqlite_reader.read_exact [OF assms(1,3)] by blast
  have g: "validate_complete_grid (cs_candles snap) a b (stream_step s) = Inr ()"
    "range_answer d s a b (cs_candles snap) (cs_open_interest snap)"
    using sqlite_reader.read_answers [OF assms(1) snap(1) v] assms(9) by simp_all
  have "cs_open_interest snap = map (\<lambda>c. oi_text d s (cc_open_time_ms c)) (cs_candles snap)"
    using g(2) by (simp add: range_answer_def)
  then show thesis using that [of "cs_candles snap"] assms(2,4-8,10) snap g
    by (simp add: get_candle_range_def validate_requested_range_iff [symmetric] validate_available_range_def)
qed

text \<open>The candle endpoint of the service: each request reads what is committed.\<close>

definition candles_endpoint :: "url_lib \<Rightarrow> string list \<Rightarrow> stream_key list \<Rightarrow> string \<Rightarrow> response app" where
  "candles_endpoint lib order configured target =
     readE (\<lambda>w. Inr (consumer_read_handle lib order (get_candle_range configured (read_snapshot (w_disk w))) target))"

text \<open>
  C14. The candle endpoint answers what it should. A request \<open>GET /v1/candles?ticker=...\<close> for a configured
  stream that is ready, over a range of its grid within its available window whose bars are all stored, is
  routed to the candle handler, its four texts are parsed back into the stream and the range whatever the order
  in which the names are checked, and the response is 200 with every bar of the range once and in order, its
  open interest and the hash of these bars; the database is left as it is.
\<close>

theorem candles_endpoint_answers:
  assumes "service_inv (w_disk w)" "canonical_stream s" "s \<in> set configured" "range_valid s a b"
    and "b < 10 ^ k" "0 < k" "k \<le> 4300"
    and "get_stream_state (w_disk w) s = Inr st" "ss_state st = READY"
    and "ss_earliest_available_open_time_ms st = Some e" "e \<le> a"
    and "ss_latest_committed_open_time_ms st = Some l" "b \<le> l + stream_step s"
    and "\<forall>t. a \<le> t \<longrightarrow> t < b \<longrightarrow> t mod stream_step s = 0 \<longrightarrow> stored (w_disk w) s t"
    and "set order = allowed_fields" "distinct order"
    and "hh_candles hs = Some (candles_endpoint lib order configured)"
  shows "\<exists>candles. range_answer (w_disk w) s a b candles (map (\<lambda>c. oi_text (w_disk w) s (cc_open_time_ms c)) candles) \<and>
    router_get lib openapi status hs (candles_target s a b) w =
      (Inr (200, range_document (w_disk w) s a b (canonical_market_data_hash s a b candles) candles), w)"
proof -
  have ab: "0 \<le> a" "a < 10 ^ k" "0 \<le> b" using assms(4,5) by (auto simp: range_valid_def)
  note target = parse_candles_target [OF assms(2) ab(1,2,3) assms(5-7,15,16)]
  obtain candles where c: "range_answer (w_disk w) s a b candles (map (\<lambda>c. oi_text (w_disk w) s (cc_open_time_ms c)) candles)"
    "get_candle_range configured (read_snapshot (w_disk w)) \<lparr>qr_ticker = ticker (sk_instrument s),
        qr_timeframe = tf_id (sk_timeframe s), qr_from_ms = a, qr_to_ms = b\<rparr> =
      Inr \<lparr>cg_stream = s, cg_from_ms = a, cg_to_ms = b, cg_market_data_hash = canonical_market_data_hash s a b candles,
        cg_candles = candles, cg_open_interest = map (\<lambda>c. oi_text (w_disk w) s (cc_open_time_ms c)) candles\<rparr>"
    using get_candle_range_ready [OF assms(1,4,8-14) configured_canonical [OF assms(2,3)]] .
  have "consumer_read_handle lib order (get_candle_range configured (read_snapshot (w_disk w))) (candles_target s a b) =
      (200, range_document (w_disk w) s a b (canonical_market_data_hash s a b candles) candles)"
    using serialize_answer [of "w_disk w" s a b "\<lparr>cg_stream = s, cg_from_ms = a, cg_to_ms = b,
        cg_market_data_hash = canonical_market_data_hash s a b candles, cg_candles = candles,
        cg_open_interest = map (\<lambda>c. oi_text (w_disk w) s (cc_open_time_ms c)) candles\<rparr>"] c
    by (simp add: consumer_read_handle_def respond_def target(2))
  moreover have "candles_target s a b \<noteq> ''/health''" "candles_target s a b \<noteq> ''/readiness''"
    by (simp_all add: candles_target_def)
  ultimately show ?thesis using c(1) target(1) assms(17)
    by (intro exI [of _ candles])
      (simp add: router_get_def bindE_def liftR_def readE_def candles_endpoint_def)
qed

section \<open>Concrete requests\<close>

definition example_lib :: url_lib where
  "example_lib = \<lparr>ul_decode = id, ul_check_netloc = (\<lambda>_. Inr ())\<rparr>"

lemma example_texts:
  "py_int_str 60000 = ''60000''" "py_int_str 120000 = ''120000''"
proof -
  have "digit_char 0 = CHR ''0''" "digit_char 1 = CHR ''1''" "digit_char 2 = CHR ''2''" "digit_char 6 = CHR ''6''"
    by code_simp+
  then show "py_int_str 60000 = ''60000''" "py_int_str 120000 = ''120000''"
    by (simp_all add: py_int_str_def nat_str_big nat_str_small del: One_nat_def)
qed

lemma example_route:
  "parse_route example_lib [example_stream] ''/v1/streams/BTCUSDT.P/1m/continuity-audits'' = Inr (example_stream, ''continuity-audits'')"
proof -
  let ?path = "''/v1/streams/BTCUSDT.P/1m/continuity-audits''"
  have "strip_slashes ?path = ''v1'' @ concat (map ((#) (CHR ''/'')) [''streams'', ''BTCUSDT.P'', ''1m'', ''continuity-audits''])"
    by (simp add: strip_slashes_def py_rstrip_char_def)
  then have "split_on (CHR ''/'') (strip_slashes ?path) = [''v1'', ''streams'', ''BTCUSDT.P'', ''1m'', ''continuity-audits'']"
    by (simp only:) (rule split_on_parts, simp)
  moreover have "url_split example_lib ?path = Inr (?path, [])"
    by (simp add: url_split_def drop_scheme_def drop_netloc_def cut_at_def)
  moreover have "bindR (mk_instrument_key ''BTCUSDT.P'') (\<lambda>i. mk_stream_key i ''1m'') = Inr example_stream" by code_simp
  ultimately show ?thesis by (simp add: parse_route_def unquote_def del: bindR_eq_Inr)
qed

definition field_order :: "string list" where
  "field_order = [''to_ms'', ''ticker'', ''from_ms'', ''timeframe'']"

definition example_handlers :: handlers where
  "example_handlers = \<lparr>hh_candles = Some (candles_endpoint example_lib field_order [example_stream]),
     hh_planning_get = None, hh_planning_post = None, hh_historical = None\<rparr>"

lemma example_bars: "\<forall>t. 60000 \<le> t \<longrightarrow> t < 120000 \<longrightarrow> t mod stream_step example_stream = 0 \<longrightarrow> stored ready_db example_stream t"
proof (intro allI impI)
  fix t assume t: "(60000 :: int) \<le> t" "t < 120000" "t mod stream_step example_stream = 0"
  have "stream_step example_stream = 60000" by code_simp
  with t have "t \<in> set (grid 60000 120000 (stream_step example_stream))"
    using set_grid [OF stream_step_pos [of example_stream], of 60000 120000] by simp
  then have "t = 60000" by (simp add: example_grid)
  then show "stored ready_db example_stream t" using ready_candle by (auto simp: stored_def)
qed

theorem candles_endpoint_answers_witness:
  "\<exists>candles. map cc_open_time_ms candles = [60000] \<and>
     router_get example_lib [] (mk_status_store []) example_handlers
       ''/v1/candles?ticker=BTCUSDT.P&timeframe=1m&from_ms=60000&to_ms=120000'' ready_world =
     (Inr (200, range_document ready_db example_stream 60000 120000
        (canonical_market_data_hash example_stream 60000 120000 candles) candles), ready_world)"
proof -
  have target: "''/v1/candles?ticker=BTCUSDT.P&timeframe=1m&from_ms=60000&to_ms=120000'' = candles_target example_stream 60000 120000"
    by (simp add: candles_target_def candles_query_def example_texts example_stream_def tf_id_def)
  have s: "canonical_stream example_stream" "range_valid example_stream 60000 120000" by code_simp+
  have st: "ss_state ready_state = READY" "ss_earliest_available_open_time_ms ready_state = Some 60000"
    "ss_latest_committed_open_time_ms ready_state = Some 60000" "(120000 :: int) \<le> 60000 + stream_step example_stream"
    by code_simp+
  have names: "set field_order = allowed_fields" "distinct field_order"
    by (auto simp: field_order_def allowed_fields_def)
  have d: "w_disk ready_world = ready_db" by (simp add: ready_world_def)
  have h: "hh_candles example_handlers = Some (candles_endpoint example_lib field_order [example_stream])"
    by (simp add: example_handlers_def)
  have n: "example_stream \<in> set [example_stream]" "(120000 :: int) < 10 ^ 6" "(0 :: nat) < 6" "(6 :: nat) \<le> 4300"
    "(60000 :: int) \<le> 60000" by simp_all
  obtain candles where
    c: "range_answer ready_db example_stream 60000 120000 candles
        (map (\<lambda>c. oi_text ready_db example_stream (cc_open_time_ms c)) candles)"
      "router_get example_lib [] (mk_status_store []) example_handlers (candles_target example_stream 60000 120000) ready_world =
       (Inr (200, range_document ready_db example_stream 60000 120000
          (canonical_market_data_hash example_stream 60000 120000 candles) candles), ready_world)"
    using candles_endpoint_answers [of ready_world, unfolded d, OF ready_inv s(1) n(1) s(2) n(2-4) ready_reads st(1,2) n(5) st(3,4)
        example_bars names h, of "[]" "mk_status_store []"] by blast
  have "map cc_open_time_ms candles = [60000]" using c(1) by (simp only: range_answer_def example_grid)
  with c(2) show ?thesis unfolding target by (intro exI [of _ candles] conjI)
qed

theorem audited_range_fetched_over_http_witness:
  "\<exists>doc w' h candles. handle_post example_lib [example_stream] (audit_stream_range (Some read_snapshot))
       ''/v1/streams/BTCUSDT.P/1m/continuity-audits'' (Inr (PDict [(''from_ms'', PInt 60000), (''to_ms'', PInt 120000)])) ready_world =
     (Inr (200, doc), w') \<and> dict_get doc ''market_data_hash'' = Some (PStr h) \<and>
     historical_read_handle (get_historical_candle_range [example_stream] (read_snapshot (w_disk w')))
       (Inr (PDict [(''ticker'', PStr ''BTCUSDT.P''), (''timeframe'', PStr ''1m''), (''from_ms'', PInt 60000), (''to_ms'', PInt 120000),
                    (''expected_market_data_hash'', PStr h)])) =
     (200, range_document ready_db example_stream 60000 120000 h candles)"
proof -
  let ?body = "Inr (PDict [(''from_ms'', PInt 60000), (''to_ms'', PInt 120000)])"
  let ?target = "''/v1/streams/BTCUSDT.P/1m/continuity-audits''"
  obtain x w' where x: "audit_stream_range (Some read_snapshot) example_stream 60000 120000 ready_world = (Inr x, w')"
    "ca_is_continuous x" by (rule example_audit_run)
  have inv: "service_inv (w_disk ready_world)" by (simp add: ready_world_def ready_inv)
  obtain h where h: "ca_market_data_hash x = Some h" using audit_range_run(6) [OF inv x(1)] x(2) by auto
  have st: "ca_stream x = example_stream"
    using x(1) by (auto simp: audit_stream_range_def bindE_eq_Inr returnE_def split: option.splits)
  have body: "parse_audit_payload ?body = Inr (60000, 120000)" by (simp add: parse_audit_payload_def require_int_def dict_get_def)
  have run: "handle_post example_lib [example_stream] (audit_stream_range (Some read_snapshot)) ?target ?body ready_world =
      (Inr (200, audit_document x), w')"
    by (simp add: handle_post_def answered_by_def bindE_def tryE_def liftR_def returnE_def example_route body x(1))
  have doc: "dict_get (audit_document x) ''market_data_hash'' = Some (PStr h)"
    "dict_get (audit_document x) ''ticker'' = Some (PStr ''BTCUSDT.P'')" "dict_get (audit_document x) ''timeframe'' = Some (PStr ''1m'')"
    by (simp_all add: audit_document_def dict_get_def h st opt_str_def example_stream_def tf_id_def)
  obtain s candles where "s \<in> set [example_stream]"
    "historical_read_handle (get_historical_candle_range [example_stream] (read_snapshot (w_disk w')))
       (Inr (PDict [(''ticker'', PStr ''BTCUSDT.P''), (''timeframe'', PStr ''1m''), (''from_ms'', PInt 60000), (''to_ms'', PInt 120000),
                    (''expected_market_data_hash'', PStr h)])) =
     (200, range_document (w_disk ready_world) s 60000 120000 h candles)"
    using audited_range_fetched_over_http [OF inv body run doc] by blast
  moreover have "w_disk ready_world = ready_db" by (simp add: ready_world_def)
  moreover from calculation(1) have "s = example_stream" by simp
  ultimately show ?thesis using run doc(1)
    by (intro exI [of _ "audit_document x"] exI [of _ w'] exI [of _ h] exI [of _ candles] conjI) simp_all
qed

end
