(* ===== verification/Settings.thy ===== *)
theory Settings
  imports Publication Http Config
begin

text \<open>
  runtime/settings.py, the command line overrides of entrypoints/serve.py, runtime/committed\_bar\_notification\_factory.py
  and what runtime/open\_interest\_composition.py builds from the settings. The environment is a function from names to
  texts; a path is its text. \<open>float(text)\<close> is modelled with infinities and NaN and with the comparisons of
  IEEE 754, finite values as exact numbers except that they overflow and underflow as a binary64 does. The theory shows which
  settings are accepted, that the workers built from accepted settings have sane limits, and that the
  guards of the seconds let a NaN through.
\<close>

section \<open>float(...)\<close>

datatype seconds = Secs rat | Infinite bool | NotANumber

fun fl_less :: "seconds \<Rightarrow> seconds \<Rightarrow> bool" where
  "fl_less (Secs a) (Secs b) \<longleftrightarrow> a < b"
| "fl_less (Secs a) (Infinite neg) \<longleftrightarrow> \<not> neg"
| "fl_less (Infinite neg) (Secs b) \<longleftrightarrow> neg"
| "fl_less (Infinite neg) (Infinite neg') \<longleftrightarrow> neg \<and> \<not> neg'"
| "fl_less _ _ \<longleftrightarrow> False"

fun fl_le :: "seconds \<Rightarrow> seconds \<Rightarrow> bool" where
  "fl_le (Secs a) (Secs b) \<longleftrightarrow> a \<le> b"
| "fl_le (Secs a) (Infinite neg) \<longleftrightarrow> \<not> neg"
| "fl_le (Infinite neg) (Secs b) \<longleftrightarrow> neg"
| "fl_le (Infinite neg) (Infinite neg') \<longleftrightarrow> neg \<or> \<not> neg'"
| "fl_le _ _ \<longleftrightarrow> False"

fun fl_isfinite :: "seconds \<Rightarrow> bool" where
  "fl_isfinite (Secs a) \<longleftrightarrow> True"
| "fl_isfinite _ \<longleftrightarrow> False"

text \<open>The numbers from which a finite value rounds to infinity, and up to which it rounds to zero.\<close>

definition fl_of_rat :: "rat \<Rightarrow> seconds" where
  "fl_of_rat v =
     (if \<bar>v\<bar> \<ge> 2 ^ 1024 - 2 ^ 970 then Infinite (v < 0)
      else if \<bar>v\<bar> * 2 ^ 1075 \<le> 1 then Secs 0 else Secs v)"

text \<open>An underscore stands between two digits.\<close>

fun underscores_ok :: "char \<Rightarrow> string \<Rightarrow> bool" where
  "underscores_ok prev [] \<longleftrightarrow> prev \<noteq> CHR ''_''"
| "underscores_ok prev (c # cs) \<longleftrightarrow>
     (if c = CHR ''_'' then py_is_digit prev else prev = CHR ''_'' \<longrightarrow> py_is_digit c) \<and> underscores_ok c cs"

definition py_float_text :: "string \<Rightarrow> seconds res" where
  "py_float_text s =
     (let t = py_strip s;
          (neg, body) = take_sign (filter (\<lambda>c. c \<noteq> CHR ''_'') t);
          bad = Inl (Exn ValueError (''could not convert string to float: '' @ py_repr s))
      in if \<not> underscores_ok (CHR 0x00) t then bad
         else if py_lower body \<in> {''inf'', ''infinity''} then Inr (Infinite neg)
         else if py_lower body = ''nan'' then Inr NotANumber
         else case decimal_of_text t of Some (Finite d) \<Rightarrow> Inr (fl_of_rat (dec_val d)) | _ \<Rightarrow> bad)"

section \<open>RuntimeSettings\<close>

record runtime_settings =
  cf_database_path :: string
  cf_markets_config_path :: string
  cf_http_host :: string
  cf_http_port :: int
  cf_rest_base_url :: string
  cf_websocket_url :: string
  cf_startup_backfill_windows_per_stream :: int
  cf_startup_repair_windows_per_stream :: int
  cf_realtime_recovery_windows_per_stream :: int
  cf_historical_retry_base_seconds :: seconds
  cf_historical_retry_max_seconds :: seconds
  cf_oi_track_windows_per_pass :: int
  cf_oi_live_timeout_seconds :: seconds
  cf_oi_prefetch_delay_seconds :: seconds
  cf_oi_prefetch_retry_seconds :: seconds
  cf_oi_prefetch_concurrency :: int
  cf_realtime_recovery_base_seconds :: seconds
  cf_realtime_recovery_max_seconds :: seconds
  cf_realtime_recovery_idle_seconds :: seconds
  cf_realtime_stale_check_seconds :: seconds
  cf_reconnect_max_attempts :: int
  cf_reconnect_delay_seconds :: seconds
  cf_websocket_ping_timeout_seconds :: seconds
  cf_event_loop_lag_warn_seconds :: seconds
  cf_loop_diagnostics_enabled :: bool
  cf_stale_grace_ms :: int
  cf_stale_recovery_first_retry_seconds :: seconds
  cf_stale_recovery_next_retry_seconds :: seconds
  cf_log_level :: string
  cf_runtime_webhook_enabled :: bool
  cf_strategy_runtime_base_url :: string
  cf_runtime_webhook_timeout_seconds :: seconds
  cf_runtime_webhook_queue_capacity :: int

text \<open>\<open>if bad: raise ValueError(message)\<close>, one after the other.\<close>

fun raise_first :: "(bool \<times> string) list \<Rightarrow> unit res" where
  "raise_first [] = Inr ()"
| "raise_first ((bad, message) # checks) = (if bad then Inl (Exn ValueError message) else raise_first checks)"

definition positive_counts :: "runtime_settings \<Rightarrow> (bool \<times> string) list" where
  "positive_counts s = map (\<lambda>(name, n). (n \<le> 0, name @ '' must be positive''))
     [(''startup_backfill_windows_per_stream'', cf_startup_backfill_windows_per_stream s),
      (''startup_repair_windows_per_stream'', cf_startup_repair_windows_per_stream s),
      (''realtime_recovery_windows_per_stream'', cf_realtime_recovery_windows_per_stream s),
      (''reconnect_max_attempts'', cf_reconnect_max_attempts s),
      (''oi_track_windows_per_pass'', cf_oi_track_windows_per_pass s),
      (''oi_prefetch_concurrency'', cf_oi_prefetch_concurrency s)]"

definition settings_checks :: "runtime_settings \<Rightarrow> (bool \<times> string) list" where
  "settings_checks s =
     [(py_strip (cf_http_host s) = [], ''http_host must not be empty''),
      (\<not> (1 \<le> cf_http_port s \<and> cf_http_port s \<le> 65535), ''http_port must be in range 1..65535'')] @
     positive_counts s @
     [(fl_less (cf_historical_retry_base_seconds s) (Secs 0), ''historical_retry_base_seconds must be non-negative''),
      (fl_less (cf_historical_retry_max_seconds s) (cf_historical_retry_base_seconds s), ''historical_retry_max_seconds must be >= base''),
      (\<not> fl_isfinite (cf_oi_live_timeout_seconds s) \<or> fl_le (cf_oi_live_timeout_seconds s) (Secs 0),
       ''oi_live_timeout_seconds must be finite and positive''),
      (\<not> fl_isfinite (cf_oi_prefetch_delay_seconds s) \<or> fl_less (cf_oi_prefetch_delay_seconds s) (Secs 0),
       ''oi_prefetch_delay_seconds must be finite and non-negative''),
      (\<not> fl_isfinite (cf_oi_prefetch_retry_seconds s) \<or> fl_le (cf_oi_prefetch_retry_seconds s) (Secs 0),
       ''oi_prefetch_retry_seconds must be finite and positive''),
      (fl_less (cf_realtime_recovery_base_seconds s) (Secs 0), ''realtime_recovery_base_seconds must be non-negative''),
      (fl_less (cf_realtime_recovery_max_seconds s) (cf_realtime_recovery_base_seconds s), ''realtime_recovery_max_seconds must be >= base''),
      (fl_le (cf_realtime_recovery_idle_seconds s) (Secs 0), ''realtime_recovery_idle_seconds must be positive''),
      (fl_le (cf_realtime_stale_check_seconds s) (Secs 0), ''realtime_stale_check_seconds must be positive''),
      (fl_less (cf_reconnect_delay_seconds s) (Secs 0), ''reconnect_delay_seconds must be non-negative''),
      (fl_le (cf_websocket_ping_timeout_seconds s) (Secs 0), ''websocket_ping_timeout_seconds must be positive''),
      (fl_le (cf_event_loop_lag_warn_seconds s) (Secs 0), ''event_loop_lag_warn_seconds must be positive''),
      (cf_stale_grace_ms s < 0, ''stale_grace_ms must be non-negative''),
      (fl_le (cf_stale_recovery_first_retry_seconds s) (Secs 0), ''stale_recovery_first_retry_seconds must be positive''),
      (fl_less (cf_stale_recovery_next_retry_seconds s) (cf_stale_recovery_first_retry_seconds s),
       ''stale_recovery_next_retry_seconds must be >= first''),
      (py_upper (cf_log_level s) \<notin> {''DEBUG'', ''INFO'', ''WARNING'', ''ERROR'', ''CRITICAL''}, ''unsupported log_level'')]"

text \<open>The scheme and the network location of \<open>urlsplit(url)\<close>.\<close>

definition url_origin :: "url_lib \<Rightarrow> string \<Rightarrow> (string \<times> string) res" where
  "url_origin lib text =
     (let url = filter (\<lambda>c. c \<notin> {CHR 0x09, CHR 0x0A, CHR 0x0D}) (dropWhile (\<lambda>c. of_char c \<le> (32 :: nat)) text);
          rest = drop_scheme url;
          scheme = (if rest = url then [] else py_lower (fst (cut_at (CHR '':'') url)));
          netloc = (if take 2 rest = ''//'' then takeWhile (\<lambda>c. c \<notin> {CHR ''/'', CHR ''?'', CHR ''#''}) (drop 2 rest) else [])
      in bindR (drop_netloc lib rest) (\<lambda>_. Inr (scheme, netloc)))"

definition webhook_checks :: "url_lib \<Rightarrow> runtime_settings \<Rightarrow> unit res" where
  "webhook_checks lib s =
     bindR (url_origin lib (cf_strategy_runtime_base_url s)) (\<lambda>(scheme, netloc).
     raise_first
       [(scheme \<notin> {''http'', ''https''} \<or> netloc = [],
         ''strategy_runtime_base_url must be an absolute http(s) URL when runtime_webhook_enabled is true''),
        (\<not> fl_isfinite (cf_runtime_webhook_timeout_seconds s) \<or> fl_le (cf_runtime_webhook_timeout_seconds s) (Secs 0),
         ''runtime_webhook_timeout_seconds must be finite and positive''),
        (cf_runtime_webhook_queue_capacity s \<le> 0, ''runtime_webhook_queue_capacity must be positive'')])"

text \<open>\<open>__post_init__\<close>.\<close>

definition mk_runtime_settings :: "url_lib \<Rightarrow> runtime_settings \<Rightarrow> runtime_settings res" where
  "mk_runtime_settings lib s =
     bindR (raise_first (settings_checks s)) (\<lambda>_.
     bindR (if cf_runtime_webhook_enabled s then webhook_checks lib s else Inr ()) (\<lambda>_. Inr s))"

section \<open>The environment\<close>

type_synonym environ = "string \<Rightarrow> string option"

definition env_text :: "environ \<Rightarrow> string \<Rightarrow> string \<Rightarrow> string" where
  "env_text env name fallback = (case env name of None \<Rightarrow> fallback | Some v \<Rightarrow> v)"

definition env_int :: "environ \<Rightarrow> string \<Rightarrow> string \<Rightarrow> int res" where
  "env_int env name fallback = py_int_text (env_text env name fallback)"

definition env_float :: "environ \<Rightarrow> string \<Rightarrow> string \<Rightarrow> seconds res" where
  "env_float env name fallback = py_float_text (env_text env name fallback)"

definition parse_bool :: "string \<Rightarrow> bool" where
  "parse_bool v \<longleftrightarrow> py_lower (py_strip v) \<in> {''1'', ''true'', ''yes'', ''on''}"

record webhook_environment =
  we_enabled :: bool
  we_base_url :: string
  we_timeout_seconds :: seconds
  we_queue_capacity :: int

definition parse_webhook_environment :: "environ \<Rightarrow> webhook_environment res" where
  "parse_webhook_environment env =
     (if \<not> parse_bool (env_text env ''MDS_RUNTIME_WEBHOOK_ENABLED'' ''false'')
      then Inr \<lparr>we_enabled = False, we_base_url = [], we_timeout_seconds = Secs 2, we_queue_capacity = 256\<rparr>
      else
        bindR (env_float env ''MDS_RUNTIME_WEBHOOK_TIMEOUT_SECONDS'' ''2.0'') (\<lambda>timeout.
        bindR (env_int env ''MDS_RUNTIME_WEBHOOK_QUEUE_CAPACITY'' ''256'') (\<lambda>capacity.
        Inr \<lparr>we_enabled = True, we_base_url = env_text env ''MDS_STRATEGY_RUNTIME_BASE_URL'' [],
          we_timeout_seconds = timeout, we_queue_capacity = capacity\<rparr>)))"

definition from_environment :: "url_lib \<Rightarrow> environ \<Rightarrow> runtime_settings res" where
  "from_environment lib env =
     bindR (parse_webhook_environment env) (\<lambda>webhook.
     bindR (env_int env ''MDS_HTTP_PORT'' ''8080'') (\<lambda>http_port.
     bindR (env_int env ''MDS_STARTUP_BACKFILL_WINDOWS_PER_STREAM'' ''2'') (\<lambda>backfill_windows.
     bindR (env_int env ''MDS_STARTUP_REPAIR_WINDOWS_PER_STREAM'' ''2'') (\<lambda>repair_windows.
     bindR (env_int env ''MDS_REALTIME_RECOVERY_WINDOWS_PER_STREAM'' ''2'') (\<lambda>recovery_windows.
     bindR (env_float env ''MDS_HISTORICAL_RETRY_BASE_SECONDS'' ''1.0'') (\<lambda>historical_base.
     bindR (env_float env ''MDS_HISTORICAL_RETRY_MAX_SECONDS'' ''60.0'') (\<lambda>historical_max.
     bindR (env_int env ''MDS_OI_TRACK_WINDOWS_PER_PASS'' ''2'') (\<lambda>oi_windows.
     bindR (env_float env ''MDS_OI_LIVE_TIMEOUT_SECONDS'' ''2.0'') (\<lambda>oi_timeout.
     bindR (env_float env ''MDS_OI_PREFETCH_DELAY_SECONDS'' ''20.0'') (\<lambda>prefetch_delay.
     bindR (env_float env ''MDS_OI_PREFETCH_RETRY_SECONDS'' ''15.0'') (\<lambda>prefetch_retry.
     bindR (env_int env ''MDS_OI_PREFETCH_CONCURRENCY'' ''4'') (\<lambda>prefetch_slots.
     bindR (env_float env ''MDS_REALTIME_RECOVERY_BASE_SECONDS'' ''1.0'') (\<lambda>recovery_base.
     bindR (env_float env ''MDS_REALTIME_RECOVERY_MAX_SECONDS'' ''60.0'') (\<lambda>recovery_max.
     bindR (env_float env ''MDS_REALTIME_RECOVERY_IDLE_SECONDS'' ''0.1'') (\<lambda>recovery_idle.
     bindR (env_float env ''MDS_REALTIME_STALE_CHECK_SECONDS'' ''1.0'') (\<lambda>stale_check.
     bindR (env_int env ''MDS_RECONNECT_MAX_ATTEMPTS'' ''3'') (\<lambda>max_attempts.
     bindR (env_float env ''MDS_RECONNECT_DELAY_SECONDS'' ''1.0'') (\<lambda>reconnect_delay.
     bindR (env_float env ''MDS_WS_PING_TIMEOUT_SECONDS'' ''60.0'') (\<lambda>ping_timeout.
     bindR (env_float env ''MDS_EVENT_LOOP_LAG_WARN_SECONDS'' ''1.0'') (\<lambda>lag_warn.
     bindR (env_int env ''MDS_STALE_GRACE_MS'' ''15000'') (\<lambda>stale_grace.
     bindR (env_float env ''MDS_STALE_RECOVERY_FIRST_RETRY_SECONDS'' ''60.0'') (\<lambda>first_retry.
     bindR (env_float env ''MDS_STALE_RECOVERY_NEXT_RETRY_SECONDS'' ''360.0'') (\<lambda>next_retry.
     mk_runtime_settings lib
       \<lparr>cf_database_path = env_text env ''MDS_DATABASE_PATH'' ''data/market.sqlite3'',
        cf_markets_config_path = env_text env ''MDS_MARKETS_CONFIG_PATH'' ''config/markets.toml'',
        cf_http_host = env_text env ''MDS_HTTP_HOST'' ''127.0.0.1'',
        cf_http_port = http_port,
        cf_rest_base_url = env_text env ''MDS_REST_BASE_URL'' ''https://api.bybit.com'',
        cf_websocket_url = env_text env ''MDS_WEBSOCKET_URL'' ''wss://stream.bybit.com/v5/public/linear'',
        cf_startup_backfill_windows_per_stream = backfill_windows,
        cf_startup_repair_windows_per_stream = repair_windows,
        cf_realtime_recovery_windows_per_stream = recovery_windows,
        cf_historical_retry_base_seconds = historical_base, cf_historical_retry_max_seconds = historical_max,
        cf_oi_track_windows_per_pass = oi_windows, cf_oi_live_timeout_seconds = oi_timeout,
        cf_oi_prefetch_delay_seconds = prefetch_delay, cf_oi_prefetch_retry_seconds = prefetch_retry,
        cf_oi_prefetch_concurrency = prefetch_slots,
        cf_realtime_recovery_base_seconds = recovery_base, cf_realtime_recovery_max_seconds = recovery_max,
        cf_realtime_recovery_idle_seconds = recovery_idle, cf_realtime_stale_check_seconds = stale_check,
        cf_reconnect_max_attempts = max_attempts, cf_reconnect_delay_seconds = reconnect_delay,
        cf_websocket_ping_timeout_seconds = ping_timeout, cf_event_loop_lag_warn_seconds = lag_warn,
        cf_loop_diagnostics_enabled = parse_bool (env_text env ''MDS_LOOP_DIAGNOSTICS_ENABLED'' ''false''),
        cf_stale_grace_ms = stale_grace,
        cf_stale_recovery_first_retry_seconds = first_retry, cf_stale_recovery_next_retry_seconds = next_retry,
        cf_log_level = py_upper (env_text env ''MDS_LOG_LEVEL'' ''INFO''),
        cf_runtime_webhook_enabled = we_enabled webhook, cf_strategy_runtime_base_url = we_base_url webhook,
        cf_runtime_webhook_timeout_seconds = we_timeout_seconds webhook,
        cf_runtime_webhook_queue_capacity = we_queue_capacity webhook\<rparr>)))))))))))))))))))))))"

section \<open>serve.py\<close>

text \<open>What \<open>argparse\<close> gives: an option that is absent is \<open>None\<close>.\<close>

record serve_args =
  sa_database :: "string option"
  sa_config :: "string option"
  sa_host :: "string option"
  sa_port :: "int option"
  sa_rest_url :: "string option"
  sa_websocket_url :: "string option"
  sa_startup_backfill_windows :: "int option"
  sa_startup_repair_windows :: "int option"
  sa_log_level :: "string option"

definition given :: "'a option \<Rightarrow> 'a \<Rightarrow> 'a" where
  "given v old = (case v of None \<Rightarrow> old | Some x \<Rightarrow> x)"

text \<open>\<open>dataclasses.replace\<close> runs \<open>__post_init__\<close> again.\<close>

definition apply_cli :: "url_lib \<Rightarrow> runtime_settings \<Rightarrow> serve_args \<Rightarrow> runtime_settings res" where
  "apply_cli lib s args = mk_runtime_settings lib (s\<lparr>
     cf_database_path := given (sa_database args) (cf_database_path s),
     cf_markets_config_path := given (sa_config args) (cf_markets_config_path s),
     cf_http_host := given (sa_host args) (cf_http_host s),
     cf_http_port := given (sa_port args) (cf_http_port s),
     cf_rest_base_url := given (sa_rest_url args) (cf_rest_base_url s),
     cf_websocket_url := given (sa_websocket_url args) (cf_websocket_url s),
     cf_startup_backfill_windows_per_stream := given (sa_startup_backfill_windows args) (cf_startup_backfill_windows_per_stream s),
     cf_startup_repair_windows_per_stream := given (sa_startup_repair_windows args) (cf_startup_repair_windows_per_stream s),
     cf_log_level := given (sa_log_level args) (cf_log_level s)\<rparr>)"

text \<open>The settings \<open>main\<close> runs the service with.\<close>

definition serve_settings :: "url_lib \<Rightarrow> environ \<Rightarrow> serve_args \<Rightarrow> runtime_settings res" where
  "serve_settings lib env args = bindR (from_environment lib env) (\<lambda>s. apply_cli lib s args)"

section \<open>What is built from the settings\<close>

text \<open>\<open>int(x * 1000)\<close>: truncation towards zero; the seconds are finite by then.\<close>

definition to_ms :: "seconds \<Rightarrow> int" where
  "to_ms x = (case x of Secs v \<Rightarrow> (if v < 0 then \<lceil>v * 1000\<rceil> else \<lfloor>v * 1000\<rfloor>) | _ \<Rightarrow> 0)"

definition open_interest_prefetch :: "validated_market_config \<Rightarrow> runtime_settings \<Rightarrow> prefetch_config option" where
  "open_interest_prefetch config s =
     (let streams = config_open_interest_streams config
      in if streams = [] \<or> cf_oi_prefetch_delay_seconds s = Secs 0 then None
         else Some \<lparr>fc_streams = streams, fc_delay_ms = to_ms (cf_oi_prefetch_delay_seconds s),
                fc_retry_ms = to_ms (cf_oi_prefetch_retry_seconds s), fc_concurrency = nat (cf_oi_prefetch_concurrency s)\<rparr>)"

datatype notifier = WebhookDisabled | HttpNotifier string seconds

record notifier_worker =
  nw_notifier :: notifier
  nw_capacity :: int
  nw_prepares :: bool

text \<open>\<open>open_interest_notification_worker\<close> gives \<open>prepare\<close> exactly when a stream carries open interest.\<close>

definition build_notifier_worker :: "validated_market_config \<Rightarrow> runtime_settings \<Rightarrow> notifier_worker option res" where
  "build_notifier_worker config s =
     (let prepares = (config_open_interest_streams config \<noteq> [])
      in if \<not> cf_runtime_webhook_enabled s
         then Inr (if \<not> prepares then None
                   else Some \<lparr>nw_notifier = WebhookDisabled, nw_capacity = cf_runtime_webhook_queue_capacity s, nw_prepares = prepares\<rparr>)
         else if cf_runtime_webhook_queue_capacity s < int (length (enabled_streams config))
         then Inl (Exn ValueError ''MDS_RUNTIME_WEBHOOK_QUEUE_CAPACITY must be at least the number of enabled streams'')
         else Inr (Some \<lparr>nw_notifier = HttpNotifier (py_rstrip_char (CHR ''/'') (cf_strategy_runtime_base_url s) @ ''/v1/webhooks/closed-bar'')
                     (cf_runtime_webhook_timeout_seconds s),
                   nw_capacity = cf_runtime_webhook_queue_capacity s, nw_prepares = prepares\<rparr>))"

text \<open>The policy of the recovery worker; it has one of numbers when no seconds are infinite or NaN.\<close>

definition recovery_policy_of :: "runtime_settings \<Rightarrow> recovery_policy option" where
  "recovery_policy_of s =
     (case (cf_realtime_recovery_base_seconds s, cf_realtime_recovery_max_seconds s, cf_stale_recovery_first_retry_seconds s,
            cf_stale_recovery_next_retry_seconds s, cf_realtime_recovery_idle_seconds s) of
        (Secs base, Secs most, Secs first, Secs next, Secs idle) \<Rightarrow>
          Some \<lparr>rv_max_windows = cf_realtime_recovery_windows_per_stream s, rv_base_backoff = base, rv_max_backoff = most,
            rv_stale_first_retry = first, rv_stale_next_retry = next, rv_idle_seconds = idle\<rparr>
      | _ \<Rightarrow> None)"

section \<open>Accepted settings\<close>

lemma raise_first_Inr: "raise_first checks = Inr u \<longleftrightarrow> (\<forall>(bad, message) \<in> set checks. \<not> bad)"
  by (induction checks) (auto split: if_splits)

lemma mk_runtime_settings_Inr:
  "mk_runtime_settings lib s = Inr s' \<Longrightarrow>
   s' = s \<and> (\<forall>(bad, message) \<in> set (settings_checks s). \<not> bad) \<and> (cf_runtime_webhook_enabled s \<longrightarrow> webhook_checks lib s = Inr ())"
  by (auto simp: mk_runtime_settings_def raise_first_Inr bindR_eq_Inr split: if_splits)

lemma settings_accepted:
  assumes "mk_runtime_settings lib s = Inr s'"
  shows "1 \<le> cf_http_port s" "cf_http_port s \<le> 65535"
    "0 < cf_startup_backfill_windows_per_stream s" "0 < cf_startup_repair_windows_per_stream s"
    "0 < cf_realtime_recovery_windows_per_stream s" "0 < cf_reconnect_max_attempts s"
    "0 < cf_oi_track_windows_per_pass s" "0 < cf_oi_prefetch_concurrency s" "0 \<le> cf_stale_grace_ms s"
    "fl_isfinite (cf_oi_prefetch_delay_seconds s)" "\<not> fl_less (cf_oi_prefetch_delay_seconds s) (Secs 0)"
    "fl_isfinite (cf_oi_prefetch_retry_seconds s)" "\<not> fl_le (cf_oi_prefetch_retry_seconds s) (Secs 0)"
    "\<not> fl_less (cf_realtime_recovery_base_seconds s) (Secs 0)"
    "\<not> fl_less (cf_realtime_recovery_max_seconds s) (cf_realtime_recovery_base_seconds s)"
    "\<not> fl_le (cf_realtime_recovery_idle_seconds s) (Secs 0)"
    "\<not> fl_le (cf_stale_recovery_first_retry_seconds s) (Secs 0)"
    "\<not> fl_less (cf_stale_recovery_next_retry_seconds s) (cf_stale_recovery_first_retry_seconds s)"
  using mk_runtime_settings_Inr [OF assms] by (simp_all add: settings_checks_def positive_counts_def not_le)

lemma webhook_accepted:
  "mk_runtime_settings lib s = Inr s' \<Longrightarrow> cf_runtime_webhook_enabled s \<Longrightarrow> 0 < cf_runtime_webhook_queue_capacity s"
  using mk_runtime_settings_Inr [of lib s s'] by (auto simp: webhook_checks_def bindR_eq_Inr split: if_splits)

text \<open>Without the webhook the capacity is the fixed one; the command line cannot change it.\<close>

lemma environment_capacity:
  "from_environment lib env = Inr s \<Longrightarrow> \<not> cf_runtime_webhook_enabled s \<Longrightarrow> cf_runtime_webhook_queue_capacity s = 256"
  by (auto simp: from_environment_def bindR_eq_Inr parse_webhook_environment_def dest!: mk_runtime_settings_Inr split: if_splits)

lemma serve_settings_run:
  assumes "serve_settings lib env args = Inr s"
  shows "mk_runtime_settings lib s = Inr s" "0 < cf_runtime_webhook_queue_capacity s"
proof -
  obtain s0 where s0: "from_environment lib env = Inr s0" "apply_cli lib s0 args = Inr s"
    using assms by (auto simp: serve_settings_def bindR_eq_Inr)
  show ok: "mk_runtime_settings lib s = Inr s"
    using s0(2) mk_runtime_settings_Inr unfolding apply_cli_def by metis
  have "cf_runtime_webhook_enabled s = cf_runtime_webhook_enabled s0" "cf_runtime_webhook_queue_capacity s = cf_runtime_webhook_queue_capacity s0"
    using mk_runtime_settings_Inr [OF s0(2) [unfolded apply_cli_def]] by simp_all
  then show "0 < cf_runtime_webhook_queue_capacity s"
    using environment_capacity [OF s0(1)] webhook_accepted [OF ok] by (cases "cf_runtime_webhook_enabled s") simp_all
qed

lemma to_ms_nonneg: "\<not> fl_less x (Secs 0) \<Longrightarrow> 0 \<le> to_ms x"
  by (cases x) (auto simp: to_ms_def)

lemma retry_delay_bounds:
  assumes "0 \<le> rv_base_backoff p" "rv_base_backoff p \<le> rv_max_backoff p" "0 < rv_stale_first_retry p"
    "rv_stale_first_retry p \<le> rv_stale_next_retry p"
  shows "0 \<le> fst (retry_delay p x)" "in_urgent x \<Longrightarrow> fst (retry_delay p x) \<le> rv_max_backoff p"
    "\<not> in_urgent x \<Longrightarrow> rv_stale_first_retry p \<le> fst (retry_delay p x)"
  using assms by (auto simp: retry_delay_def Let_def)


section \<open>The default environment\<close>

lemma float_texts:
  "py_float_text ''0.1'' = Inr (Secs (1 / 10))" "py_float_text ''1.0'' = Inr (Secs 1)" "py_float_text ''2.0'' = Inr (Secs 2)"
  "py_float_text ''15.0'' = Inr (Secs 15)" "py_float_text ''20.0'' = Inr (Secs 20)" "py_float_text ''60.0'' = Inr (Secs 60)"
  "py_float_text ''360.0'' = Inr (Secs 360)"
  by (simp_all add: py_float_text_def take_sign_def decimal_of_text_def is_special_text_def parse_exponent_def Let_def strip_plain
      plain_def py_is_alnum_char_def py_is_digit_def py_lower_def py_lower_char_def digits_val_def digit_val_def dec_val_def fl_of_rat_def)

lemma nan_text: "py_float_text ''nan'' = Inr NotANumber"
  by code_simp

lemma int_texts:
  "py_int_text ''2'' = Inr 2" "py_int_text ''3'' = Inr 3" "py_int_text ''4'' = Inr 4" "py_int_text ''8080'' = Inr 8080"
  "py_int_text ''15000'' = Inr 15000"
  by (simp_all add: py_int_text_def Let_def strip_plain plain_def py_is_alnum_char_def py_is_digit_def digits_val_def digit_val_def)

text \<open>The class defaults.\<close>

definition default_settings :: runtime_settings where
  "default_settings =
     \<lparr>cf_database_path = ''data/market.sqlite3'', cf_markets_config_path = ''config/markets.toml'', cf_http_host = ''127.0.0.1'',
      cf_http_port = 8080, cf_rest_base_url = ''https://api.bybit.com'',
      cf_websocket_url = ''wss://stream.bybit.com/v5/public/linear'', cf_startup_backfill_windows_per_stream = 2,
      cf_startup_repair_windows_per_stream = 2, cf_realtime_recovery_windows_per_stream = 2,
      cf_historical_retry_base_seconds = Secs 1, cf_historical_retry_max_seconds = Secs 60, cf_oi_track_windows_per_pass = 2,
      cf_oi_live_timeout_seconds = Secs 2, cf_oi_prefetch_delay_seconds = Secs 20, cf_oi_prefetch_retry_seconds = Secs 15,
      cf_oi_prefetch_concurrency = 4, cf_realtime_recovery_base_seconds = Secs 1, cf_realtime_recovery_max_seconds = Secs 60,
      cf_realtime_recovery_idle_seconds = Secs (1 / 10), cf_realtime_stale_check_seconds = Secs 1, cf_reconnect_max_attempts = 3,
      cf_reconnect_delay_seconds = Secs 1, cf_websocket_ping_timeout_seconds = Secs 60, cf_event_loop_lag_warn_seconds = Secs 1,
      cf_loop_diagnostics_enabled = False, cf_stale_grace_ms = 15000, cf_stale_recovery_first_retry_seconds = Secs 60,
      cf_stale_recovery_next_retry_seconds = Secs 360, cf_log_level = ''INFO'', cf_runtime_webhook_enabled = False,
      cf_strategy_runtime_base_url = [], cf_runtime_webhook_timeout_seconds = Secs 2, cf_runtime_webhook_queue_capacity = 256\<rparr>"

lemma fixed_texts: "py_strip ''127.0.0.1'' = ''127.0.0.1''" "py_upper ''INFO'' = ''INFO''" "parse_bool ''false'' = False"
  by code_simp+

text \<open>One variable set, all others absent.\<close>

definition only :: "string \<Rightarrow> string \<Rightarrow> environ" where
  "only name text = (\<lambda>n. if n = name then Some text else None)"

lemmas default_eval = env_int_def env_float_def env_text_def parse_webhook_environment_def float_texts int_texts nan_text fixed_texts

lemma settings_checks_default: "raise_first (settings_checks default_settings) = Inr ()"
  by (simp add: settings_checks_def positive_counts_def default_settings_def fixed_texts)

lemma default_environment: "from_environment lib (\<lambda>_. None) = Inr default_settings"
  using settings_checks_default
  by (simp add: from_environment_def default_eval mk_runtime_settings_def default_settings_def)


definition no_args :: serve_args where
  "no_args = \<lparr>sa_database = None, sa_config = None, sa_host = None, sa_port = None, sa_rest_url = None, sa_websocket_url = None,
     sa_startup_backfill_windows = None, sa_startup_repair_windows = None, sa_log_level = None\<rparr>"

lemma default_served: "serve_settings lib (\<lambda>_. None) no_args = Inr default_settings"
proof -
  have "apply_cli lib default_settings no_args = mk_runtime_settings lib default_settings"
    by (simp add: apply_cli_def no_args_def given_def)
  also have "\<dots> = Inr default_settings"
    using settings_checks_default by (simp add: mk_runtime_settings_def default_settings_def)
  finally show ?thesis by (simp add: serve_settings_def default_environment)
qed


end
