(* ===== verification/Serve.thy ===== *)
theory Serve
  imports Settings Bootstrap ConsumerRead
begin

text \<open>
  adapters/sqlite/schema.py and bootstrap.py and the start of entrypoints/serve.py: creating the database file or migrating
  an older one, checking its schema, verifying the configured instruments and registering their streams, and
  the startup pass of the service. The file is a record: the names of its tables, the row of \<open>schema_meta\<close>, the columns of
  \<open>stream_state\<close> and the rows; a table that does not exist has none. The theory shows that a new file and
  every older version end as the current schema with the stored rows, and that the service starts
  from a database that satisfies the invariant of all other theories.
\<close>

section \<open>schema.py\<close>

record db_file =
  fi_tables :: "string list"
  fi_version :: "string option"
  fi_state_columns :: "string list"
  fi_rows :: db

type_synonym 'a file_prog = "(db_file, 'a) prog"

abbreviation OperationalError :: exn_class where
  "OperationalError \<equiv> OtherError ''OperationalError'' False"

abbreviation UnsupportedSchemaVersion :: exn_class where
  "UnsupportedSchemaVersion \<equiv> OtherError ''UnsupportedSchemaVersion'' False"

definition create_table :: "string \<Rightarrow> unit file_prog" where
  "create_table name = updateE (\<lambda>f.
     if name \<in> set (fi_tables f) then Inl (Exn OperationalError (''table '' @ name @ '' already exists''))
     else Inr (f\<lparr>fi_tables := fi_tables f @ [name]\<rparr>))"

text \<open>\<open>BEGIN IMMEDIATE ... commit\<close>, with \<open>rollback\<close> and the exception raised again.\<close>

definition in_file_transaction :: "'a file_prog \<Rightarrow> 'a file_prog" where
  "in_file_transaction m f = (case m f of (Inl e, f') \<Rightarrow> (Inl e, f) | (Inr x, f') \<Rightarrow> (Inr x, f'))"

definition set_version :: "string \<Rightarrow> unit file_prog" where
  "set_version v = updateE (\<lambda>f. Inr (f\<lparr>fi_version := map_option (\<lambda>_. v) (fi_version f)\<rparr>))"

definition discovery_column :: string where
  "discovery_column = ''lower_bound_discovery_next_open_time_ms''"

definition state_columns :: "string list" where
  "state_columns = [''stream_id'', ''state'', ''earliest_available_open_time_ms'', discovery_column,
     ''latest_committed_open_time_ms'', ''last_audit_at_ms'', ''last_rest_success_at_ms'', ''last_ws_message_at_ms'',
     ''last_error_code'', ''last_error_detail'', ''state_changed_at_ms'', ''updated_at_ms'']"

lemma state_columns_discovery [simp]: "discovery_column \<in> set state_columns"
  by (simp add: state_columns_def)

text \<open>The script schema\_v2.sql: every statement takes effect on its own. Its index stands on the new table.\<close>

definition schema_v2_script :: "unit file_prog" where
  "schema_v2_script =
     seqE (create_table ''schema_meta'')
     (seqE (updateE (\<lambda>f. Inr (f\<lparr>fi_version := Some ''2''\<rparr>)))
     (seqE (each create_table [''instruments'', ''streams'', ''candles''])
     (seqE (create_table ''stream_state'')
     (seqE (updateE (\<lambda>f. Inr (f\<lparr>fi_state_columns := state_columns\<rparr>)))
           (create_table ''quarantine'')))))"

definition migrate_v2_to_v3 :: "unit file_prog" where
  "migrate_v2_to_v3 = in_file_transaction
     (seqE (each create_table [''open_interest'', ''track_progress'']) (set_version ''3''))"

definition create_schema :: "unit file_prog" where
  "create_schema = seqE schema_v2_script migrate_v2_to_v3"

text \<open>\<open>INSERT INTO stream_state_v2 (...) SELECT ... FROM stream_state\<close>: the new column is NULL, so only the foreign key can
  refuse a row.\<close>

definition copy_stream_states :: "unit file_prog" where
  "copy_stream_states = updateE (\<lambda>f.
     if ''stream_state'' \<notin> set (fi_tables f) then Inl (Exn OperationalError ''no such table: stream_state'')
     else if \<not> fst ` set (db_states (fi_rows f)) \<subseteq> st_id ` set (db_streams (fi_rows f))
     then Inl (Exn IntegrityError ''FOREIGN KEY constraint failed'')
     else Inr (f\<lparr>fi_rows := (fi_rows f)\<lparr>db_states :=
            map (\<lambda>(n, st). (n, st\<lparr>ss_discovery_next_open_time_ms := None\<rparr>)) (db_states (fi_rows f))\<rparr>\<rparr>))"

text \<open>\<open>DROP TABLE stream_state\<close> and \<open>ALTER TABLE stream_state_v2 RENAME TO stream_state\<close>.\<close>

definition rename_stream_state :: "unit file_prog" where
  "rename_stream_state = updateE (\<lambda>f. Inr (f\<lparr>
     fi_tables := map (\<lambda>n. if n = ''stream_state_v2'' then ''stream_state'' else n) (removeAll ''stream_state'' (fi_tables f)),
     fi_state_columns := state_columns\<rparr>))"

definition migrate_v1_to_v2 :: "unit file_prog" where
  "migrate_v1_to_v2 = in_file_transaction
     (seqE (create_table ''stream_state_v2'') (seqE copy_stream_states (seqE rename_stream_state (set_version ''2''))))"

definition version_text :: "string option \<Rightarrow> string" where
  "version_text v = (case v of None \<Rightarrow> ''None'' | Some t \<Rightarrow> t)"

definition migrate_schema :: "unit file_prog" where
  "migrate_schema =
     bindE (readE (\<lambda>f. Inr (fi_version f))) (\<lambda>actual.
       if actual = Some ''3'' then returnE ()
       else if actual \<notin> {Some ''1'', Some ''2''}
       then raiseE (Exn UnsupportedSchemaVersion (''expected schema 1, 2 or 3, found '' @ version_text actual))
       else seqE (if actual = Some ''1'' then migrate_v1_to_v2 else returnE ()) migrate_v2_to_v3)"

definition required_tables :: "string list" where
  "required_tables = [''candles'', ''instruments'', ''open_interest'', ''quarantine'', ''schema_meta'', ''stream_state'',
     ''streams'', ''track_progress'']"

text \<open>\<open>sorted(missing)\<close>: the required tables are listed in their order.\<close>

definition validate_schema :: "unit file_prog" where
  "validate_schema = readE (\<lambda>f.
     if fi_version f \<noteq> Some ''3''
     then Inl (Exn UnsupportedSchemaVersion (''expected schema 3, found '' @ version_text (fi_version f)))
     else let missing = filter (\<lambda>n. n \<notin> set (fi_tables f)) required_tables
          in if missing \<noteq> []
             then Inl (Exn UnsupportedSchemaVersion
                    (''schema 3 missing tables: ['' @ py_join '', '' (map py_repr missing) @ '']''))
             else if discovery_column \<notin> set (fi_state_columns f)
             then Inl (Exn UnsupportedSchemaVersion (''schema 2 missing '' @ discovery_column))
             else Inr ())"

section \<open>bootstrap.py\<close>

definition initialize_database :: "unit file_prog" where
  "initialize_database =
     bindE (readE (\<lambda>f. Inr (''schema_meta'' \<in> set (fi_tables f)))) (\<lambda>schema_exists.
     bindE (if \<not> schema_exists then create_schema else migrate_schema) (\<lambda>_. validate_schema))"

text \<open>\<open>register_stream\<close> of bootstrap.py: one transaction; closing the connection drops one that was not committed.\<close>

definition register_committed :: "stream_key \<Rightarrow> string \<Rightarrow> int \<Rightarrow> unit app" where
  "register_committed stream exchange_symbol now w =
     (case register_stream stream exchange_symbol now (w_disk w) of
        Inl e \<Rightarrow> (Inl e, w)
      | Inr (sid, d) \<Rightarrow> (Inr (), w\<lparr>w_disk := d\<rparr>))"

section \<open>serve.py\<close>

definition coverage_by_ticker :: "validated_market_config \<Rightarrow> string \<Rightarrow> instrument_coverage option" where
  "coverage_by_ticker config = map_of (rev (map (\<lambda>c. (ticker (ic_instrument c), c)) (enabled_instruments config)))"

definition register_configured :: "env \<Rightarrow> validated_market_config \<Rightarrow> stream_key \<Rightarrow> unit app" where
  "register_configured E config stream =
     (case coverage_by_ticker config (ticker (sk_instrument stream)) of
        None \<Rightarrow> raiseE (Exn KeyError (py_repr (ticker (sk_instrument stream))))
      | Some coverage \<Rightarrow> bindE (now_ms E) (\<lambda>now. register_committed stream (ic_exchange_symbol coverage) now))"

definition prepare_service :: "env \<Rightarrow> validated_market_config \<Rightarrow> unit app" where
  "prepare_service E config =
     bindE (each (\<lambda>coverage. bindE (verify_configured_instrument_metadata E (ms_category (mc_source config)) coverage) (\<lambda>_. returnE ()))
              (enabled_instruments config)) (\<lambda>_.
       each (register_configured E config) (enabled_streams config))"

text \<open>The start of the service: \<open>_run\<close> up to the outcomes of \<open>RuntimeService._startup\<close>.\<close>

definition service_start :: "env \<Rightarrow> validated_market_config \<Rightarrow> runtime_settings \<Rightarrow> startup_outcome list app" where
  "service_start E config s =
     bindE (prepare_service E config) (\<lambda>_.
       startup_execute E (service_reconciler E (cf_startup_backfill_windows_per_stream s) (cf_startup_repair_windows_per_stream s)
           (cf_oi_track_windows_per_pass s) (config_open_interest_streams config)) (enabled_streams config))"

section \<open>Versions of the schema\<close>

definition v2_tables :: "string set" where
  "v2_tables = {''schema_meta'', ''instruments'', ''streams'', ''candles'', ''stream_state'', ''quarantine''}"

text \<open>A file as one of the versions left it; version 0 is a file without tables.\<close>

definition file_at :: "nat \<Rightarrow> db_file \<Rightarrow> bool" where
  "file_at v f \<longleftrightarrow>
     (if v = 0 then fi_tables f = [] \<and> fi_rows f = empty_db
      else if v = 1 then set (fi_tables f) = v2_tables \<and> fi_version f = Some ''1'' \<and>
        fst ` set (db_states (fi_rows f)) \<subseteq> st_id ` set (db_streams (fi_rows f))
      else if v = 2 then set (fi_tables f) = v2_tables \<and> fi_version f = Some ''2'' \<and> discovery_column \<in> set (fi_state_columns f)
      else v = 3 \<and> set (fi_tables f) = set required_tables \<and> fi_version f = Some ''3'' \<and> discovery_column \<in> set (fi_state_columns f)) \<and>
     (v < 3 \<longrightarrow> db_open_interest (fi_rows f) = [] \<and> db_tracks (fi_rows f) = [])"

definition upgraded :: "nat \<Rightarrow> db \<Rightarrow> db" where
  "upgraded v d =
     (if v = 1 then d\<lparr>db_states := map (\<lambda>(n, st). (n, st\<lparr>ss_discovery_next_open_time_ms := None\<rparr>)) (db_states d)\<rparr> else d)"

lemmas file_steps = create_table_def set_version_def in_file_transaction_def copy_stream_states_def rename_stream_state_def
  each_def seqE_def bindE_def updateE_def readE_def returnE_def

lemma file_at_versions:
  "file_at 0 f \<longleftrightarrow> fi_tables f = [] \<and> fi_rows f = empty_db"
  "file_at 1 f \<longleftrightarrow> set (fi_tables f) = v2_tables \<and> fi_version f = Some ''1'' \<and>
     fst ` set (db_states (fi_rows f)) \<subseteq> st_id ` set (db_streams (fi_rows f)) \<and>
     db_open_interest (fi_rows f) = [] \<and> db_tracks (fi_rows f) = []"
  "file_at 2 f \<longleftrightarrow> set (fi_tables f) = v2_tables \<and> fi_version f = Some ''2'' \<and>
     discovery_column \<in> set (fi_state_columns f) \<and> db_open_interest (fi_rows f) = [] \<and> db_tracks (fi_rows f) = []"
  "file_at 3 f \<longleftrightarrow> set (fi_tables f) = set required_tables \<and> fi_version f = Some ''3'' \<and>
     discovery_column \<in> set (fi_state_columns f)"
  by (auto simp: file_at_def empty_db_def)

lemma file_at_cases: "file_at v f \<Longrightarrow> v = 0 \<or> v = 1 \<or> v = 2 \<or> v = 3"
  by (auto simp: file_at_def split: if_splits)

lemma v2_to_v3:
  assumes "''open_interest'' \<notin> set (fi_tables f)" "''track_progress'' \<notin> set (fi_tables f)" "fi_version f = Some v"
  shows "migrate_v2_to_v3 f = (Inr (), f\<lparr>fi_tables := fi_tables f @ [''open_interest'', ''track_progress''], fi_version := Some ''3''\<rparr>)"
  using assms by (simp add: migrate_v2_to_v3_def file_steps)

lemma rename_tables:
  "x \<in> set T \<Longrightarrow> y \<notin> set T \<Longrightarrow> set (map (\<lambda>n. if n = y then x else n) (removeAll x (T @ [y]))) = set T"
  by auto

lemma v1_to_v2:
  assumes "file_at 1 f"
  shows "\<exists>f'. migrate_v1_to_v2 f = (Inr (), f') \<and> file_at 2 f' \<and> fi_rows f' = upgraded 1 (fi_rows f)"
proof -
  let ?T = "map (\<lambda>n. if n = ''stream_state_v2'' then ''stream_state'' else n)
        (removeAll ''stream_state'' (fi_tables f @ [''stream_state_v2'']))"
  let ?f = "f\<lparr>fi_tables := ?T, fi_version := Some ''2'', fi_state_columns := state_columns, fi_rows := upgraded 1 (fi_rows f)\<rparr>"
  have old: "set (fi_tables f) = v2_tables" "fi_version f = Some ''1''"
    "fst ` set (db_states (fi_rows f)) \<subseteq> st_id ` set (db_streams (fi_rows f))"
    using assms unfolding file_at_versions by simp_all
  then have "migrate_v1_to_v2 f = (Inr (), ?f)"
    by (simp add: migrate_v1_to_v2_def file_steps upgraded_def v2_tables_def)
  moreover have "set (fi_tables ?f) = v2_tables"
  proof -
    have "''stream_state'' \<in> set (fi_tables f)" "''stream_state_v2'' \<notin> set (fi_tables f)"
      using old(1) by (simp_all add: v2_tables_def)
    from rename_tables [OF this] old(1) have "set ?T = v2_tables" by (rule trans)
    moreover have "fi_tables ?f = ?T" by simp
    ultimately show ?thesis by metis
  qed
  then have "file_at 2 ?f" using assms unfolding file_at_versions by (simp add: upgraded_def)
  ultimately show ?thesis by (intro exI [of _ ?f]) simp
qed

lemma validate_current: "file_at 3 f \<Longrightarrow> validate_schema f = (Inr (), f)"
  by (simp add: validate_schema_def readE_def Let_def file_at_versions)

lemma migrate_from_v2:
  assumes "file_at 2 f"
  shows "\<exists>f'. migrate_v2_to_v3 f = (Inr (), f') \<and> file_at 3 f' \<and> fi_rows f' = fi_rows f"
proof -
  have "migrate_v2_to_v3 f = (Inr (), f\<lparr>fi_tables := fi_tables f @ [''open_interest'', ''track_progress''], fi_version := Some ''3''\<rparr>)"
    using assms by (intro v2_to_v3) (auto simp: v2_tables_def file_at_versions)
  then show ?thesis using assms by (auto simp: v2_tables_def required_tables_def file_at_versions)
qed

lemma initialize_current: "file_at 3 f \<Longrightarrow> initialize_database f = (Inr (), f)"
  using validate_current [of f] by (simp add: initialize_database_def migrate_schema_def required_tables_def bindE_def readE_def returnE_def file_at_versions)

lemma create_from_nothing:
  assumes "file_at 0 f"
  shows "\<exists>f'. create_schema f = (Inr (), f') \<and> file_at 3 f' \<and> fi_rows f' = fi_rows f"
proof -
  obtain f1 where f1: "schema_v2_script f = (Inr (), f1)" "file_at 2 f1" "fi_rows f1 = fi_rows f"
    using assms by (auto simp: schema_v2_script_def file_steps v2_tables_def file_at_versions empty_db_def)
  then show ?thesis using migrate_from_v2 [OF f1(2)] by (auto simp: create_schema_def seqE_def bindE_def)
qed

lemma initialize_older:
  assumes "file_at v f"
  shows "\<exists>f'. initialize_database f = (Inr (), f') \<and> file_at 3 f' \<and> fi_rows f' = upgraded v (fi_rows f)"
proof -
  have init: "initialize_database f = (Inr (), f')"
    if "(if ''schema_meta'' \<in> set (fi_tables f) then migrate_schema f else create_schema f) = (Inr (), f')" "file_at 3 f'" for f'
    using that validate_current [of f'] by (auto simp: initialize_database_def bindE_def readE_def split: if_splits)
  consider "v = 0" | "v = 1" | "v = 2" | "v = 3" using file_at_cases [OF assms] by blast
  then show ?thesis
  proof cases
    case 1
    then obtain f' where f': "create_schema f = (Inr (), f')" "file_at 3 f'" "fi_rows f' = fi_rows f"
      using create_from_nothing assms by blast
    have "fi_tables f = []" using assms 1 by (simp add: file_at_versions)
    then have "initialize_database f = (Inr (), f')" using init [of f'] f' by simp
    then show ?thesis using f' 1 by (auto simp: upgraded_def)
  next
    case 2
    then obtain f1 where f1: "migrate_v1_to_v2 f = (Inr (), f1)" "file_at 2 f1" "fi_rows f1 = upgraded 1 (fi_rows f)"
      using v1_to_v2 assms by blast
    obtain f' where f': "migrate_v2_to_v3 f1 = (Inr (), f')" "file_at 3 f'" "fi_rows f' = fi_rows f1"
      using migrate_from_v2 [OF f1(2)] by blast
    have old: "''schema_meta'' \<in> set (fi_tables f)" "fi_version f = Some ''1''"
      using assms unfolding 2 file_at_versions by (simp_all add: v2_tables_def)
    then have "migrate_schema f = (Inr (), f')" using f1(1) f'(1) by (simp add: migrate_schema_def bindE_def seqE_def readE_def)
    then have "initialize_database f = (Inr (), f')" using init [of f'] f'(2) old(1) by simp
    then show ?thesis using f1 f' 2 by auto
  next
    case 3
    then obtain f' where f': "migrate_v2_to_v3 f = (Inr (), f')" "file_at 3 f'" "fi_rows f' = fi_rows f"
      using migrate_from_v2 assms by blast
    have old: "''schema_meta'' \<in> set (fi_tables f)" "fi_version f = Some ''2''"
      using assms 3 by (simp_all add: file_at_versions v2_tables_def)
    then have "migrate_schema f = (Inr (), f')" using f'(1) by (simp add: migrate_schema_def bindE_def seqE_def readE_def returnE_def)
    then have "initialize_database f = (Inr (), f')" using init [of f'] f'(2) old(1) by simp
    then show ?thesis using f' 3 by (auto simp: upgraded_def)
  next
    case 4
    then show ?thesis using assms initialize_current by (auto simp: upgraded_def)
  qed
qed

text \<open>
  C12. Opening the database brings it to the current schema. A file without tables and a file of version 1, 2 or 3
  all end as version 3, with every stored row kept, except that version 1 had no discovery cursor, which is then
  absent; opening the file again changes nothing. A file of any other version is refused and left as it is.
\<close>

theorem initialize_database_upgrades:
  assumes "file_at v f"
  shows "\<exists>f'. initialize_database f = (Inr (), f') \<and> file_at 3 f' \<and> fi_rows f' = upgraded v (fi_rows f) \<and>
      initialize_database f' = (Inr (), f') \<and>
      (\<forall>g. ''schema_meta'' \<in> set (fi_tables g) \<longrightarrow> fi_version g \<notin> {Some ''1'', Some ''2'', Some ''3''} \<longrightarrow>
         (\<exists>e. initialize_database g = (Inl (Exn UnsupportedSchemaVersion e), g)))"
proof -
  have "\<exists>e. initialize_database g = (Inl (Exn UnsupportedSchemaVersion e), g)"
    if "''schema_meta'' \<in> set (fi_tables g)" "fi_version g \<notin> {Some ''1'', Some ''2'', Some ''3''}" for g
    using that by (auto simp: initialize_database_def migrate_schema_def bindE_def readE_def raiseE_def)
  then show ?thesis using initialize_older [OF assms] initialize_current by blast
qed

section \<open>Registration keeps the invariant\<close>

definition tickers :: "db \<Rightarrow> (int \<times> string) set" where
  "tickers d = (\<lambda>i. (ir_id i, ir_ticker i)) ` set (db_instruments d)"

definition catalog :: "db \<Rightarrow> (int \<times> int \<times> timeframe) set" where
  "catalog d = (\<lambda>r. (st_id r, st_instrument_id r, st_timeframe r)) ` set (db_streams d)"

text \<open>The foreign keys SQLite enforces, for the tables the use cases read.\<close>

definition linked :: "db \<Rightarrow> bool" where
  "linked d \<longleftrightarrow>
     (\<lambda>(n, j, tf). j) ` catalog d \<subseteq> fst ` tickers d \<and>
     cw_stream_id ` set (db_candles d) \<subseteq> fst ` catalog d \<and>
     ow_stream_id ` set (db_open_interest d) \<subseteq> fst ` catalog d \<and>
     fst ` set (db_states d) \<subseteq> fst ` catalog d \<and>
     (\<lambda>r. fst (fst r)) ` set (db_tracks d) \<subseteq> fst ` catalog d"

lemma stream_id_iff:
  assumes "catalog_wf d"
  shows "stream_id d s = Inr n \<longleftrightarrow> (\<exists>j. (n, j, sk_timeframe s) \<in> catalog d \<and> (j, ticker (sk_instrument s)) \<in> tickers d)" (is "?l \<longleftrightarrow> ?r")
proof
  assume ?l
  then show ?r by (elim stream_id_row) (force simp: catalog_def tickers_def)
next
  assume ?r
  then obtain r i where r: "r \<in> set (db_streams d)" "st_id r = n" "st_timeframe r = sk_timeframe s"
    "i \<in> set (db_instruments d)" "ir_id i = st_instrument_id r" "ir_ticker i = ticker (sk_instrument s)"
    by (auto simp: catalog_def tickers_def)
  then have ex: "\<exists>i \<in> set (db_instruments d). ir_id i = st_instrument_id r \<and> ir_ticker i = ticker (sk_instrument s)" by blast
  have "stream_id d s \<noteq> Inl e" for e
  proof -
    have "find (\<lambda>r. st_timeframe r = sk_timeframe s \<and>
        (\<exists>i \<in> set (db_instruments d). ir_id i = st_instrument_id r \<and> ir_ticker i = ticker (sk_instrument s))) (db_streams d) \<noteq> None"
      using r(1,3) ex unfolding find_None_iff by blast
    then show ?thesis by (auto simp: stream_id_def split: option.splits)
  qed
  then obtain m where m: "stream_id d s = Inr m" by (cases "stream_id d s") auto
  obtain r' i' where r': "r' \<in> set (db_streams d)" "st_id r' = m" "st_timeframe r' = sk_timeframe s"
    "i' \<in> set (db_instruments d)" "ir_id i' = st_instrument_id r'" "ir_ticker i' = ticker (sk_instrument s)"
    using stream_id_row [OF m] .
  have keys: "distinct (map ir_ticker (db_instruments d))" "distinct (map (\<lambda>r. (st_instrument_id r, st_timeframe r)) (db_streams d))"
    using assms by (simp_all add: catalog_wf_def)
  have "i' = i" by (rule distinct_map_eq [OF keys(1)]) (simp_all add: r r')
  then have "r' = r" using r(3,5) r'(3,5) by (intro distinct_map_eq [OF keys(2) r'(1) r(1)]) simp
  with m r r' show ?l by simp
qed

lemma stream_id_cong: "(\<And>n. stream_id d' s = Inr n \<longleftrightarrow> stream_id d s = Inr n) \<Longrightarrow> stream_id d' s = stream_id d s"
proof -
  assume a: "\<And>n. stream_id d' s = Inr n \<longleftrightarrow> stream_id d s = Inr n"
  show ?thesis
  proof (cases "stream_id d s")
    case (Inl e)
    then obtain e' where "stream_id d' s = Inl e'" using a by (cases "stream_id d' s") auto
    with Inl show ?thesis by (auto simp: stream_id_def split: option.splits)
  qed (simp add: a)
qed

lemma tickers_unique: "catalog_wf d \<Longrightarrow> (j, a) \<in> tickers d \<Longrightarrow> (j, b) \<in> tickers d \<Longrightarrow> a = b"
  by (auto simp: tickers_def catalog_wf_def dest: distinct_map_eq)

lemma register_catalog:
  assumes "register_stream k x t d = Inr (n, d')"
  obtains j where "(j, ticker (sk_instrument k)) \<in> tickers d'" "tickers d' = insert (j, ticker (sk_instrument k)) (tickers d)"
    "catalog d' = catalog d \<or> catalog d' = insert (next_id (map st_id (db_streams d)), j, sk_timeframe k) (catalog d)"
    "db_candles d' = db_candles d" "db_open_interest d' = db_open_interest d" "db_tracks d' = db_tracks d"
    "db_states d' = upsert fst (n, initial_stream_state k t) (\<lambda>r. r) (db_states d)"
proof -
  let ?row = "\<lparr>ir_id = next_id (map ir_id (db_instruments d)), ir_ticker = ticker (sk_instrument k),
           ir_exchange_symbol = x, ir_launch_time_ms = None,
           ir_metadata_fetched_at_ms = None, ir_created_at_ms = t, ir_updated_at_ms = t\<rparr>"
  let ?ins = "upsert ir_ticker ?row (\<lambda>r. r\<lparr>ir_exchange_symbol := x, ir_updated_at_ms := t\<rparr>) (db_instruments d)"
  obtain j where j: "instrument_id (d\<lparr>db_instruments := ?ins\<rparr>) (sk_instrument k) = Inr j"
      and d': "d' = d\<lparr>db_instruments := ?ins, db_streams := upsert (\<lambda>r. (st_instrument_id r, st_timeframe r))
             \<lparr>st_id = next_id (map st_id (db_streams d)), st_instrument_id = j,
              st_timeframe = sk_timeframe k, st_created_at_ms = t\<rparr> (\<lambda>r. r) (db_streams d),
        db_states := upsert fst (n, initial_stream_state k t) (\<lambda>r. r) (db_states d)\<rparr>"
    using assms by (auto simp: register_stream_def put_instruments_def Let_def split: if_splits)
  obtain i where i: "i \<in> set ?ins" "ir_id i = j" "ir_ticker i = ticker (sk_instrument k)"
    using j by (auto simp: instrument_id_def split: option.splits dest!: sel_Some)
  have keep: "upd key k (\<lambda>r. r) rows = rows" for key k and rows :: "'a list" by (induction rows) (auto simp: upd_def)
  have pair: "(\<lambda>i. (ir_id i, ir_ticker i)) ` set (upd ir_ticker tk (\<lambda>r. r\<lparr>ir_exchange_symbol := x, ir_updated_at_ms := t\<rparr>) rows) =
      (\<lambda>i. (ir_id i, ir_ticker i)) ` set rows" for tk rows
    by (induction rows) (auto simp: upd_def)
  show ?thesis
  proof (rule that [of j])
    show m: "(j, ticker (sk_instrument k)) \<in> tickers d'" using i by (force simp: tickers_def d')
    have "tickers d' = tickers d \<or> tickers d' = insert (ir_id ?row, ticker (sk_instrument k)) (tickers d) \<and>
        ticker (sk_instrument k) \<notin> snd ` tickers d"
    proof (cases "ir_ticker ?row \<in> ir_ticker ` set (db_instruments d)")
      case True
      then show ?thesis by (simp add: tickers_def d' upsert_def pair)
    next
      case False
      then show ?thesis by (auto simp: tickers_def d' upsert_def)
    qed
    then show "tickers d' = insert (j, ticker (sk_instrument k)) (tickers d)" 
    proof (elim disjE conjE)
      assume "tickers d' = tickers d"
      then show ?thesis using m by (simp add: insert_absorb)
    next
      assume t: "tickers d' = insert (ir_id ?row, ticker (sk_instrument k)) (tickers d)" "ticker (sk_instrument k) \<notin> snd ` tickers d"
      then have "(j, ticker (sk_instrument k)) \<notin> tickers d" by (metis image_eqI snd_conv)
      with m t(1) have "j = ir_id ?row" by simp
      with t(1) show ?thesis by simp
    qed
    show "catalog d' = catalog d \<or> catalog d' = insert (next_id (map st_id (db_streams d)), j, sk_timeframe k) (catalog d)"
      by (auto simp: catalog_def d' upsert_def keep)
  qed (simp_all add: d')
qed

lemma register_linked:
  assumes "linked d" "register_stream k x t d = Inr (n, d')" "n \<in> fst ` catalog d'"
  shows "linked d'"
proof -
  obtain j where j: "(j, ticker (sk_instrument k)) \<in> tickers d'" "tickers d' = insert (j, ticker (sk_instrument k)) (tickers d)"
    "catalog d' = catalog d \<or> catalog d' = insert (next_id (map st_id (db_streams d)), j, sk_timeframe k) (catalog d)"
    "db_candles d' = db_candles d" "db_open_interest d' = db_open_interest d" "db_tracks d' = db_tracks d"
    "db_states d' = upsert fst (n, initial_stream_state k t) (\<lambda>r. r) (db_states d)"
    using register_catalog [OF assms(2)] .
  have old: "cw_stream_id ` set (db_candles d) \<subseteq> fst ` catalog d" "ow_stream_id ` set (db_open_interest d) \<subseteq> fst ` catalog d"
    "(\<lambda>r. fst (fst r)) ` set (db_tracks d) \<subseteq> fst ` catalog d" "fst ` set (db_states d) \<subseteq> fst ` catalog d"
    "(\<lambda>(n, j, tf). j) ` catalog d \<subseteq> fst ` tickers d"
    using assms(1) unfolding linked_def by simp_all
  have sub: "fst ` catalog d \<subseteq> fst ` catalog d'" using j(3) by auto
  note grown = old(1,2,3,4) [THEN subset_trans, OF sub]
  have "fst ` set (db_states d') \<subseteq> insert n (fst ` set (db_states d))" by (auto simp: j(7) upsert_def upd_def)
  also have "\<dots> \<subseteq> fst ` catalog d'" using assms(3) grown(4) by simp
  finally have states: "fst ` set (db_states d') \<subseteq> fst ` catalog d'" .
  have "(\<lambda>(n, j, tf). j) ` catalog d' \<subseteq> insert j ((\<lambda>(n, j, tf). j) ` catalog d)"
    using j(3) by (elim disjE) (simp_all add: subset_insertI)
  also have "\<dots> \<subseteq> insert j (fst ` tickers d)" by (rule insert_mono [OF old(5)])
  also have "\<dots> = fst ` tickers d'" by (simp add: j(2))
  finally show ?thesis unfolding linked_def j(4-6) using states grown(1-3) by (intro conjI)
qed

lemma register_stream_ids:
  assumes "db_wf d" "linked d" "register_stream k x t d = Inr (n, d')"
  shows "stream_id d' k = Inr n" "s \<noteq> k \<Longrightarrow> stream_id d' s = stream_id d s" "stream_id d k = Inr m \<Longrightarrow> m = n"
    "\<not> stream_exists d k \<Longrightarrow> n \<notin> fst ` catalog d" "db_wf d'" "linked d'"
proof -
  have wf: "catalog_wf d" "db_wf d'" "catalog_wf d'" and id: "stream_id d' k = Inr n"
    using assms(1) register_stream_wf [OF assms(1,3)] by simp_all
  show "stream_id d' k = Inr n" "db_wf d'" by (rule id, rule wf(2))
  let ?tk = "ticker (sk_instrument k)"
  obtain j where j: "(j, ?tk) \<in> tickers d'" "tickers d' = insert (j, ?tk) (tickers d)"
    "catalog d' = catalog d \<or> catalog d' = insert (next_id (map st_id (db_streams d)), j, sk_timeframe k) (catalog d)"
    "db_candles d' = db_candles d" "db_open_interest d' = db_open_interest d" "db_tracks d' = db_tracks d"
    "db_states d' = upsert fst (n, initial_stream_state k t) (\<lambda>r. r) (db_states d)"
    using register_catalog [OF assms(3)] .
  have old: "(j', a) \<in> tickers d" if "(m, j', tf) \<in> catalog d" "(j', a) \<in> tickers d'" for m j' tf a
  proof -
    have "j' \<in> (\<lambda>(n, j, tf). j) ` catalog d" by (rule image_eqI [OF _ that(1)]) simp
    moreover have "(\<lambda>(n, j, tf). j) ` catalog d \<subseteq> fst ` tickers d" using assms(2) by (simp add: linked_def)
    ultimately have "j' \<in> fst ` tickers d" by (rule rev_subsetD)
    then obtain b where b: "(j', b) \<in> tickers d" by auto
    then have "b = a" using tickers_unique [OF wf(3), of j' b a] that(2) j(2) by blast
    with b show ?thesis by simp
  qed
  have mono: "stream_id d s = Inr m \<Longrightarrow> stream_id d' s = Inr m" for s m
    using j(2,3) unfolding stream_id_iff [OF wf(1)] stream_id_iff [OF wf(3)] by blast
  show "stream_id d k = Inr m \<Longrightarrow> m = n" using mono [of k m] id by simp
  show "s \<noteq> k \<Longrightarrow> stream_id d' s = stream_id d s"
  proof (rule stream_id_cong, rule iffI)
    fix m assume s: "s \<noteq> k" and "stream_id d' s = Inr m"
    then obtain j' where j': "(m, j', sk_timeframe s) \<in> catalog d'" "(j', ticker (sk_instrument s)) \<in> tickers d'"
      unfolding stream_id_iff [OF wf(3)] by blast
    have "(m, j', sk_timeframe s) \<in> catalog d"
    proof (rule ccontr)
      assume "(m, j', sk_timeframe s) \<notin> catalog d"
      then have "j' = j" "sk_timeframe s = sk_timeframe k" using j'(1) j(3) by auto
      moreover from this have "ticker (sk_instrument s) = ?tk" using tickers_unique [OF wf(3)] j'(2) j(1) by blast
      ultimately show False using s by (cases s; cases k; cases "sk_instrument s"; cases "sk_instrument k") simp
    qed
    then show "stream_id d s = Inr m" unfolding stream_id_iff [OF wf(1)] using old j'(2) by blast
  qed (rule mono)
  show "\<not> stream_exists d k \<Longrightarrow> n \<notin> fst ` catalog d"
  proof -
    assume no: "\<not> stream_exists d k"
    obtain j' where j': "(n, j', sk_timeframe k) \<in> catalog d'" "(j', ?tk) \<in> tickers d'"
      using id unfolding stream_id_iff [OF wf(3)] by blast
    have "(n, j', sk_timeframe k) \<notin> catalog d"
    proof
      assume "(n, j', sk_timeframe k) \<in> catalog d"
      then have "stream_id d k = Inr n" unfolding stream_id_iff [OF wf(1)] using old j'(2) by blast
      with no show False by (simp add: stream_exists_def)
    qed
    then have "n = next_id (map st_id (db_streams d))" using j'(1) j(3) by auto
    then show ?thesis using next_id_fresh [of "map st_id (db_streams d)"] by (auto simp: catalog_def)
  qed
  show "linked d'" by (rule register_linked [OF assms(2,3)]) (use id in \<open>force simp: stream_id_iff [OF wf(3)]\<close>)
qed

lemma sel_none_linked: "n \<notin> fst ` catalog d \<Longrightarrow> linked d \<Longrightarrow>
  sel candle_key (n, u) (db_candles d) = None \<and> sel open_interest_key (n, u) (db_open_interest d) = None \<and>
  sel fst n (db_states d) = None \<and> sel fst (n, tr) (db_tracks d) = None"
  by (fastforce simp: linked_def sel_None image_iff)

lemma register_tables:
  assumes "register_stream k x t d = Inr (n, d')"
  shows "db_candles d' = db_candles d" "db_open_interest d' = db_open_interest d" "db_tracks d' = db_tracks d"
    "db_states d' = upsert fst (n, initial_stream_state k t) (\<lambda>r. r) (db_states d)"
  using register_catalog [OF assms] by metis+

text \<open>A stream that was registered before, or another one, reads as before.\<close>

lemma register_reads:
  assumes "db_wf d" "linked d" "register_stream k x t d = Inr (n, d')"
  shows "stream_exists d' s \<longleftrightarrow> s = k \<or> stream_exists d s"
    "stream_exists d s \<or> s \<noteq> k \<Longrightarrow> get_candle d' s u = get_candle d s u"
    "stream_exists d s \<or> s \<noteq> k \<Longrightarrow> get_open_interest d' s u = get_open_interest d s u"
    "stream_exists d s \<or> s \<noteq> k \<Longrightarrow> get_track_progress d' s tr = get_track_progress d s tr"
    "get_stream_state d s = Inr st \<Longrightarrow> get_stream_state d' s = Inr st"
proof -
  note ids = register_stream_ids [OF assms] and tabs = register_tables [OF assms(3)]
  have old: "stream_id d' s = stream_id d s" if "stream_exists d s \<or> s \<noteq> k"
    using that ids(1,2,3) by (cases "s = k") (auto simp: stream_exists_def split: sum.splits)
  show "stream_exists d' s \<longleftrightarrow> s = k \<or> stream_exists d s"
    using ids(1) old by (cases "s = k") (simp_all add: stream_exists_def)
  show "get_candle d' s u = get_candle d s u" "get_open_interest d' s u = get_open_interest d s u"
    "get_track_progress d' s tr = get_track_progress d s tr" if "stream_exists d s \<or> s \<noteq> k"
    using old [OF that] by (simp_all add: get_candle_def get_open_interest_def get_track_progress_def tabs)
  show "get_stream_state d' s = Inr st" if st: "get_stream_state d s = Inr st"
  proof -
    obtain m r where m: "stream_id d s = Inr m" "sel fst m (db_states d) = Some r" "st = (snd r)\<lparr>ss_stream := s\<rparr>" "state_wf st"
      using st unfolding get_stream_state_eq by blast
    moreover have "stream_id d' s = Inr m" using old m(1) by (simp add: stream_exists_def)
    ultimately show ?thesis unfolding get_stream_state_eq tabs(4) by (cases r) (auto simp: sel_upsert)
  qed
qed

text \<open>A stream that was not registered starts without rows, in its initial state.\<close>

lemma register_fresh:
  assumes "db_wf d" "linked d" "0 \<le> t" "register_stream k x t d = Inr (n, d')" "\<not> stream_exists d k"
  shows "get_candle d' k u = Inr None" "get_open_interest d' k u = Inr None"
    "\<exists>p. get_open_interest_progress d' k = Inr p" "\<exists>st. get_stream_state d' k = Inr st"
proof -
  note ids = register_stream_ids [OF assms(1,2,4)] and tabs = register_tables [OF assms(4)]
  note none = sel_none_linked [OF ids(4) [OF assms(5)] assms(2)]
  show "get_candle d' k u = Inr None" "get_open_interest d' k u = Inr None"
    using none ids(1) by (simp_all add: get_candle_def get_open_interest_def tabs)
  show "\<exists>p. get_open_interest_progress d' k = Inr p"
    using none ids(1) unfolding get_track_progress_eq tabs by (simp add: initial_track_progress_def)
  have "sel fst n (db_states d') = Some (n, initial_stream_state k t)" using none by (simp add: tabs(4) sel_upsert)
  moreover have "(initial_stream_state k t)\<lparr>ss_stream := k\<rparr> = initial_stream_state k t" by (simp add: initial_stream_state_def)
  ultimately show "\<exists>st. get_stream_state d' k = Inr st" using assms(3) ids(1) unfolding get_stream_state_eq by auto
qed

lemma register_inv:
  assumes "service_inv d" "linked d" "0 \<le> t" "register_stream k x t d = Inr (n, d')"
  shows "service_inv d'" "stream_exists d' s \<longleftrightarrow> s = k \<or> stream_exists d s" "stored d' s u = stored d s u"
proof -
  have inv: "db_wf d" "states_ok d" "candles_ok d" "oi_ok d" using assms(1) by (simp_all add: service_inv_def canonical_inv_def)
  note ids = register_stream_ids [OF inv(1) assms(2,4)] and reads = register_reads [OF inv(1) assms(2,4)]
    and fresh = register_fresh [OF inv(1) assms(2-4)]
  show ex: "stream_exists d' s \<longleftrightarrow> s = k \<or> stream_exists d s" for s by (rule reads(1))
  show "stored d' s u = stored d s u" for s u
  proof (cases "stream_exists d s \<or> s \<noteq> k")
    case False
    then have "\<not> stored d s u" "\<not> stored d' s u"
      using fresh(1) by (auto simp: stored_def get_candle_def stream_exists_def bindR_def split: sum.splits)
    then show ?thesis by simp
  qed (simp add: stored_def reads(2))
  have "states_ok d'" unfolding states_ok_def
  proof (intro allI impI)
    fix s assume "stream_exists d' s"
    then consider "stream_exists d s" | "s = k" "\<not> stream_exists d k" using ex by metis
    then show "\<exists>st. get_stream_state d' s = Inr st"
    proof cases
      case 1
      then obtain st where "get_stream_state d s = Inr st" using inv(2) unfolding states_ok_def by blast
      then show ?thesis using reads(5) by blast
    qed (use fresh(4) in simp)
  qed
  moreover have "candles_ok d'" unfolding candles_ok_def
  proof (intro allI impI)
    fix s u c assume c: "get_candle d' s u = Inr (Some c)"
    then have "stream_exists d s \<or> s \<noteq> k" using fresh(1) by auto
    then have "get_candle d s u = Inr (Some c)" using reads(2) c by simp
    then show "u mod stream_step s = 0 \<and> (\<exists>st. get_stream_state d' s = Inr st \<and> covers st u)"
      using inv(3) reads(5) unfolding candles_ok_def by blast
  qed
  moreover have "oi_ok d'" unfolding oi_ok_def
  proof (intro conjI allI impI)
    fix s u assume c: "oi_stored d' s u"
    then have "stream_exists d s \<or> s \<noteq> k" using fresh(2) by (auto simp: oi_stored_def)
    then have "oi_stored d s u" using reads(3) c by (simp add: oi_stored_def)
    then show "u mod stream_step s = 0" using inv(4) unfolding oi_ok_def by blast
  next
    fix s assume "stream_exists d' s"
    then consider "stream_exists d s" | "s = k" "\<not> stream_exists d k" using ex by metis
    then show "\<exists>p. get_open_interest_progress d' s = Inr p"
    proof cases
      case 1
      then show ?thesis using inv(4) reads(4) unfolding oi_ok_def by simp
    next
      case 2
      then show ?thesis using fresh(3) by simp
    qed
  qed
  ultimately show "service_inv d'" using ids(5) by (simp add: service_inv_def canonical_inv_def)
qed

section \<open>The service starts from a valid database\<close>

definition served :: "db \<Rightarrow> bool" where
  "served d \<longleftrightarrow> service_inv d \<and> linked d"

lemma keeps_verify: "keeps (disk_ok I) (verify_configured_instrument_metadata E category coverage)"
  unfolding verify_configured_instrument_metadata_def Let_def by (intro keeps_intro)

text \<open>Registering a list of streams keeps the invariant and the bars, and leaves all of them registered.\<close>

definition prepared :: "stream_key list \<Rightarrow> db \<Rightarrow> db \<Rightarrow> bool" where
  "prepared ks d d' \<longleftrightarrow> served d' \<and> (\<forall>k \<in> set ks. stream_exists d' k) \<and> (\<forall>k. stream_exists d k \<longrightarrow> stream_exists d' k) \<and>
     (\<forall>k t. stored d' k t = stored d k t)"

lemma register_configured_run:
  assumes "register_configured E config k w = (Inr (), w')" "served (w_disk w)" "\<forall>n. 0 \<le> e_now E n"
  shows "prepared [k] (w_disk w) (w_disk w')"
proof -
  obtain x t n d' where r: "register_stream k x t (w_disk w) = Inr (n, d')" "0 \<le> t" "w_disk w' = d'"
    using assms(1,3) by (auto simp: register_configured_def register_committed_def now_ms_def bindE_def raiseE_def
        split: option.splits sum.splits prod.splits)
  have s: "service_inv (w_disk w)" "linked (w_disk w)" "db_wf (w_disk w)"
    using assms(2) by (simp_all add: served_def service_inv_def canonical_inv_def)
  show ?thesis using register_inv [OF s(1,2) r(2,1)] register_stream_ids(6) [OF s(3,2) r(1)]
    by (simp add: prepared_def served_def r(3))
qed

lemma register_all:
  "each (register_configured E config) ks w = (Inr (), w') \<Longrightarrow> served (w_disk w) \<Longrightarrow> \<forall>n. 0 \<le> e_now E n \<Longrightarrow>
   prepared ks (w_disk w) (w_disk w')"
proof (induction ks arbitrary: w)
  case Nil
  then show ?case by (simp add: each_def prepared_def)
next
  case (Cons k ks)
  then obtain w1 where w1: "register_configured E config k w = (Inr (), w1)" "each (register_configured E config) ks w1 = (Inr (), w')"
    by (auto simp: each_def bindE_eq_Inr)
  have p: "prepared [k] (w_disk w) (w_disk w1)" using register_configured_run w1(1) Cons.prems(2,3) by blast
  then have "prepared ks (w_disk w1) (w_disk w')" using Cons.IH w1(2) Cons.prems(3) by (simp add: prepared_def)
  with p show ?case by (auto simp: prepared_def)
qed

lemma prepare_service_run:
  assumes "prepare_service E config w = (Inr (), w')" "served (w_disk w)" "\<forall>n. 0 \<le> e_now E n"
  shows "prepared (enabled_streams config) (w_disk w) (w_disk w')"
proof -
  let ?verify = "each (\<lambda>coverage. bindE (verify_configured_instrument_metadata E (ms_category (mc_source config)) coverage) (\<lambda>_. returnE ()))
              (enabled_instruments config)"
  obtain w1 where w1: "?verify w = (Inr (), w1)" "each (register_configured E config) (enabled_streams config) w1 = (Inr (), w')"
    using assms(1) by (auto simp: prepare_service_def bindE_eq_Inr)
  have "keeps (disk_ok ((=) (w_disk w))) ?verify"
    unfolding each_def by (intro keeps_foldE keeps_bindE keeps_verify keeps_basic)
  from valid_Inr [OF this _ w1(1)] have "w_disk w1 = w_disk w" by (simp add: disk_ok_def)
  then show ?thesis using register_all [OF w1(2)] assms(2,3) by simp
qed

lemma startup_execute_run:
  assumes "startup_execute E (service_reconciler E dw rw ow os) ks w = (Inr rs, w')" "service_inv (w_disk w)"
  shows "evolves (w_disk w) (w_disk w') \<and> list_all2 (\<lambda>k r. so_classification r = SC_CONNECTING \<longrightarrow>
    (\<exists>tw. pass_range E (wiring_lower_bound E) dw k None tw \<and> window_filled (stored (w_disk w') k) k tw)) ks rs"
  using assms
proof (induction ks arbitrary: w rs)
  case (Cons k ks)
  let ?rc = "service_reconciler E dw rw ow os"
  obtain r w1 rs' where r: "reconcile_stream E ?rc k None w = (Inr r, w1)" "startup_execute E ?rc ks w1 = (Inr rs', w')" "rs = r # rs'"
    using Cons.prems(1) by (auto simp: bindE_eq_Inr)
  have e1: "evolves (w_disk w) (w_disk w1)" by (rule run_evolves [OF service_pass.keeps_reconcile r(1)])
  then have inv: "service_inv (w_disk w1)" using Cons.prems(2) by (rule evolvesD(1))
  note ih = Cons.IH [OF r(2) inv]
  have "so_classification r = SC_CONNECTING \<longrightarrow> (\<exists>tw. pass_range E (wiring_lower_bound E) dw k None tw \<and> window_filled (stored (w_disk w1) k) k tw)"
    using service_pass.reconcile_sound [OF Cons.prems(2) r(1)] by (auto simp: outcome_sound_def service_reconciler_def)
  moreover have "window_filled (stored (w_disk w1) k) k tw \<Longrightarrow> window_filled (stored (w_disk w') k) k tw" for tw
    using ih evolvesD(3) [OF _ inv] by (auto simp: window_filled_def)
  ultimately show ?case using ih e1 r(3) evolves_trans by auto
qed simp

lemma upgraded_served:
  assumes "served d"
  shows "served (upgraded v d)"
proof (cases "v = 1")
  case True
  let ?g = "\<lambda>(n, st). (n, st\<lparr>ss_discovery_next_open_time_ms := None\<rparr>)"
  let ?d = "d\<lparr>db_states := map ?g (db_states d)\<rparr>"
  have sel: "sel fst n (map ?g rows) = map_option ?g (sel fst n rows)" for n and rows :: "(int \<times> stream_state) list"
    by (induction rows) (auto simp: sel_def)
  have keys: "fst \<circ> ?g = fst" by auto
  have state: "get_stream_state d s = Inr st \<Longrightarrow> get_stream_state ?d s = Inr (st\<lparr>ss_discovery_next_open_time_ms := None\<rparr>)" for s st
    by (auto simp: get_stream_state_eq sel state_wf_def)
  have "db_wf ?d" using assms by (simp add: keys served_def service_inv_def canonical_inv_def db_wf_def)
  moreover have "states_ok ?d" using assms state by (fastforce simp: served_def service_inv_def canonical_inv_def states_ok_def stream_exists_def)
  moreover have "candles_ok ?d" using assms state
    by (fastforce simp: served_def service_inv_def canonical_inv_def candles_ok_def covers_def)
  moreover have "oi_ok ?d" using assms by (simp add: served_def service_inv_def oi_ok_def oi_stored_def stream_exists_def)
  moreover have "linked ?d" using assms by (auto simp: served_def linked_def catalog_def tickers_def image_image split_beta)
  ultimately show ?thesis using True by (simp add: upgraded_def served_def service_inv_def canonical_inv_def)
qed (use assms in \<open>simp add: upgraded_def\<close>)

lemma served_empty: "served empty_db"
proof -
  have "service_inv empty_db"
    by (rule fresh_service_inv) (simp_all add: states_ok_def stream_exists_def stream_id_def, simp_all add: empty_db_def)
  then show ?thesis by (simp add: served_def linked_def empty_db_def catalog_def)
qed


section \<open>Examples\<close>

definition v1_file :: db_file where
  "v1_file = \<lparr>fi_tables = [''schema_meta'', ''instruments'', ''streams'', ''candles'', ''stream_state'', ''quarantine''],
     fi_version = Some ''1'', fi_state_columns = remove1 discovery_column state_columns, fi_rows = example_db\<rparr>"

theorem initialize_database_upgrades_witness:
  "file_at 1 v1_file \<and> (\<exists>f'. initialize_database v1_file = (Inr (), f') \<and> fi_version f' = Some ''3'' \<and> fi_rows f' = upgraded 1 example_db)"
proof -
  have "file_at 1 v1_file"
    unfolding file_at_versions by (simp add: v1_file_def v2_tables_def example_db_def empty_db_def)
  moreover from initialize_database_upgrades [OF this]
  have "\<exists>f'. initialize_database v1_file = (Inr (), f') \<and> fi_version f' = Some ''3'' \<and> fi_rows f' = upgraded 1 example_db"
    unfolding file_at_versions by (auto simp: v1_file_def)
  ultimately show ?thesis by blast
qed

text \<open>A database with one ready stream, opened again by the service.\<close>

definition served_env :: env where
  "served_env = recovery_env\<lparr>e_specification := \<lambda>n i.
     Inr \<lparr>es_instrument = i, es_exchange_symbol = ''BTCUSDT'', es_category = ''linear'', es_contract_type = ''LinearPerpetual'',
       es_status = ''Trading'', es_settle_coin = ''USDT'', es_launch_time_ms = 0\<rparr>\<rparr>"

definition served_config :: validated_market_config where
  "served_config = \<lparr>mc_schema_version = 1, mc_source = \<lparr>ms_venue = ''bybit'', ms_category = ''linear''\<rparr>,
     mc_instruments = [example_coverage]\<rparr>"

definition served_metadata :: instrument_metadata where
  "served_metadata = \<lparr>im_instrument = InstrumentKey ''BTCUSDT.P'', im_exchange_symbol = ''BTCUSDT'',
     im_launch_time_ms = Some 60000, im_fetched_at_ms = Some 5\<rparr>"

definition served_db :: db where
  "served_db = ready_db\<lparr>db_instruments := map (\<lambda>i. i\<lparr>ir_exchange_symbol := ''BTCUSDT'', ir_launch_time_ms := Some 60000,
     ir_metadata_fetched_at_ms := Some 5, ir_updated_at_ms := 5\<rparr>) (db_instruments ready_db)\<rparr>"

definition served_file :: db_file where
  "served_file = \<lparr>fi_tables = required_tables, fi_version = Some ''3'', fi_state_columns = state_columns, fi_rows = served_db\<rparr>"

definition served_world :: world where
  "served_world = \<lparr>w_disk = served_db, w_work = served_db, w_ticks = 0, w_calls = 0\<rparr>"

lemma served_evolved: "evolves ready_db served_db"
proof -
  have "save_instrument_metadata served_metadata ready_db = Inr served_db" by code_simp
  then show ?thesis by (rule evolves_instruments [OF ready_inv])
qed

lemma served_db_served: "served served_db"
proof -
  have "service_inv served_db" by (rule evolvesD(1) [OF served_evolved ready_inv])
  moreover have "linked served_db"
    by (simp add: linked_def catalog_def tickers_def served_db_def ready_db_def auditing_db_def example_db_def empty_db_def
        example_candle_def)
  ultimately show ?thesis by (simp add: served_def)
qed

lemma served_run:
  "map_sum id (map so_classification) (fst (service_start served_env served_config default_settings served_world)) = Inr [SC_CONNECTING]"
  by code_simp

lemma served_enabled: "enabled_streams served_config = [example_stream]"
  by code_simp


end
